(* ===== verification/Prelude.thy ===== *)
theory Prelude
  imports Main "HOL-Library.Word"
begin

text \<open>
  Shared vocabulary of the development.

  The daemons of this repository are Rust programs. The conventions used to translate them:

  \<^item> A \<open>usize\<close> or \<open>u64\<close> used as a number (an inode number, a handle id, a length, an offset) is a
    \<open>nat\<close>, and every addition or subtraction the source writes with a plain operator is checked
    against the 64-bit range: \<open>usize_add\<close> and \<open>usize_sub\<close> give \<open>Panic\<close> when the result is out of
    range. This is what a build with overflow checks does; a run of the model without \<open>Panic\<close> is
    also a run of a build without them. Operators that wrap in the source
    (\<open>wrapping_add\<close>, \<open>Wrapping\<close>) are words in the model.
  \<^item> A \<open>usize\<close>, \<open>u32\<close>, \<open>u16\<close> or \<open>u8\<close> used as a set of bits (flags, modes) is a word of its width.
    The targets are the 64-bit ones, so converting a \<open>u64\<close> to a \<open>usize\<close> never fails.
  \<^item> A \<open>Result<T, Error>\<close> is an \<open>outcome\<close>: \<open>Ok\<close>, \<open>Err\<close> with an error number, or \<open>Panic\<close> for
    every \<open>panic!\<close>, failed \<open>unwrap\<close> or \<open>expect\<close>, out of range index and arithmetic overflow, after
    which the daemon is gone.
  \<^item> A method with \<open>&mut self\<close> takes the state and returns it with the outcome. It returns the state
    on the error branches too, because the code may have changed it before it failed.
  \<^item> A slice \<open>&mut [u8]\<close> is passed as a list of bytes and its final contents are returned.
  \<^item> A \<open>str\<close> or \<open>String\<close> is a \<open>string\<close> of its UTF-8 bytes, so \<open>length\<close> is the source's \<open>len()\<close>.
\<close>

unbundle bit_operations_syntax

named_theorems outcome_simps \<open>unfolding the outcome combinators\<close>
named_theorems frame_simps \<open>parts of a state an operation leaves as they are\<close>

section \<open>Machine types\<close>

type_synonym u8 = "8 word"
type_synonym u16 = "16 word"
type_synonym u32 = "32 word"
type_synonym u64 = "64 word"

abbreviation usize_range :: nat where
  "usize_range \<equiv> 2 ^ 64"

section \<open>Errors and outcomes\<close>

text \<open>
  The error numbers the modelled sources name. Their values are those of the \<open>redox_syscall\<close>
  crate; the code only compares them for equality. \<open>EOTHER\<close> stands for any other number, which a
  system call may return.
\<close>

datatype errno =
    EACCES | EADDRINUSE | EAGAIN | EBADF | EBADFD | ECANCELED | ECHILD | ECONNREFUSED | EEXIST | EINTR | EINVAL
  | EIO | EISCONN | EISDIR | ELOOP | EMSGSIZE | ENFILE | ENOBUFS | ENOENT | ENOMEM | ENOPROTOOPT | ENOSYS
  | ENOTCONN | ENOTDIR | ENOTEMPTY | EOPNOTSUPP | EOVERFLOW | EPERM | EPIPE | EPROTO | ERANGE | ESPIPE | ESRCH
  | EWOULDBLOCK | EXDEV | EOTHER nat

datatype 'a outcome = Ok 'a | Err errno | Panic

fun map_outcome :: "('a \<Rightarrow> 'b) \<Rightarrow> 'a outcome \<Rightarrow> 'b outcome" where
  "map_outcome f (Ok x) = Ok (f x)"
| "map_outcome f (Err e) = Err e"
| "map_outcome f Panic = Panic"

text \<open>The source's \<open>?\<close> inside a pure function.\<close>

fun and_then :: "'a outcome \<Rightarrow> ('a \<Rightarrow> 'b outcome) \<Rightarrow> 'b outcome" where
  "and_then (Ok x) k = k x"
| "and_then (Err e) k = Err e"
| "and_then Panic k = Panic"

text \<open>The source's \<open>?\<close> inside a method: the state reached so far is returned with the error.\<close>

definition question :: "'s \<Rightarrow> 'a outcome \<Rightarrow> ('a \<Rightarrow> 's \<times> 'b outcome) \<Rightarrow> 's \<times> 'b outcome" where
  "question s r k = (case r of Ok x \<Rightarrow> k x | Err e \<Rightarrow> (s, Err e) | Panic \<Rightarrow> (s, Panic))"

text \<open>A method call followed by \<open>?\<close>: the callee's state is passed on.\<close>

definition then_do :: "'s \<times> 'a outcome \<Rightarrow> ('s \<Rightarrow> 'a \<Rightarrow> 's \<times> 'b outcome) \<Rightarrow> 's \<times> 'b outcome" where
  "then_do m k = (case m of (s, Ok x) \<Rightarrow> k s x | (s, Err e) \<Rightarrow> (s, Err e) | (s, Panic) \<Rightarrow> (s, Panic))"

text \<open>\<open>Option::ok_or\<close>, and \<open>Option::unwrap\<close> or \<open>expect\<close>.\<close>

definition ok_or :: "errno \<Rightarrow> 'a option \<Rightarrow> 'a outcome" where
  "ok_or e x = (case x of Some y \<Rightarrow> Ok y | None \<Rightarrow> Err e)"

definition unwrap :: "'a option \<Rightarrow> 'a outcome" where
  "unwrap x = (case x of Some y \<Rightarrow> Ok y | None \<Rightarrow> Panic)"

fun is_ok :: "'a outcome \<Rightarrow> bool" where
  "is_ok (Ok x) = True"
| "is_ok (Err e) = False"
| "is_ok Panic = False"

definition usize_add :: "nat \<Rightarrow> nat \<Rightarrow> nat outcome" where
  "usize_add a b = (if a + b < usize_range then Ok (a + b) else Panic)"

definition usize_sub :: "nat \<Rightarrow> nat \<Rightarrow> nat outcome" where
  "usize_sub a b = (if b \<le> a then Ok (a - b) else Panic)"

definition usize_mul :: "nat \<Rightarrow> nat \<Rightarrow> nat outcome" where
  "usize_mul a b = (if a * b < usize_range then Ok (a * b) else Panic)"

text \<open>The same for the narrower types, by their width.\<close>

definition uint_add :: "nat \<Rightarrow> nat \<Rightarrow> nat \<Rightarrow> nat outcome" where
  "uint_add w a b = (if a + b < 2 ^ w then Ok (a + b) else Panic)"

definition uint_mul :: "nat \<Rightarrow> nat \<Rightarrow> nat \<Rightarrow> nat outcome" where
  "uint_mul w a b = (if a * b < 2 ^ w then Ok (a * b) else Panic)"

text \<open>\<open>next_multiple_of\<close> of the unsigned types.\<close>

definition next_multiple_of :: "nat \<Rightarrow> nat \<Rightarrow> nat outcome" where
  "next_multiple_of a b =
     (if b = 0 then Panic
      else if a mod b = 0 then Ok a
      else usize_add a (b - a mod b))"

definition usize_checked_add :: "nat \<Rightarrow> nat \<Rightarrow> nat option" where
  "usize_checked_add a b = (if a + b < usize_range then Some (a + b) else None)"

section \<open>Slices, vectors and strings\<close>

text \<open>\<open>slice.get(i)\<close>.\<close>

definition get_at :: "'a list \<Rightarrow> nat \<Rightarrow> 'a option" where
  "get_at xs i = (if i < length xs then Some (xs ! i) else None)"

text \<open>\<open>slice.get(start..end)\<close>.\<close>

definition get_range :: "'a list \<Rightarrow> nat \<Rightarrow> nat \<Rightarrow> 'a list option" where
  "get_range xs a b = (if a \<le> b \<and> b \<le> length xs then Some (take (b - a) (drop a xs)) else None)"

text \<open>\<open>&slice[start..]\<close>, which panics behind the end.\<close>

definition slice_from :: "'a list \<Rightarrow> nat \<Rightarrow> 'a list outcome" where
  "slice_from xs a = (if a \<le> length xs then Ok (drop a xs) else Panic)"

text \<open>\<open>Vec::remove(i)\<close> for an index in range.\<close>

definition remove_at :: "nat \<Rightarrow> 'a list \<Rightarrow> 'a list" where
  "remove_at i xs = take i xs @ drop (Suc i) xs"

text \<open>\<open>buf[i..][..src.len()].copy_from_slice(src)\<close>, which panics outside the buffer.\<close>

definition copy_into :: "'a list \<Rightarrow> nat \<Rightarrow> 'a list \<Rightarrow> 'a list" where
  "copy_into buf i src = take i buf @ src @ drop (i + length src) buf"

text \<open>\<open>Vec::resize(n, x)\<close>.\<close>

definition resize :: "nat \<Rightarrow> 'a \<Rightarrow> 'a list \<Rightarrow> 'a list" where
  "resize n x xs = take n xs @ replicate (n - length xs) x"

definition bytes_of :: "string \<Rightarrow> u8 list" where
  "bytes_of s = map (\<lambda>c. word_of_nat (of_char c)) s"

definition string_of :: "u8 list \<Rightarrow> string" where
  "string_of bs = map (\<lambda>b. char_of (unat b)) bs"

text \<open>\<open>str::split\<close> at a separator, and \<open>trim_matches('/')\<close>.\<close>

fun split_at_char :: "char \<Rightarrow> string \<Rightarrow> string list" where
  "split_at_char c [] = [[]]"
| "split_at_char c (x # xs) =
     (if x = c then [] # split_at_char c xs
      else case split_at_char c xs of [] \<Rightarrow> [[x]] | y # ys \<Rightarrow> (x # y) # ys)"

lemma split_no_sep: "c \<notin> set xs \<Longrightarrow> split_at_char c xs = [xs]"
  by (induction xs) auto

lemma split_sep: "c \<notin> set xs \<Longrightarrow> split_at_char c (xs @ c # ys) = xs # split_at_char c ys"
  by (induction xs) auto

lemma split_components: "x \<in> set (split_at_char c xs) \<Longrightarrow> c \<notin> set x"
  by (induction xs arbitrary: x) (auto split: if_splits list.splits)

definition trim_slashes :: "string \<Rightarrow> string" where
  "trim_slashes s = rev (dropWhile (\<lambda>c. c = CHR ''/'') (rev (dropWhile (\<lambda>c. c = CHR ''/'') s)))"

text \<open>Whether \<open>core::str::from_utf8\<close> accepts a sequence of bytes.\<close>

abbreviation utf8_cont :: "u8 \<Rightarrow> bool" where
  "utf8_cont b \<equiv> 0x80 \<le> b \<and> b \<le> 0xBF"

fun utf8_valid :: "u8 list \<Rightarrow> bool" where
  "utf8_valid [] = True"
| "utf8_valid (a # as) =
     (if a < 0x80 then utf8_valid as
      else case as of
        [] \<Rightarrow> False
      | b # bs \<Rightarrow>
          if 0xC2 \<le> a \<and> a \<le> 0xDF then utf8_cont b \<and> utf8_valid bs
          else (case bs of
            [] \<Rightarrow> False
          | c # cs \<Rightarrow>
              if a = 0xE0 then 0xA0 \<le> b \<and> b \<le> 0xBF \<and> utf8_cont c \<and> utf8_valid cs
              else if a = 0xED then 0x80 \<le> b \<and> b \<le> 0x9F \<and> utf8_cont c \<and> utf8_valid cs
              else if 0xE1 \<le> a \<and> a \<le> 0xEF then utf8_cont b \<and> utf8_cont c \<and> utf8_valid cs
              else (case cs of
                [] \<Rightarrow> False
              | d # ds \<Rightarrow>
                  utf8_cont c \<and> utf8_cont d \<and> utf8_valid ds \<and>
                  (if a = 0xF0 then 0x90 \<le> b \<and> b \<le> 0xBF
                   else if a = 0xF4 then 0x80 \<le> b \<and> b \<le> 0x8F
                   else 0xF1 \<le> a \<and> a \<le> 0xF3 \<and> utf8_cont b))))"

section \<open>Numbers\<close>

text \<open>\<open>from_le_bytes\<close> and \<open>to_le_bytes\<close>.\<close>

primrec from_le :: "u8 list \<Rightarrow> nat" where
  "from_le [] = 0"
| "from_le (b # bs) = unat b + 256 * from_le bs"

primrec to_le :: "nat \<Rightarrow> nat \<Rightarrow> u8 list" where
  "to_le 0 n = []"
| "to_le (Suc k) n = word_of_nat (n mod 256) # to_le k (n div 256)"

lemma length_to_le [simp]: "length (to_le k n) = k"
  by (induction k arbitrary: n) simp_all

lemma from_le_to_le: "n < 256 ^ k \<Longrightarrow> from_le (to_le k n) = n"
proof (induction k arbitrary: n)
  case (Suc k)
  then have "n div 256 < 256 ^ k" by (simp add: less_mult_imp_div_less mult.commute)
  then show ?case using Suc.IH [of "n div 256"] by (simp add: unat_of_nat)
qed simp

lemma from_le_less: "from_le bs < 256 ^ length bs"
proof (induction bs)
  case (Cons b bs)
  have "unat b < 256" using unsigned_less [of b] by simp
  then show ?case using Cons.IH by simp
qed simp

section \<open>Lemmas on outcomes\<close>

lemma question_Ok [simp]: "question s (Ok x) k = k x"
  and question_Err [simp]: "question s (Err e) k = (s, Err e)"
  and question_Panic [simp]: "question s Panic k = (s, Panic)"
  by (simp_all add: question_def)

lemma question_split:
  "P (question s r k) \<longleftrightarrow>
     (\<forall>x. r = Ok x \<longrightarrow> P (k x)) \<and> (\<forall>e. r = Err e \<longrightarrow> P (s, Err e)) \<and> (r = Panic \<longrightarrow> P (s, Panic))"
  by (cases r) simp_all

lemma question_split_asm:
  "P (question s r k) \<longleftrightarrow>
     \<not> ((\<exists>x. r = Ok x \<and> \<not> P (k x)) \<or> (\<exists>e. r = Err e \<and> \<not> P (s, Err e)) \<or>
        (r = Panic \<and> \<not> P (s, Panic)))"
  by (cases r) simp_all

lemmas question_splits = question_split question_split_asm

lemma then_do_simps [simp]:
  "then_do (s, Ok x) k = k s x" "then_do (s, Err e) k = (s, Err e)"
  "then_do (s, Panic) k = (s, Panic)"
  by (simp_all add: then_do_def)

text \<open>A chain of \<open>?\<close> succeeds only if every step of it does.\<close>

lemma question_eq_OkE:
  assumes "question s r k = (t, Ok y)"
  obtains x where "r = Ok x" and "k x = (t, Ok y)"
  using assms by (cases r) simp_all

lemma then_do_eq_OkE:
  assumes "then_do m k = (t, Ok y)"
  obtains s x where "m = (s, Ok x)" and "k s x = (t, Ok y)"
  using assms by (cases m; cases "snd m") auto

lemma Ok_branches:
  "(case x of None \<Rightarrow> Panic | Some y \<Rightarrow> k y) = Ok z \<longleftrightarrow> (\<exists>y. x = Some y \<and> k y = Ok z)"
  "(case x of None \<Rightarrow> Err e | Some y \<Rightarrow> k y) = Ok z \<longleftrightarrow> (\<exists>y. x = Some y \<and> k y = Ok z)"
  "(if b then Err e else r) = Ok z \<longleftrightarrow> \<not> b \<and> r = Ok z"
  by (auto split: option.splits)

lemma and_then_cong [fundef_cong]:
  "m = m' \<Longrightarrow> (\<And>x. m' = Ok x \<Longrightarrow> k x = k' x) \<Longrightarrow> and_then m k = and_then m' k'"
  by (cases m') simp_all

lemma and_then_eq_Ok: "and_then r k = Ok y \<longleftrightarrow> (\<exists>x. r = Ok x \<and> k x = Ok y)"
  by (cases r) simp_all

lemma and_then_eq_Panic: "and_then r k = Panic \<longleftrightarrow> r = Panic \<or> (\<exists>x. r = Ok x \<and> k x = Panic)"
  by (cases r) simp_all

lemma ok_or_simps [simp]:
  "ok_or e (Some x) = Ok x" "ok_or e None = Err e"
  by (simp_all add: ok_or_def)

lemma ok_or_eq_Ok [simp]: "ok_or e m = Ok x \<longleftrightarrow> m = Some x"
  by (cases m) simp_all

lemma ok_or_eq_Err [simp]: "ok_or e m = Err e' \<longleftrightarrow> m = None \<and> e' = e"
  by (cases m) auto

lemma ok_or_not_Panic [simp]: "ok_or e m \<noteq> Panic"
  by (cases m) simp_all

lemma unwrap_simps [simp]:
  "unwrap (Some x) = Ok x" "unwrap None = Panic"
  by (simp_all add: unwrap_def)

lemma unwrap_eq_Ok [simp]: "unwrap m = Ok x \<longleftrightarrow> m = Some x"
  by (cases m) simp_all

lemma unwrap_not_Err [simp]: "unwrap m \<noteq> Err e"
  by (cases m) simp_all

lemma unwrap_eq_Panic [simp]: "unwrap m = Panic \<longleftrightarrow> m = None"
  by (cases m) simp_all

lemma map_outcome_eq_Ok [simp]: "map_outcome f r = Ok y \<longleftrightarrow> (\<exists>x. r = Ok x \<and> y = f x)"
  by (cases r) auto

lemma map_outcome_eq_Err [simp]: "map_outcome f r = Err e \<longleftrightarrow> r = Err e"
  by (cases r) simp_all

lemma map_outcome_eq_Panic [simp]: "map_outcome f r = Panic \<longleftrightarrow> r = Panic"
  by (cases r) simp_all

lemma is_ok_iff: "is_ok r \<longleftrightarrow> (\<exists>x. r = Ok x)"
  by (cases r) simp_all

lemma usize_add_eq_Ok [simp]: "usize_add a b = Ok c \<longleftrightarrow> c = a + b \<and> a + b < usize_range"
  by (auto simp: usize_add_def)

lemma usize_add_not_Err [simp]: "usize_add a b \<noteq> Err e"
  by (simp add: usize_add_def)

lemma usize_add_eq_Panic [simp]: "usize_add a b = Panic \<longleftrightarrow> usize_range \<le> a + b"
  by (auto simp: usize_add_def)

lemma usize_sub_eq_Ok [simp]: "usize_sub a b = Ok c \<longleftrightarrow> b \<le> a \<and> c = a - b"
  by (auto simp: usize_sub_def)

lemma usize_sub_not_Err [simp]: "usize_sub a b \<noteq> Err e"
  by (simp add: usize_sub_def)

lemma usize_sub_eq_Panic [simp]: "usize_sub a b = Panic \<longleftrightarrow> a < b"
  by (auto simp: usize_sub_def)

section \<open>Lemmas on slices and strings\<close>

lemma get_at_eq_Some: "get_at xs i = Some x \<longleftrightarrow> i < length xs \<and> xs ! i = x"
  by (auto simp: get_at_def)

lemma get_at_eq_None: "get_at xs i = None \<longleftrightarrow> length xs \<le> i"
  by (auto simp: get_at_def)

lemma length_remove_at [simp]: "i < length xs \<Longrightarrow> length (remove_at i xs) = length xs - 1"
  by (simp add: remove_at_def)

lemma length_copy_into [simp]:
  "i + length src \<le> length buf \<Longrightarrow> length (copy_into buf i src) = length buf"
  by (simp add: copy_into_def)

lemma copy_into_Nil [simp]: "copy_into buf i [] = buf"
  by (simp add: copy_into_def)

lemma take_drop_copy_into:
  "i + length src \<le> length buf \<Longrightarrow> take (length src) (drop i (copy_into buf i src)) = src"
  by (simp add: copy_into_def)

lemma nth_copy_into:
  assumes "i + length src \<le> length buf" and "j < length buf"
  shows "copy_into buf i src ! j =
    (if i \<le> j \<and> j < i + length src then src ! (j - i) else buf ! j)"
  using assms by (auto simp: copy_into_def nth_append)

lemma length_resize [simp]: "length (resize n x xs) = n"
  by (simp add: resize_def)

lemma nth_resize: "i < n \<Longrightarrow> resize n x xs ! i = (if i < length xs then xs ! i else x)"
  by (auto simp: resize_def nth_append)

lemma resize_shrink: "n \<le> length xs \<Longrightarrow> resize n x xs = take n xs"
  by (simp add: resize_def)

lemma length_bytes_of [simp]: "length (bytes_of s) = length s"
  by (simp add: bytes_of_def)

lemma length_string_of [simp]: "length (string_of bs) = length bs"
  by (simp add: string_of_def)

lemma char_byte_roundtrip: "char_of (unat (word_of_nat (of_char c) :: u8)) = c"
proof -
  have "(of_char c :: nat) < 256" by simp
  then have "unat (word_of_nat (of_char c) :: u8) = of_char c"
    by (simp add: unat_of_nat)
  then show ?thesis by simp
qed

lemma string_of_bytes_of [simp]: "string_of (bytes_of s) = s"
  by (induction s) (simp_all add: string_of_def bytes_of_def char_byte_roundtrip)

lemma bytes_of_inject [simp]: "bytes_of s = bytes_of t \<longleftrightarrow> s = t"
  by (metis string_of_bytes_of)

end
