(* ===== verification/Abi.thy ===== *)
theory Abi
  imports Prelude
begin

text \<open>
  What the daemons take from crates that are not part of this repository, as one record of
  parameters. The flag and mode constants, the opcode decoder, \<open>Error::mux\<close> and the directory
  entry buffer belong to \<open>redox_syscall\<close>; every definition that uses them takes the record \<open>K\<close> as
  its first argument. \<open>abi_ok\<close> collects the documented facts about the constants that the code
  relies on, and \<open>sample_abi\<close> is an instance that satisfies them, used to evaluate the model.
\<close>

section \<open>Data the system call interface defines\<close>

record timespec =
  tv_sec :: int
  tv_nsec :: int

record stat =
  st_dev :: nat
  st_ino :: nat
  st_mode :: u16
  st_nlink :: nat
  st_uid :: u32
  st_gid :: u32
  st_size :: nat
  st_blksize :: nat
  st_blocks :: nat
  st_mtime :: int
  st_mtime_nsec :: int
  st_atime :: int
  st_atime_nsec :: int
  st_ctime :: int
  st_ctime_nsec :: int

definition default_stat :: stat where
  "default_stat = \<lparr>st_dev = 0, st_ino = 0, st_mode = 0, st_nlink = 0, st_uid = 0, st_gid = 0,
     st_size = 0, st_blksize = 0, st_blocks = 0, st_mtime = 0, st_mtime_nsec = 0,
     st_atime = 0, st_atime_nsec = 0, st_ctime = 0, st_ctime_nsec = 0\<rparr>"

record statvfs =
  f_bsize :: nat
  f_blocks :: nat
  f_bfree :: nat
  f_bavail :: nat

record dir_entry =
  de_inode :: nat
  de_name :: string
  de_next_opaque_id :: nat

text \<open>A directory entry buffer: the raw bytes, the size of an entry header and the bytes written.\<close>

record dirent_buf =
  db_raw :: "u8 list"
  db_header_size :: u16
  db_written :: nat

text \<open>The opcodes the sources name; \<open>OpcodeOther\<close> is any other one.\<close>

datatype opcode =
    OcOpenAt | OcUnlinkAt | OcDup | OcRead | OcWrite | OcFsize | OcFchmod | OcFchown | OcFcntl
  | OcFevent | OcFlink | OcFpath | OcFrename | OcFstat | OcFstatvfs | OcFsync | OcFtruncate
  | OcFutimens | OcCall | OcGetdents | OcMmapPrep | OcMunmap | OcCancel | OcSendfd | OcRecvfd
  | OcMsync | OcRequestMmap | OcCloseMsg | OcOther u8

section \<open>The parameters\<close>

record abi =
  O_RDONLY :: u64
  O_WRONLY :: u64
  O_RDWR :: u64
  O_ACCMODE :: u64
  O_NONBLOCK :: u64
  O_CREAT :: u64
  O_TRUNC :: u64
  O_EXCL :: u64
  O_DIRECTORY :: u64
  O_STAT :: u64
  F_GETFL :: u64
  F_SETFL :: u64
  AT_REMOVEDIR :: u64
  MODE_TYPE :: u16
  MODE_DIR :: u16
  MODE_FILE :: u16
  MODE_CHR :: u16
  MODE_PERM :: u16
  EVENT_READ :: u64
  EVENT_WRITE :: u64
  POSITIONED :: u8
  PAGE_SIZE :: nat
  SIZEOF_STAT :: nat
  SIZEOF_STATVFS :: nat
  SIZEOF_TIMESPEC :: nat
  try_from_raw :: "u8 \<Rightarrow> opcode option"
  mux :: "nat outcome \<Rightarrow> u64"
  dirent_new :: "u8 list \<Rightarrow> u16 \<Rightarrow> dirent_buf option"
  dirent_entry :: "dirent_buf \<Rightarrow> dir_entry \<Rightarrow> dirent_buf \<times> unit outcome"
  dirent_finalize :: "dirent_buf \<Rightarrow> nat"

text \<open>
  The documented facts about the constants: the open flags are non-empty and pairwise disjoint sets
  of bits, the three access modes are different values inside \<open>O_ACCMODE\<close>, the file types are
  different non-zero values inside \<open>MODE_TYPE\<close>, which is disjoint from the permission bits
  \<open>MODE_PERM\<close>, the directory type is a single bit, and a page is not empty.
\<close>

definition open_flags :: "abi \<Rightarrow> u64 list" where
  "open_flags K = [O_ACCMODE K, O_NONBLOCK K, O_CREAT K, O_TRUNC K, O_EXCL K, O_DIRECTORY K, O_STAT K]"

definition abi_ok :: "abi \<Rightarrow> bool" where
  "abi_ok K \<longleftrightarrow>
     0 \<notin> set (open_flags K) \<and>
     sorted_wrt (\<lambda>a b. a AND b = 0) (open_flags K) \<and>
     distinct [O_RDONLY K, O_WRONLY K, O_RDWR K] \<and>
     list_all (\<lambda>m. m AND O_ACCMODE K = m) [O_RDONLY K, O_WRONLY K, O_RDWR K] \<and>
     distinct [0, MODE_DIR K, MODE_FILE K, MODE_CHR K] \<and>
     list_all (\<lambda>m. m AND MODE_TYPE K = m) [MODE_DIR K, MODE_FILE K, MODE_CHR K] \<and>
     MODE_TYPE K AND MODE_PERM K = 0 \<and> MODE_PERM K AND 0x1FF = 0x1FF \<and>
     (\<forall>m. m AND MODE_DIR K = 0 \<or> m AND MODE_DIR K = MODE_DIR K) \<and>
     F_GETFL K \<noteq> F_SETFL K \<and> 0 < PAGE_SIZE K"

section \<open>A sample instance\<close>

text \<open>
  Constants as the interface's documentation lists them. The opcode numbers and the entry buffer
  are only as detailed as evaluating the model needs: an entry takes its header and its name, and
  is refused when they do not fit.
\<close>

fun sample_mux :: "nat outcome \<Rightarrow> u64" where
  "sample_mux (Ok n) = word_of_nat n"
| "sample_mux (Err EWOULDBLOCK) = - 41"
| "sample_mux (Err e) = - 1"
| "sample_mux Panic = 0"

definition sample_opcodes :: "opcode list" where
  "sample_opcodes = [OcOpenAt, OcUnlinkAt, OcDup, OcRead, OcWrite, OcFsize, OcFchmod, OcFchown,
     OcFcntl, OcFevent, OcFlink, OcFpath, OcFrename, OcFstat, OcFstatvfs, OcFsync, OcFtruncate,
     OcFutimens, OcCall, OcGetdents, OcMmapPrep, OcMunmap, OcCancel, OcSendfd, OcRecvfd, OcMsync,
     OcRequestMmap, OcCloseMsg]"

definition sample_abi :: abi where
  "sample_abi = \<lparr>
     O_RDONLY = 0x00010000, O_WRONLY = 0x00020000, O_RDWR = 0x00030000, O_ACCMODE = 0x00030000,
     O_NONBLOCK = 0x00040000, O_CREAT = 0x02000000, O_TRUNC = 0x04000000, O_EXCL = 0x08000000,
     O_DIRECTORY = 0x10000000, O_STAT = 0x20000000, F_GETFL = 3, F_SETFL = 4,
     AT_REMOVEDIR = 0x200, MODE_TYPE = 0xF000, MODE_DIR = 0x4000, MODE_FILE = 0x8000,
     MODE_CHR = 0x2000, MODE_PERM = 0x0FFF, EVENT_READ = 1, EVENT_WRITE = 2, POSITIONED = 1,
     PAGE_SIZE = 4096, SIZEOF_STAT = 88, SIZEOF_STATVFS = 32, SIZEOF_TIMESPEC = 16,
     try_from_raw = (\<lambda>b. get_at sample_opcodes (unat b - 3)),
     mux = sample_mux,
     dirent_new = (\<lambda>raw h. Some \<lparr>db_raw = raw, db_header_size = h, db_written = 0\<rparr>),
     dirent_entry = (\<lambda>b e.
       let n = unat (db_header_size b) + length (de_name e) in
       if db_written b + n \<le> length (db_raw b) then (b\<lparr>db_written := db_written b + n\<rparr>, Ok ())
       else (b, Err EINVAL)),
     dirent_finalize = db_written\<rparr>"

lemma and_single_bit: "m AND push_bit n 1 = 0 \<or> m AND push_bit n 1 = (push_bit n 1 :: 'a::len word)"
  by (cases "bit m n") (auto intro: bit_word_eqI simp: bit_simps)

lemma sample_abi_ok: "abi_ok sample_abi"
proof -
  have "m AND 0x4000 = 0 \<or> m AND 0x4000 = (0x4000 :: u16)" for m
    using and_single_bit [of m 14] by simp
  then show ?thesis by (simp add: abi_ok_def open_flags_def sample_abi_def)
qed

section \<open>Consequences of the documented facts\<close>

lemma abi_ok_access_modes:
  assumes "abi_ok K"
  shows "O_RDONLY K AND O_ACCMODE K = O_RDONLY K" "O_WRONLY K AND O_ACCMODE K = O_WRONLY K"
    "O_RDWR K AND O_ACCMODE K = O_RDWR K"
    "O_RDONLY K \<noteq> O_WRONLY K" "O_RDONLY K \<noteq> O_RDWR K" "O_WRONLY K \<noteq> O_RDWR K"
  using assms by (simp_all add: abi_ok_def)

lemma abi_ok_modes:
  assumes "abi_ok K"
  shows "MODE_DIR K AND MODE_TYPE K = MODE_DIR K" "MODE_FILE K AND MODE_TYPE K = MODE_FILE K"
    "MODE_DIR K \<noteq> 0" "MODE_FILE K \<noteq> 0" "MODE_DIR K \<noteq> MODE_FILE K" "MODE_TYPE K AND MODE_PERM K = 0"
    "m AND MODE_DIR K = 0 \<or> m AND MODE_DIR K = MODE_DIR K"
  using assms by (auto simp: abi_ok_def)

end
