(* ===== verification/Scheme.thy ===== *)
theory Scheme
  imports Abi
begin

text \<open>
  The \<open>redox-scheme\<close> library: requests and responses (\<open>redox-scheme/src/lib.rs\<close>), the decoding of
  a submission queue entry into an \<open>Op\<close>, the \<open>SchemeSync\<close> trait with its default methods, and the
  dispatch of an \<open>Op\<close> to the methods of a scheme (\<open>redox-scheme/src/scheme.rs\<close>).

  A trait implementation is a record of functions, one field per method; \<open>default_scheme\<close> holds the
  default bodies and a daemon overrides the fields it implements, as its \<open>impl\<close> block does.
  The memory an entry points into is a parameter: what the kernel has mapped at an address.
\<close>

section \<open>Requests and responses\<close>

record caller_ctx =
  ctx_pid :: nat
  ctx_uid :: u32
  ctx_gid :: u32
  ctx_id :: u32

datatype open_result =
    ThisScheme nat u8
  | OtherScheme nat
  | OtherSchemeMultiple nat
  | WouldBlock

text \<open>The fields of a submission queue entry that the library reads.\<close>

record sqe =
  sqe_opcode :: u8
  sqe_tag :: u32
  sqe_args :: "u64 \<times> u64 \<times> u64 \<times> u64 \<times> u64 \<times> u64"
  sqe_caller :: u64

datatype request_kind =
    RkCall sqe
  | RkCancellation u32
  | RkSendFd sqe
  | RkRecvFd sqe
  | RkMsyncMsg
  | RkMunmapMsg
  | RkMmapMsg
  | RkOnClose nat

definition kind :: "abi \<Rightarrow> sqe \<Rightarrow> request_kind" where
  "kind K q = (case try_from_raw K (sqe_opcode q) of
       Some OcCancel \<Rightarrow> RkCancellation (sqe_tag q)
     | Some OcSendfd \<Rightarrow> RkSendFd q
     | Some OcRecvfd \<Rightarrow> RkRecvFd q
     | Some OcMsync \<Rightarrow> RkMsyncMsg
     | Some OcRequestMmap \<Rightarrow> RkMmapMsg
     | Some OcCloseMsg \<Rightarrow> RkOnClose (unat (fst (sqe_args q)))
     | _ \<Rightarrow> RkCall q)"

datatype cqe_opcode = RespondRegular | RespondWithFd | RespondWithMultipleFds | SendFevent

record cqe =
  cqe_flags :: cqe_opcode
  cqe_extra_raw :: "u8 \<times> u8 \<times> u8"
  cqe_result :: u64
  cqe_tag :: u32

definition response_new :: "abi \<Rightarrow> nat outcome \<Rightarrow> u32 \<Rightarrow> cqe" where
  "response_new K status tag = \<lparr>cqe_flags = RespondRegular, cqe_extra_raw = (0, 0, 0),
     cqe_result = mux K status, cqe_tag = tag\<rparr>"

definition response_err :: "abi \<Rightarrow> errno \<Rightarrow> u32 \<Rightarrow> cqe" where
  "response_err K e tag = response_new K (Err e) tag"

definition response_ok :: "abi \<Rightarrow> nat \<Rightarrow> u32 \<Rightarrow> cqe" where
  "response_ok K status tag = response_new K (Ok status) tag"

definition return_external_fd :: "nat \<Rightarrow> u32 \<Rightarrow> cqe" where
  "return_external_fd fd tag = \<lparr>cqe_flags = RespondWithFd, cqe_extra_raw = (0, 0, 0),
     cqe_result = word_of_nat fd, cqe_tag = tag\<rparr>"

definition return_external_multiple_fds :: "nat \<Rightarrow> u32 \<Rightarrow> cqe" where
  "return_external_multiple_fds num_fds tag = \<lparr>cqe_flags = RespondWithMultipleFds,
     cqe_extra_raw = (0, 0, 0), cqe_result = word_of_nat num_fds, cqe_tag = tag\<rparr>"

definition with_extra :: "cqe \<Rightarrow> u8 \<times> u8 \<times> u8 \<Rightarrow> cqe" where
  "with_extra r extra = r\<lparr>cqe_extra_raw := extra\<rparr>"

definition post_fevent_response :: "nat \<Rightarrow> u64 \<Rightarrow> cqe" where
  "post_fevent_response i flags = \<lparr>cqe_flags = SendFevent, cqe_extra_raw = (0, 0, 0),
     cqe_result = word_of_nat i, cqe_tag = ucast flags\<rparr>"

definition open_dup_like :: "abi \<Rightarrow> open_result outcome \<Rightarrow> u32 \<Rightarrow> cqe" where
  "open_dup_like K res tag = (case res of
       Ok (ThisScheme number flags) \<Rightarrow> with_extra (response_new K (Ok number) tag) (flags, 0, 0)
     | Err e \<Rightarrow> response_new K (Err e) tag
     | Ok (OtherScheme fd) \<Rightarrow> return_external_fd fd tag
     | Ok (OtherSchemeMultiple num_fds) \<Rightarrow> return_external_multiple_fds num_fds tag
     | Ok WouldBlock \<Rightarrow> response_new K (Err EWOULDBLOCK) tag
     | Panic \<Rightarrow> response_new K Panic tag)"

section \<open>Operations\<close>

text \<open>
  One constructor per variant of \<open>Op\<close>; the first argument is the request's tag. Buffers are carried
  by value, and \<open>handle_sync_dont_consume\<close> returns the operation with what the method left in them.
\<close>

datatype op =
    OpOpen u32 string u64
  | OpOpenAt u32 nat string u64 u32
  | OpRmdir u32 string
  | OpUnlink u32 string
  | OpUnlinkAt u32 nat string u64
  | OpDup u32 nat "u8 list"
  | OpRead u32 nat "u8 list" nat u32
  | OpWrite u32 nat "u8 list" nat u32
  | OpFsize u32 nat
  | OpFchmod u32 nat u16
  | OpFchown u32 nat u32 u32
  | OpFcntl u32 nat u64 u64
  | OpFevent u32 nat u64
  | OpFlink u32 nat string
  | OpFpath u32 nat "u8 list"
  | OpFrename u32 nat string
  | OpFstat u32 nat stat
  | OpFstatVfs u32 nat statvfs
  | OpFsync u32 nat
  | OpFtruncate u32 nat nat
  | OpFutimens u32 nat "timespec list"
  | OpMmapPrep u32 nat nat nat u64
  | OpMunmap u32 nat nat nat u64
  | OpCall u32 nat "u8 list" "u64 list"
  | OpGetdents u32 nat "u8 list" u16 nat
  | OpRecvfd sqe

text \<open>What the kernel has mapped at an address: bytes, a stat buffer, an array of times.\<close>

record memory =
  mem_bytes :: "u64 \<Rightarrow> nat \<Rightarrow> u8 list"
  mem_stat :: "u64 \<Rightarrow> stat"
  mem_statvfs :: "u64 \<Rightarrow> statvfs"
  mem_times :: "u64 \<Rightarrow> nat \<Rightarrow> timespec list"

abbreviation mem_str :: "memory \<Rightarrow> u64 \<Rightarrow> u64 \<Rightarrow> string" where
  "mem_str M p n \<equiv> string_of (mem_bytes M p (unat n))"

text \<open>\<open>from_sqe_unchecked\<close>: \<open>Ok None\<close> is an entry with no operation; \<open>Panic\<close> a failed \<open>assert!\<close>.\<close>

definition from_sqe_unchecked :: "abi \<Rightarrow> memory \<Rightarrow> sqe \<Rightarrow> op option outcome" where
  "from_sqe_unchecked K M q =
    (let req = sqe_tag q; (a, b, c, d, e, f) = sqe_args q in
     if sqe_opcode q = 0 then Ok (Some (OpOpen req (mem_str M a b) c))
     else if sqe_opcode q = 1 then Ok (Some (OpRmdir req (mem_str M a b)))
     else if sqe_opcode q = 2 then Ok (Some (OpUnlink req (mem_str M a b)))
     else case try_from_raw K (sqe_opcode q) of
       None \<Rightarrow> Ok None
     | Some oc \<Rightarrow> (case oc of
         OcOpenAt \<Rightarrow> Ok (Some (OpOpenAt req (unat a) (mem_str M b c) d (ucast e)))
       | OcUnlinkAt \<Rightarrow> Ok (Some (OpUnlinkAt req (unat a) (mem_str M b c) d))
       | OcDup \<Rightarrow> Ok (Some (OpDup req (unat a) (mem_bytes M b (unat c))))
       | OcRead \<Rightarrow> Ok (Some (OpRead req (unat a) (mem_bytes M b (unat c)) (unat d) (ucast e)))
       | OcWrite \<Rightarrow> Ok (Some (OpWrite req (unat a) (mem_bytes M b (unat c)) (unat d) (ucast e)))
       | OcFsize \<Rightarrow> Ok (Some (OpFsize req (unat a)))
       | OcFchmod \<Rightarrow> Ok (Some (OpFchmod req (unat a) (ucast b)))
       | OcFchown \<Rightarrow> Ok (Some (OpFchown req (unat a) (ucast b) (ucast c)))
       | OcFcntl \<Rightarrow> Ok (Some (OpFcntl req (unat a) b c))
       | OcFevent \<Rightarrow> Ok (Some (OpFevent req (unat a) b))
       | OcFlink \<Rightarrow> Ok (Some (OpFlink req (unat a) (mem_str M b c)))
       | OcFpath \<Rightarrow> Ok (Some (OpFpath req (unat a) (mem_bytes M b (unat c))))
       | OcFrename \<Rightarrow> Ok (Some (OpFrename req (unat a) (mem_str M b c)))
       | OcFstat \<Rightarrow>
           if SIZEOF_STAT K \<le> unat c then Ok (Some (OpFstat req (unat a) (mem_stat M b))) else Panic
       | OcFstatvfs \<Rightarrow>
           if SIZEOF_STATVFS K \<le> unat c then Ok (Some (OpFstatVfs req (unat a) (mem_statvfs M b)))
           else Panic
       | OcFsync \<Rightarrow> Ok (Some (OpFsync req (unat a)))
       | OcFtruncate \<Rightarrow> Ok (Some (OpFtruncate req (unat a) (unat b)))
       | OcFutimens \<Rightarrow>
           if unat c \<le> 2 * SIZEOF_TIMESPEC K
           then Ok (Some (OpFutimens req (unat a) (mem_times M b (unat c div SIZEOF_TIMESPEC K))))
           else Panic
       | OcCall \<Rightarrow> Ok (Some (OpCall req (unat a) (mem_bytes M b (unat c)) [d, e, f]))
       | OcGetdents \<Rightarrow>
           Ok (Some (OpGetdents req (unat a) (mem_bytes M b (unat c)) (ucast d) (unat e)))
       | OcMmapPrep \<Rightarrow> Ok (Some (OpMmapPrep req (unat a) (unat d) (unat b) c))
       | OcMunmap \<Rightarrow> Ok (Some (OpMunmap req (unat a) (unat d) (unat b) c))
       | _ \<Rightarrow> Ok None))"

fun is_explicitly_nonblock :: "abi \<Rightarrow> op \<Rightarrow> bool" where
  "is_explicitly_nonblock K (OpRead t fd buf off flags) = (ucast flags AND O_NONBLOCK K \<noteq> 0)"
| "is_explicitly_nonblock K (OpWrite t fd buf off flags) = (ucast flags AND O_NONBLOCK K \<noteq> 0)"
| "is_explicitly_nonblock K (OpOpenAt t fd path flags fcntl_flags) =
     (ucast fcntl_flags AND O_NONBLOCK K \<noteq> 0)"
| "is_explicitly_nonblock K (OpOpen t path flags) =
     (ucast (ucast flags :: u32) AND O_NONBLOCK K \<noteq> 0)"
| "is_explicitly_nonblock K _ = (0 AND O_NONBLOCK K \<noteq> 0)"

fun file_id :: "op \<Rightarrow> nat option" where
  "file_id (OpOpen t path flags) = None"
| "file_id (OpRmdir t path) = None"
| "file_id (OpUnlink t path) = None"
| "file_id (OpUnlinkAt t fd path flags) = Some fd"
| "file_id (OpOpenAt t fd path flags ff) = Some fd"
| "file_id (OpDup t fd buf) = Some fd"
| "file_id (OpRead t fd buf off flags) = Some fd"
| "file_id (OpWrite t fd buf off flags) = Some fd"
| "file_id (OpFsize t fd) = Some fd"
| "file_id (OpFchmod t fd m) = Some fd"
| "file_id (OpFchown t fd u g) = Some fd"
| "file_id (OpFcntl t fd cmd arg) = Some fd"
| "file_id (OpFevent t fd flags) = Some fd"
| "file_id (OpFsync t fd) = Some fd"
| "file_id (OpFtruncate t fd sz) = Some fd"
| "file_id (OpMmapPrep t fd off len flags) = Some fd"
| "file_id (OpMunmap t fd off len flags) = Some fd"
| "file_id (OpFlink t fd path) = Some fd"
| "file_id (OpFpath t fd buf) = Some fd"
| "file_id (OpFrename t fd path) = Some fd"
| "file_id (OpFstat t fd st) = Some fd"
| "file_id (OpFstatVfs t fd st) = Some fd"
| "file_id (OpFutimens t fd ts) = Some fd"
| "file_id (OpCall t fd payload metadata) = Some fd"
| "file_id (OpGetdents t fd buf h off) = Some fd"
| "file_id (OpRecvfd q) = Some (unat (fst (sqe_args q)))"

text \<open>\<open>into_tag\<close> and \<open>req_id\<close> both give the tag of the request the operation was decoded from.\<close>

fun into_tag :: "op \<Rightarrow> u32" where
  "into_tag (OpOpen t path flags) = t"
| "into_tag (OpOpenAt t fd path flags ff) = t"
| "into_tag (OpRmdir t path) = t"
| "into_tag (OpUnlink t path) = t"
| "into_tag (OpUnlinkAt t fd path flags) = t"
| "into_tag (OpDup t fd buf) = t"
| "into_tag (OpRead t fd buf off flags) = t"
| "into_tag (OpWrite t fd buf off flags) = t"
| "into_tag (OpFsize t fd) = t"
| "into_tag (OpFchmod t fd m) = t"
| "into_tag (OpFchown t fd u g) = t"
| "into_tag (OpFcntl t fd cmd arg) = t"
| "into_tag (OpFevent t fd flags) = t"
| "into_tag (OpFsync t fd) = t"
| "into_tag (OpFtruncate t fd sz) = t"
| "into_tag (OpMmapPrep t fd off len flags) = t"
| "into_tag (OpMunmap t fd off len flags) = t"
| "into_tag (OpFlink t fd path) = t"
| "into_tag (OpFpath t fd buf) = t"
| "into_tag (OpFrename t fd path) = t"
| "into_tag (OpFstat t fd st) = t"
| "into_tag (OpFstatVfs t fd st) = t"
| "into_tag (OpFutimens t fd ts) = t"
| "into_tag (OpCall t fd payload metadata) = t"
| "into_tag (OpGetdents t fd buf h off) = t"
| "into_tag (OpRecvfd q) = sqe_tag q"

definition caller :: "sqe \<Rightarrow> caller_ctx" where
  "caller q = (let (a, b, c, d, e, f) = sqe_args q in
     \<lparr>ctx_pid = unat (sqe_caller q), ctx_uid = ucast f, ctx_gid = ucast (drop_bit 32 f),
      ctx_id = sqe_tag q\<rparr>)"

section \<open>The SchemeSync trait\<close>

record 's scheme_sync =
  sc_open :: "string \<Rightarrow> u64 \<Rightarrow> caller_ctx \<Rightarrow> 's \<Rightarrow> 's \<times> open_result outcome"
  sc_openat :: "nat \<Rightarrow> string \<Rightarrow> u64 \<Rightarrow> u32 \<Rightarrow> caller_ctx \<Rightarrow> 's \<Rightarrow> 's \<times> open_result outcome"
  sc_rmdir :: "string \<Rightarrow> caller_ctx \<Rightarrow> 's \<Rightarrow> 's \<times> unit outcome"
  sc_unlink :: "string \<Rightarrow> caller_ctx \<Rightarrow> 's \<Rightarrow> 's \<times> unit outcome"
  sc_unlinkat :: "nat \<Rightarrow> string \<Rightarrow> u64 \<Rightarrow> caller_ctx \<Rightarrow> 's \<Rightarrow> 's \<times> unit outcome"
  sc_dup :: "nat \<Rightarrow> u8 list \<Rightarrow> caller_ctx \<Rightarrow> 's \<Rightarrow> 's \<times> open_result outcome"
  sc_read :: "nat \<Rightarrow> u8 list \<Rightarrow> nat \<Rightarrow> u32 \<Rightarrow> caller_ctx \<Rightarrow> 's \<Rightarrow> ('s \<times> u8 list) \<times> nat outcome"
  sc_write :: "nat \<Rightarrow> u8 list \<Rightarrow> nat \<Rightarrow> u32 \<Rightarrow> caller_ctx \<Rightarrow> 's \<Rightarrow> 's \<times> nat outcome"
  sc_fsize :: "nat \<Rightarrow> caller_ctx \<Rightarrow> 's \<Rightarrow> 's \<times> nat outcome"
  sc_fchmod :: "nat \<Rightarrow> u16 \<Rightarrow> caller_ctx \<Rightarrow> 's \<Rightarrow> 's \<times> unit outcome"
  sc_fchown :: "nat \<Rightarrow> u32 \<Rightarrow> u32 \<Rightarrow> caller_ctx \<Rightarrow> 's \<Rightarrow> 's \<times> unit outcome"
  sc_fcntl :: "nat \<Rightarrow> u64 \<Rightarrow> u64 \<Rightarrow> caller_ctx \<Rightarrow> 's \<Rightarrow> 's \<times> nat outcome"
  sc_fevent :: "nat \<Rightarrow> u64 \<Rightarrow> caller_ctx \<Rightarrow> 's \<Rightarrow> 's \<times> u64 outcome"
  sc_flink :: "nat \<Rightarrow> string \<Rightarrow> caller_ctx \<Rightarrow> 's \<Rightarrow> 's \<times> nat outcome"
  sc_fpath :: "nat \<Rightarrow> u8 list \<Rightarrow> caller_ctx \<Rightarrow> 's \<Rightarrow> ('s \<times> u8 list) \<times> nat outcome"
  sc_frename :: "nat \<Rightarrow> string \<Rightarrow> caller_ctx \<Rightarrow> 's \<Rightarrow> 's \<times> nat outcome"
  sc_fstat :: "nat \<Rightarrow> stat \<Rightarrow> caller_ctx \<Rightarrow> 's \<Rightarrow> ('s \<times> stat) \<times> unit outcome"
  sc_fstatvfs :: "nat \<Rightarrow> statvfs \<Rightarrow> caller_ctx \<Rightarrow> 's \<Rightarrow> ('s \<times> statvfs) \<times> unit outcome"
  sc_fsync :: "nat \<Rightarrow> caller_ctx \<Rightarrow> 's \<Rightarrow> 's \<times> unit outcome"
  sc_ftruncate :: "nat \<Rightarrow> nat \<Rightarrow> caller_ctx \<Rightarrow> 's \<Rightarrow> 's \<times> unit outcome"
  sc_futimens :: "nat \<Rightarrow> timespec list \<Rightarrow> caller_ctx \<Rightarrow> 's \<Rightarrow> 's \<times> unit outcome"
  sc_call :: "nat \<Rightarrow> u8 list \<Rightarrow> u64 list \<Rightarrow> caller_ctx \<Rightarrow> 's \<Rightarrow> ('s \<times> u8 list) \<times> nat outcome"
  sc_getdents :: "nat \<Rightarrow> dirent_buf \<Rightarrow> nat \<Rightarrow> 's \<Rightarrow> ('s \<times> dirent_buf) \<times> unit outcome"
  sc_mmap_prep :: "nat \<Rightarrow> nat \<Rightarrow> nat \<Rightarrow> u64 \<Rightarrow> caller_ctx \<Rightarrow> 's \<Rightarrow> 's \<times> nat outcome"
  sc_munmap :: "nat \<Rightarrow> nat \<Rightarrow> nat \<Rightarrow> u64 \<Rightarrow> caller_ctx \<Rightarrow> 's \<Rightarrow> 's \<times> unit outcome"
  sc_on_close :: "nat \<Rightarrow> 's \<Rightarrow> 's \<times> unit outcome"
  sc_on_sendfd :: "sqe \<Rightarrow> 's \<Rightarrow> 's \<times> nat outcome"
  sc_on_recvfd :: "sqe \<Rightarrow> 's \<Rightarrow> 's \<times> open_result outcome"

definition default_scheme :: "'s scheme_sync" where
  "default_scheme = \<lparr>
     sc_open = (\<lambda>path flags ctx s. (s, Err ENOENT)),
     sc_openat = (\<lambda>fd path flags ff ctx s. (s, Err EOPNOTSUPP)),
     sc_rmdir = (\<lambda>path ctx s. (s, Err ENOENT)),
     sc_unlink = (\<lambda>path ctx s. (s, Err ENOENT)),
     sc_unlinkat = (\<lambda>fd path flags ctx s. (s, Err ENOENT)),
     sc_dup = (\<lambda>old_id buf ctx s. (s, Err EOPNOTSUPP)),
     sc_read = (\<lambda>i buf off ff ctx s. ((s, buf), Err EBADF)),
     sc_write = (\<lambda>i buf off ff ctx s. (s, Err EBADF)),
     sc_fsize = (\<lambda>i ctx s. (s, Err ESPIPE)),
     sc_fchmod = (\<lambda>i m ctx s. (s, Err EOPNOTSUPP)),
     sc_fchown = (\<lambda>i u g ctx s. (s, Err EOPNOTSUPP)),
     sc_fcntl = (\<lambda>i cmd arg ctx s. (s, Err EOPNOTSUPP)),
     sc_fevent = (\<lambda>i flags ctx s. (s, Ok 0)),
     sc_flink = (\<lambda>i path ctx s. (s, Err EOPNOTSUPP)),
     sc_fpath = (\<lambda>i buf ctx s. ((s, buf), Err EOPNOTSUPP)),
     sc_frename = (\<lambda>i path ctx s. (s, Err EOPNOTSUPP)),
     sc_fstat = (\<lambda>i st ctx s. ((s, st), Err EOPNOTSUPP)),
     sc_fstatvfs = (\<lambda>i st ctx s. ((s, st), Err EOPNOTSUPP)),
     sc_fsync = (\<lambda>i ctx s. (s, Ok ())),
     sc_ftruncate = (\<lambda>i len ctx s. (s, Err EBADF)),
     sc_futimens = (\<lambda>i ts ctx s. (s, Err EBADF)),
     sc_call = (\<lambda>i payload metadata ctx s. ((s, payload), Err EOPNOTSUPP)),
     sc_getdents = (\<lambda>i buf off s. ((s, buf), Err ENOTDIR)),
     sc_mmap_prep = (\<lambda>i off len flags ctx s. (s, Err EOPNOTSUPP)),
     sc_munmap = (\<lambda>i off len flags ctx s. (s, Err EOPNOTSUPP)),
     sc_on_close = (\<lambda>i s. (s, Ok ())),
     sc_on_sendfd = (\<lambda>q s. (s, Err EOPNOTSUPP)),
     sc_on_recvfd = (\<lambda>q s. (s, Err EOPNOTSUPP))\<rparr>"

section \<open>Dispatch\<close>

datatype scheme_response = Regular "nat outcome" | Opened "open_result outcome"

fun handle_sync_dont_consume ::
  "abi \<Rightarrow> 's scheme_sync \<Rightarrow> caller_ctx \<Rightarrow> op \<Rightarrow> 's \<Rightarrow> ('s \<times> op) \<times> scheme_response" where
  "handle_sync_dont_consume K S ctx (OpOpen t path flags) s =
     (let (s', r) = sc_open S path flags ctx s in ((s', OpOpen t path flags), Opened r))"
| "handle_sync_dont_consume K S ctx (OpOpenAt t fd path flags ff) s =
     (let (s', r) = sc_openat S fd path flags ff ctx s
      in ((s', OpOpenAt t fd path flags ff), Opened r))"
| "handle_sync_dont_consume K S ctx (OpRmdir t path) s =
     (let (s', r) = sc_rmdir S path ctx s
      in ((s', OpRmdir t path), Regular (map_outcome (\<lambda>_. 0) r)))"
| "handle_sync_dont_consume K S ctx (OpUnlink t path) s =
     (let (s', r) = sc_unlink S path ctx s
      in ((s', OpUnlink t path), Regular (map_outcome (\<lambda>_. 0) r)))"
| "handle_sync_dont_consume K S ctx (OpUnlinkAt t fd path flags) s =
     (let (s', r) = sc_unlinkat S fd path flags ctx s
      in ((s', OpUnlinkAt t fd path flags), Regular (map_outcome (\<lambda>_. 0) r)))"
| "handle_sync_dont_consume K S ctx (OpDup t fd buf) s =
     (let (s', r) = sc_dup S fd buf ctx s in ((s', OpDup t fd buf), Opened r))"
| "handle_sync_dont_consume K S ctx (OpRead t fd buf off flags) s =
     (let ((s', buf'), r) = sc_read S fd buf off flags ctx s
      in ((s', OpRead t fd buf' off flags), Regular r))"
| "handle_sync_dont_consume K S ctx (OpWrite t fd buf off flags) s =
     (let (s', r) = sc_write S fd buf off flags ctx s
      in ((s', OpWrite t fd buf off flags), Regular r))"
| "handle_sync_dont_consume K S ctx (OpFsize t fd) s =
     (let (s', r) = sc_fsize S fd ctx s in ((s', OpFsize t fd), Regular r))"
| "handle_sync_dont_consume K S ctx (OpFchmod t fd m) s =
     (let (s', r) = sc_fchmod S fd m ctx s
      in ((s', OpFchmod t fd m), Regular (map_outcome (\<lambda>_. 0) r)))"
| "handle_sync_dont_consume K S ctx (OpFchown t fd u g) s =
     (let (s', r) = sc_fchown S fd u g ctx s
      in ((s', OpFchown t fd u g), Regular (map_outcome (\<lambda>_. 0) r)))"
| "handle_sync_dont_consume K S ctx (OpFcntl t fd cmd arg) s =
     (let (s', r) = sc_fcntl S fd cmd arg ctx s in ((s', OpFcntl t fd cmd arg), Regular r))"
| "handle_sync_dont_consume K S ctx (OpFevent t fd flags) s =
     (let (s', r) = sc_fevent S fd flags ctx s
      in ((s', OpFevent t fd flags), Regular (map_outcome unat r)))"
| "handle_sync_dont_consume K S ctx (OpFlink t fd path) s =
     (let (s', r) = sc_flink S fd path ctx s in ((s', OpFlink t fd path), Regular r))"
| "handle_sync_dont_consume K S ctx (OpFpath t fd buf) s =
     (let ((s', buf'), r) = sc_fpath S fd buf ctx s in ((s', OpFpath t fd buf'), Regular r))"
| "handle_sync_dont_consume K S ctx (OpFrename t fd path) s =
     (let (s', r) = sc_frename S fd path ctx s in ((s', OpFrename t fd path), Regular r))"
| "handle_sync_dont_consume K S ctx (OpFstat t fd st) s =
     (let ((s', st'), r) = sc_fstat S fd st ctx s
      in ((s', OpFstat t fd st'), Regular (map_outcome (\<lambda>_. 0) r)))"
| "handle_sync_dont_consume K S ctx (OpFstatVfs t fd st) s =
     (let ((s', st'), r) = sc_fstatvfs S fd st ctx s
      in ((s', OpFstatVfs t fd st'), Regular (map_outcome (\<lambda>_. 0) r)))"
| "handle_sync_dont_consume K S ctx (OpFsync t fd) s =
     (let (s', r) = sc_fsync S fd ctx s
      in ((s', OpFsync t fd), Regular (map_outcome (\<lambda>_. 0) r)))"
| "handle_sync_dont_consume K S ctx (OpFtruncate t fd sz) s =
     (let (s', r) = sc_ftruncate S fd sz ctx s
      in ((s', OpFtruncate t fd sz), Regular (map_outcome (\<lambda>_. 0) r)))"
| "handle_sync_dont_consume K S ctx (OpFutimens t fd ts) s =
     (let (s', r) = sc_futimens S fd ts ctx s
      in ((s', OpFutimens t fd ts), Regular (map_outcome (\<lambda>_. 0) r)))"
| "handle_sync_dont_consume K S ctx (OpMmapPrep t fd off len flags) s =
     (let (s', r) = sc_mmap_prep S fd off len flags ctx s
      in ((s', OpMmapPrep t fd off len flags), Regular r))"
| "handle_sync_dont_consume K S ctx (OpMunmap t fd off len flags) s =
     (let (s', r) = sc_munmap S fd off len flags ctx s
      in ((s', OpMunmap t fd off len flags), Regular (map_outcome (\<lambda>_. 0) r)))"
| "handle_sync_dont_consume K S ctx (OpCall t fd payload metadata) s =
     (let ((s', payload'), r) = sc_call S fd payload metadata ctx s
      in ((s', OpCall t fd payload' metadata), Regular r))"
| "handle_sync_dont_consume K S ctx (OpGetdents t fd buf h off) s =
     (case dirent_new K buf h of
        None \<Rightarrow> ((s, OpGetdents t fd buf h off), Regular (Err EINVAL))
      | Some db \<Rightarrow>
          (let ((s', db'), r) = sc_getdents S fd db off s
           in ((s', OpGetdents t fd (db_raw db') h off),
               Regular (map_outcome (\<lambda>_. dirent_finalize K db') r))))"
| "handle_sync_dont_consume K S ctx (OpRecvfd q) s =
     (let (s', r) = sc_on_recvfd S q s in ((s', OpRecvfd q), Opened r))"

fun response_of :: "abi \<Rightarrow> scheme_response \<Rightarrow> u32 \<Rightarrow> cqe" where
  "response_of K (Opened open_res) tag = open_dup_like K open_res tag"
| "response_of K (Regular reg) tag = response_new K reg tag"

text \<open>A method that panics ends the daemon before any response is made.\<close>

fun panicked :: "scheme_response \<Rightarrow> bool" where
  "panicked (Regular r) = (r = Panic)"
| "panicked (Opened r) = (r = Panic)"

definition op_handle_sync ::
  "abi \<Rightarrow> 's scheme_sync \<Rightarrow> caller_ctx \<Rightarrow> op \<Rightarrow> 's \<Rightarrow> ('s \<times> op) \<times> cqe outcome" where
  "op_handle_sync K S ctx oper s =
     (let ((s', oper'), resp) = handle_sync_dont_consume K S ctx oper s
      in ((s', oper'), if panicked resp then Panic else Ok (response_of K resp (into_tag oper'))))"

text \<open>\<open>CallRequest::handle_sync\<close>.\<close>

definition handle_sync ::
  "abi \<Rightarrow> memory \<Rightarrow> 's scheme_sync \<Rightarrow> sqe \<Rightarrow> 's \<Rightarrow> 's \<times> cqe outcome" where
  "handle_sync K M S q s = (case from_sqe_unchecked K M q of
       Ok (Some oper) \<Rightarrow> (let ((s', oper'), r) = op_handle_sync K S (caller q) oper s in (s', r))
     | Ok None \<Rightarrow> (s, Ok (response_new K (Err ENOSYS) (sqe_tag q)))
     | Err e \<Rightarrow> (s, Err e)
     | Panic \<Rightarrow> (s, Panic))"

section \<open>Sample values\<close>

text \<open>A memory with nothing mapped, a caller and an \<open>fsync\<close> request with tag 7, used to evaluate the model.\<close>

definition no_memory :: memory where
  "no_memory = \<lparr>mem_bytes = (\<lambda>p n. []), mem_stat = (\<lambda>p. default_stat),
     mem_statvfs = (\<lambda>p. \<lparr>f_bsize = 0, f_blocks = 0, f_bfree = 0, f_bavail = 0\<rparr>),
     mem_times = (\<lambda>p n. [])\<rparr>"

definition sample_ctx :: caller_ctx where
  "sample_ctx = \<lparr>ctx_pid = 1, ctx_uid = 0, ctx_gid = 0, ctx_id = 0\<rparr>"

definition sample_fsync :: sqe where
  "sample_fsync = \<lparr>sqe_opcode = 18, sqe_tag = 7, sqe_args = (0, 0, 0, 0, 0, 0), sqe_caller = 1\<rparr>"

section \<open>Tags are carried through\<close>

lemma into_tag_handle:
  "handle_sync_dont_consume K S ctx oper s = ((s', oper'), r) \<Longrightarrow> into_tag oper' = into_tag oper"
  by (cases oper) (auto split: prod.splits option.splits)

lemma into_tag_from_sqe:
  assumes "from_sqe_unchecked K M q = Ok (Some oper)"
  shows "into_tag oper = sqe_tag q"
proof -
  obtain a b c d e f where "sqe_args q = (a, b, c, d, e, f)" by (metis prod_cases6)
  with assms show ?thesis
    by (auto simp: from_sqe_unchecked_def Let_def split: if_splits option.splits opcode.splits)
qed

lemma from_sqe_not_Err: "from_sqe_unchecked K M q \<noteq> Err e"
proof -
  obtain a b c d e f where "sqe_args q = (a, b, c, d, e, f)" by (metis prod_cases6)
  then show ?thesis
    by (auto simp: from_sqe_unchecked_def Let_def split: if_splits option.splits opcode.splits)
qed

lemma ctx_id_caller [simp]: "ctx_id (caller q) = sqe_tag q"
  by (simp add: caller_def split: prod.splits)

lemma cqe_tag_open_dup_like [simp]: "cqe_tag (open_dup_like K r t) = t"
  by (auto simp: open_dup_like_def response_new_def with_extra_def return_external_fd_def
      return_external_multiple_fds_def split: outcome.splits open_result.splits)

lemma cqe_tag_response [simp]:
  "cqe_tag (response_new K r t) = t" "cqe_tag (response_err K e t) = t"
  "cqe_tag (response_of K resp t) = t"
  by (simp_all add: response_new_def response_err_def) (cases resp; simp add: response_new_def)

text \<open>A response carries the tag of the request it answers, for every scheme and operation.\<close>

lemma handle_sync_tag:
  assumes "handle_sync K M S q s = (s', Ok r)"
  shows "cqe_tag r = sqe_tag q"
proof (cases "from_sqe_unchecked K M q")
  case (Ok oo)
  show ?thesis
  proof (cases oo)
    case (Some oper)
    obtain s1 oper1 resp where
      h: "handle_sync_dont_consume K S (caller q) oper s = ((s1, oper1), resp)" by (metis surj_pair)
    then have "r = response_of K resp (into_tag oper1)"
      using assms Ok Some by (auto simp: handle_sync_def op_handle_sync_def split: if_splits)
    then show ?thesis
      using into_tag_handle [OF h] into_tag_from_sqe Ok Some by simp
  qed (use assms Ok in \<open>auto simp: handle_sync_def\<close>)
qed (use assms in \<open>simp_all add: handle_sync_def\<close>)

end
