(* ===== verification/Readiness.thy ===== *)
theory Readiness
  imports Scheme "HOL-Library.Multiset"
begin

text \<open>
  The readiness based request loop of \<open>redox-scheme/src/wrappers.rs\<close>. A request whose method
  answers \<open>EWOULDBLOCK\<close> is parked in \<open>states\<close> and polled again later; every other request is
  answered at once.

  The socket is a parameter: an operation that reads or writes it takes what the socket call
  returned. The order in which \<open>HashMap::keys\<close> yields the parked ids is an argument too.
\<close>

section \<open>The loop's state and operations\<close>

record readiness =
  requests_read :: "sqe list"
  responses_to_write :: "cqe list"
  states :: "u32 \<rightharpoonup> caller_ctx \<times> op"
  ready_queue :: "u32 list"

definition readiness_new :: readiness where
  "readiness_new = \<lparr>requests_read = [], responses_to_write = [], states = Map.empty,
     ready_queue = []\<rparr>"

definition push_response :: "cqe \<Rightarrow> readiness \<Rightarrow> readiness" where
  "push_response r h = h\<lparr>responses_to_write := responses_to_write h @ [r]\<rparr>"

definition park :: "caller_ctx \<Rightarrow> op \<Rightarrow> readiness \<Rightarrow> readiness" where
  "park ctx oper h = h\<lparr>states := (states h)(ctx_id ctx \<mapsto> (ctx, oper))\<rparr>"

text \<open>\<open>read_requests\<close>; \<open>io\<close> is what reading the socket gave.\<close>

definition rb_read_requests :: "sqe list outcome \<Rightarrow> readiness \<Rightarrow> readiness \<times> bool outcome" where
  "rb_read_requests io h =
     (if requests_read h \<noteq> [] then (h, Panic)
      else case io of
        Ok reqs \<Rightarrow>
          (let h' = h\<lparr>requests_read := requests_read h @ reqs\<rparr>
           in (h', Ok (requests_read h' \<noteq> [])))
      | Err e \<Rightarrow> if e \<in> {EINTR, EWOULDBLOCK, EAGAIN} then (h, Ok True) else (h, Err e)
      | Panic \<Rightarrow> (h, Panic))"

fun blocked :: "scheme_response \<Rightarrow> bool" where
  "blocked (Opened r) = (r = Err EWOULDBLOCK)"
| "blocked (Regular r) = (r = Err EWOULDBLOCK)"

text \<open>The body of the loop of \<open>process_requests\<close>.\<close>

definition process_request ::
  "abi \<Rightarrow> memory \<Rightarrow> 's scheme_sync \<Rightarrow> sqe \<Rightarrow> 's \<times> readiness \<Rightarrow> ('s \<times> readiness) \<times> unit outcome" where
  "process_request K M S q sh = (let (s, h) = sh in
     case kind K q of
       RkCall c \<Rightarrow>
         (case from_sqe_unchecked K M c of
            Ok (Some oper) \<Rightarrow>
              (let ((s', oper'), resp) = handle_sync_dont_consume K S (caller c) oper s in
               if panicked resp then ((s', h), Panic)
               else if blocked resp \<and> \<not> is_explicitly_nonblock K oper'
               then ((s', park (caller c) oper' h), Ok ())
               else ((s', push_response (response_of K resp (into_tag oper')) h), Ok ()))
          | Ok None \<Rightarrow> ((s, push_response (response_err K EOPNOTSUPP (sqe_tag c)) h), Ok ())
          | Err e \<Rightarrow> ((s, h), Err e)
          | Panic \<Rightarrow> ((s, h), Panic))
     | RkCancellation i \<Rightarrow>
         (case states h i of
            Some (ctx, oper) \<Rightarrow>
              ((s, push_response (response_err K ECANCELED (into_tag oper))
                     (h\<lparr>states := (states h)(i := None)\<rparr>)), Ok ())
          | None \<Rightarrow> ((s, h), Ok ()))
     | RkOnClose i \<Rightarrow> (let (s', r) = sc_on_close S i s in ((s', h), r))
     | RkSendFd c \<Rightarrow>
         (let (s', r) = sc_on_sendfd S c s in
          if r = Panic then ((s', h), Panic)
          else ((s', push_response (response_new K r (sqe_tag c)) h), Ok ()))
     | RkRecvFd c \<Rightarrow>
         (let (s', r) = sc_on_recvfd S c s in
          if r = Panic then ((s', h), Panic)
          else if r = Err EWOULDBLOCK then ((s', park (caller c) (OpRecvfd c) h), Ok ())
          else ((s', push_response (open_dup_like K r (sqe_tag c)) h), Ok ()))
     | _ \<Rightarrow> ((s, h), Ok ()))"

fun process_list ::
  "abi \<Rightarrow> memory \<Rightarrow> 's scheme_sync \<Rightarrow> sqe list \<Rightarrow> 's \<times> readiness \<Rightarrow> ('s \<times> readiness) \<times> unit outcome"
where
  "process_list K M S [] sh = (sh, Ok ())"
| "process_list K M S (q # qs) sh =
     (case process_request K M S q sh of
        (sh', Ok u) \<Rightarrow> process_list K M S qs sh'
      | (sh', Err e) \<Rightarrow> (sh', Err e)
      | (sh', Panic) \<Rightarrow> (sh', Panic))"

definition process_requests ::
  "abi \<Rightarrow> memory \<Rightarrow> 's scheme_sync \<Rightarrow> 's \<times> readiness \<Rightarrow> ('s \<times> readiness) \<times> unit outcome" where
  "process_requests K M S sh = (let (s, h) = sh in
     process_list K M S (requests_read h) (s, h\<lparr>requests_read := []\<rparr>))"

datatype control_flow = Continue caller_ctx op | Break cqe

definition poll_request_inner ::
  "abi \<Rightarrow> 's scheme_sync \<Rightarrow> u32 \<Rightarrow> 's \<times> readiness \<Rightarrow> ('s \<times> readiness) \<times> control_flow outcome" where
  "poll_request_inner K S i sh = (let (s, h) = sh in
     case states h i of
       None \<Rightarrow> ((s, h), Err EIO)
     | Some (ctx, oper) \<Rightarrow>
         (let h' = h\<lparr>states := (states h)(i := None)\<rparr>;
              ((s', oper'), resp) = handle_sync_dont_consume K S ctx oper s in
          if panicked resp then ((s', h'), Panic)
          else if blocked resp \<and> \<not> is_explicitly_nonblock K oper'
          then ((s', h'), Ok (Continue ctx oper'))
          else ((s', h'), Ok (Break (response_of K resp (into_tag oper'))))))"

text \<open>
  What \<open>poll_request\<close> and \<open>poll_ready_requests\<close> do with the result: an operation that still blocks
  goes back under the id it was taken from, any other is answered.
\<close>

definition poll_request ::
  "abi \<Rightarrow> 's scheme_sync \<Rightarrow> u32 \<Rightarrow> 's \<times> readiness \<Rightarrow> ('s \<times> readiness) \<times> bool outcome" where
  "poll_request K S i sh =
     (case poll_request_inner K S i sh of
        ((s', h'), Ok (Continue ctx oper)) \<Rightarrow>
          ((s', h'\<lparr>states := (states h')(i \<mapsto> (ctx, oper))\<rparr>), Ok False)
      | ((s', h'), Ok (Break resp)) \<Rightarrow> ((s', push_response resp h'), Ok True)
      | (sh', Err e) \<Rightarrow> (sh', Err e)
      | (sh', Panic) \<Rightarrow> (sh', Panic))"

fun poll_list ::
  "abi \<Rightarrow> 's scheme_sync \<Rightarrow> u32 list \<Rightarrow> 's \<times> readiness \<Rightarrow> ('s \<times> readiness) \<times> unit outcome" where
  "poll_list K S [] sh = (sh, Ok ())"
| "poll_list K S (i # is) sh =
     (case poll_request K S i sh of
        (sh', Ok b) \<Rightarrow> poll_list K S is sh'
      | (sh', Err e) \<Rightarrow> (sh', Err e)
      | (sh', Panic) \<Rightarrow> (sh', Panic))"

definition poll_ready_requests ::
  "abi \<Rightarrow> 's scheme_sync \<Rightarrow> 's \<times> readiness \<Rightarrow> ('s \<times> readiness) \<times> unit outcome" where
  "poll_ready_requests K S sh = (let (s, h) = sh in
     poll_list K S (ready_queue h) (s, h\<lparr>ready_queue := []\<rparr>))"

definition poll_all_requests ::
  "abi \<Rightarrow> 's scheme_sync \<Rightarrow> u32 list \<Rightarrow> 's \<times> readiness \<Rightarrow> ('s \<times> readiness) \<times> unit outcome" where
  "poll_all_requests K S keys sh = (let (s, h) = sh in
     poll_ready_requests K S (s, h\<lparr>ready_queue := keys\<rparr>))"

text \<open>\<open>write_responses\<close>; \<open>io\<close> is the number of responses the socket took.\<close>

definition rb_write_responses :: "nat outcome \<Rightarrow> readiness \<Rightarrow> readiness \<times> bool outcome" where
  "rb_write_responses io h = (case io of
       Ok n \<Rightarrow>
         if n \<le> length (responses_to_write h)
         then (h\<lparr>responses_to_write := drop n (responses_to_write h)\<rparr>, Ok True)
         else (h, Panic)
     | Err e \<Rightarrow> if e \<in> {EINTR, EWOULDBLOCK, EAGAIN} then (h, Ok True) else (h, Err e)
     | Panic \<Rightarrow> (h, Panic))"

section \<open>What the loop owes\<close>

text \<open>
  \<open>owed h\<close> is the multiset of tags that still have to reach the socket: those of the queued responses
  and those of the parked requests. \<open>readiness_wf\<close> says that a parked operation is stored under its
  own tag. \<open>reply_tags\<close> are the tags of the requests of a batch that a client waits on.
\<close>

definition owed :: "readiness \<Rightarrow> u32 multiset" where
  "owed h = mset (map cqe_tag (responses_to_write h)) + mset_set (dom (states h))"

definition readiness_wf :: "readiness \<Rightarrow> bool" where
  "readiness_wf h \<longleftrightarrow> (\<forall>t ctx oper. states h t = Some (ctx, oper) \<longrightarrow> into_tag oper = t)"

definition wants_reply :: "abi \<Rightarrow> sqe \<Rightarrow> bool" where
  "wants_reply K q = (case kind K q of RkCall _ \<Rightarrow> True | RkSendFd _ \<Rightarrow> True | RkRecvFd _ \<Rightarrow> True | _ \<Rightarrow> False)"

definition reply_tags :: "abi \<Rightarrow> sqe list \<Rightarrow> u32 list" where
  "reply_tags K qs = map sqe_tag (filter (wants_reply K) qs)"

section \<open>Processing and polling keep the account\<close>

lemma kind_sqe:
  "kind K q = RkCall c \<Longrightarrow> c = q" "kind K q = RkSendFd c \<Longrightarrow> c = q" "kind K q = RkRecvFd c \<Longrightarrow> c = q"
  by (auto simp: kind_def split: option.splits opcode.splits)

lemma states_push_response [simp]: "states (push_response r h) = states h"
  and responses_push_response [simp]:
    "responses_to_write (push_response r h) = responses_to_write h @ [r]"
  and readiness_wf_push_response [simp]: "readiness_wf (push_response r h) = readiness_wf h"
  and owed_push_response [simp]: "owed (push_response r h) = add_mset (cqe_tag r) (owed h)"
  by (simp_all add: push_response_def owed_def readiness_wf_def)

lemma states_park [simp]: "states (park ctx oper h) = (states h)(ctx_id ctx \<mapsto> (ctx, oper))"
  and responses_park [simp]: "responses_to_write (park ctx oper h) = responses_to_write h"
  by (simp_all add: park_def)

lemma park_owed:
  assumes "readiness_wf h" "states h (ctx_id ctx) = None" "into_tag oper = ctx_id ctx"
  shows "owed (park ctx oper h) = add_mset (ctx_id ctx) (owed h)" "readiness_wf (park ctx oper h)"
  using assms by (auto simp: owed_def readiness_wf_def domIff)

lemma unpark_owed:
  assumes "readiness_wf h" "states h t = Some e"
  shows "add_mset t (owed (h\<lparr>states := (states h)(t := None)\<rparr>)) = owed h"
    "readiness_wf (h\<lparr>states := (states h)(t := None)\<rparr>)"
proof -
  have "dom (states h) = insert t (dom (states h) - {t})" using assms(2) by auto
  then have "mset_set (dom (states h)) = add_mset t (mset_set (dom (states h) - {t}))"
    by (metis Diff_iff finite mset_set.insert singletonI)
  then show "add_mset t (owed (h\<lparr>states := (states h)(t := None)\<rparr>)) = owed h"
    by (simp add: owed_def dom_fun_upd)
  show "readiness_wf (h\<lparr>states := (states h)(t := None)\<rparr>)"
    using assms(1) by (auto simp: readiness_wf_def)
qed

lemma process_request_owed:
  assumes wf: "readiness_wf h"
    and fresh: "wants_reply K q \<Longrightarrow> states h (sqe_tag q) = None"
    and run: "process_request K M S q (s, h) = ((s', h'), Ok u)"
  shows "owed h' = owed h + mset (reply_tags K [q])" (is ?owed)
    and "readiness_wf h'" (is ?wf)
    and "dom (states h') \<subseteq> dom (states h) \<union> set (reply_tags K [q])" (is ?dom)
proof -
  note defs = process_request_def reply_tags_def wants_reply_def park_owed into_tag_from_sqe
  have "?owed \<and> ?wf \<and> ?dom"
  proof (cases "kind K q")
    case (RkCall c)
    then have c: "c = q" by (rule kind_sqe)
    have tag: "states h (sqe_tag q) = None"
      using fresh RkCall by (simp add: wants_reply_def)
    show ?thesis
    proof (cases "from_sqe_unchecked K M q")
      case (Ok oo)
      show ?thesis
      proof (cases oo)
        case None
        with Ok run RkCall c wf show ?thesis by (auto simp: defs)
      next
        case (Some oper)
        obtain s1 oper1 resp where
          h: "handle_sync_dont_consume K S (caller q) oper s = ((s1, oper1), resp)"
          by (metis surj_pair)
        have t1: "into_tag oper1 = sqe_tag q"
          using into_tag_handle [OF h] into_tag_from_sqe Ok Some by simp
        from run RkCall c Ok Some h have
          "h' = park (caller q) oper1 h \<or>
           h' = push_response (response_of K resp (into_tag oper1)) h"
          by (auto simp: defs split: if_splits)
        then show ?thesis
          using t1 wf tag RkCall by (auto simp: defs)
      qed
    next
      case (Err e)
      then show ?thesis using from_sqe_not_Err by metis
    next
      case Panic
      with run RkCall c show ?thesis by (simp add: defs)
    qed
  next
    case (RkCancellation i)
    show ?thesis
    proof (cases "states h i")
      case None
      with run RkCancellation wf show ?thesis by (simp add: defs)
    next
      case (Some e)
      obtain ctx oper where e: "e = (ctx, oper)" by (cases e)
      have i: "into_tag oper = i" using wf Some e by (auto simp: readiness_wf_def)
      have h': "h' = push_response (response_err K ECANCELED (into_tag oper))
                       (h\<lparr>states := (states h)(i := None)\<rparr>)"
        using run RkCancellation Some e by (simp add: defs)
      show ?thesis
        using unpark_owed [OF wf Some] RkCancellation i by (auto simp: h' defs)
    qed
  next
    case (RkRecvFd c)
    then have c: "c = q" by (rule kind_sqe)
    have tag: "states h (sqe_tag q) = None"
      using fresh RkRecvFd by (simp add: wants_reply_def)
    from run RkRecvFd c obtain r where
      "h' = park (caller q) (OpRecvfd q) h \<or> h' = push_response (open_dup_like K r (sqe_tag q)) h"
      by (auto simp: defs split: if_splits prod.splits)
    then show ?thesis using wf tag RkRecvFd by (auto simp: defs)
  next
    case (RkSendFd c)
    then have c: "c = q" by (rule kind_sqe)
    from run RkSendFd c obtain r where "h' = push_response (response_new K r (sqe_tag q)) h"
      by (auto simp: defs split: if_splits prod.splits)
    then show ?thesis using wf RkSendFd by (auto simp: defs)
  qed (use run wf in \<open>auto simp: defs split: prod.splits\<close>)
  then show ?owed ?wf ?dom by simp_all
qed

lemma process_list_owed:
  assumes "readiness_wf h" "distinct (reply_tags K qs)"
    and "set (reply_tags K qs) \<inter> dom (states h) = {}"
    and "process_list K M S qs (s, h) = ((s', h'), Ok u)"
  shows "owed h' = owed h + mset (reply_tags K qs) \<and> readiness_wf h'"
  using assms
proof (induction qs arbitrary: s h)
  case Nil
  then show ?case by (simp add: reply_tags_def)
next
  case (Cons q qs)
  from Cons.prems(4) obtain s1 h1 v where
    one: "process_request K M S q (s, h) = ((s1, h1), Ok v)" and
    rest: "process_list K M S qs (s1, h1) = ((s', h'), Ok u)"
    by (auto split: prod.splits outcome.splits)
  have tags: "reply_tags K (q # qs) = reply_tags K [q] @ reply_tags K qs"
    by (simp add: reply_tags_def)
  have fresh: "wants_reply K q \<Longrightarrow> states h (sqe_tag q) = None"
    using Cons.prems(3) by (auto simp: reply_tags_def)
  note step = process_request_owed [OF Cons.prems(1) fresh one]
  have "owed h' = owed h1 + mset (reply_tags K qs) \<and> readiness_wf h'"
  proof (rule Cons.IH [OF step(2) _ _ rest])
    show "distinct (reply_tags K qs)" using Cons.prems(2) by (simp add: tags)
    show "set (reply_tags K qs) \<inter> dom (states h1) = {}"
      using Cons.prems(2,3) step(3) unfolding tags distinct_append set_append by blast
  qed
  then show ?case by (simp add: tags step(1))
qed

lemma poll_request_owed:
  assumes wf: "readiness_wf h" and run: "poll_request K S i (s, h) = ((s', h'), Ok b)"
  shows "owed h' = owed h \<and> readiness_wf h' \<and> dom (states h) - {i} \<subseteq> dom (states h')"
proof -
  obtain ctx oper where st: "states h i = Some (ctx, oper)"
    using run by (cases "states h i") (auto simp: poll_request_def poll_request_inner_def)
  obtain s1 oper1 resp where
    h: "handle_sync_dont_consume K S ctx oper s = ((s1, oper1), resp)" by (metis surj_pair)
  have t1: "into_tag oper1 = i"
    using into_tag_handle [OF h] wf st by (auto simp: readiness_wf_def)
  let ?h = "h\<lparr>states := (states h)(i := None)\<rparr>"
  note un = unpark_owed [OF wf st]
  from run st h have "h' = ?h\<lparr>states := (states ?h)(i \<mapsto> (ctx, oper1))\<rparr> \<or>
      h' = push_response (response_of K resp (into_tag oper1)) ?h"
    by (auto simp: poll_request_def poll_request_inner_def Let_def split: if_splits)
  then show ?thesis
  proof
    assume h': "h' = ?h\<lparr>states := (states ?h)(i \<mapsto> (ctx, oper1))\<rparr>"
    have "dom (states h') = dom (states h)" using st by (auto simp: h')
    moreover have "responses_to_write h' = responses_to_write h" by (simp add: h')
    moreover have "readiness_wf h'" using wf t1 by (auto simp: h' readiness_wf_def)
    ultimately show ?thesis by (auto simp: owed_def)
  next
    assume "h' = push_response (response_of K resp (into_tag oper1)) ?h"
    then show ?thesis using un t1 by auto
  qed
qed

lemma poll_list_owed:
  assumes "readiness_wf h" and "poll_list K S is (s, h) = ((s', h'), Ok u)"
  shows "owed h' = owed h \<and> readiness_wf h'"
  using assms
proof (induction "is" arbitrary: s h)
  case (Cons i "is")
  then obtain s1 h1 b where one: "poll_request K S i (s, h) = ((s1, h1), Ok b)" and
    rest: "poll_list K S is (s1, h1) = ((s', h'), Ok u)"
    by (auto split: prod.splits outcome.splits)
  with Cons.IH poll_request_owed [OF Cons.prems(1) one] show ?case by metis
qed simp

lemma poll_list_no_error:
  assumes "readiness_wf h" "distinct keys" "set keys \<subseteq> dom (states h)"
    and "poll_list K S keys (s, h) = (sh', r)"
  shows "r \<noteq> Err e"
  using assms
proof (induction keys arbitrary: s h)
  case (Cons i keys)
  obtain s1 h1 r1 where one: "poll_request K S i (s, h) = ((s1, h1), r1)" by (metis surj_pair)
  have "r1 \<noteq> Err e" for e
    using one Cons.prems(3)
    by (auto simp: poll_request_def poll_request_inner_def Let_def
        split: option.splits prod.splits if_splits outcome.splits control_flow.splits)
  with one Cons.prems(4) consider "r = Panic" | b where "r1 = Ok b" "poll_list K S keys (s1, h1) = (sh', r)"
    by (cases r1) auto
  then show ?case
  proof cases
    case 2
    with poll_request_owed [OF Cons.prems(1)] one Cons.prems
    have "readiness_wf h1" "set keys \<subseteq> dom (states h1)" by fastforce+
    with Cons.IH 2 Cons.prems(2) show ?thesis by auto
  qed simp
qed auto

text \<open>
  \<open>poll_all_requests\<close> never fails with an error: whatever order the parked ids come in,
  each of them is still parked when its turn comes, so the \<open>EIO\<close> branch of
  \<open>poll_request_inner\<close> is not taken.
\<close>

lemma poll_all_no_error:
  assumes "readiness_wf h" "distinct keys" "set keys = dom (states h)"
  shows "snd (poll_all_requests K S keys (s, h)) \<noteq> Err e"
proof -
  obtain sh' r where
    "poll_list K S keys (s, h\<lparr>ready_queue := []\<rparr>) = (sh', r)" by (metis surj_pair)
  with poll_list_no_error [of "h\<lparr>ready_queue := []\<rparr>" keys K S s sh' r] assms show ?thesis
    by (simp add: poll_all_requests_def poll_ready_requests_def readiness_wf_def)
qed

end
