(* ===== verification/Scheme_Contract.thy ===== *)
theory Scheme_Contract
  imports Readiness
begin

text \<open>
  The interface between the request loops and the daemons. \<open>scheme_contract\<close> is what a loop relies
  on: dispatching an operation, closing a handle and receiving a descriptor keep the scheme's
  invariant. \<open>scheme_methods\<close> is what a daemon proves, one law per method of \<open>SchemeSync\<close>; it gives
  the first by the case distinction of the dispatcher, once for all daemons.
\<close>

section \<open>The contract of a scheme\<close>

locale scheme_contract =
  fixes K :: abi and S :: "'s scheme_sync" and I :: "'s \<Rightarrow> bool"
  assumes handle_keeps:
    "I s \<Longrightarrow> handle_sync_dont_consume K S ctx oper s = ((s', oper'), r) \<Longrightarrow> \<not> panicked r \<Longrightarrow> I s'"
    and close_keeps: "I s \<Longrightarrow> sc_on_close S i s = (s', rc) \<Longrightarrow> rc \<noteq> Panic \<Longrightarrow> I s'"
    and sendfd_keeps: "I s \<Longrightarrow> sc_on_sendfd S q s = (s', r') \<Longrightarrow> r' \<noteq> Panic \<Longrightarrow> I s'"
begin

lemma recvfd_keeps:
  assumes "I s" "sc_on_recvfd S q s = (s', r)" "r \<noteq> Panic"
  shows "I s'"
  using handle_keeps [of s ctx "OpRecvfd q"] assms by auto

lemma handle_sync_keeps:
  assumes "I s" and run: "handle_sync K M S q s = (s', Ok r)"
  shows "I s'"
proof (cases "from_sqe_unchecked K M q")
  case (Ok oo)
  show ?thesis
  proof (cases oo)
    case (Some oper)
    obtain s1 oper1 resp where
      h: "handle_sync_dont_consume K S (caller q) oper s = ((s1, oper1), resp)" by (metis surj_pair)
    then have "s' = s1" "\<not> panicked resp"
      using run Ok Some by (auto simp: handle_sync_def op_handle_sync_def split: if_splits)
    with handle_keeps [OF assms(1) h] show ?thesis by simp
  qed (use run Ok assms(1) in \<open>simp add: handle_sync_def\<close>)
qed (use run in \<open>simp_all add: handle_sync_def\<close>)

lemma process_request_keeps:
  assumes "I s" and run: "process_request K M S q (s, h) = ((s', h'), Ok u)"
  shows "I s'"
proof (cases "kind K q")
  case (RkCall c)
  show ?thesis
  proof (cases "from_sqe_unchecked K M c")
    case (Ok oo)
    show ?thesis
    proof (cases oo)
      case (Some oper)
      obtain s1 oper1 resp where
        h: "handle_sync_dont_consume K S (caller c) oper s = ((s1, oper1), resp)"
        by (metis surj_pair)
      then have "s' = s1" "\<not> panicked resp"
        using run RkCall Ok Some by (auto simp: process_request_def split: if_splits)
      with handle_keeps [OF assms(1) h] show ?thesis by simp
    qed (use run RkCall Ok assms(1) in \<open>simp add: process_request_def\<close>)
  qed (use run RkCall in \<open>simp_all add: process_request_def\<close>)
next
  case (RkRecvFd c)
  obtain s1 r where "sc_on_recvfd S c s = (s1, r)" by (metis surj_pair)
  with recvfd_keeps [OF assms(1)] run RkRecvFd show ?thesis
    by (auto simp: process_request_def split: if_splits)
next
  case (RkSendFd c)
  obtain s1 r where "sc_on_sendfd S c s = (s1, r)" by (metis surj_pair)
  with sendfd_keeps [OF assms(1)] run RkSendFd show ?thesis
    by (auto simp: process_request_def split: if_splits)
next
  case (RkOnClose i)
  obtain s1 r where "sc_on_close S i s = (s1, r)" by (metis surj_pair)
  with close_keeps [OF assms(1)] run RkOnClose show ?thesis
    by (auto simp: process_request_def)
qed (use run assms(1) in \<open>auto simp: process_request_def split: option.splits\<close>)

lemma process_list_keeps:
  assumes "I s" "process_list K M S qs (s, h) = ((s', h'), Ok u)"
  shows "I s'"
  using assms
proof (induction qs arbitrary: s h)
  case (Cons q qs)
  then obtain s1 h1 v where one: "process_request K M S q (s, h) = ((s1, h1), Ok v)"
    and rest: "process_list K M S qs (s1, h1) = ((s', h'), Ok u)"
    by (auto split: prod.splits outcome.splits)
  from Cons.IH [OF process_request_keeps [OF Cons.prems(1) one] rest] show ?case .
qed simp

lemma poll_request_keeps:
  assumes "I s" and run: "poll_request K S i (s, h) = ((s', h'), Ok b)"
  shows "I s'"
proof (cases "states h i")
  case (Some e)
  obtain ctx oper where e: "e = (ctx, oper)" by (cases e)
  obtain s1 oper1 resp where
    h: "handle_sync_dont_consume K S ctx oper s = ((s1, oper1), resp)" by (metis surj_pair)
  then have "s' = s1" "\<not> panicked resp"
    using run Some e
    by (auto simp: poll_request_def poll_request_inner_def Let_def split: if_splits)
  with handle_keeps [OF assms(1) h] show ?thesis by simp
qed (use run in \<open>simp add: poll_request_def poll_request_inner_def\<close>)

lemma poll_list_keeps:
  assumes "I s" "poll_list K S is (s, h) = ((s', h'), Ok u)"
  shows "I s'"
  using assms
proof (induction "is" arbitrary: s h)
  case (Cons i "is")
  then obtain s1 h1 b where one: "poll_request K S i (s, h) = ((s1, h1), Ok b)"
    and rest: "poll_list K S is (s1, h1) = ((s', h'), Ok u)"
    by (auto split: prod.splits outcome.splits)
  from Cons.IH [OF poll_request_keeps [OF Cons.prems(1) one] rest] show ?case .
qed simp

end

definition keeps :: "('s \<Rightarrow> bool) \<Rightarrow> ('s \<Rightarrow> 's \<times> 'a outcome) \<Rightarrow> bool" where
  "keeps I m \<longleftrightarrow> (\<forall>s s' r. I s \<longrightarrow> m s = (s', r) \<longrightarrow> r \<noteq> Panic \<longrightarrow> I s')"

definition keeps_with :: "('s \<Rightarrow> bool) \<Rightarrow> ('s \<Rightarrow> ('s \<times> 'b) \<times> 'a outcome) \<Rightarrow> bool" where
  "keeps_with I m \<longleftrightarrow> (\<forall>s s' b r. I s \<longrightarrow> m s = ((s', b), r) \<longrightarrow> r \<noteq> Panic \<longrightarrow> I s')"

lemma keepsD: "keeps I m \<Longrightarrow> m s = (s', r) \<Longrightarrow> I s \<Longrightarrow> r \<noteq> Panic \<Longrightarrow> I s'"
  by (auto simp: keeps_def)

lemma keeps_withD: "keeps_with I m \<Longrightarrow> m s = ((s', b), r) \<Longrightarrow> I s \<Longrightarrow> r \<noteq> Panic \<Longrightarrow> I s'"
  by (auto simp: keeps_with_def)

lemma keepsI: "(\<And>s s' r. I s \<Longrightarrow> m s = (s', r) \<Longrightarrow> r \<noteq> Panic \<Longrightarrow> I s') \<Longrightarrow> keeps I m"
  by (auto simp: keeps_def)

lemma keeps_withI:
  "(\<And>s s' b r. I s \<Longrightarrow> m s = ((s', b), r) \<Longrightarrow> r \<noteq> Panic \<Longrightarrow> I s') \<Longrightarrow> keeps_with I m"
  by (auto simp: keeps_with_def)

lemma keeps_const [simp]: "keeps I (\<lambda>s. (s, r))" "keeps_with I (\<lambda>s. ((s, b), r))"
  by (simp_all add: keeps_def keeps_with_def)

locale scheme_methods =
  fixes S :: "'s scheme_sync" and I :: "'s \<Rightarrow> bool"
  assumes open_keeps: "keeps I (sc_open S path flags ctx)"
    and openat_keeps: "keeps I (sc_openat S fd path flags ff ctx)"
    and rmdir_keeps: "keeps I (sc_rmdir S path ctx)"
    and unlink_keeps: "keeps I (sc_unlink S path ctx)"
    and unlinkat_keeps: "keeps I (sc_unlinkat S fd path flags ctx)"
    and dup_keeps: "keeps I (sc_dup S fd buf ctx)"
    and read_keeps: "keeps_with I (sc_read S fd buf off ff ctx)"
    and write_keeps: "keeps I (sc_write S fd buf off ff ctx)"
    and fsize_keeps: "keeps I (sc_fsize S fd ctx)"
    and fchmod_keeps: "keeps I (sc_fchmod S fd mode ctx)"
    and fchown_keeps: "keeps I (sc_fchown S fd uid gid ctx)"
    and fcntl_keeps: "keeps I (sc_fcntl S fd cmd arg ctx)"
    and fevent_keeps: "keeps I (sc_fevent S fd evflags ctx)"
    and flink_keeps: "keeps I (sc_flink S fd path ctx)"
    and fpath_keeps: "keeps_with I (sc_fpath S fd buf ctx)"
    and frename_keeps: "keeps I (sc_frename S fd path ctx)"
    and fstat_keeps: "keeps_with I (sc_fstat S fd st ctx)"
    and fstatvfs_keeps: "keeps_with I (sc_fstatvfs S fd stv ctx)"
    and fsync_keeps: "keeps I (sc_fsync S fd ctx)"
    and ftruncate_keeps: "keeps I (sc_ftruncate S fd len ctx)"
    and futimens_keeps: "keeps I (sc_futimens S fd ts ctx)"
    and call_keeps: "keeps_with I (sc_call S fd buf metadata ctx)"
    and getdents_keeps: "keeps_with I (sc_getdents S fd db off)"
    and mmap_prep_keeps: "keeps I (sc_mmap_prep S fd off len mflags ctx)"
    and munmap_keeps: "keeps I (sc_munmap S fd off len mflags ctx)"
    and on_close_keeps: "keeps I (sc_on_close S fd)"
    and on_sendfd_keeps: "keeps I (sc_on_sendfd S q)"
    and on_recvfd_keeps: "keeps I (sc_on_recvfd S q)"
begin

lemmas method_keepsD =
  open_keeps [THEN keepsD]
  openat_keeps [THEN keepsD]
  rmdir_keeps [THEN keepsD]
  unlink_keeps [THEN keepsD]
  unlinkat_keeps [THEN keepsD]
  dup_keeps [THEN keepsD]
  write_keeps [THEN keepsD]
  fsize_keeps [THEN keepsD]
  fchmod_keeps [THEN keepsD]
  fchown_keeps [THEN keepsD]
  fcntl_keeps [THEN keepsD]
  fevent_keeps [THEN keepsD]
  flink_keeps [THEN keepsD]
  frename_keeps [THEN keepsD]
  fsync_keeps [THEN keepsD]
  ftruncate_keeps [THEN keepsD]
  futimens_keeps [THEN keepsD]
  mmap_prep_keeps [THEN keepsD]
  munmap_keeps [THEN keepsD]
  on_recvfd_keeps [THEN keepsD]
  read_keeps [THEN keeps_withD]
  fpath_keeps [THEN keeps_withD]
  fstat_keeps [THEN keeps_withD]
  fstatvfs_keeps [THEN keeps_withD]
  call_keeps [THEN keeps_withD]
  getdents_keeps [THEN keeps_withD]

lemma dispatch_keeps:
  assumes "I s" "handle_sync_dont_consume K S ctx oper s = ((s', oper'), r)" "\<not> panicked r"
  shows "I s'"
  using assms by (cases oper) (auto split: prod.splits option.splits dest: method_keepsD)

end

sublocale scheme_methods \<subseteq> scheme_contract K S I for K
  by unfold_locales
    (auto dest: dispatch_keeps on_close_keeps [THEN keepsD] on_sendfd_keeps [THEN keepsD])

text \<open>
  A scheme that answers: an invariant with a budget, so that \<open>n\<close> more requests can be served, and the
  operations it can answer. None of them panics.
\<close>

locale scheme_total =
  fixes S :: "'s scheme_sync" and J :: "nat \<Rightarrow> 's \<Rightarrow> bool" and answers :: "op \<Rightarrow> bool"
  assumes dispatch_total: "J (Suc n) s \<Longrightarrow> answers oper \<Longrightarrow> handle_sync_dont_consume K S ctx oper s = ((s', oper'), r) \<Longrightarrow>
      \<not> panicked r \<and> J n s'"
    and on_close_total: "J (Suc n) s \<Longrightarrow> sc_on_close S i s = (s', rc) \<Longrightarrow> rc = Ok () \<and> J n s'"
    and spare: "J (Suc n) s \<Longrightarrow> J n s"
begin

lemma handle_sync_total:
  assumes "J (Suc n) s" "from_sqe_unchecked K M q = Ok oo" "pred_option answers oo"
  obtains s' r where "handle_sync K M S q s = (s', Ok r)" "J n s'"
proof (cases oo)
  case (Some oper)
  obtain s1 oper1 resp where
    h: "handle_sync_dont_consume K S (caller q) oper s = ((s1, oper1), resp)" by (metis surj_pair)
  with dispatch_total [OF assms(1) _ h] that assms(2,3) Some show ?thesis
    by (auto simp: handle_sync_def op_handle_sync_def)
qed (use that assms spare in \<open>simp add: handle_sync_def\<close>)

end

end
