(* ===== verification/Event_Loop.thy ===== *)
theory Event_Loop
  imports Scheme_Contract
begin

text \<open>
  The event loop of a daemon that uses \<open>ReadinessBased\<close> (\<open>ptyd/src/main.rs\<close> and \<open>ipcd/src/main.rs\<close>
  run it): a step relation over the loop's state with two ghost fields, the tags submitted by the
  kernel and the tags of the responses written back. A read step assumes what the kernel
  guarantees: the tags of new requests are distinct and none of them is in flight.
\<close>

record 's loop =
  lp_scheme :: 's
  lp_handler :: readiness
  lp_submitted :: "u32 multiset"
  lp_written :: "u32 multiset"

definition loop_start :: "'s \<Rightarrow> 's loop" where
  "loop_start s0 = \<lparr>lp_scheme = s0, lp_handler = readiness_new, lp_submitted = {#}, lp_written = {#}\<rparr>"

inductive loop_step :: "abi \<Rightarrow> memory \<Rightarrow> 's scheme_sync \<Rightarrow> 's loop \<Rightarrow> 's loop \<Rightarrow> bool"
  for K :: abi and M :: memory and S :: "'s scheme_sync" where
  loop_read:
    "rb_read_requests (Ok reqs) (lp_handler l) = (h', Ok b) \<Longrightarrow>
     distinct (reply_tags K reqs) \<Longrightarrow>
     set (reply_tags K reqs) \<inter> set_mset (lp_submitted l - lp_written l) = {} \<Longrightarrow>
     loop_step K M S l (l\<lparr>lp_handler := h', lp_submitted := lp_submitted l + mset (reply_tags K reqs)\<rparr>)"
| loop_process:
    "process_requests K M S (lp_scheme l, lp_handler l) = ((s', h'), Ok ()) \<Longrightarrow>
     loop_step K M S l (l\<lparr>lp_scheme := s', lp_handler := h'\<rparr>)"
| loop_poll:
    "distinct keys \<Longrightarrow> set keys = dom (states (lp_handler l)) \<Longrightarrow>
     poll_all_requests K S keys (lp_scheme l, lp_handler l) = ((s', h'), Ok ()) \<Longrightarrow>
     loop_step K M S l (l\<lparr>lp_scheme := s', lp_handler := h'\<rparr>)"
| loop_write:
    "rb_write_responses (Ok n) (lp_handler l) = (h', Ok b) \<Longrightarrow>
     loop_step K M S l (l\<lparr>lp_handler := h',
       lp_written := lp_written l + mset (map cqe_tag (take n (responses_to_write (lp_handler l))))\<rparr>)"

inductive loop_reachable :: "abi \<Rightarrow> memory \<Rightarrow> 's scheme_sync \<Rightarrow> 's \<Rightarrow> 's loop \<Rightarrow> bool"
  for K :: abi and M :: memory and S :: "'s scheme_sync" and s0 :: 's where
  loop_init: "loop_reachable K M S s0 (loop_start s0)"
| loop_next: "loop_reachable K M S s0 l \<Longrightarrow> loop_step K M S l l' \<Longrightarrow> loop_reachable K M S s0 l'"

definition in_flight :: "abi \<Rightarrow> readiness \<Rightarrow> u32 multiset" where
  "in_flight K h = owed h + mset (reply_tags K (requests_read h))"

definition loop_inv :: "abi \<Rightarrow> 's loop \<Rightarrow> bool" where
  "loop_inv K l \<longleftrightarrow> readiness_wf (lp_handler l) \<and>
     lp_submitted l = lp_written l + in_flight K (lp_handler l) \<and>
     (\<forall>t. count (in_flight K (lp_handler l)) t \<le> 1)"

lemma requests_read_push_response [simp]: "requests_read (push_response r h) = requests_read h"
  and requests_read_park [simp]: "requests_read (park ctx oper h) = requests_read h"
  by (simp_all add: push_response_def park_def)

lemma process_request_frame:
  "process_request K M S q (s, h) = ((s', h'), r) \<Longrightarrow> requests_read h' = requests_read h"
  by (auto simp: process_request_def Let_def
      split: request_kind.splits outcome.splits option.splits prod.splits if_splits)

lemma process_list_frame:
  "process_list K M S qs (s, h) = ((s', h'), r) \<Longrightarrow> requests_read h' = requests_read h"
proof (induction qs arbitrary: s h)
  case (Cons q qs)
  then show ?case
    by (auto split: prod.splits outcome.splits dest!: process_request_frame Cons.IH)
qed simp

lemma poll_request_frame:
  "poll_request K S i (s, h) = ((s', h'), r) \<Longrightarrow> requests_read h' = requests_read h"
  by (auto simp: poll_request_def poll_request_inner_def Let_def
      split: option.splits prod.splits if_splits outcome.splits control_flow.splits)

lemma poll_list_frame:
  "poll_list K S is (s, h) = ((s', h'), r) \<Longrightarrow> requests_read h' = requests_read h"
proof (induction "is" arbitrary: s h)
  case (Cons i "is")
  then show ?case
    by (auto split: prod.splits outcome.splits dest!: poll_request_frame Cons.IH)
qed simp

lemma in_flight_at_most_once:
  assumes "\<And>t. count (in_flight K h) t \<le> 1"
  shows "distinct (reply_tags K (requests_read h))"
    and "set (reply_tags K (requests_read h)) \<inter> dom (states h) = {}"
proof -
  have two: "count (owed h) t + count (mset (reply_tags K (requests_read h))) t \<le> 1" for t
    using assms [of t] by (simp add: in_flight_def)
  show "distinct (reply_tags K (requests_read h))"
    unfolding distinct_count_atmost_1
  proof (intro allI)
    fix t
    have "count (mset (reply_tags K (requests_read h))) t \<le> 1" using two [of t] by linarith
    moreover have "count (mset (reply_tags K (requests_read h))) t = 0 \<longleftrightarrow>
        t \<notin> set (reply_tags K (requests_read h))" by (rule count_mset_0_iff)
    ultimately show "count (mset (reply_tags K (requests_read h))) t =
        (if t \<in> set (reply_tags K (requests_read h)) then 1 else 0)"
      by (metis le_eq_less_or_eq less_one)
  qed
  show "set (reply_tags K (requests_read h)) \<inter> dom (states h) = {}"
  proof (intro equals0I)
    fix t assume t: "t \<in> set (reply_tags K (requests_read h)) \<inter> dom (states h)"
    then have "0 < count (mset (reply_tags K (requests_read h))) t" by simp
    moreover have "0 < count (owed h) t" using t by (simp add: owed_def)
    ultimately show False using two [of t] by linarith
  qed
qed

lemma loop_step_inv:
  assumes "loop_step K M S l l'" "loop_inv K l"
  shows "loop_inv K l'"
  using assms
proof (induction rule: loop_step.induct)
  case (loop_read reqs l h' b)
  let ?h = "lp_handler l"
  from loop_read(1) have unread: "requests_read ?h = []"
    and h': "h' = ?h\<lparr>requests_read := reqs\<rparr>"
    by (auto simp: rb_read_requests_def Let_def split: if_splits)
  have fl: "in_flight K h' = in_flight K ?h + mset (reply_tags K reqs)"
    using unread by (simp add: h' in_flight_def owed_def reply_tags_def)
  have "lp_submitted l - lp_written l = in_flight K ?h"
    using loop_read.prems by (simp add: loop_inv_def)
  with loop_read(3) have dis: "set (reply_tags K reqs) \<inter> set_mset (in_flight K ?h) = {}" by simp
  have "count (in_flight K h') t \<le> 1" for t
  proof (cases "t \<in> set (reply_tags K reqs)")
    case True
    then have "count (in_flight K ?h) t = 0" using dis by (auto simp: not_in_iff)
    moreover have "count (mset (reply_tags K reqs)) t = 1"
      using True loop_read(2) by (simp add: distinct_count_atmost_1)
    ultimately show ?thesis by (simp add: fl)
  next
    case False
    then have "count (mset (reply_tags K reqs)) t = 0" by (simp only: count_mset_0_iff not_False_eq_True)
    moreover have "count (in_flight K ?h) t \<le> 1" using loop_read.prems by (simp add: loop_inv_def)
    ultimately show ?thesis unfolding fl count_union by linarith
  qed
  moreover have "readiness_wf h'"
    using loop_read.prems by (simp add: h' loop_inv_def readiness_wf_def)
  ultimately show ?case
    using loop_read.prems fl by (simp add: loop_inv_def)
next
  case (loop_process l s' h')
  let ?h = "lp_handler l"
  have one: "count (in_flight K ?h) t \<le> 1" for t
    using loop_process.prems by (simp add: loop_inv_def)
  have run: "process_list K M S (requests_read ?h) (lp_scheme l, ?h\<lparr>requests_read := []\<rparr>)
      = ((s', h'), Ok ())"
    using loop_process(1) by (simp add: process_requests_def)
  have "owed (?h\<lparr>requests_read := []\<rparr>) = owed ?h" "readiness_wf (?h\<lparr>requests_read := []\<rparr>)"
    "set (reply_tags K (requests_read ?h)) \<inter> dom (states (?h\<lparr>requests_read := []\<rparr>)) = {}"
    using loop_process.prems in_flight_at_most_once(2) [OF one]
    by (simp_all add: owed_def loop_inv_def readiness_wf_def)
  with process_list_owed [OF _ in_flight_at_most_once(1) [OF one] _ run]
  have "in_flight K h' = in_flight K ?h" "readiness_wf h'"
    using process_list_frame [OF run] by (simp_all add: in_flight_def reply_tags_def)
  with loop_process.prems show ?case by (simp add: loop_inv_def)
next
  case (loop_poll keys l s' h')
  let ?h = "lp_handler l"
  have run: "poll_list K S keys (lp_scheme l, ?h\<lparr>ready_queue := []\<rparr>) = ((s', h'), Ok ())"
    using loop_poll(3) by (simp add: poll_all_requests_def poll_ready_requests_def)
  have "readiness_wf (?h\<lparr>ready_queue := []\<rparr>)" "owed (?h\<lparr>ready_queue := []\<rparr>) = owed ?h"
    using loop_poll.prems by (simp_all add: loop_inv_def readiness_wf_def owed_def)
  with poll_list_owed [OF _ run] poll_list_frame [OF run]
  have "in_flight K h' = in_flight K ?h" "readiness_wf h'" by (simp_all add: in_flight_def)
  with loop_poll.prems show ?case by (simp add: loop_inv_def)
next
  case (loop_write n l h' b)
  let ?h = "lp_handler l"
  let ?out = "mset (map cqe_tag (take n (responses_to_write ?h)))"
  from loop_write(1) have h': "h' = ?h\<lparr>responses_to_write := drop n (responses_to_write ?h)\<rparr>"
    by (auto simp: rb_write_responses_def split: if_splits)
  have "mset (map cqe_tag (responses_to_write ?h)) =
      ?out + mset (map cqe_tag (drop n (responses_to_write ?h)))"
    by (metis append_take_drop_id map_append mset_append)
  then have fl: "in_flight K ?h = ?out + in_flight K h'"
    by (simp add: h' in_flight_def owed_def)
  then have "count (in_flight K h') t \<le> count (in_flight K ?h) t" for t by simp
  then have "count (in_flight K h') t \<le> 1" for t
    using loop_write.prems by (metis le_trans loop_inv_def)
  then show ?case
    using loop_write.prems fl by (simp add: h' loop_inv_def readiness_wf_def)
qed

lemma loop_inv_start: "loop_inv K (loop_start s0)"
  by (simp add: loop_inv_def loop_start_def readiness_new_def readiness_wf_def in_flight_def
      owed_def reply_tags_def)

lemma loop_reachable_inv: "loop_reachable K M S s0 l \<Longrightarrow> loop_inv K l"
  by (induction rule: loop_reachable.induct) (auto intro: loop_inv_start loop_step_inv)

text \<open>
  C1. Every request a client waits on is answered exactly once. In every reachable state of the event
  loop, the submitted tags are the tags already written to the socket plus the tags in flight
  (unprocessed, parked or queued), as multisets, and no tag is in flight twice: no answer is
  lost and none is given twice, whatever the scheme does and however the steps interleave.
\<close>

theorem readiness_exactly_once:
  assumes "loop_reachable K M S s0 l"
  shows "lp_submitted l = lp_written l + in_flight K (lp_handler l) \<and>
    count (in_flight K (lp_handler l)) t \<le> 1"
  using loop_reachable_inv [OF assms] by (auto simp: loop_inv_def)

definition sample_loop :: "unit loop" where
  "sample_loop = (loop_start ())\<lparr>lp_handler := readiness_new\<lparr>requests_read := [sample_fsync]\<rparr>,
     lp_submitted := {#7#}\<rparr>"

lemma sample_loop_reachable: "loop_reachable sample_abi no_memory default_scheme () sample_loop"
proof -
  have "reply_tags sample_abi [sample_fsync] = [7]"
    by (simp add: reply_tags_def wants_reply_def kind_def sample_fsync_def sample_abi_def get_at_def
        sample_opcodes_def)
  then have "loop_step sample_abi no_memory default_scheme (loop_start ()) sample_loop"
    using loop_read [of "[sample_fsync]" "loop_start ()"
        "readiness_new\<lparr>requests_read := [sample_fsync]\<rparr>" True sample_abi no_memory default_scheme]
    by (simp add: loop_start_def sample_loop_def rb_read_requests_def readiness_new_def)
  then show ?thesis by (rule loop_next [OF loop_init])
qed

theorem readiness_exactly_once_witness:
  "loop_reachable sample_abi no_memory default_scheme () sample_loop \<and>
   {#7#} = lp_written sample_loop + in_flight sample_abi (lp_handler sample_loop)"
proof -
  have "lp_submitted sample_loop = {#7#}" by (simp add: sample_loop_def)
  with readiness_exactly_once [OF sample_loop_reachable, of 7] sample_loop_reachable show ?thesis
    by simp
qed

section \<open>A scheme's invariant holds along every run\<close>

context scheme_contract
begin

lemma loop_step_keeps:
  assumes "loop_step K M S l l'" "I (lp_scheme l)"
  shows "I (lp_scheme l')"
  using assms
proof (induction rule: loop_step.induct)
  case (loop_process l s' h')
  then show ?case
    using process_list_keeps [of "lp_scheme l"] by (auto simp: process_requests_def)
next
  case (loop_poll keys l s' h')
  then show ?case
    using poll_list_keeps [of "lp_scheme l"]
    by (auto simp: poll_all_requests_def poll_ready_requests_def)
qed simp_all

lemma loop_reachable_keeps:
  assumes "loop_reachable K M S s0 l" "I s0"
  shows "I (lp_scheme l)"
  using assms
  by (induction rule: loop_reachable.induct) (auto simp: loop_start_def intro: loop_step_keeps)

end

end
