(* ===== verification/Serial_Loop.thy ===== *)
theory Serial_Loop
  imports Event_Loop
begin

text \<open>
  The request loop of the daemons that never block: \<open>ramfs\<close>, \<open>zerod\<close>, \<open>logd\<close> and \<open>randd\<close> take one
  request at a time, answer a call before they take the next one, pass a closed handle to
  \<open>on_close\<close> and ignore every other kind of request.
\<close>

definition serve_request ::
  "abi \<Rightarrow> memory \<Rightarrow> 's scheme_sync \<Rightarrow> sqe \<Rightarrow> 's \<Rightarrow> 's \<times> cqe list outcome" where
  "serve_request K M S q s = (case kind K q of
       RkCall call \<Rightarrow> then_do (handle_sync K M S call s) (\<lambda>s' response. (s', Ok [response]))
     | RkOnClose i \<Rightarrow> then_do (sc_on_close S i s) (\<lambda>s' _. (s', Ok []))
     | _ \<Rightarrow> (s, Ok []))"

fun serve_requests ::
  "abi \<Rightarrow> memory \<Rightarrow> 's scheme_sync \<Rightarrow> sqe list \<Rightarrow> 's \<Rightarrow> 's \<times> cqe list outcome" where
  "serve_requests K M S [] s = (s, Ok [])"
| "serve_requests K M S (q # qs) s =
     then_do (serve_request K M S q s) (\<lambda>s' out.
     then_do (serve_requests K M S qs s') (\<lambda>s'' outs. (s'', Ok (out @ outs))))"

text \<open>The tags of the calls in a sequence of requests.\<close>

definition call_tags :: "abi \<Rightarrow> sqe list \<Rightarrow> u32 list" where
  "call_tags K qs = concat (map (\<lambda>q. case kind K q of RkCall c \<Rightarrow> [sqe_tag c] | _ \<Rightarrow> []) qs)"

context scheme_contract
begin

lemma serve_request_keeps:
  assumes "I s" "serve_request K M S q s = (s', Ok out)"
  shows "I s'"
proof (cases "kind K q")
  case (RkCall c)
  with assms show ?thesis
    by (auto simp: serve_request_def elim!: then_do_eq_OkE intro: handle_sync_keeps)
next
  case (RkOnClose i)
  with assms show ?thesis
    by (auto simp: serve_request_def elim!: then_do_eq_OkE intro: close_keeps)
qed (use assms in \<open>auto simp: serve_request_def\<close>)

lemma serve_requests_keeps:
  assumes "I s" "serve_requests K M S qs s = (s', Ok outs)"
  shows "I s'"
  using assms
proof (induction qs arbitrary: s outs)
  case (Cons q qs)
  then show ?case
    by (auto elim!: then_do_eq_OkE intro: Cons.IH [OF serve_request_keeps])
qed simp

end

lemma serve_request_tags:
  "serve_request K M S q s = (s', Ok out) \<Longrightarrow> map cqe_tag out = call_tags K [q]"
  by (auto simp: serve_request_def call_tags_def handle_sync_tag
      split: request_kind.splits elim!: then_do_eq_OkE)

lemma call_tags_Cons: "call_tags K (q # qs) = call_tags K [q] @ call_tags K qs"
  by (simp add: call_tags_def)

text \<open>The kernel's entry is well formed and asks for one of the given operations.\<close>

definition well_formed :: "abi \<Rightarrow> memory \<Rightarrow> (op \<Rightarrow> bool) \<Rightarrow> sqe \<Rightarrow> bool" where
  "well_formed K M answers q \<longleftrightarrow> (case from_sqe_unchecked K M q of Ok oo \<Rightarrow> pred_option answers oo | _ \<Rightarrow> False)"

context scheme_total
begin

lemma serve_request_total:
  assumes J: "J (Suc n) s" and q: "well_formed K M answers q"
  obtains s' out where "serve_request K M S q s = (s', Ok out)" "J n s'"
proof (cases "kind K q")
  case (RkCall c)
  then have "c = q" by (auto simp: kind_def split: option.splits opcode.splits)
  obtain oo where "from_sqe_unchecked K M q = Ok oo" "pred_option answers oo"
    using q by (auto simp: well_formed_def split: outcome.splits)
  from handle_sync_total [OF J this] obtain s' r where "handle_sync K M S q s = (s', Ok r)" "J n s'" .
  then show ?thesis using that RkCall \<open>c = q\<close> by (simp add: serve_request_def)
next
  case (RkOnClose i)
  obtain s' rc where h: "sc_on_close S i s = (s', rc)" by (metis surj_pair)
  then show ?thesis using that RkOnClose on_close_total [OF J h] by (simp add: serve_request_def)
qed (use that spare [OF J] in \<open>simp_all add: serve_request_def\<close>)

lemma serve_requests_total:
  assumes "J (length qs + n) s" "list_all (well_formed K M answers) qs"
  shows "\<exists>s' outs. serve_requests K M S qs s = (s', Ok outs) \<and> map cqe_tag outs = call_tags K qs \<and> J n s'"
  using assms
proof (induction qs arbitrary: s)
  case (Cons q qs)
  then obtain s1 out where one: "serve_request K M S q s = (s1, Ok out)" "J (length qs + n) s1"
    using serve_request_total [of "length qs + n" s K M q] by auto
  with Cons.IH [OF one(2)] Cons.prems(2) serve_request_tags [OF one(1)] show ?case
    by (auto simp: call_tags_Cons [of K q qs])
qed (simp add: call_tags_def)

end

text \<open>
  C19. A daemon with the serial loop answers every call it takes exactly once and in the order of
  arrival: the tags of the responses it writes are the tags of the calls it read, for every scheme.
\<close>

theorem serve_requests_answers:
  assumes "serve_requests K M S qs s = (s', Ok outs)"
  shows "map cqe_tag outs = call_tags K qs"
  using assms
proof (induction qs arbitrary: s outs)
  case (Cons q qs)
  then show ?case
    by (auto simp: call_tags_Cons [of K q qs] serve_request_tags elim!: then_do_eq_OkE)
qed (simp add: call_tags_def)

theorem serve_requests_answers_witness:
  "serve_requests sample_abi no_memory (default_scheme :: unit scheme_sync)
     [sample_fsync, sample_fsync\<lparr>sqe_tag := 9\<rparr>] () =
     ((), Ok [response_ok sample_abi 0 7, response_ok sample_abi 0 9]) \<and>
   [7, 9] = call_tags sample_abi [sample_fsync, sample_fsync\<lparr>sqe_tag := 9\<rparr>]"
proof -
  have run: "serve_requests sample_abi no_memory (default_scheme :: unit scheme_sync)
     [sample_fsync, sample_fsync\<lparr>sqe_tag := 9\<rparr>] () =
     ((), Ok [response_ok sample_abi 0 7, response_ok sample_abi 0 9])"
    by (simp add: serve_request_def kind_def handle_sync_def op_handle_sync_def
        from_sqe_unchecked_def sample_fsync_def sample_abi_def get_at_def sample_opcodes_def
        default_scheme_def response_ok_def)
  from serve_requests_answers [OF this] run show ?thesis by (simp add: response_ok_def)
qed

end
