(* ===== verification/Ramfs.thy ===== *)
theory Ramfs
  imports Serial_Loop
begin

text \<open>
  The RAM file system daemon: \<open>ramfs/src/filesystem.rs\<close> and \<open>ramfs/src/scheme.rs\<close>.

  A directory is an \<open>IndexMap\<close> from names to inode numbers. The \<open>indexmap\<close> crate is not part of the
  repository, so the map type is a type parameter \<open>'d\<close> and its operations are the record
  \<open>index_map\<close>; \<open>index_map_ok\<close> states its documented behaviour. The clock, the answer of the
  \<open>fstatvfs\<close> system call and whether the allocator can grow a vector are parameters too. They form
  the environment \<open>E\<close> of a call.
\<close>

section \<open>The environment\<close>

record 'd index_map =
  im_new :: 'd
  im_get :: "'d \<Rightarrow> string \<Rightarrow> nat option"
  im_insert :: "string \<Rightarrow> nat \<Rightarrow> 'd \<Rightarrow> 'd"
  im_shift_remove :: "string \<Rightarrow> 'd \<Rightarrow> 'd \<times> nat option"
  im_iter :: "'d \<Rightarrow> (string \<times> nat) list"
  im_is_empty :: "'d \<Rightarrow> bool"

text \<open>
  The behaviour the crate documents: iteration is in insertion order over distinct keys, \<open>insert\<close>
  replaces the value of a key in place or appends a new key, \<open>shift_remove\<close> keeps the order of the
  remaining entries and returns the removed value.
\<close>

definition index_map_ok :: "'d index_map \<Rightarrow> bool" where
  "index_map_ok D \<longleftrightarrow>
     im_iter D (im_new D) = [] \<and>
     (\<forall>d. distinct (map fst (im_iter D d))) \<and>
     (\<forall>d k. im_get D d k = map_of (im_iter D d) k) \<and>
     (\<forall>d k v. im_iter D (im_insert D k v d) =
        (if k \<in> fst ` set (im_iter D d)
         then map (\<lambda>(k', v'). (k', if k' = k then v else v')) (im_iter D d)
         else im_iter D d @ [(k, v)])) \<and>
     (\<forall>d k. im_iter D (fst (im_shift_remove D k d)) = filter (\<lambda>(k', v). k' \<noteq> k) (im_iter D d) \<and>
            snd (im_shift_remove D k d) = im_get D d k) \<and>
     (\<forall>d. im_is_empty D d \<longleftrightarrow> im_iter D d = [])"

text \<open>\<open>SystemTime::now().duration_since(UNIX_EPOCH)\<close>: the distance, and on which side of the epoch.\<close>

datatype clock = SinceEpoch nat nat | BeforeEpoch nat nat

definition current_time :: "clock \<Rightarrow> timespec" where
  "current_time c = (case c of
       BeforeEpoch secs nanos \<Rightarrow>
         \<lparr>tv_sec = (if secs < 2 ^ 63 then int secs else - (2 ^ 63)),
          tv_nsec = (if nanos < 2 ^ 31 then int nanos else - (2 ^ 31))\<rparr>
     | SinceEpoch secs nanos \<Rightarrow>
         \<lparr>tv_sec = (if secs < 2 ^ 63 then int secs else 2 ^ 63 - 1),
          tv_nsec = (if nanos < 2 ^ 31 then int nanos else 2 ^ 31 - 1)\<rparr>)"

record 'd ramfs_env =
  re_abi :: abi
  re_map :: "'d index_map"
  re_clock :: clock
  re_fstatvfs :: "statvfs outcome"
  re_try_reserve :: "nat \<Rightarrow> bool"

section \<open>Files and the file system\<close>

datatype 'd file_data = FileBytes "u8 list" | Directory 'd

record 'd ram_file =
  f_mode :: u16
  f_uid :: u32
  f_gid :: u32
  f_nlink :: nat
  f_parent :: nat
  f_open_handles :: nat
  f_atime :: timespec
  f_ctime :: timespec
  f_mtime :: timespec
  f_data :: "'d file_data"

fun data_size :: "'d file_data \<Rightarrow> nat" where
  "data_size (FileBytes bytes) = length bytes"
| "data_size (Directory d) = 0"

text \<open>The state of the scheme: its name and its file system, without the file handle on memory.\<close>

record 'd ramfs =
  rf_scheme_name :: string
  rf_files :: "nat \<rightharpoonup> 'd ram_file"
  rf_last_inode_number :: nat

abbreviation ROOT_INODE :: nat where
  "ROOT_INODE \<equiv> 1"

abbreviation DEFAULT_BLOCK_SIZE :: nat where
  "DEFAULT_BLOCK_SIZE \<equiv> 4096"

definition create_root_inode :: "'d ramfs_env \<Rightarrow> 'd ram_file" where
  "create_root_inode E = (let cur_time = current_time (re_clock E) in
     \<lparr>f_mode = MODE_DIR (re_abi E) OR 0x1ED, f_uid = 0, f_gid = 0, f_nlink = 1,
      f_parent = ROOT_INODE, f_open_handles = 0, f_atime = cur_time, f_ctime = cur_time,
      f_mtime = cur_time, f_data = Directory (im_new (re_map E))\<rparr>)"

text \<open>\<open>Scheme::new\<close> with \<open>Filesystem::new\<close>; it fails if the memory scheme cannot be opened.\<close>

definition ramfs_new :: "'d ramfs_env \<Rightarrow> string \<Rightarrow> bool \<Rightarrow> 'd ramfs outcome" where
  "ramfs_new E scheme_name memory_opened =
     (if memory_opened
      then Ok \<lparr>rf_scheme_name = scheme_name, rf_files = [ROOT_INODE \<mapsto> create_root_inode E],
               rf_last_inode_number = ROOT_INODE\<rparr>
      else Err EIO)"

definition get_block_size :: "'d ramfs_env \<Rightarrow> nat outcome" where
  "get_block_size E = map_outcome (\<lambda>v. f_bsize v mod 2 ^ 32) (re_fstatvfs E)"

definition block_size :: "'d ramfs_env \<Rightarrow> nat" where
  "block_size E = (case get_block_size E of Ok n \<Rightarrow> n | _ \<Rightarrow> DEFAULT_BLOCK_SIZE)"

definition next_inode_number :: "'d ramfs \<Rightarrow> 'd ramfs \<times> nat outcome" where
  "next_inode_number s =
     question s (ok_or ENFILE (usize_checked_add (rf_last_inode_number s) 1)) (\<lambda>n.
     (s\<lparr>rf_last_inode_number := n\<rparr>, Ok n))"

section \<open>Permissions\<close>

definition current_perm :: "abi \<Rightarrow> 'd ram_file \<Rightarrow> u32 \<Rightarrow> u32 \<Rightarrow> u8" where
  "current_perm K file uid gid = (let perm = f_mode file AND MODE_PERM K in
     if uid = 0 then 7
     else if uid = f_uid file then ucast (drop_bit 6 (perm AND 0x1C0))
     else if gid = f_gid file then ucast (drop_bit 3 (perm AND 0x38))
     else ucast (perm AND 7))"

definition check_permissions :: "abi \<Rightarrow> u64 \<Rightarrow> u8 \<Rightarrow> unit outcome" where
  "check_permissions K flags single_mode =
     (if flags AND O_ACCMODE K = O_RDONLY K \<and> single_mode AND 4 = 0 then Err EACCES
      else if flags AND O_ACCMODE K = O_WRONLY K \<and> single_mode AND 2 = 0 then Err EACCES
      else if flags AND O_ACCMODE K = O_RDWR K \<and> single_mode AND 6 \<noteq> 6 then Err EACCES
      else Ok ())"

section \<open>Path resolution\<close>

text \<open>The non-empty components of a path.\<close>

definition path_components_iter :: "string \<Rightarrow> string list" where
  "path_components_iter path = filter (\<lambda>item. item \<noteq> []) (split_at_char (CHR ''/'') path)"

abbreviation trim_start_slashes :: "string \<Rightarrow> string" where
  "trim_start_slashes path \<equiv> dropWhile (\<lambda>c. c = CHR ''/'') path"

text \<open>
  The loop of \<open>resolve_generic\<close> over \<open>parts\<close> and \<open>i\<close>. The list of parts is edited while it is walked:
  a part \<open>.\<close> or \<open>..\<close> at \<open>i\<close> is removed, and if the part that follows is \<open>..\<close> and \<open>i\<close> is not the start,
  the part before it is removed too. An \<open>unwrap\<close> past the end of the list panics.
\<close>

function resolve_loop ::
  "abi \<Rightarrow> 'd index_map \<Rightarrow> (nat \<rightharpoonup> 'd ram_file) \<Rightarrow> u32 \<Rightarrow> u32 \<Rightarrow> string list \<Rightarrow> nat \<Rightarrow> nat \<Rightarrow> 'd ram_file \<Rightarrow>
   nat outcome" where
  "resolve_loop K D files uid gid parts i current_inode current_file =
    (case get_at parts i of
       None \<Rightarrow> Ok current_inode
     | Some part \<Rightarrow>
        (case f_data current_file of
           FileBytes _ \<Rightarrow> Err ENOENT
         | Directory dentries \<Rightarrow>
            if current_perm K current_file uid gid AND 1 = 0 then Err EACCES
            else
             (let parts1 = (if part = ''.'' \<or> part = ''..'' then remove_at i parts else parts) in
              case get_at parts1 i of
                None \<Rightarrow> Panic
              | Some part1 \<Rightarrow>
                 (let up = (part1 = ''..'' \<and> 0 < i);
                      i2 = (if up then i - 1 else i);
                      parts2 = (if up then remove_at (i - 1) parts1 else parts1) in
                  case get_at parts2 i2 of
                    None \<Rightarrow> Panic
                  | Some part2 \<Rightarrow>
                     (case im_get D dentries part2 of
                        None \<Rightarrow> Err ENOENT
                      | Some inode \<Rightarrow>
                         (case files inode of
                            None \<Rightarrow> Err EIO
                          | Some file \<Rightarrow>
                             resolve_loop K D files uid gid parts2 (i2 + 1) inode file))))))"
  by pat_completeness auto
termination
proof (relation "measure (\<lambda>(K, D, files, uid, gid, parts, i, inode, file). length parts - i)",
    goal_cases)
  case 1
  show ?case by simp
next
  case (2 K D files uid gid parts i inode f part dentries parts1 part1 up i2 parts2 part2 inode1 f1)
  have i: "i < length parts" using 2(1) by (simp add: get_at_eq_Some)
  have l1: "length parts1 \<le> length parts" using i 2(4) by auto
  have i1: "i < length parts1" using 2(5) by (simp add: get_at_eq_Some)
  have "length parts2 - (i2 + 1) < length parts - i"
  proof (cases up)
    case True
    then have "0 < i" "length parts2 = length parts1 - 1" "i2 = i - 1"
      using 2(6,7,8) i1 by auto
    then show ?thesis using l1 i1 by linarith
  next
    case False
    then show ?thesis using 2(7,8) l1 i by auto
  qed
  then show ?case by simp
qed

declare resolve_loop.simps [simp del]

definition resolve_generic ::
  "'d ramfs_env \<Rightarrow> 'd ramfs \<Rightarrow> string list \<Rightarrow> u32 \<Rightarrow> u32 \<Rightarrow> nat outcome" where
  "resolve_generic E s parts uid gid =
     and_then (ok_or ENOENT (rf_files s ROOT_INODE)) (\<lambda>root.
     resolve_loop (re_abi E) (re_map E) (rf_files s) uid gid parts 0 ROOT_INODE root)"

definition resolve_except_last ::
  "'d ramfs_env \<Rightarrow> 'd ramfs \<Rightarrow> string \<Rightarrow> u32 \<Rightarrow> u32 \<Rightarrow> (nat \<times> string option) outcome" where
  "resolve_except_last E s path uid gid =
     (let parts = path_components_iter (trim_start_slashes path);
          lst = (if parts \<noteq> [] then Some (last parts) else None) in
      map_outcome (\<lambda>inode. (inode, lst)) (resolve_generic E s (butlast parts) uid gid))"

definition resolve :: "'d ramfs_env \<Rightarrow> 'd ramfs \<Rightarrow> string \<Rightarrow> u32 \<Rightarrow> u32 \<Rightarrow> nat outcome" where
  "resolve E s path uid gid =
     resolve_generic E s (path_components_iter (trim_start_slashes path)) uid gid"

section \<open>The operations of the scheme\<close>

definition set_file :: "nat \<Rightarrow> 'd ram_file \<Rightarrow> 'd ramfs \<Rightarrow> 'd ramfs" where
  "set_file i f s = s\<lparr>rf_files := (rf_files s)(i \<mapsto> f)\<rparr>"

definition remove_file :: "nat \<Rightarrow> 'd ramfs \<Rightarrow> 'd ramfs" where
  "remove_file i s = s\<lparr>rf_files := (rf_files s)(i := None)\<rparr>"

text \<open>
  The end of \<open>remove_dentry\<close>, after the entry is gone from its directory: the inode loses its links
  and is dropped when nothing refers to it.
\<close>

definition drop_links :: "nat \<Rightarrow> bool \<Rightarrow> 'd ramfs \<Rightarrow> 'd ramfs \<times> unit outcome" where
  "drop_links removed_inode directory s =
     question s (ok_or EIO (rf_files s removed_inode)) (\<lambda>info.
     question s (case f_data info of
         FileBytes _ \<Rightarrow> if directory then Err EISDIR else usize_sub (f_nlink info) 1
       | Directory _ \<Rightarrow> if \<not> directory then Err ENOTDIR else usize_sub (f_nlink info) 2) (\<lambda>n.
     let s' = set_file removed_inode (info\<lparr>f_nlink := n\<rparr>) s in
     (if n = 0 \<and> f_open_handles info = 0 then remove_file removed_inode s' else s', Ok ())))"

definition remove_dentry ::
  "'d ramfs_env \<Rightarrow> string \<Rightarrow> u32 \<Rightarrow> u32 \<Rightarrow> bool \<Rightarrow> 'd ramfs \<Rightarrow> 'd ramfs \<times> unit outcome" where
  "remove_dentry E path uid gid directory s =
     question s (resolve_except_last E s path uid gid) (\<lambda>(parent_dir_inode, name_to_delete).
     question s (ok_or EINVAL name_to_delete) (\<lambda>name.
     question s (ok_or EIO (rf_files s parent_dir_inode)) (\<lambda>parent.
     if current_perm (re_abi E) parent uid gid AND 2 = 0 then (s, Err EACCES)
     else case f_data parent of
       FileBytes _ \<Rightarrow> (s, Err ENOTDIR)
     | Directory dentries \<Rightarrow>
        (let (dentries', removed) = im_shift_remove (re_map E) name dentries;
             s1 = set_file parent_dir_inode (parent\<lparr>f_data := Directory dentries'\<rparr>) s in
         question s1 (ok_or ENOENT removed) (\<lambda>entry_inode.
         case map_option f_data (rf_files s1 entry_inode) of
           Some (Directory data) \<Rightarrow>
             if \<not> directory then (s1, Err EISDIR)
             else if \<not> im_is_empty (re_map E) data then (s1, Err ENOTEMPTY)
             else
               question s1 (ok_or EIO (rf_files s1 parent_dir_inode)) (\<lambda>parent1.
               question s1 (usize_sub (f_nlink parent1) 1) (\<lambda>n.
               drop_links entry_inode directory
                 (set_file parent_dir_inode (parent1\<lparr>f_nlink := n\<rparr>) s1)))
         | _ \<Rightarrow> drop_links entry_inode directory s1)))))"

definition open_existing ::
  "'d ramfs_env \<Rightarrow> string \<Rightarrow> u64 \<Rightarrow> u32 \<Rightarrow> u32 \<Rightarrow> 'd ramfs \<Rightarrow> 'd ramfs \<times> nat outcome" where
  "open_existing E path flags uid gid s = (let K = re_abi E in
     question s (resolve E s path uid gid) (\<lambda>inode.
     question s (ok_or EIO (rf_files s inode)) (\<lambda>file.
     if flags AND O_STAT K = 0 \<and> flags AND O_DIRECTORY K \<noteq> 0 \<and> f_mode file AND MODE_TYPE K \<noteq> MODE_DIR K
     then (s, Err ENOTDIR)
     else if flags AND O_STAT K = 0 \<and> flags AND O_DIRECTORY K = 0 \<and> f_mode file AND MODE_TYPE K = MODE_DIR K
     then (s, Err EISDIR)
     else
       question s (check_permissions K flags (current_perm K file uid gid)) (\<lambda>_.
       let opened_as_write = (flags AND O_ACCMODE K = O_WRONLY K \<or> flags AND O_ACCMODE K = O_RDWR K) in
       question s (if flags AND O_TRUNC K = O_TRUNC K \<and> opened_as_write
           then (case f_data file of Directory _ \<Rightarrow> Err EBADFD
                 | FileBytes _ \<Rightarrow> Ok (file\<lparr>f_data := FileBytes []\<rparr>))
           else Ok file) (\<lambda>file'.
       question (set_file inode file' s) (usize_add (f_open_handles file') 1) (\<lambda>n.
       (set_file inode (file'\<lparr>f_open_handles := n\<rparr>) s, Ok inode)))))))"

text \<open>The inode that \<open>open\<close> with \<open>O_CREAT\<close> makes, after the type bits of the mode are checked.\<close>

definition new_file ::
  "'d ramfs_env \<Rightarrow> u64 \<Rightarrow> caller_ctx \<Rightarrow> nat \<Rightarrow> 'd ram_file outcome" where
  "new_file E flags ctx parent_dir_inode = (let
       K = re_abi E;
       cur_time = current_time (re_clock E);
       mode = ucast (flags AND 0xFFFF);
       make = (\<lambda>m n d. \<lparr>f_mode = m, f_uid = ctx_uid ctx, f_gid = ctx_gid ctx, f_nlink = n,
         f_parent = parent_dir_inode, f_open_handles = 1, f_atime = cur_time,
         f_ctime = cur_time, f_mtime = cur_time, f_data = d\<rparr>) in
     if flags AND O_DIRECTORY K \<noteq> 0
     then (let mode' = (if mode AND MODE_TYPE K = 0 then mode OR MODE_DIR K else mode) in
       if mode' AND MODE_TYPE K \<noteq> MODE_DIR K then Err EINVAL
       else Ok (make mode' 2 (Directory (im_new (re_map E)))))
     else (let mode' = (if mode AND MODE_TYPE K = 0 then mode OR MODE_FILE K else mode) in
       if mode' AND MODE_TYPE K = MODE_DIR K then Err EINVAL
       else Ok (make mode' 1 (FileBytes []))))"

definition create_file ::
  "'d ramfs_env \<Rightarrow> string \<Rightarrow> u64 \<Rightarrow> caller_ctx \<Rightarrow> 'd ramfs \<Rightarrow> 'd ramfs \<times> nat outcome" where
  "create_file E path flags ctx s =
     (if flags AND O_STAT (re_abi E) \<noteq> 0 then (s, Err EINVAL)
      else
       question s (resolve_except_last E s path (ctx_uid ctx) (ctx_gid ctx))
        (\<lambda>(parent_dir_inode, new_name).
       question s (ok_or EINVAL new_name) (\<lambda>name.
       then_do (next_inode_number s) (\<lambda>s1 new_inode_number.
       question s1 (new_file E flags ctx parent_dir_inode) (\<lambda>new_inode.
       question s1 (check_permissions (re_abi E) flags
           (current_perm (re_abi E) new_inode (ctx_uid ctx) (ctx_gid ctx))) (\<lambda>_.
       let s2 = set_file new_inode_number new_inode s1 in
       question s2 (ok_or EIO (rf_files s2 parent_dir_inode)) (\<lambda>parent_file.
       case f_data parent_file of
         FileBytes _ \<Rightarrow> (s2, Err EIO)
       | Directory entries \<Rightarrow>
          (set_file parent_dir_inode
             (parent_file\<lparr>f_data := Directory (im_insert (re_map E) name new_inode_number entries)\<rparr>) s2,
           Ok new_inode_number))))))))"

definition ramfs_open ::
  "'d ramfs_env \<Rightarrow> string \<Rightarrow> u64 \<Rightarrow> caller_ctx \<Rightarrow> 'd ramfs \<Rightarrow> 'd ramfs \<times> open_result outcome" where
  "ramfs_open E path flags ctx s = (let
       K = re_abi E;
       found = resolve E s path 0 0;
       creat = (flags AND O_CREAT K \<noteq> 0) in
     if found = Panic then (s, Panic)
     else if creat \<and> flags AND O_EXCL K \<noteq> 0 \<and> is_ok found then (s, Err EEXIST)
     else
       then_do (if creat \<and> \<not> is_ok found then create_file E path flags ctx s
                else open_existing E path flags (ctx_uid ctx) (ctx_gid ctx) s) (\<lambda>s' inode.
       (s', Ok (ThisScheme inode (POSITIONED K)))))"

definition ramfs_unlinkat ::
  "'d ramfs_env \<Rightarrow> nat \<Rightarrow> string \<Rightarrow> u64 \<Rightarrow> caller_ctx \<Rightarrow> 'd ramfs \<Rightarrow> 'd ramfs \<times> unit outcome" where
  "ramfs_unlinkat E dirfd path flags ctx s =
     question s (ok_or EBADFD (rf_files s dirfd)) (\<lambda>_.
     remove_dentry E path (ctx_uid ctx) (ctx_gid ctx)
       (flags AND AT_REMOVEDIR (re_abi E) = AT_REMOVEDIR (re_abi E)) s)"

text \<open>
  The methods on an open file take its inode number. \<open>usize::try_from(offset)\<close> never fails on the
  64-bit targets.
\<close>

definition ramfs_read ::
  "'d ramfs_env \<Rightarrow> nat \<Rightarrow> u8 list \<Rightarrow> nat \<Rightarrow> u32 \<Rightarrow> caller_ctx \<Rightarrow> 'd ramfs \<Rightarrow>
   ('d ramfs \<times> u8 list) \<times> nat outcome" where
  "ramfs_read E inode buf offset fcntl_flags ctx s = (let K = re_abi E in
     question (s, buf) (ok_or EBADFD (rf_files s inode)) (\<lambda>file.
     if ucast fcntl_flags AND O_ACCMODE K \<notin> {O_RDONLY K, O_RDWR K} then ((s, buf), Err EBADF)
     else case f_data file of
       FileBytes bytes \<Rightarrow>
         if f_mode file AND MODE_TYPE K = MODE_DIR K then ((s, buf), Err EBADFD)
         else (let src_bytes = drop offset bytes;
                   bytes_to_read = min (length src_bytes) (length buf) in
               ((s, copy_into buf 0 (take bytes_to_read src_bytes)), Ok bytes_to_read))
     | Directory _ \<Rightarrow> ((s, buf), Err EISDIR)))"

fun getdents_loop :: "abi \<Rightarrow> (nat \<times> string \<times> nat) list \<Rightarrow> dirent_buf \<Rightarrow> dirent_buf \<times> unit outcome" where
  "getdents_loop K [] buf = (buf, Ok ())"
| "getdents_loop K ((i, dent_name, dent_inode) # rest) buf =
     then_do (dirent_entry K buf \<lparr>de_inode = dent_inode, de_name = dent_name, de_next_opaque_id = i + 1\<rparr>)
       (\<lambda>buf' _. getdents_loop K rest buf')"

definition ramfs_getdents ::
  "'d ramfs_env \<Rightarrow> nat \<Rightarrow> dirent_buf \<Rightarrow> nat \<Rightarrow> 'd ramfs \<Rightarrow> ('d ramfs \<times> dirent_buf) \<times> unit outcome" where
  "ramfs_getdents E inode buf opaque_offset s =
     question (s, buf) (ok_or EBADFD (rf_files s inode)) (\<lambda>file.
     case f_data file of
       FileBytes _ \<Rightarrow> ((s, buf), Err ENOTDIR)
     | Directory dir \<Rightarrow>
        (let entries = im_iter (re_map E) dir;
             (buf', r) = getdents_loop (re_abi E)
               (drop opaque_offset (zip [0..<length entries] entries)) buf
         in ((s, buf'), r)))"

definition ramfs_write ::
  "'d ramfs_env \<Rightarrow> nat \<Rightarrow> u8 list \<Rightarrow> nat \<Rightarrow> u32 \<Rightarrow> caller_ctx \<Rightarrow> 'd ramfs \<Rightarrow> 'd ramfs \<times> nat outcome" where
  "ramfs_write E inode buf offset fcntl_flags ctx s = (let K = re_abi E in
     question s (ok_or EBADFD (rf_files s inode)) (\<lambda>file.
     case f_data file of
       FileBytes bytes \<Rightarrow>
         if f_mode file AND MODE_TYPE K = MODE_DIR K then (s, Err EBADFD)
         else
           question s (ok_or EOVERFLOW (usize_checked_add offset (length buf))) (\<lambda>end_off.
           if end_off > length bytes \<and> \<not> re_try_reserve E (end_off - length bytes)
           then (s, Err ENOMEM)
           else (let bytes' = (if end_off > length bytes then resize end_off 0 bytes else bytes) in
             (set_file inode (file\<lparr>f_data := FileBytes (copy_into bytes' offset buf)\<rparr>) s,
              Ok (length buf))))
     | Directory _ \<Rightarrow> (s, Err EISDIR)))"

definition ramfs_fchmod ::
  "'d ramfs_env \<Rightarrow> nat \<Rightarrow> u16 \<Rightarrow> caller_ctx \<Rightarrow> 'd ramfs \<Rightarrow> 'd ramfs \<times> unit outcome" where
  "ramfs_fchmod E inode mode ctx s =
     question s (ok_or EBADFD (rf_files s inode)) (\<lambda>file.
     let cur_type = f_mode file AND MODE_TYPE (re_abi E) in
     (set_file inode (file\<lparr>f_mode := mode OR cur_type\<rparr>) s, Ok ()))"

definition ramfs_fchown ::
  "nat \<Rightarrow> u32 \<Rightarrow> u32 \<Rightarrow> caller_ctx \<Rightarrow> 'd ramfs \<Rightarrow> 'd ramfs \<times> unit outcome" where
  "ramfs_fchown inode uid gid ctx s =
     question s (ok_or EBADFD (rf_files s inode)) (\<lambda>file.
     (set_file inode (file\<lparr>f_uid := uid, f_gid := gid\<rparr>) s, Ok ()))"

definition ramfs_fcntl :: "nat \<Rightarrow> u64 \<Rightarrow> u64 \<Rightarrow> caller_ctx \<Rightarrow> 'd ramfs \<Rightarrow> 'd ramfs \<times> nat outcome" where
  "ramfs_fcntl inode cmd arg ctx s = (s, Ok 0)"

definition ramfs_fevent :: "nat \<Rightarrow> u64 \<Rightarrow> caller_ctx \<Rightarrow> 'd ramfs \<Rightarrow> 'd ramfs \<times> u64 outcome" where
  "ramfs_fevent inode flags ctx s = (s, Err ENOSYS)"

definition ramfs_mmap_prep ::
  "nat \<Rightarrow> nat \<Rightarrow> nat \<Rightarrow> u64 \<Rightarrow> caller_ctx \<Rightarrow> 'd ramfs \<Rightarrow> 'd ramfs \<times> nat outcome" where
  "ramfs_mmap_prep inode off len flags ctx s = (s, Err ENOSYS)"

text \<open>
  The loop of \<open>fpath\<close> climbs to the root. The state does not by itself make it end, so the model
  counts its iterations: \<open>None\<close> is a loop that is still running when \<open>fuel\<close> is used up.
\<close>

fun fpath_chain ::
  "'d index_map \<Rightarrow> (nat \<rightharpoonup> 'd ram_file) \<Rightarrow> nat \<Rightarrow> nat \<Rightarrow> 'd ram_file \<Rightarrow> string list \<Rightarrow>
   string list outcome option" where
  "fpath_chain D files 0 current_inode current_info chain = None"
| "fpath_chain D files (Suc fuel) current_inode current_info chain =
     (if current_inode = ROOT_INODE then Some (Ok chain)
      else case files (f_parent current_info) of
        None \<Rightarrow> Some (Err EBADFD)
      | Some parent_info \<Rightarrow>
         (case f_data parent_info of
            FileBytes _ \<Rightarrow> Some (Err EBADFD)
          | Directory dir \<Rightarrow>
             (case find (\<lambda>(name, inode). inode = current_inode) (im_iter D dir) of
                None \<Rightarrow> Some (Err ENOENT)
              | Some (name, _) \<Rightarrow>
                  fpath_chain D files fuel (f_parent current_info) parent_info (chain @ [name]))))"

definition slashed :: "string list \<Rightarrow> string" where
  "slashed components = concat (map (\<lambda>c. CHR ''/'' # c) components)"

text \<open>
  A write past the end of the buffer makes \<open>write!(..).unwrap()\<close> panic. A loop that does not end is
  \<open>Panic\<close> as well: no response is sent.
\<close>

definition ramfs_fpath ::
  "'d ramfs_env \<Rightarrow> nat \<Rightarrow> u8 list \<Rightarrow> caller_ctx \<Rightarrow> 'd ramfs \<Rightarrow> ('d ramfs \<times> u8 list) \<times> nat outcome" where
  "ramfs_fpath E inode buf ctx s =
     question (s, buf) (ok_or EBADFD (rf_files s inode)) (\<lambda>info.
     case fpath_chain (re_map E) (rf_files s) (rf_last_inode_number s + 1) inode info [] of
       None \<Rightarrow> ((s, buf), Panic)
     | Some r \<Rightarrow>
         question (s, buf) r (\<lambda>chain.
         let path = slashed (trim_start_slashes (rf_scheme_name s) # rev chain) in
         if length path \<le> length buf
         then ((s, copy_into buf 0 (bytes_of path)), Ok (length path))
         else ((s, buf), Panic)))"

definition ramfs_frename :: "nat \<Rightarrow> string \<Rightarrow> caller_ctx \<Rightarrow> 'd ramfs \<Rightarrow> 'd ramfs \<times> nat outcome" where
  "ramfs_frename inode path ctx s = (s, Err ENOSYS)"

text \<open>\<open>try_into\<close> from a signed to an unsigned number.\<close>

definition unsigned_of :: "int \<Rightarrow> int outcome" where
  "unsigned_of x = (if 0 \<le> x then Ok x else Err EOVERFLOW)"

definition file_stat :: "nat \<Rightarrow> nat \<Rightarrow> 'd ram_file \<Rightarrow> stat outcome" where
  "file_stat bsize inode file = (let sz = data_size (f_data file) in
     and_then (if f_nlink file < 2 ^ 32 then Ok (f_nlink file) else Err EOVERFLOW) (\<lambda>nlink.
     and_then (next_multiple_of sz bsize) (\<lambda>blocks.
     and_then (unsigned_of (tv_sec (f_atime file))) (\<lambda>asec.
     and_then (unsigned_of (tv_nsec (f_atime file))) (\<lambda>ansec.
     and_then (unsigned_of (tv_sec (f_ctime file))) (\<lambda>csec.
     and_then (unsigned_of (tv_nsec (f_ctime file))) (\<lambda>cnsec.
     and_then (unsigned_of (tv_sec (f_mtime file))) (\<lambda>msec.
     and_then (unsigned_of (tv_nsec (f_mtime file))) (\<lambda>mnsec.
     Ok \<lparr>st_dev = 0, st_ino = inode, st_mode = f_mode file, st_nlink = nlink, st_uid = f_uid file,
         st_gid = f_gid file, st_size = sz, st_blksize = bsize, st_blocks = blocks,
         st_mtime = msec, st_mtime_nsec = mnsec, st_atime = asec, st_atime_nsec = ansec,
         st_ctime = csec, st_ctime_nsec = cnsec\<rparr>)))))))))"

definition ramfs_fstat ::
  "'d ramfs_env \<Rightarrow> nat \<Rightarrow> stat \<Rightarrow> caller_ctx \<Rightarrow> 'd ramfs \<Rightarrow> ('d ramfs \<times> stat) \<times> unit outcome" where
  "ramfs_fstat E inode stat ctx s =
     question (s, stat) (ok_or EBADFD (rf_files s inode)) (\<lambda>file.
     question (s, stat) (file_stat (block_size E) inode file) (\<lambda>st. ((s, st), Ok ())))"

definition ramfs_fstatvfs ::
  "'d ramfs_env \<Rightarrow> nat \<Rightarrow> statvfs \<Rightarrow> caller_ctx \<Rightarrow> 'd ramfs \<Rightarrow> ('d ramfs \<times> statvfs) \<times> unit outcome" where
  "ramfs_fstatvfs E inode stat ctx s =
     question (s, stat) (re_fstatvfs E) (\<lambda>abi_stat.
     ((s, abi_stat\<lparr>f_bsize := f_bsize abi_stat mod 2 ^ 32\<rparr>), Ok ()))"

definition ramfs_fsync :: "nat \<Rightarrow> caller_ctx \<Rightarrow> 'd ramfs \<Rightarrow> 'd ramfs \<times> unit outcome" where
  "ramfs_fsync inode ctx s = (s, Ok ())"

definition ramfs_ftruncate ::
  "'d ramfs_env \<Rightarrow> nat \<Rightarrow> nat \<Rightarrow> caller_ctx \<Rightarrow> 'd ramfs \<Rightarrow> 'd ramfs \<times> unit outcome" where
  "ramfs_ftruncate E inode sz ctx s = (let K = re_abi E in
     question s (ok_or EBADFD (rf_files s inode)) (\<lambda>file.
     if f_mode file AND MODE_TYPE K = MODE_DIR K then (s, Err EISDIR)
     else case f_data file of
       FileBytes bytes \<Rightarrow>
         if sz > length bytes \<and> \<not> re_try_reserve E (sz - length bytes) then (s, Err ENOMEM)
         else (set_file inode (file\<lparr>f_data := FileBytes (resize sz 0 bytes)\<rparr>) s, Ok ())
     | Directory _ \<Rightarrow> (s, Err EBADFD)))"

definition ramfs_futimens ::
  "nat \<Rightarrow> timespec list \<Rightarrow> caller_ctx \<Rightarrow> 'd ramfs \<Rightarrow> 'd ramfs \<times> unit outcome" where
  "ramfs_futimens inode ts ctx s =
     question s (ok_or EBADFD (rf_files s inode)) (\<lambda>file.
     question s (ok_or EINVAL (get_at ts 0)) (\<lambda>new_atime.
     question s (ok_or EINVAL (get_at ts 1)) (\<lambda>new_mtime.
     (set_file inode (file\<lparr>f_atime := new_atime, f_mtime := new_mtime\<rparr>) s, Ok ()))))"

definition ramfs_on_close :: "nat \<Rightarrow> 'd ramfs \<Rightarrow> 'd ramfs \<times> unit outcome" where
  "ramfs_on_close inode s = (case rf_files s inode of
       None \<Rightarrow> (s, Ok ())
     | Some info \<Rightarrow>
         question s (usize_sub (f_open_handles info) 1) (\<lambda>n.
         let s' = set_file inode (info\<lparr>f_open_handles := n\<rparr>) s in
         (if f_nlink info = 0 \<and> n = 0 then remove_file inode s' else s', Ok ())))"

text \<open>The implementation of \<open>SchemeSync\<close>, with the \<open>on_close\<close> that the daemon's loop calls.\<close>

definition ramfs_scheme :: "'d ramfs_env \<Rightarrow> 'd ramfs scheme_sync" where
  "ramfs_scheme E = default_scheme\<lparr>
     sc_open := ramfs_open E, sc_unlinkat := ramfs_unlinkat E, sc_read := ramfs_read E,
     sc_getdents := ramfs_getdents E, sc_write := ramfs_write E, sc_fchmod := ramfs_fchmod E,
     sc_fchown := ramfs_fchown, sc_fcntl := ramfs_fcntl, sc_fevent := ramfs_fevent,
     sc_mmap_prep := ramfs_mmap_prep, sc_fpath := ramfs_fpath E, sc_frename := ramfs_frename,
     sc_fstat := ramfs_fstat E, sc_fstatvfs := ramfs_fstatvfs E, sc_fsync := ramfs_fsync,
     sc_ftruncate := ramfs_ftruncate E, sc_futimens := ramfs_futimens,
     sc_on_close := ramfs_on_close\<rparr>"

end
