(* ===== verification/Ramfs_Properties.thy ===== *)
theory Ramfs_Properties
  imports Ramfs_Proofs "HOL-Library.Multiset"
begin

text \<open>
  What the RAM file system promises its clients: runs of the daemon keep its invariant, an open file
  stays alive, resolution follows the directory tree and \<open>fpath\<close> inverts it, a created file is
  found under its name, reads return what was written, and the permission bits are respected. The
  last section shows the defect of its link counting.
\<close>

section \<open>Sample environment\<close>

definition sample_ramfs_env :: "(string \<times> nat) list ramfs_env" where
  "sample_ramfs_env = \<lparr>re_abi = sample_abi, re_map = alist_map, re_clock = SinceEpoch 5 0,
     re_fstatvfs = Ok \<lparr>f_bsize = 4096, f_blocks = 8, f_bfree = 8, f_bavail = 8\<rparr>,
     re_try_reserve = (\<lambda>n. n < 1000000)\<rparr>"

definition root_ctx :: caller_ctx where
  "root_ctx = \<lparr>ctx_pid = 1, ctx_uid = 0, ctx_gid = 0, ctx_id = 0\<rparr>"

text \<open>A fresh file system, and one with the file \<open>/a\<close> open for reading and writing.\<close>

definition sample_fresh :: "(string \<times> nat) list ramfs" where
  "sample_fresh = \<lparr>rf_scheme_name = ''mem'', rf_files = [1 \<mapsto> create_root_inode sample_ramfs_env],
     rf_last_inode_number = 1\<rparr>"

definition sample_file :: "(string \<times> nat) list ram_file" where
  "sample_file = \<lparr>f_mode = 0x81A4, f_uid = 0, f_gid = 0, f_nlink = 1, f_parent = 1,
     f_open_handles = 1, f_atime = \<lparr>tv_sec = 5, tv_nsec = 0\<rparr>, f_ctime = \<lparr>tv_sec = 5, tv_nsec = 0\<rparr>,
     f_mtime = \<lparr>tv_sec = 5, tv_nsec = 0\<rparr>, f_data = FileBytes []\<rparr>"

definition sample_one :: "(string \<times> nat) list ramfs" where
  "sample_one = \<lparr>rf_scheme_name = ''mem'',
     rf_files = [1 \<mapsto> (create_root_inode sample_ramfs_env)\<lparr>f_data := Directory [(''a'', 2)]\<rparr>,
       2 \<mapsto> sample_file], rf_last_inode_number = 2\<rparr>"

abbreviation creat_flags :: u64 where
  "creat_flags \<equiv> 0x020301A4"

lemmas sample_defs = sample_ramfs_env_def sample_abi_def alist_map_def root_ctx_def

lemma sample_env_ok: "abi_ok (re_abi sample_ramfs_env)" "index_map_ok (re_map sample_ramfs_env)"
  by (simp_all add: sample_ramfs_env_def sample_abi_ok alist_map_ok)

lemma sample_new: "ramfs_new sample_ramfs_env ''mem'' True = Ok sample_fresh"
  by (simp add: ramfs_new_def sample_fresh_def)

lemma sample_create:
  "ramfs_open sample_ramfs_env ''/a'' creat_flags root_ctx sample_fresh = (sample_one, Ok (ThisScheme 2 1))"
  by (simp add: ramfs_open_def sample_defs resolve_def path_components_iter_def resolve_generic_def
      sample_fresh_def create_root_inode_def resolve_loop.simps get_at_def current_perm_def Let_def
      create_file_def resolve_except_last_def next_inode_number_def usize_checked_add_def new_file_def
      check_permissions_def set_file_def current_time_def sample_one_def sample_file_def fun_eq_iff)

section \<open>Runs of the daemon\<close>

text \<open>
  A run from a new file system, with the multiset of the handles that clients hold: a call may open
  one, and a handle is closed once. The clock, the allocator and the answers of \<open>fstatvfs\<close> may be
  different at every step.
\<close>

fun opened_handles :: "scheme_response \<Rightarrow> nat multiset" where
  "opened_handles (Opened (Ok (ThisScheme i flags))) = {#i#}"
| "opened_handles _ = {#}"

inductive ramfs_run :: "abi \<Rightarrow> 'd index_map \<Rightarrow> 'd ramfs \<Rightarrow> nat multiset \<Rightarrow> bool" for K D where
  ramfs_start: "ramfs_new E scheme_name True = Ok s \<Longrightarrow> re_abi E = K \<Longrightarrow> re_map E = D \<Longrightarrow>
    ramfs_run K D s {#}"
| ramfs_call: "ramfs_run K D s H \<Longrightarrow> re_abi E = K \<Longrightarrow> re_map E = D \<Longrightarrow>
    handle_sync_dont_consume K (ramfs_scheme E) ctx oper s = ((s', oper'), r) \<Longrightarrow> \<not> panicked r \<Longrightarrow>
    ramfs_run K D s' (H + opened_handles r)"
| ramfs_close: "ramfs_run K D s H \<Longrightarrow> i \<in># H \<Longrightarrow> ramfs_on_close i s = (s', Ok u) \<Longrightarrow>
    ramfs_run K D s' (H - {#i#})"

lemma ramfs_inv_env: "re_abi E = re_abi E' \<Longrightarrow> re_map E = re_map E' \<Longrightarrow> ramfs_inv E s = ramfs_inv E' s"
  by (simp add: ramfs_inv_def node_ok_def)

lemma ramfs_new_inv:
  assumes "ramfs_new E nm True = Ok s" "abi_ok (re_abi E)" "index_map_ok (re_map E)"
  shows "ramfs_inv E s"
proof -
  have "(MODE_DIR K OR m) AND MODE_DIR K = MODE_DIR K" for K and m :: u16
    by (rule bit_word_eqI) (auto simp: bit_simps)
  then show ?thesis
    using assms by (auto simp: ramfs_new_def ramfs_inv_def node_ok_def parent_ok_def create_root_inode_def
        entries_def im_facts(1) type_ok_def Let_def)
qed

text \<open>The number of handles the file system counts on an inode.\<close>

definition handles :: "'d ramfs \<Rightarrow> nat \<Rightarrow> nat" where
  "handles s i = (case rf_files s i of None \<Rightarrow> 0 | Some f \<Rightarrow> f_open_handles f)"

lemma handles_simps [simp]:
  "handles (set_file i f s) j = (if j = i then f_open_handles f else handles s j)"
  "handles (remove_file i s) j = (if j = i then 0 else handles s j)"
  "handles (s\<lparr>rf_last_inode_number := n\<rparr>) j = handles s j"
  by (simp_all add: handles_def)

lemma handles_Some: "rf_files s i = Some f \<Longrightarrow> handles s i = f_open_handles f"
  by (simp add: handles_def)

text \<open>A call closes no handle, whatever it does.\<close>

definition at_least :: "(nat \<Rightarrow> nat) \<Rightarrow> 'd ramfs \<Rightarrow> bool" where
  "at_least h s \<longleftrightarrow> (\<forall>i. h i \<le> handles s i)"

lemma drop_links_handles: "drop_links i b s = (s', r) \<Longrightarrow> handles s' = handles s"
  by (auto simp: drop_links_def Let_def fun_eq_iff handles_Some split: question_splits if_splits)

lemma remove_dentry_handles:
  "remove_dentry E path uid gid b s = (s', r) \<Longrightarrow> handles s' = handles s"
  by (auto simp: remove_dentry_def Let_def fun_eq_iff handles_Some
      split: question_splits if_splits prod.splits option.splits file_data.splits
      dest!: drop_links_handles)

lemma fresh_inode: "ramfs_inv E s \<Longrightarrow> rf_files s (rf_last_inode_number s + 1) = None"
  using inv_node [of E s "rf_last_inode_number s + 1"] by (fastforce simp: node_ok_def)

lemma create_file_handles:
  assumes "ramfs_ok E s" "create_file E path flags ctx s = (s', r)"
  shows "handles s i \<le> handles s' i" "r = Ok n \<Longrightarrow> handles s' n = handles s n + 1"
proof -
  have new: "handles s (rf_last_inode_number s + 1) = 0"
    using assms(1) fresh_inode [of E s] by (simp add: ramfs_ok_def handles_def)
  have env: "abi_ok (re_abi E)" "index_map_ok (re_map E)" "ramfs_inv E s"
    using assms(1) by (simp_all add: ramfs_ok_def)
  show "handles s i \<le> handles s' i"
    using assms(2) new
    by (cases rule: create_file_cases) (auto simp: handles_Some split: if_splits)
  assume "r = Ok n"
  with assms(2) show "handles s' n = handles s n + 1"
  proof (cases rule: create_file_cases)
    case (made p name f pf d)
    have "p \<noteq> rf_last_inode_number s + 1"
      using resolve_except_last_present [OF made(2)] fresh_inode [OF env(3)] by force
    with made new new_file_facts(4) [OF env(1,2) made(3)] \<open>r = Ok n\<close> show ?thesis by simp
  qed simp_all
qed

lemma open_existing_handles:
  assumes "open_existing E path flags uid gid s = (s', r)" "r \<noteq> Panic"
  shows "handles s i \<le> handles s' i" "r = Ok n \<Longrightarrow> handles s' n = handles s n + 1"
  using assms by (cases rule: open_existing_cases; auto simp: handles_Some)+

lemma ramfs_open_handles:
  assumes "ramfs_ok E s" "ramfs_open E path flags ctx s = (s', r)" "r \<noteq> Panic"
  shows "handles s i \<le> handles s' i" "r = Ok (ThisScheme n fl) \<Longrightarrow> handles s' n = handles s n + 1"
proof -
  obtain t q where ex: "open_existing E path flags (ctx_uid ctx) (ctx_gid ctx) s = (t, q)" by fastforce
  obtain t' q' where cr: "create_file E path flags ctx s = (t', q')" by fastforce
  show "handles s i \<le> handles s' i"
    using assms(2,3) ex cr create_file_handles(1) [OF assms(1) cr] open_existing_handles(1) [OF ex]
    by (cases q; cases q') (auto simp: ramfs_open_def Let_def split: if_splits)
  assume "r = Ok (ThisScheme n fl)"
  then show "handles s' n = handles s n + 1"
    using assms(2) ex cr create_file_handles(2) [OF assms(1) cr] open_existing_handles(2) [OF ex]
    by (cases q; cases q') (auto simp: ramfs_open_def Let_def split: if_splits)
qed

lemma keeps_at_leastI:
  assumes "\<And>s s' r i. ramfs_ok E s \<Longrightarrow> m s = (s', r) \<Longrightarrow> r \<noteq> Panic \<Longrightarrow> handles s i \<le> handles s' i"
    and "keeps (ramfs_ok E) m"
  shows "keeps (\<lambda>s. ramfs_ok E s \<and> at_least h s) m"
  using assms unfolding keeps_def at_least_def by (meson order_trans)

lemma method_handles:
  "ramfs_unlinkat E fd path flags ctx s = (s', r1) \<Longrightarrow> handles s i \<le> handles s' i"
  "ramfs_write E fd buf off ff ctx s = (s', r2) \<Longrightarrow> handles s i \<le> handles s' i"
  "ramfs_fchmod E fd mode ctx s = (s', r3) \<Longrightarrow> handles s i \<le> handles s' i"
  "ramfs_fchown fd uid gid ctx s = (s', r3) \<Longrightarrow> handles s i \<le> handles s' i"
  "ramfs_futimens fd ts ctx s = (s', r3) \<Longrightarrow> handles s i \<le> handles s' i"
  "ramfs_ftruncate E fd len ctx s = (s', r3) \<Longrightarrow> handles s i \<le> handles s' i"
  by (auto simp: ramfs_unlinkat_def ramfs_write_def ramfs_fchmod_def ramfs_fchown_def
      ramfs_futimens_def ramfs_ftruncate_def Let_def handles_Some remove_dentry_handles
      split: question_splits file_data.splits if_splits)

interpretation ramfs_calls: scheme_methods "(ramfs_scheme E)\<lparr>sc_on_close := (\<lambda>i s. (s, Ok ()))\<rparr>"
    "\<lambda>s. ramfs_ok E s \<and> at_least h s" for E h
  by unfold_locales
    (simp_all add: ramfs_scheme_def default_scheme_def ramfs_query_keeps
      ramfs_fcntl_def [abs_def] ramfs_fevent_def [abs_def] ramfs_mmap_prep_def [abs_def]
      ramfs_frename_def [abs_def] ramfs_fsync_def [abs_def] keeps_at_leastI ramfs_open_handles
      method_handles ramfs_open_keeps ramfs_unlinkat_keeps ramfs_write_keeps ramfs_fchmod_keeps
      ramfs_attr_keeps ramfs_ftruncate_keeps)

lemma dispatch_ignores_on_close:
  "handle_sync_dont_consume K (S\<lparr>sc_on_close := f\<rparr>) ctx oper s = handle_sync_dont_consume K S ctx oper s"
  by (cases oper) (auto split: prod.splits option.splits)

lemma ramfs_call_keeps:
  assumes "ramfs_ok E s" "at_least h s"
    and "handle_sync_dont_consume K (ramfs_scheme E) ctx oper s = ((s', oper'), r)" "\<not> panicked r"
  shows "ramfs_ok E s'" "at_least h s'"
  using ramfs_calls.handle_keeps [of E s h K ctx oper s' oper' r] assms
  by (simp_all add: dispatch_ignores_on_close)

lemma ramfs_open_results:
  assumes "handle_sync_dont_consume K (ramfs_scheme E) ctx oper s = ((s', oper'), r)"
    and "opened_handles r = {#n#}"
  obtains path flags fl where "ramfs_open E path flags ctx s = (s', Ok (ThisScheme n fl))"
  using assms
  by (cases oper; cases r rule: opened_handles.cases)
    (auto simp: ramfs_scheme_def default_scheme_def split: prod.splits option.splits)

lemma opened_handles_cases: "opened_handles r = {#} \<or> (\<exists>n. opened_handles r = {#n#})"
  by (cases r rule: opened_handles.cases) auto

lemma ramfs_call_handles:
  assumes "ramfs_ok E s" "\<And>i. count H i \<le> handles s i"
    and run: "handle_sync_dont_consume K (ramfs_scheme E) ctx oper s = ((s', oper'), r)" "\<not> panicked r"
  shows "count (H + opened_handles r) i \<le> handles s' i"
proof -
  have kept: "count H i \<le> handles s' i"
    using ramfs_call_keeps(2) [OF assms(1) _ run, of "count H"] assms(2) by (simp add: at_least_def)
  show ?thesis
  proof (cases "opened_handles r = {#i#}")
    case True
    from ramfs_open_results [OF run(1) True] obtain path flags fl
      where "ramfs_open E path flags ctx s = (s', Ok (ThisScheme i fl))" .
    from ramfs_open_handles(2) [OF assms(1) this] True assms(2) [of i] show ?thesis by simp
  next
    case False
    with opened_handles_cases [of r] have "count (opened_handles r) i = 0" by auto
    with kept show ?thesis by simp
  qed
qed

lemma ramfs_on_close_handles:
  assumes "ramfs_on_close i s = (s', Ok u)"
  shows "handles s' j = (if j = i then handles s i - 1 else handles s j)"
  using assms by (auto simp: ramfs_on_close_def handles_def Let_def
      split: option.splits question_splits if_splits)

lemma ramfs_run_facts:
  assumes "ramfs_run (re_abi E) (re_map E) s H" "abi_ok (re_abi E)" "index_map_ok (re_map E)"
  shows "ramfs_ok E s \<and> (\<forall>i. count H i \<le> handles s i)"
  using assms(1)
proof (induction s H rule: ramfs_run.induct)
  case (ramfs_start E1 nm s)
  then show ?case
    using ramfs_new_inv [of E1 nm s] assms(2,3) ramfs_inv_env [of E1 E s] by (simp add: ramfs_ok_def)
next
  case (ramfs_call s H E1 ctx oper s' oper' r)
  then have ok: "ramfs_ok E1 s" using ramfs_inv_env [of E1 E s] by (simp add: ramfs_ok_def)
  then have "ramfs_ok E1 s'"
    using ramfs_call_keeps(1) [OF ok _ ramfs_call(4,5), of "\<lambda>_. 0"] by (simp add: at_least_def)
  then show ?case
    using ramfs_call_handles [OF ok _ ramfs_call(4,5), of H] ramfs_call(2,3,6)
      ramfs_inv_env [of E1 E s'] by (simp add: ramfs_ok_def)
next
  case (ramfs_close s H i s' u)
  then have "ramfs_ok E s'" using ramfs_attr_keeps(3) [THEN keepsD] by blast
  then show ?case using ramfs_close ramfs_on_close_handles [OF ramfs_close(3)] by (auto simp: diff_le_mono)
qed

lemma sample_run: "ramfs_run sample_abi alist_map sample_one {#2#}"
proof -
  have "ramfs_run sample_abi alist_map sample_fresh {#}"
    by (rule ramfs_start [OF sample_new]) (simp_all add: sample_ramfs_env_def)
  from ramfs_call [OF this, of sample_ramfs_env root_ctx "OpOpen 7 ''/a'' creat_flags" sample_one
      "OpOpen 7 ''/a'' creat_flags" "Opened (Ok (ThisScheme 2 1))"]
  show ?thesis
    by (simp add: ramfs_scheme_def sample_create) (simp add: sample_ramfs_env_def)
qed

lemma sample_one_ok: "ramfs_ok sample_ramfs_env sample_one"
  using ramfs_run_facts [of sample_ramfs_env sample_one "{#2#}"] sample_run sample_env_ok
  by (simp add: sample_ramfs_env_def)

text \<open>
  C2. Every run of the RAM file system keeps its inode table well formed: inode numbers stay in
  range, parent links lead upwards, directory entries and parent links agree, no inode is listed
  twice, and the type bits of a mode agree with the data.
\<close>

theorem ramfs_run_invariant:
  assumes "ramfs_run (re_abi E) (re_map E) s H" "abi_ok (re_abi E)" "index_map_ok (re_map E)"
  shows "ramfs_inv E s"
  using ramfs_run_facts [OF assms] by (simp add: ramfs_ok_def)

theorem ramfs_run_invariant_witness:
  "ramfs_run sample_abi alist_map sample_one {#2#} \<and> ramfs_inv sample_ramfs_env sample_one"
  using sample_run ramfs_run_invariant [of sample_ramfs_env sample_one "{#2#}"] sample_env_ok
  by (simp add: sample_ramfs_env_def)

text \<open>
  C3. As long as a client holds a handle on a file, its inode exists, even after the file was
  unlinked, and its count of open handles covers every handle held; so closing a handle that a
  client holds never makes the daemon panic.
\<close>

theorem ramfs_open_file_lives:
  fixes E :: "'d ramfs_env"
  assumes "ramfs_run (re_abi E) (re_map E) s H" "abi_ok (re_abi E)" "index_map_ok (re_map E)"
    and "i \<in># H"
  shows "(\<exists>f. rf_files s i = Some f \<and> count H i \<le> f_open_handles f) \<and> snd (ramfs_on_close i s) = Ok ()"
proof -
  have "1 \<le> count H i" using assms(4) by (simp add: Suc_le_eq)
  moreover have le: "count H i \<le> handles s i" using ramfs_run_facts [OF assms(1-3)] by blast
  ultimately have "1 \<le> handles s i" by linarith
  with le show ?thesis
    by (auto simp: handles_def ramfs_on_close_def usize_sub_def Let_def split: option.splits)
qed

theorem ramfs_open_file_lives_witness:
  "(\<exists>f. rf_files sample_one 2 = Some f \<and> count {#2#} (2 :: nat) \<le> f_open_handles f) \<and>
   snd (ramfs_on_close 2 sample_one) = Ok ()"
  using ramfs_open_file_lives [of sample_ramfs_env sample_one "{#2#}" 2] sample_run sample_env_ok
  by (simp add: sample_ramfs_env_def)

section \<open>Paths\<close>

text \<open>
  C26. A path without \<open>.\<close> and \<open>..\<close> components is resolved by following one directory entry per
  component from the root and checking search permission at each directory, with the same result
  or error as the plain walk; in particular it always ends and never panics.
\<close>

theorem ramfs_resolve_is_walk:
  assumes "rf_files s ROOT_INODE = Some root" "dot_free (path_components_iter (trim_start_slashes path))"
  shows "resolve E s path uid gid = walk (re_abi E) (re_map E) (rf_files s) uid gid
    (path_components_iter (trim_start_slashes path)) ROOT_INODE root"
  using assms by (simp add: resolve_def resolve_generic_def resolve_loop_dot_free)

theorem ramfs_resolve_is_walk_witness:
  "resolve sample_ramfs_env sample_one ''/a'' 0 0 =
   walk (re_abi sample_ramfs_env) (re_map sample_ramfs_env) (rf_files sample_one) 0 0 [''a''] 1
     ((create_root_inode sample_ramfs_env)\<lparr>f_data := Directory [(''a'', 2)]\<rparr>)"
  using ramfs_resolve_is_walk [of sample_one _ "''/a''" sample_ramfs_env 0 0]
  by (simp add: sample_one_def dot_free_def path_components_iter_def)

definition plain :: "string \<Rightarrow> bool" where
  "plain c \<longleftrightarrow> c \<noteq> [] \<and> CHR ''/'' \<notin> set c"

lemma path_components_plain: "c \<in> set (path_components_iter path) \<Longrightarrow> plain c"
  by (auto simp: path_components_iter_def plain_def dest: split_components)

lemma slashed_simps [simp]:
  "slashed [] = []" "slashed (c # cs) = CHR ''/'' # c @ slashed cs"
  by (simp_all add: slashed_def)

lemma path_components_append_slashed:
  "plain c \<Longrightarrow> \<forall>x \<in> set cs. plain x \<Longrightarrow> path_components_iter (c @ slashed cs) = c # cs"
  by (induction cs arbitrary: c) (simp_all add: path_components_iter_def split_no_sep split_sep plain_def)

lemma path_components_slashed:
  assumes "\<forall>x \<in> set cs. plain x"
  shows "path_components_iter (trim_start_slashes (slashed cs)) = cs"
proof (cases cs)
  case (Cons c cs')
  have "dropWhile (\<lambda>x. x = CHR ''/'') (c @ slashed cs') = c @ slashed cs'"
    using assms Cons by (cases c) (auto simp: plain_def)
  then show ?thesis using Cons assms path_components_append_slashed [of c cs'] by simp
qed (simp add: path_components_iter_def)

text \<open>Climbing from the end of a walk gives back its components.\<close>

lemma walk_snoc:
  assumes "walk K D files uid gid (cs @ [c]) i f = Ok j" "files i = Some f"
  shows "\<exists>p pf d. walk K D files uid gid cs i f = Ok p \<and> files p = Some pf \<and>
    f_data pf = Directory d \<and> im_get D d c = Some j"
  using assms
  by (induction cs arbitrary: i f) (auto split: file_data.splits option.splits if_splits)

lemma walk_present:
  "walk K D files uid gid cs i f = Ok j \<Longrightarrow> files i = Some f \<Longrightarrow> \<exists>g. files j = Some g"
  by (induction cs arbitrary: i f) (auto split: file_data.splits option.splits if_splits)

lemma find_entry:
  assumes "distinct (map snd xs)" "(c, j) \<in> set xs"
  shows "find (\<lambda>(name, inode). inode = j) xs = Some (c, j)"
proof -
  obtain y where y: "find (\<lambda>(name, inode). inode = j) xs = Some y"
    using assms(2) by (cases "find (\<lambda>(name, inode). inode = j) xs") (auto simp: find_None_iff)
  then have "y \<in> set xs" "snd y = j" by (auto simp: find_Some_iff in_set_conv_nth)
  with assms have "y = (c, j)" by (metis distinct_map inj_onD snd_conv)
  with y show ?thesis by simp
qed

lemma entry_facts:
  assumes "ramfs_inv E s" "index_map_ok (re_map E)" "rf_files s p = Some pf" "f_data pf = Directory d"
    and "im_get (re_map E) d c = Some j" "rf_files s j = Some g"
  shows "f_parent g = p" "p < j" "1 \<le> p"
    and "find (\<lambda>(name, inode). inode = j) (im_iter (re_map E) d) = Some (c, j)"
proof -
  have "node_ok E (parents s) (rf_last_inode_number s) p pf" using inv_node [OF assms(1,3)] .
  moreover have mem: "(c, j) \<in> set (im_iter (re_map E) d)" using assms(2,5) by (simp add: im_get_eq_Some)
  ultimately have "p < j" "1 \<le> p" "parents s j \<in> {None, Some p}" "distinct (map snd (im_iter (re_map E) d))"
    using assms(4) by (auto simp: node_ok_def entries_def)
  then show "f_parent g = p" "p < j" "1 \<le> p"
    and "find (\<lambda>(name, inode). inode = j) (im_iter (re_map E) d) = Some (c, j)"
    using assms(6) mem by (simp_all add: parents_def find_entry)
qed

lemma fpath_chain_walk:
  assumes "ramfs_inv E s" "index_map_ok (re_map E)" "rf_files s ROOT_INODE = Some root"
    and "walk (re_abi E) (re_map E) (rf_files s) uid gid cs ROOT_INODE root = Ok j"
    and "rf_files s j = Some g" "j \<le> fuel"
  shows "fpath_chain (re_map E) (rf_files s) fuel j g chain = Some (Ok (chain @ rev cs))"
  using assms(4-)
proof (induction cs arbitrary: j g fuel chain rule: rev_induct)
  case Nil
  then show ?case by (cases fuel) simp_all
next
  case (snoc c cs)
  obtain p pf d where w: "walk (re_abi E) (re_map E) (rf_files s) uid gid cs ROOT_INODE root = Ok p"
    and p: "rf_files s p = Some pf" "f_data pf = Directory d" and c: "im_get (re_map E) d c = Some j"
    using walk_snoc [OF snoc.prems(1) assms(3)] by blast
  note ef = entry_facts [OF assms(1,2) p c snoc.prems(2)]
  obtain fuel' where fuel: "fuel = Suc fuel'" "p \<le> fuel'" using ef(2) snoc.prems(3) by (cases fuel) auto
  have "fpath_chain (re_map E) (rf_files s) fuel' p pf (chain @ [c]) = Some (Ok ((chain @ [c]) @ rev cs))"
    by (rule snoc.IH [OF w p(1) fuel(2)])
  then show ?case using ef p fuel(1) by simp
qed

text \<open>
  C15. \<open>fpath\<close> inverts path resolution: for an inode reached by a path without dot components, it
  ends and writes the scheme's name and the path's components, each after a slash, and the part after
  the scheme's name resolves to the same inode again.
\<close>

theorem ramfs_fpath_inverts_resolve:
  assumes "ramfs_ok E s" "cs = path_components_iter (trim_start_slashes path)" "dot_free cs"
    and "resolve E s path uid gid = Ok i"
    and "n = length (slashed (trim_start_slashes (rf_scheme_name s) # cs))" "n \<le> length buf"
  shows "(\<exists>buf'. ramfs_fpath E i buf ctx s = ((s, buf'), Ok n) \<and>
      string_of (take n buf') = slashed (trim_start_slashes (rf_scheme_name s) # cs)) \<and>
    resolve E s (slashed cs) uid gid = Ok i"
proof -
  have ok: "ramfs_inv E s" "index_map_ok (re_map E)" using assms(1) by (simp_all add: ramfs_ok_def)
  obtain root where root: "rf_files s ROOT_INODE = Some root"
    and w: "walk (re_abi E) (re_map E) (rf_files s) uid gid cs ROOT_INODE root = Ok i"
    using assms(2-4) by (auto simp: resolve_def resolve_generic_def and_then_eq_Ok resolve_loop_dot_free)
  obtain g where g: "rf_files s i = Some g" using walk_present [OF w root] by blast
  have "i \<le> rf_last_inode_number s + 1" using inv_node [OF ok(1) g] by (simp add: node_ok_def)
  then have "fpath_chain (re_map E) (rf_files s) (rf_last_inode_number s + 1) i g [] = Some (Ok (rev cs))"
    using fpath_chain_walk [OF ok root w g, of "rf_last_inode_number s + 1" "[]"]
    by (simp del: fpath_chain.simps)
  then have "ramfs_fpath E i buf ctx s = ((s, copy_into buf 0
      (bytes_of (slashed (trim_start_slashes (rf_scheme_name s) # cs)))), Ok n)"
    using g assms(5,6) by (simp add: ramfs_fpath_def Let_def)
  moreover have "take n (copy_into buf 0 (bytes_of (slashed (trim_start_slashes (rf_scheme_name s) # cs)))) =
      bytes_of (slashed (trim_start_slashes (rf_scheme_name s) # cs))"
    using assms(5) by (simp add: copy_into_def)
  moreover have "path_components_iter (trim_start_slashes (slashed cs)) = cs"
    using path_components_plain assms(2) by (intro path_components_slashed) blast
  ultimately show ?thesis
    using root w assms(3) by (auto simp: resolve_def resolve_generic_def resolve_loop_dot_free)
qed

theorem ramfs_fpath_inverts_resolve_witness:
  "(\<exists>buf'. ramfs_fpath sample_ramfs_env 2 (replicate 8 0) root_ctx sample_one = ((sample_one, buf'), Ok 6) \<and>
      string_of (take 6 buf') = ''/mem/a'') \<and>
   resolve sample_ramfs_env sample_one ''/a'' 0 0 = Ok 2"
proof -
  have "resolve sample_ramfs_env sample_one ''/a'' 0 0 = Ok 2"
    by (simp add: resolve_def path_components_iter_def resolve_generic_def sample_one_def
        create_root_inode_def resolve_loop.simps get_at_def current_perm_def Let_def sample_defs)
  moreover have "path_components_iter (trim_start_slashes ''/a'') = [''a'']" "dot_free [''a'']"
    "rf_scheme_name sample_one = ''mem''"
    by (simp_all add: dot_free_def path_components_iter_def sample_one_def)
  ultimately show ?thesis
    using ramfs_fpath_inverts_resolve [OF sample_one_ok, of "[''a'']" "''/a''" 0 0 2 6 "replicate 8 0" root_ctx]
    by simp
qed

section \<open>Creating a file\<close>

text \<open>A file table extends another if every walk that succeeds in it succeeds in the other.\<close>

definition extends :: "'d index_map \<Rightarrow> (nat \<rightharpoonup> 'd ram_file) \<Rightarrow> (nat \<rightharpoonup> 'd ram_file) \<Rightarrow> bool" where
  "extends D files files' \<longleftrightarrow> (\<forall>i f. files i = Some f \<longrightarrow> (\<exists>f'. files' i = Some f' \<and>
     f_mode f' = f_mode f \<and> f_uid f' = f_uid f \<and> f_gid f' = f_gid f \<and>
     (\<forall>d. f_data f = Directory d \<longrightarrow> (\<exists>d'. f_data f' = Directory d' \<and>
        (\<forall>c j g. im_get D d c = Some j \<longrightarrow> files j = Some g \<longrightarrow> im_get D d' c = Some j)))))"

lemma walk_extends:
  assumes "extends D files files'" "walk K D files uid gid cs i f = Ok j" "files i = Some f"
    and "files' i = Some f'"
  shows "walk K D files' uid gid cs i f' = Ok j"
  using assms(2-)
proof (induction cs arbitrary: i f f')
  case (Cons c cs)
  then obtain d k g where d: "f_data f = Directory d" "current_perm K f uid gid AND 1 \<noteq> 0"
    and k: "im_get D d c = Some k" "files k = Some g" "walk K D files uid gid cs k g = Ok j"
    by (auto split: file_data.splits option.splits if_splits)
  obtain d' where f': "f_data f' = Directory d'" "im_get D d' c = Some k"
      "f_mode f' = f_mode f" "f_uid f' = f_uid f" "f_gid f' = f_gid f"
    using assms(1) Cons.prems(2,3) d(1) k(1,2) by (fastforce simp: extends_def)
  have "current_perm K f' uid gid = current_perm K f uid gid" using f' by (simp add: current_perm_def Let_def)
  moreover obtain g' where "files' k = Some g'" using assms(1) k(2) by (fastforce simp: extends_def)
  ultimately show ?case using Cons.IH [OF k(3,2)] f' d(2) by simp
qed simp

lemma root_perm [simp]: "current_perm K f 0 gid = 7"
  by (simp add: current_perm_def)

lemma walk_as_root:
  "walk K D files uid gid cs i f = Ok j \<Longrightarrow> walk K D files 0 0 cs i f = Ok j"
  by (induction cs arbitrary: i f) (auto split: file_data.splits option.splits if_splits)

lemma walk_append:
  "walk K D files uid gid cs i f = Ok p \<Longrightarrow> files i = Some f \<Longrightarrow> files p = Some pf \<Longrightarrow>
   walk K D files uid gid (cs @ cs') i f = walk K D files uid gid cs' p pf"
  by (induction cs arbitrary: i f) (auto split: file_data.splits option.splits if_splits)

lemma resolve_walkD:
  assumes "resolve E s path uid gid = Ok j" "dot_free (path_components_iter (trim_start_slashes path))"
  shows "\<exists>root. rf_files s ROOT_INODE = Some root \<and>
    walk (re_abi E) (re_map E) (rf_files s) uid gid (path_components_iter (trim_start_slashes path))
      ROOT_INODE root = Ok j"
  using assms by (auto simp: resolve_def resolve_generic_def and_then_eq_Ok resolve_loop_dot_free)

lemma create_extends:
  assumes "index_map_ok D" "files p = Some pf" "f_data pf = Directory d" "files n = None"
    and "\<And>j. im_get D d name = Some j \<Longrightarrow> files j = None"
  shows "extends D files (files(n \<mapsto> nf, p \<mapsto> pf\<lparr>f_data := Directory (im_insert D name n d)\<rparr>))"
  using assms by (auto simp: extends_def split: if_splits)

lemma new_file_size: "new_file E flags ctx p = Ok f \<Longrightarrow> data_size (f_data f) = 0"
  by (auto simp: new_file_def Let_def split: if_splits)

text \<open>What a successful creation does to the file table.\<close>

lemma create_file_effect:
  assumes "ramfs_ok E s" "cs = path_components_iter (trim_start_slashes path)" "dot_free cs"
    and "create_file E path flags ctx s = (s', Ok i)" "\<not> is_ok (resolve E s path 0 0)"
  obtains f pf d p root where "rf_files s i = None" "cs \<noteq> []" "data_size (f_data f) = 0"
    "rf_files s p = Some pf" "f_data pf = Directory d" "rf_files s ROOT_INODE = Some root"
    "walk (re_abi E) (re_map E) (rf_files s) 0 0 (butlast cs) ROOT_INODE root = Ok p"
    "rf_files s' = (rf_files s)(i \<mapsto> f, p \<mapsto> pf\<lparr>f_data := Directory (im_insert (re_map E) (last cs) i d)\<rparr>)"
    "extends (re_map E) (rf_files s) (rf_files s')" "p \<noteq> i"
  using assms(4)
proof (cases rule: create_file_cases)
  case (made p name f pf d)
  have env: "index_map_ok (re_map E)" "ramfs_inv E s" using assms(1) by (simp_all add: ramfs_ok_def)
  have new: "rf_files s i = None" using fresh_inode [OF env(2)] made(8) by simp
  have cs: "cs \<noteq> []" "name = last cs" and
    "resolve_generic E s (butlast cs) (ctx_uid ctx) (ctx_gid ctx) = Ok p"
    using made(2) assms(2) by (auto simp: resolve_except_last_def Let_def split: if_splits)
  moreover have "dot_free (butlast cs)" using assms(3) by (auto simp: dot_free_def dest: in_set_butlastD)
  ultimately obtain root where root: "rf_files s ROOT_INODE = Some root"
    and w: "walk (re_abi E) (re_map E) (rf_files s) 0 0 (butlast cs) ROOT_INODE root = Ok p"
    by (auto simp: resolve_generic_def and_then_eq_Ok resolve_loop_dot_free walk_as_root)
  have p: "p \<noteq> i" "rf_files s p = Some pf"
    using walk_present [OF w root] new made(5,8) by (auto split: if_splits)
  have "rf_files s j = None" if "im_get (re_map E) d name = Some j" for j
  proof (rule ccontr)
    assume "rf_files s j \<noteq> None"
    then have "walk (re_abi E) (re_map E) (rf_files s) 0 0 (butlast cs @ [name]) ROOT_INODE root = Ok j"
      using walk_append [OF w root p(2)] that made(6) by auto
    then show False
      using assms(2,3,5) cs root by (simp add: resolve_def resolve_generic_def resolve_loop_dot_free)
  qed
  then have "extends (re_map E) (rf_files s) (rf_files s')"
    using create_extends [OF env(1) p(2) made(6) new, of name f] made(7,8) by simp
  then show thesis
    using that [OF new cs(1) new_file_size [OF made(3)] p(2) made(6) root w] made(7,8) cs(2) p(1) by simp
qed simp_all

text \<open>
  C25. Creating a file makes it the file its path names: a successful \<open>open\<close> with \<open>O_CREAT\<close> of a path
  that did not resolve returns a new inode number, the path then resolves to it, the file is empty,
  and every path without dot components that resolved before still resolves to the same inode.
\<close>

theorem ramfs_create_resolves:
  assumes "ramfs_ok E s" "dot_free (path_components_iter (trim_start_slashes path))"
    and "ramfs_open E path flags ctx s = (s', Ok (ThisScheme i fl))"
    and "flags AND O_CREAT (re_abi E) \<noteq> 0" "\<not> is_ok (resolve E s path 0 0)"
    and "resolve E s other uid gid = Ok j" "dot_free (path_components_iter (trim_start_slashes other))"
  shows "rf_files s i = None \<and> resolve E s' path 0 0 = Ok i \<and>
    map_option (data_size \<circ> f_data) (rf_files s' i) = Some 0 \<and> resolve E s' other uid gid = Ok j"
proof -
  let ?cs = "path_components_iter (trim_start_slashes path)" and ?files = "rf_files s'"
  let ?walk = "walk (re_abi E) (re_map E) ?files"
  have cf: "create_file E path flags ctx s = (s', Ok i)"
    using assms(3-5) by (auto simp: ramfs_open_def Let_def split: if_splits elim!: then_do_eq_OkE)
  obtain f pf d p root where eff: "rf_files s i = None" "?cs \<noteq> []" "data_size (f_data f) = 0"
    "rf_files s p = Some pf" "f_data pf = Directory d" "rf_files s ROOT_INODE = Some root"
    "walk (re_abi E) (re_map E) (rf_files s) 0 0 (butlast ?cs) ROOT_INODE root = Ok p"
    "?files = (rf_files s)(i \<mapsto> f, p \<mapsto> pf\<lparr>f_data := Directory (im_insert (re_map E) (last ?cs) i d)\<rparr>)"
    "extends (re_map E) (rf_files s) ?files" "p \<noteq> i"
    using create_file_effect [OF assms(1) refl assms(2) cf assms(5)] .
  have D: "index_map_ok (re_map E)" using assms(1) by (simp add: ramfs_ok_def)
  obtain root' where root': "?files ROOT_INODE = Some root'"
    using eff(6,9) by (fastforce simp: extends_def)
  have "?walk 0 0 (butlast ?cs) ROOT_INODE root' = Ok p"
    using walk_extends [OF eff(9,7,6) root'] .
  moreover have found: "?files i = Some f"
    "?files p = Some (pf\<lparr>f_data := Directory (im_insert (re_map E) (last ?cs) i d)\<rparr>)"
    using eff(8,10) by simp_all
  ultimately have "?walk 0 0 (butlast ?cs @ [last ?cs]) ROOT_INODE root' = Ok i"
    using walk_append [OF _ root' found(2)] D by simp
  then have "?walk 0 0 ?cs ROOT_INODE root' = Ok i" using eff(2) by simp
  moreover have "resolve E s' other uid gid = Ok j"
    using resolve_walkD [OF assms(6,7)] walk_extends [OF eff(9) _ _ root'] eff(6) root' assms(7)
    by (auto simp: resolve_def resolve_generic_def resolve_loop_dot_free)
  ultimately show ?thesis
    using eff(1,3) found root' assms(2)
    by (simp add: resolve_def resolve_generic_def resolve_loop_dot_free)
qed

theorem ramfs_create_resolves_witness:
  "resolve sample_ramfs_env sample_one ''/a'' 0 0 = Ok 2 \<and> resolve sample_ramfs_env sample_one ''/'' 0 0 = Ok 1"
proof -
  have "ramfs_ok sample_ramfs_env sample_fresh"
    using ramfs_new_inv [OF sample_new] sample_env_ok by (simp add: ramfs_ok_def)
  moreover have "creat_flags AND O_CREAT (re_abi sample_ramfs_env) \<noteq> 0" by (simp add: sample_defs)
  moreover have "\<not> is_ok (resolve sample_ramfs_env sample_fresh ''/a'' 0 0)"
    "resolve sample_ramfs_env sample_fresh ''/'' 0 0 = Ok 1"
    by (simp_all add: resolve_def path_components_iter_def resolve_generic_def sample_fresh_def
        create_root_inode_def resolve_loop.simps get_at_def Let_def sample_defs)
  ultimately show ?thesis
    using ramfs_create_resolves [OF _ _ sample_create, of "''/''" 0 0 1]
    by (simp add: dot_free_def path_components_iter_def)
qed

section \<open>File contents\<close>

text \<open>
  A successful \<open>write\<close> replaces exactly the bytes from the offset on by the data, fills a gap
  between the old end and the offset with zeros, never shortens the file, and changes no other file
  and no other attribute.
\<close>

lemma ramfs_write_contents:
  assumes "ramfs_write E i data off ff ctx s = (s', Ok n)"
  shows "n = length data \<and> (\<exists>f b b'. rf_files s i = Some f \<and> f_data f = FileBytes b \<and>
    s' = set_file i (f\<lparr>f_data := FileBytes b'\<rparr>) s \<and>
    length b' = max (length b) (off + length data) \<and>
    (\<forall>k < length b'. b' ! k = (if off \<le> k \<and> k < off + length data then data ! (k - off)
       else if k < length b then b ! k else 0)))"
proof -
  obtain f b where f: "rf_files s i = Some f" "f_data f = FileBytes b" and n: "n = length data"
    and s': "s' = set_file i (f\<lparr>f_data := FileBytes (copy_into
      (if off + length data > length b then resize (off + length data) 0 b else b) off data)\<rparr>) s"
    using assms by (auto simp: ramfs_write_def usize_checked_add_def Let_def
        split: question_splits file_data.splits if_splits)
  let ?b' = "copy_into (if off + length data > length b then resize (off + length data) 0 b else b) off data"
  have "length ?b' = max (length b) (off + length data)" by simp
  moreover have "\<forall>k < length ?b'. ?b' ! k = (if off \<le> k \<and> k < off + length data then data ! (k - off)
      else if k < length b then b ! k else 0)"
    by (auto simp: nth_copy_into nth_resize)
  ultimately show ?thesis using f n s' by blast
qed

text \<open>
  C27. What was written is read back: after a successful \<open>write\<close>, a \<open>read\<close> of as many bytes at the
  same offset through a readable handle returns the data.
\<close>

theorem ramfs_read_after_write:
  assumes "ramfs_write E i data off ff ctx s = (s', Ok n)"
    and "ucast rflags AND O_ACCMODE (re_abi E) \<in> {O_RDONLY (re_abi E), O_RDWR (re_abi E)}"
    and "length buf = length data"
  shows "ramfs_read E i buf off rflags ctx' s' = ((s', data), Ok (length data))"
proof -
  obtain f b where f: "rf_files s i = Some f" "f_data f = FileBytes b"
    and dir: "f_mode f AND MODE_TYPE (re_abi E) \<noteq> MODE_DIR (re_abi E)"
    and s': "s' = set_file i (f\<lparr>f_data := FileBytes (copy_into
      (if off + length data > length b then resize (off + length data) 0 b else b) off data)\<rparr>) s"
      (is "_ = set_file i (f\<lparr>f_data := FileBytes (copy_into ?b off data)\<rparr>) s")
    using assms(1) by (auto simp: ramfs_write_def usize_checked_add_def Let_def
        split: question_splits file_data.splits if_splits)
  have len: "off + length data \<le> length ?b" by auto
  then have "take (length data) (drop off (copy_into ?b off data)) = data"
    by (rule take_drop_copy_into)
  moreover have "min (length (copy_into ?b off data) - off) (length data) = length data"
    using len by (simp add: length_copy_into)
  ultimately show ?thesis
    using dir assms(2,3) unfolding s'
    by (simp add: ramfs_read_def Let_def copy_into_def [of buf])
qed

theorem ramfs_read_after_write_witness:
  "ramfs_read sample_ramfs_env 2 [0, 0] 1 0x30000 root_ctx
     (set_file 2 (sample_file\<lparr>f_data := FileBytes [0, 5, 6]\<rparr>) sample_one) =
   ((set_file 2 (sample_file\<lparr>f_data := FileBytes [0, 5, 6]\<rparr>) sample_one, [5, 6]), Ok 2)"
proof -
  have "ramfs_write sample_ramfs_env 2 [5, 6] 1 0 root_ctx sample_one =
     (set_file 2 (sample_file\<lparr>f_data := FileBytes [0, 5, 6]\<rparr>) sample_one, Ok 2)"
    by (simp add: ramfs_write_def sample_one_def sample_file_def sample_defs usize_checked_add_def
        copy_into_def resize_def)
  from ramfs_read_after_write [OF this, of "0x30000" "[0, 0]" root_ctx] show ?thesis
    by (simp add: sample_defs)
qed

text \<open>
  A successful \<open>ftruncate\<close> gives the file the requested size, keeps the bytes below it, makes
  new bytes zero, and \<open>fstat\<close> then reports that size.
\<close>

lemma ramfs_ftruncate_contents:
  assumes "ramfs_ftruncate E i sz ctx s = (s', Ok u)"
    and "ramfs_fstat E i st ctx' s' = ((s'', st'), Ok u')"
  shows "(\<exists>f b b'. rf_files s i = Some f \<and> f_data f = FileBytes b \<and>
      s' = set_file i (f\<lparr>f_data := FileBytes b'\<rparr>) s \<and> length b' = sz \<and>
      (\<forall>k < sz. b' ! k = (if k < length b then b ! k else 0))) \<and> st_size st' = sz \<and> s'' = s'"
proof -
  obtain f b where f: "rf_files s i = Some f" "f_data f = FileBytes b"
    and s': "s' = set_file i (f\<lparr>f_data := FileBytes (resize sz 0 b)\<rparr>) s"
    using assms(1) by (auto simp: ramfs_ftruncate_def Let_def
        split: question_splits file_data.splits if_splits)
  have "st_size st' = sz" "s'' = s'"
    using assms(2) unfolding s'
    by (auto simp: ramfs_fstat_def file_stat_def Let_def and_then_eq_Ok split: question_splits)
  then show ?thesis using f s' by (auto simp: nth_resize)
qed

section \<open>Permissions\<close>

text \<open>The place of a class of users in a mode: the owner's bits, the group's, or the others'.\<close>

definition perm_class :: "u32 \<Rightarrow> u32 \<Rightarrow> 'd ram_file \<Rightarrow> nat" where
  "perm_class uid gid f = (if uid = f_uid f then 6 else if gid = f_gid f then 3 else 0)"

lemma mode_perm_bit:
  assumes "abi_ok K" "n \<le> 8"
  shows "bit (MODE_PERM K) n"
proof -
  have "n \<in> {0, 1, 2, 3, 4, 5, 6, 7, 8}" using assms(2) by auto
  then have "bit (0x1FF :: u16) n" by auto
  moreover have "MODE_PERM K AND 0x1FF = 0x1FF" using assms(1) by (simp add: abi_ok_def)
  ultimately show ?thesis by (metis bit_and_iff)
qed

lemma current_perm_bit:
  assumes "abi_ok K" "uid \<noteq> 0" "k \<in> {1, 2}"
  shows "bit (current_perm K f uid gid) k = bit (f_mode f) (perm_class uid gid f + k)"
  using assms(2,3) mode_perm_bit [OF assms(1)]
  by (auto simp: current_perm_def perm_class_def Let_def bit_simps)

lemma check_permissions_bits:
  assumes "abi_ok K" "check_permissions K flags m = Ok u"
  shows "flags AND O_ACCMODE K \<in> {O_RDONLY K, O_RDWR K} \<Longrightarrow> bit m 2"
    and "flags AND O_ACCMODE K \<in> {O_WRONLY K, O_RDWR K} \<Longrightarrow> bit m 1"
proof -
  have four: "m AND 4 = 0 \<longleftrightarrow> \<not> bit m 2" and two: "m AND 2 = 0 \<longleftrightarrow> \<not> bit m 1"
    using and_exp_eq_0_iff_not_bit [of m 2] and_exp_eq_0_iff_not_bit [of m 1] by simp_all
  have six: "bit m 2 \<and> bit m 1" if "m AND 6 = 6"
  proof -
    have "bit (m AND 6) 2" "bit (m AND 6) 1" using that by simp_all
    then show ?thesis by (simp_all add: bit_and_iff)
  qed
  note modes = abi_ok_access_modes [OF assms(1)]
  show "flags AND O_ACCMODE K \<in> {O_RDONLY K, O_RDWR K} \<Longrightarrow> bit m 2"
    using assms(2) modes four six by (auto simp: check_permissions_def split: if_splits)
  show "flags AND O_ACCMODE K \<in> {O_WRONLY K, O_RDWR K} \<Longrightarrow> bit m 1"
    using assms(2) modes two six by (auto simp: check_permissions_def split: if_splits)
qed

text \<open>
  C30. Opening an existing file respects its permission bits: if a user other than root opens a file
  for reading, the read bit of the user's class is set in its mode, and for writing the write bit is.
\<close>

theorem ramfs_open_respects_permissions:
  assumes "abi_ok (re_abi E)" "uid \<noteq> 0" "open_existing E path flags uid gid s = (s', Ok i)"
  shows "\<exists>f. rf_files s i = Some f \<and>
    (flags AND O_ACCMODE (re_abi E) \<in> {O_RDONLY (re_abi E), O_RDWR (re_abi E)} \<longrightarrow>
       bit (f_mode f) (perm_class uid gid f + 2)) \<and>
    (flags AND O_ACCMODE (re_abi E) \<in> {O_WRONLY (re_abi E), O_RDWR (re_abi E)} \<longrightarrow>
       bit (f_mode f) (perm_class uid gid f + 1))"
proof -
  obtain f where f: "rf_files s i = Some f"
    "check_permissions (re_abi E) flags (current_perm (re_abi E) f uid gid) = Ok ()"
    using assms(3) by (cases rule: open_existing_cases) auto
  show ?thesis
    using f(1) check_permissions_bits [OF assms(1) f(2)]
      current_perm_bit [OF assms(1,2), of 1 f gid] current_perm_bit [OF assms(1,2), of 2 f gid] by auto
qed

theorem ramfs_open_respects_permissions_witness:
  "snd (open_existing sample_ramfs_env ''/a'' 0x10000 1000 1000 sample_one) = Ok 2 \<and>
   (\<exists>f. rf_files sample_one 2 = Some f \<and> bit (f_mode f) (perm_class 1000 1000 f + 2))"
proof -
  have run: "snd (open_existing sample_ramfs_env ''/a'' 0x10000 1000 1000 sample_one) = Ok 2"
    by (simp add: open_existing_def resolve_def path_components_iter_def resolve_generic_def
        sample_one_def sample_file_def create_root_inode_def resolve_loop.simps get_at_def
        current_perm_def check_permissions_def usize_add_def Let_def sample_defs)
  then obtain s' where "open_existing sample_ramfs_env ''/a'' 0x10000 1000 1000 sample_one = (s', Ok 2)"
    by (metis prod.collapse)
  from ramfs_open_respects_permissions [OF sample_env_ok(1) _ this] run show ?thesis
    by (auto simp: sample_defs)
qed

section \<open>A defect of link counting\<close>

text \<open>Runs given by a list of calls made by root and handles closed.\<close>

fun ramfs_script ::
  "'d ramfs_env \<Rightarrow> (op + nat) list \<Rightarrow> 'd ramfs \<Rightarrow> nat multiset \<Rightarrow> ('d ramfs \<times> nat multiset) option" where
  "ramfs_script E [] s H = Some (s, H)"
| "ramfs_script E (Inl oper # rest) s H =
     (let ((s', oper'), r) = handle_sync_dont_consume (re_abi E) (ramfs_scheme E) root_ctx oper s in
      if panicked r then None else ramfs_script E rest s' (H + opened_handles r))"
| "ramfs_script E (Inr i # rest) s H =
     (if i \<in># H then (case ramfs_on_close i s of
        (s', Ok u) \<Rightarrow> ramfs_script E rest s' (H - {#i#}) | _ \<Rightarrow> None) else None)"

lemma ramfs_script_run:
  assumes "ramfs_script E script s H = Some (s', H')" "ramfs_run (re_abi E) (re_map E) s H"
  shows "ramfs_run (re_abi E) (re_map E) s' H'"
  using assms
proof (induction script arbitrary: s H)
  case (Cons x rest)
  then show ?case
    by (cases x) (auto split: prod.splits if_splits outcome.splits intro: Cons.IH ramfs_call ramfs_close)
qed simp

definition mkdir_flags :: u64 where
  "mkdir_flags = 0x120101ED"

definition rmdir_first :: "(op + nat) list" where
  "rmdir_first = [Inl (OpOpen 0 ''/d'' mkdir_flags), Inl (OpOpen 0 ''/d/x'' mkdir_flags), Inr 3,
     Inl (OpOpen 0 ''/d/y'' mkdir_flags), Inr 4, Inl (OpUnlinkAt 0 2 ''/d/x'' 0x200)]"

text \<open>A walk to an inode that is no longer in the table, through directories that are.\<close>

lemma walk_to_lost:
  assumes "ramfs_inv E s" "index_map_ok (re_map E)"
    and "walk (re_abi E) (re_map E) (rf_files s) uid gid cs i f = Ok p" "rf_files s i = Some f" "cs \<noteq> []"
    and "\<And>j. j < p \<Longrightarrow> files j = rf_files s j" "files p = None"
  shows "i < p \<and> walk (re_abi E) (re_map E) files uid gid cs i f = Err EIO"
  using assms(3-5)
proof (induction cs arbitrary: i f)
  case (Cons c cs)
  then obtain d j g where d: "f_data f = Directory d" "im_get (re_map E) d c = Some j" "rf_files s j = Some g"
    "\<not> current_perm (re_abi E) f uid gid AND 1 = 0" "walk (re_abi E) (re_map E) (rf_files s) uid gid cs j g = Ok p"
    by (auto split: file_data.splits if_splits option.splits)
  have "i < j" using inv_node [OF assms(1) Cons.prems(2)] d(1,2) im_get_eq_Some [OF assms(2), of d c j]
    by (auto simp: node_ok_def entries_def)
  show ?case
  proof (cases cs)
    case Nil
    then show ?thesis using d assms(7) \<open>i < j\<close> by simp
  next
    case (Cons c' cs')
    then have "j < p \<and> walk (re_abi E) (re_map E) files uid gid cs j g = Err EIO" using Cons.IH [OF d(5,3)] by simp
    then show ?thesis using d assms(6) [of j] \<open>i < j\<close> by simp
  qed
qed simp

lemma open_keeps_links:
  assumes "ramfs_inv E s" "ramfs_open E path flags ctx s = (s', r)" "rf_files s j = Some h"
  shows "\<exists>h'. rf_files s' j = Some h' \<and> f_nlink h' = f_nlink h"
proof -
  have j: "j \<noteq> rf_last_inode_number s + 1" using inv_node [OF assms(1,3)] by (simp add: node_ok_def)
  obtain t q t' q' where t: "create_file E path flags ctx s = (t, q)"
    "open_existing E path flags (ctx_uid ctx) (ctx_gid ctx) s = (t', q')" by fastforce
  from t(1) have "\<exists>h'. rf_files t j = Some h' \<and> f_nlink h' = f_nlink h"
    using assms(3) j by (cases rule: create_file_cases) (auto split: if_splits)
  moreover have "\<exists>h'. rf_files t' j = Some h' \<and> f_nlink h' = f_nlink h"
    using t(2) assms(3) by (auto simp: open_existing_def Let_def split: question_splits if_splits file_data.splits)
  ultimately show ?thesis using assms(2,3) t
    by (auto simp: ramfs_open_def Let_def then_do_def split: if_splits outcome.splits)
qed

text \<open>
  C40. The link count of a directory is not raised when a subdirectory is made, since opening and
  creating leave every link count as it is, but it is lowered by one when an empty subdirectory is
  removed. So a directory whose count has come down to one this way is lost, although it was never
  removed: once a further subdirectory is removed and its last handle is closed its inode is gone,
  and its path, whose entry is still there, resolves to \<open>EIO\<close>.
\<close>

theorem ramfs_rmdir_loses_parent:
  assumes ok: "ramfs_ok E s" and cs: "cs = path_components_iter (trim_start_slashes path)" "dot_free cs"
    and p: "resolve_except_last E s path 0 0 = Ok (p, Some name)" "rf_files s p = Some f" "f_data f = Directory d"
    and c: "im_get (re_map E) d name = Some c" "rf_files s c = Some g" "f_data g = Directory e" "im_is_empty (re_map E) e"
      "f_nlink g = 2" "f_open_handles g = 0"
    and n: "f_nlink f = Suc n" "rf_files s fd \<noteq> None" "ctx_uid ctx = 0" "ctx_gid ctx = 0"
  shows "(\<forall>path' flags ctx' s' r j h. ramfs_open E path' flags ctx' s = (s', r) \<and> rf_files s j = Some h \<longrightarrow>
      (\<exists>h'. rf_files s' j = Some h' \<and> f_nlink h' = f_nlink h)) \<and>
    (\<exists>s1 d'. ramfs_unlinkat E fd path (AT_REMOVEDIR (re_abi E)) ctx s = (s1, Ok ()) \<and>
      rf_files s1 = (rf_files s)(p \<mapsto> f\<lparr>f_data := Directory d', f_nlink := n\<rparr>, c := None) \<and>
      (n = 0 \<and> f_open_handles f = 1 \<and> butlast cs \<noteq> [] \<longrightarrow>
        (\<exists>s2. ramfs_on_close p s1 = (s2, Ok ()) \<and> rf_files s2 = (rf_files s)(p := None, c := None) \<and>
          resolve E s (slashed (butlast cs)) 0 0 = Ok p \<and> resolve E s2 (slashed (butlast cs)) 0 0 = Err EIO)))"
proof -
  have env: "ramfs_inv E s" "index_map_ok (re_map E)" using ok by (simp_all add: ramfs_ok_def)
  have pc: "p < c" using inv_node [OF env(1) p(2)] p(3) im_get_eq_Some [OF env(2), of d name c] c(1)
    by (auto simp: node_ok_def entries_def)
  obtain d' where d': "im_shift_remove (re_map E) name d = (d', Some c)"
    using env(2) c(1) by (metis index_map_ok_def prod.collapse)
  define s1 where "s1 = remove_file c (set_file p (f\<lparr>f_data := Directory d', f_nlink := n\<rparr>) s)"
  have rm: "ramfs_unlinkat E fd path (AT_REMOVEDIR (re_abi E)) ctx s = (s1, Ok ())"
    using p c n d' pc by (auto simp: ramfs_unlinkat_def remove_dentry_def drop_links_def usize_sub_def current_perm_def s1_def set_file_def remove_file_def
        Let_def intro!: arg_cong [where f = "\<lambda>x. rf_files_update x s"])
  have files: "rf_files s1 = (rf_files s)(p \<mapsto> f\<lparr>f_data := Directory d', f_nlink := n\<rparr>, c := None)" by (simp add: s1_def)
  have "\<exists>s2. ramfs_on_close p s1 = (s2, Ok ()) \<and> rf_files s2 = (rf_files s)(p := None, c := None) \<and>
      resolve E s (slashed (butlast cs)) 0 0 = Ok p \<and> resolve E s2 (slashed (butlast cs)) 0 0 = Err EIO"
    if last: "n = 0" "f_open_handles f = 1" "butlast cs \<noteq> []"
  proof -
    define s2 where "s2 = remove_file p s1"
    have s2: "rf_files s2 = (rf_files s)(p := None, c := None)" using pc by (auto simp: s2_def files)
    have "ramfs_on_close p s1 = (s2, Ok ())" using last files pc by (simp add: ramfs_on_close_def usize_sub_def s2_def Let_def)
    moreover have split: "path_components_iter (trim_start_slashes (slashed (butlast cs))) = butlast cs" "dot_free (butlast cs)"
      using path_components_plain cs by (auto simp: dot_free_def intro!: path_components_slashed dest: in_set_butlastD)
    have gen: "resolve_generic E s (butlast cs) 0 0 = Ok p" using p(1) cs(1) by (simp add: resolve_except_last_def Let_def)
    then obtain root where root: "rf_files s ROOT_INODE = Some root"
      "walk (re_abi E) (re_map E) (rf_files s) 0 0 (butlast cs) ROOT_INODE root = Ok p"
      using split(2) by (auto simp: resolve_generic_def and_then_eq_Ok resolve_loop_dot_free)
    have "ROOT_INODE < p \<and> walk (re_abi E) (re_map E) (rf_files s2) 0 0 (butlast cs) ROOT_INODE root = Err EIO"
      using pc s2 by (intro walk_to_lost [OF env root(2,1) last(3)]) auto
    then have "resolve_generic E s2 (butlast cs) 0 0 = Err EIO"
      using root(1) s2 pc split(2) by (simp add: resolve_generic_def resolve_loop_dot_free)
    ultimately show ?thesis using s2 gen split(1) by (simp add: resolve_def)
  qed
  then show ?thesis using rm files open_keeps_links [OF env(1)] by metis
qed

theorem ramfs_rmdir_loses_parent_witness:
  "\<exists>s H s1 s2. ramfs_run sample_abi alist_map s H \<and> resolve sample_ramfs_env s ''/d'' 0 0 = Ok 2 \<and>
     ramfs_unlinkat sample_ramfs_env 2 ''/d/y'' 0x200 root_ctx s = (s1, Ok ()) \<and> ramfs_on_close 2 s1 = (s2, Ok ()) \<and>
     resolve sample_ramfs_env s2 ''/d'' 0 0 = Err EIO"
proof -
  let ?E = sample_ramfs_env
  have "\<exists>s H f g. ramfs_script ?E rmdir_first sample_fresh {#} = Some (s, H) \<and> resolve_except_last ?E s ''/d/y'' 0 0 = Ok (2, Some ''y'') \<and>
      rf_files s 2 = Some f \<and> f_data f = Directory [(''y'', 4)] \<and> f_nlink f = 1 \<and> f_open_handles f = 1 \<and>
      rf_files s 4 = Some g \<and> f_data g = Directory [] \<and> f_nlink g = 2 \<and> f_open_handles g = 0"
    by (simp add: rmdir_first_def mkdir_flags_def ramfs_scheme_def default_scheme_def ramfs_open_def
        resolve_def path_components_iter_def resolve_generic_def sample_fresh_def
        create_root_inode_def resolve_loop.simps get_at_def current_perm_def Let_def
        create_file_def resolve_except_last_def next_inode_number_def usize_checked_add_def new_file_def
        check_permissions_def set_file_def current_time_def ramfs_unlinkat_def remove_dentry_def
        drop_links_def usize_sub_def remove_file_def ramfs_on_close_def sample_defs)
  then obtain s H f g where s: "ramfs_script ?E rmdir_first sample_fresh {#} = Some (s, H)"
    "resolve_except_last ?E s ''/d/y'' 0 0 = Ok (2, Some ''y'')" "rf_files s 2 = Some f" "f_data f = Directory [(''y'', 4)]"
    "f_nlink f = Suc 0" "f_open_handles f = 1" "rf_files s 4 = Some g" "f_data g = Directory []" "f_nlink g = 2" "f_open_handles g = 0"
    by auto
  have "ramfs_run sample_abi alist_map sample_fresh {#}" by (rule ramfs_start [OF sample_new]) (simp_all add: sample_ramfs_env_def)
  then have run: "ramfs_run sample_abi alist_map s H"
    using ramfs_script_run [OF s(1)] by (simp add: sample_ramfs_env_def)
  have cs: "[''d'', ''y''] = path_components_iter (trim_start_slashes ''/d/y'')" "dot_free [''d'', ''y'']"
    by (simp_all add: path_components_iter_def dot_free_def)
  have "ramfs_ok ?E s" using ramfs_run_facts [of ?E s H] run sample_env_ok by (simp add: sample_ramfs_env_def)
  from ramfs_rmdir_loses_parent [OF this cs s(2-4), of 4 g "[]" 0 2 root_ctx] s run show ?thesis
    by (simp add: sample_defs) blast
qed

end
