(* ===== verification/Chan.thy ===== *)
theory Chan
  imports Serial_Loop
begin

text \<open>
  The channel scheme of \<open>ipcd/src/chan.rs\<close>: named listeners, connections between two handles, and a
  byte stream in each direction. The socket the scheme answers on is a parameter: \<open>ce_write_response\<close>
  is what writing a response to it gives. The model records the event notifications that were
  written in \<open>cs_posted\<close>.
\<close>

section \<open>State\<close>

datatype connection = Waiting | Open nat | Closed

record client =
  cl_buffer :: "u8 list"
  cl_remote :: connection

record listener =
  ls_path :: "string option"
  ls_awaiting :: "nat list"

datatype extra = Client client | Listener listener

record chan_handle =
  ch_flags :: u64
  ch_extra :: extra
  ch_path :: "string option"

record chan =
  cs_handles :: "nat \<rightharpoonup> chan_handle"
  cs_listeners :: "string \<rightharpoonup> nat"
  cs_next_id :: nat
  cs_posted :: "cqe list"

record chan_env =
  ce_abi :: abi
  ce_write_response :: "cqe \<Rightarrow> bool outcome"

definition client_default :: client where
  "client_default = \<lparr>cl_buffer = [], cl_remote = Waiting\<rparr>"

definition listener_default :: listener where
  "listener_default = \<lparr>ls_path = None, ls_awaiting = []\<rparr>"

definition handle_default :: chan_handle where
  "handle_default = \<lparr>ch_flags = 0, ch_extra = Client client_default, ch_path = None\<rparr>"

section \<open>Handles\<close>

definition accept :: "chan_handle \<Rightarrow> nat \<Rightarrow> chan_handle" where
  "accept h remote = handle_default\<lparr>ch_flags := ch_flags h,
     ch_extra := Client (client_default\<lparr>cl_remote := Open remote\<rparr>)\<rparr>"

definition connect :: "chan_handle \<Rightarrow> nat \<Rightarrow> chan_handle outcome" where
  "connect h other = (case ch_extra h of
       Listener l \<Rightarrow> Ok (h\<lparr>ch_extra := Listener (l\<lparr>ls_awaiting := ls_awaiting l @ [other]\<rparr>)\<rparr>)
     | Client _ \<Rightarrow> Err EBADF)"

definition require_listener :: "chan_handle \<Rightarrow> listener outcome" where
  "require_listener h = (case ch_extra h of Listener l \<Rightarrow> Ok l | Client _ \<Rightarrow> Err EBADF)"

definition require_client :: "chan_handle \<Rightarrow> client outcome" where
  "require_client h = (case ch_extra h of Client c \<Rightarrow> Ok c | Listener _ \<Rightarrow> Err EBADF)"

section \<open>The scheme\<close>

definition chan_new :: chan where
  "chan_new = \<lparr>cs_handles = Map.empty, cs_listeners = Map.empty, cs_next_id = 0, cs_posted = []\<rparr>"

definition put_handle :: "nat \<Rightarrow> chan_handle \<Rightarrow> chan \<Rightarrow> chan" where
  "put_handle i h s = s\<lparr>cs_handles := (cs_handles s)(i \<mapsto> h)\<rparr>"

definition chan_post_fevent :: "chan_env \<Rightarrow> nat \<Rightarrow> u64 \<Rightarrow> chan \<Rightarrow> chan \<times> unit outcome" where
  "chan_post_fevent E i flags s = (let r = post_fevent_response i flags in
     case ce_write_response E r of
       Ok True \<Rightarrow> (s\<lparr>cs_posted := cs_posted s @ [r]\<rparr>, Ok ())
     | Ok False \<Rightarrow> (s, Err EAGAIN)
     | Err e \<Rightarrow> (s, Err e)
     | Panic \<Rightarrow> (s, Panic))"

text \<open>The end of \<open>open\<close> and \<open>dup\<close>: the new handle is stored under the next id.\<close>

definition insert_new :: "chan_handle \<Rightarrow> chan \<Rightarrow> chan \<times> open_result outcome" where
  "insert_new new s = (let new_id = cs_next_id s; s1 = put_handle new_id new s in
     question s1 (usize_add new_id 1) (\<lambda>n. (s1\<lparr>cs_next_id := n\<rparr>, Ok (ThisScheme new_id 0))))"

definition chan_open ::
  "chan_env \<Rightarrow> string \<Rightarrow> u64 \<Rightarrow> caller_ctx \<Rightarrow> chan \<Rightarrow> chan \<times> open_result outcome" where
  "chan_open E path flags ctx s = (let
       K = ce_abi E;
       new_id = cs_next_id s;
       new = handle_default\<lparr>ch_flags := flags\<rparr>;
       create = (flags AND O_CREAT K = O_CREAT K) in
     if create \<and> cs_listeners s path = None
     then (if path \<noteq> []
           then insert_new
             (new\<lparr>ch_extra := Listener (listener_default\<lparr>ls_path := Some path\<rparr>)\<rparr>)
             (s\<lparr>cs_listeners := (cs_listeners s)(path \<mapsto> new_id)\<rparr>)
           else insert_new (new\<lparr>ch_extra := Listener listener_default\<rparr>) s)
     else if create \<and> flags AND O_EXCL K = O_EXCL K then (s, Err EEXIST)
     else
       question s (ok_or ENOENT (cs_listeners s path)) (\<lambda>listener_id.
       question s (unwrap (cs_handles s listener_id)) (\<lambda>listener.
       question s (connect listener new_id) (\<lambda>listener'.
       then_do (chan_post_fevent E listener_id (EVENT_READ K OR EVENT_WRITE K)
           (put_handle listener_id listener' s)) (\<lambda>s1 _.
       insert_new new s1)))))"

text \<open>
  The loop of \<open>dup\<close> with \<open>listen\<close>, over the queue of waiting clients: ids of clients that have gone
  are dropped, and the first one that is left is connected.
\<close>

fun accept_loop ::
  "chan_env \<Rightarrow> nat \<Rightarrow> chan_handle \<Rightarrow> listener \<Rightarrow> nat list \<Rightarrow> chan \<Rightarrow> chan \<times> open_result outcome" where
  "accept_loop E i handle listener [] s =
     (if ch_flags handle AND O_NONBLOCK (ce_abi E) = O_NONBLOCK (ce_abi E)
      then (s, Ok WouldBlock) else (s, Err EWOULDBLOCK))"
| "accept_loop E i handle listener (remote_id # awaiting) s = (let
       s1 = put_handle i (handle\<lparr>ch_extra := Listener (listener\<lparr>ls_awaiting := awaiting\<rparr>)\<rparr>) s;
       new_id = cs_next_id s1;
       new = accept handle remote_id in
     case cs_handles s1 remote_id of
       None \<Rightarrow> accept_loop E i handle listener awaiting s1
     | Some remote \<Rightarrow>
        (case ch_extra remote of
           Client client \<Rightarrow>
             then_do (chan_post_fevent E remote_id (EVENT_WRITE (ce_abi E))
               (put_handle remote_id
                 (remote\<lparr>ch_extra := Client (client\<lparr>cl_remote := Open new_id\<rparr>)\<rparr>) s1)) (\<lambda>s2 _.
             insert_new (new\<lparr>ch_path := ls_path listener\<rparr>) s2)
         | Listener _ \<Rightarrow> (s1, Panic)))"

definition chan_dup ::
  "chan_env \<Rightarrow> nat \<Rightarrow> u8 list \<Rightarrow> caller_ctx \<Rightarrow> chan \<Rightarrow> chan \<times> open_result outcome" where
  "chan_dup E i buf ctx s = (let K = ce_abi E in
     if buf = bytes_of ''listen'' then
       question s (ok_or EBADF (cs_handles s i)) (\<lambda>handle.
       question s (require_listener handle) (\<lambda>listener.
       accept_loop E i handle listener (ls_awaiting listener) s))
     else if buf = bytes_of ''connect'' then
       question s (ok_or EBADF (cs_handles s i)) (\<lambda>handle.
       question s (require_listener handle) (\<lambda>_.
       question s (connect handle (cs_next_id s)) (\<lambda>handle'.
       then_do (chan_post_fevent E i (EVENT_READ K OR EVENT_WRITE K) (put_handle i handle' s)) (\<lambda>s1 _.
       insert_new handle_default s1))))
     else if buf = [] then (s, Err EBADF)
     else if \<not> utf8_valid buf then (s, Err EBADF)
     else
       question s (ok_or EBADF (cs_handles s i)) (\<lambda>handle.
       if ch_path handle \<noteq> None then (s, Err EBADF)
       else chan_open E (string_of buf) (ch_flags handle) ctx s))"

definition chan_write ::
  "chan_env \<Rightarrow> nat \<Rightarrow> u8 list \<Rightarrow> nat \<Rightarrow> u32 \<Rightarrow> caller_ctx \<Rightarrow> chan \<Rightarrow> chan \<times> nat outcome" where
  "chan_write E i buf offset flags ctx s = (let K = ce_abi E in
     question s (ok_or EBADF (cs_handles s i)) (\<lambda>handle.
     question s (require_client handle) (\<lambda>client.
     case cl_remote client of
       Open remote_id \<Rightarrow>
         question s (unwrap (cs_handles s remote_id)) (\<lambda>remote.
         case ch_extra remote of
           Client c \<Rightarrow>
             (let buffer = cl_buffer c @ buf;
                  s1 = put_handle remote_id (remote\<lparr>ch_extra := Client (c\<lparr>cl_buffer := buffer\<rparr>)\<rparr>) s in
              if length buffer = length buf
              then then_do (chan_post_fevent E remote_id (EVENT_READ K) s1) (\<lambda>s2 _. (s2, Ok (length buf)))
              else (s1, Ok (length buf)))
         | Listener _ \<Rightarrow> (s, Panic))
     | Closed \<Rightarrow> (s, Err EPIPE)
     | Waiting \<Rightarrow>
         if ucast flags AND O_NONBLOCK K = O_NONBLOCK K then (s, Err EAGAIN)
         else (s, Err EWOULDBLOCK))))"

definition chan_fpath :: "nat \<Rightarrow> u8 list \<Rightarrow> caller_ctx \<Rightarrow> chan \<Rightarrow> (chan \<times> u8 list) \<times> nat outcome" where
  "chan_fpath i buf ctx s = (let
       PREFIX = bytes_of ''chan:'';
       len = min (length PREFIX) (length buf);
       buf1 = copy_into buf 0 (take len PREFIX) in
     if len < length PREFIX then ((s, buf1), Ok len)
     else
       question (s, buf1) (ok_or EBADF (cs_handles s i)) (\<lambda>handle.
       question (s, buf1) (ok_or EBADF (ch_path handle)) (\<lambda>path.
       let len2 = min (length path) (length buf - length PREFIX) in
       ((s, copy_into buf1 (length PREFIX) (take len2 (bytes_of path))), Ok (length PREFIX + len2)))))"

definition chan_fsync :: "nat \<Rightarrow> caller_ctx \<Rightarrow> chan \<Rightarrow> chan \<times> unit outcome" where
  "chan_fsync i ctx s = question s (ok_or EBADF (cs_handles s i)) (\<lambda>_. (s, Ok ()))"

definition chan_read ::
  "chan_env \<Rightarrow> nat \<Rightarrow> u8 list \<Rightarrow> nat \<Rightarrow> u32 \<Rightarrow> caller_ctx \<Rightarrow> chan \<Rightarrow> (chan \<times> u8 list) \<times> nat outcome" where
  "chan_read E i buf offset flags ctx s = (let K = ce_abi E in
     question (s, buf) (ok_or EBADF (cs_handles s i)) (\<lambda>handle.
     question (s, buf) (require_client handle) (\<lambda>client.
     if cl_buffer client \<noteq> [] then
       (let len = min (length buf) (length (cl_buffer client)) in
        ((put_handle i (handle\<lparr>ch_extra := Client (client\<lparr>cl_buffer := drop len (cl_buffer client)\<rparr>)\<rparr>) s,
          copy_into buf 0 (take len (cl_buffer client))), Ok len))
     else if cl_remote client = Closed then ((s, buf), Ok 0)
     else if ucast flags AND O_NONBLOCK K = O_NONBLOCK K then ((s, buf), Err EAGAIN)
     else ((s, buf), Err EWOULDBLOCK))))"

definition chan_on_close :: "chan_env \<Rightarrow> nat \<Rightarrow> chan \<Rightarrow> chan \<times> unit outcome" where
  "chan_on_close E i s =
     question s (unwrap (cs_handles s i)) (\<lambda>handle.
     let s1 = s\<lparr>cs_handles := (cs_handles s)(i := None)\<rparr> in
     case ch_extra handle of
       Client client \<Rightarrow>
         (case cl_remote client of
            Open remote_id \<Rightarrow>
              question s1 (unwrap (cs_handles s1 remote_id)) (\<lambda>remote.
              case ch_extra remote of
                Client c \<Rightarrow>
                  (let s2 = put_handle remote_id (remote\<lparr>ch_extra := Client (c\<lparr>cl_remote := Closed\<rparr>)\<rparr>) s1 in
                   if cl_buffer c = []
                   then (case chan_post_fevent E remote_id (EVENT_READ (ce_abi E)) s2 of
                           (s3, Ok u) \<Rightarrow> (s3, Ok ()) | (s3, _) \<Rightarrow> (s3, Panic))
                   else (s2, Ok ()))
              | Listener _ \<Rightarrow> (s1, Panic))
          | _ \<Rightarrow> (s1, Ok ()))
     | Listener listener \<Rightarrow>
         (case ls_path listener of
            Some path \<Rightarrow> (s1\<lparr>cs_listeners := (cs_listeners s1)(path := None)\<rparr>, Ok ())
          | None \<Rightarrow> (s1, Ok ())))"

definition chan_fcntl ::
  "chan_env \<Rightarrow> nat \<Rightarrow> u64 \<Rightarrow> u64 \<Rightarrow> caller_ctx \<Rightarrow> chan \<Rightarrow> chan \<times> nat outcome" where
  "chan_fcntl E i cmd arg ctx s =
     question s (ok_or EBADF (cs_handles s i)) (\<lambda>handle.
     if cmd = F_GETFL (ce_abi E) then (s, Ok (unat (ch_flags handle)))
     else if cmd = F_SETFL (ce_abi E) then (put_handle i (handle\<lparr>ch_flags := arg\<rparr>) s, Ok 0)
     else (s, Err EINVAL))"

definition handle_events :: "abi \<Rightarrow> chan_handle \<Rightarrow> u64" where
  "handle_events K handle = (case ch_extra handle of
       Client client \<Rightarrow>
         (case cl_remote client of Open _ \<Rightarrow> EVENT_WRITE K | _ \<Rightarrow> 0) OR
         (if cl_buffer client \<noteq> [] \<or> cl_remote client = Closed then EVENT_READ K else 0)
     | Listener listener \<Rightarrow> if ls_awaiting listener \<noteq> [] then EVENT_READ K OR EVENT_WRITE K else 0)"

definition chan_fevent ::
  "chan_env \<Rightarrow> nat \<Rightarrow> u64 \<Rightarrow> caller_ctx \<Rightarrow> chan \<Rightarrow> chan \<times> u64 outcome" where
  "chan_fevent E i flags ctx s =
     question s (ok_or EBADF (cs_handles s i)) (\<lambda>handle. (s, Ok (handle_events (ce_abi E) handle)))"

definition chan_scheme :: "chan_env \<Rightarrow> chan scheme_sync" where
  "chan_scheme E = default_scheme\<lparr>sc_open := chan_open E, sc_dup := chan_dup E,
     sc_write := chan_write E, sc_fpath := chan_fpath, sc_fsync := chan_fsync,
     sc_read := chan_read E, sc_on_close := chan_on_close E, sc_fcntl := chan_fcntl E,
     sc_fevent := chan_fevent E\<rparr>"

end
