(* ===== verification/Chan_Net.thy ===== *)
theory Chan_Net
  imports Chan "HOL-Library.Sublist"
begin

text \<open>
  What the channel scheme promises, as an abstract network: clients and listeners under ids that are
  never used twice, and steps that make, connect, use and close them. The state carries the history
  of the network: the bytes sent and received through each id, and the id at the other end of its
  connection.
\<close>

section \<open>The abstract network\<close>

record net =
  nt_clients :: "nat \<rightharpoonup> client"
  nt_listeners :: "nat \<rightharpoonup> listener"
  nt_names :: "string \<rightharpoonup> nat"
  nt_next :: nat
  nt_sent :: "nat \<Rightarrow> u8 list"
  nt_got :: "nat \<Rightarrow> u8 list"
  nt_peer :: "nat \<rightharpoonup> nat"

definition net_init :: net where
  "net_init = \<lparr>nt_clients = Map.empty, nt_listeners = Map.empty, nt_names = Map.empty, nt_next = 0,
     nt_sent = (\<lambda>i. []), nt_got = (\<lambda>i. []), nt_peer = Map.empty\<rparr>"

inductive net_step :: "net \<Rightarrow> net \<Rightarrow> bool" where
  net_listen: "nt_names t p = None \<Longrightarrow>
    net_step t (t\<lparr>nt_listeners := (nt_listeners t)(nt_next t \<mapsto> \<lparr>ls_path = Some p, ls_awaiting = []\<rparr>),
      nt_names := (nt_names t)(p \<mapsto> nt_next t), nt_next := nt_next t + 1\<rparr>)"
| net_listen_unnamed:
    "net_step t (t\<lparr>nt_listeners := (nt_listeners t)(nt_next t \<mapsto> listener_default),
      nt_next := nt_next t + 1\<rparr>)"
| net_connect: "nt_listeners t i = Some l \<Longrightarrow>
    net_step t (t\<lparr>nt_listeners := (nt_listeners t)(i \<mapsto> l\<lparr>ls_awaiting := ls_awaiting l @ [nt_next t]\<rparr>),
      nt_clients := (nt_clients t)(nt_next t \<mapsto> client_default), nt_next := nt_next t + 1\<rparr>)"
| net_forget: "nt_listeners t i = Some l \<Longrightarrow> ls_awaiting l = r # rest \<Longrightarrow> nt_clients t r = None \<Longrightarrow>
    net_step t (t\<lparr>nt_listeners := (nt_listeners t)(i \<mapsto> l\<lparr>ls_awaiting := rest\<rparr>)\<rparr>)"
| net_accept: "nt_listeners t i = Some l \<Longrightarrow> ls_awaiting l = r # rest \<Longrightarrow> nt_clients t r = Some c \<Longrightarrow>
    net_step t (t\<lparr>nt_listeners := (nt_listeners t)(i \<mapsto> l\<lparr>ls_awaiting := rest\<rparr>),
      nt_clients := (nt_clients t)(r \<mapsto> c\<lparr>cl_remote := Open (nt_next t)\<rparr>,
        nt_next t \<mapsto> client_default\<lparr>cl_remote := Open r\<rparr>),
      nt_next := nt_next t + 1, nt_peer := (nt_peer t)(r \<mapsto> nt_next t, nt_next t \<mapsto> r)\<rparr>)"
| net_send: "nt_clients t i = Some c \<Longrightarrow> cl_remote c = Open j \<Longrightarrow> nt_clients t j = Some c' \<Longrightarrow>
    net_step t (t\<lparr>nt_clients := (nt_clients t)(j \<mapsto> c'\<lparr>cl_buffer := cl_buffer c' @ bytes\<rparr>),
      nt_sent := (nt_sent t)(i := nt_sent t i @ bytes)\<rparr>)"
| net_receive: "nt_clients t i = Some c \<Longrightarrow>
    net_step t (t\<lparr>nt_clients := (nt_clients t)(i \<mapsto> c\<lparr>cl_buffer := drop n (cl_buffer c)\<rparr>),
      nt_got := (nt_got t)(i := nt_got t i @ take n (cl_buffer c))\<rparr>)"
| net_close_single: "nt_clients t i = Some c \<Longrightarrow> (\<And>j. cl_remote c \<noteq> Open j) \<Longrightarrow>
    net_step t (t\<lparr>nt_clients := (nt_clients t)(i := None)\<rparr>)"
| net_close_connected: "nt_clients t i = Some c \<Longrightarrow> cl_remote c = Open j \<Longrightarrow> nt_clients t j = Some c' \<Longrightarrow>
    net_step t (t\<lparr>nt_clients := (nt_clients t)(i := None, j \<mapsto> c'\<lparr>cl_remote := Closed\<rparr>)\<rparr>)"
| net_close_listener: "nt_listeners t i = Some l \<Longrightarrow>
    net_step t (t\<lparr>nt_listeners := (nt_listeners t)(i := None),
      nt_names := (case ls_path l of None \<Rightarrow> nt_names t | Some p \<Rightarrow> (nt_names t)(p := None))\<rparr>)"

section \<open>Its invariant\<close>

text \<open>Nothing is known of an id that was not handed out, and an id is a client or a listener.\<close>

definition id_ok :: "net \<Rightarrow> nat \<Rightarrow> bool" where
  "id_ok t i \<longleftrightarrow> (nt_next t \<le> i \<longrightarrow> nt_clients t i = None \<and> nt_listeners t i = None \<and> nt_peer t i = None \<and>
       nt_sent t i = [] \<and> nt_got t i = []) \<and>
     (nt_clients t i = None \<or> nt_listeners t i = None)"

text \<open>Names and listeners with a path correspond.\<close>

definition path_of :: "net \<Rightarrow> nat \<Rightarrow> string option" where
  "path_of t i = (case nt_listeners t i of None \<Rightarrow> None | Some l \<Rightarrow> ls_path l)"

definition name_ok :: "net \<Rightarrow> string \<Rightarrow> nat \<Rightarrow> bool" where
  "name_ok t p i \<longleftrightarrow> (nt_names t p = Some i \<longleftrightarrow> path_of t i = Some p)"

text \<open>
  The ids in the queue of a listener are different ones, were handed out, wait for this listener
  only, and are not listeners and have no peer.
\<close>

definition queue_of :: "net \<Rightarrow> nat \<Rightarrow> nat list" where
  "queue_of t i = (case nt_listeners t i of None \<Rightarrow> [] | Some l \<Rightarrow> ls_awaiting l)"

definition wait_ok :: "net \<Rightarrow> nat \<Rightarrow> nat \<Rightarrow> nat \<Rightarrow> bool" where
  "wait_ok t i i' j \<longleftrightarrow> distinct (queue_of t i) \<and>
     (j \<in> set (queue_of t i) \<longrightarrow> j < nt_next t \<and> nt_listeners t j = None \<and> nt_peer t j = None \<and>
        (j \<in> set (queue_of t i') \<longrightarrow> i' = i))"

text \<open>The state of a connection agrees with its history.\<close>

definition client_ok :: "net \<Rightarrow> nat \<Rightarrow> client \<Rightarrow> bool" where
  "client_ok t i c = (case cl_remote c of
       Waiting \<Rightarrow> nt_peer t i = None \<and> cl_buffer c = [] \<and> nt_sent t i = [] \<and> nt_got t i = []
     | Open j \<Rightarrow> nt_peer t i = Some j \<and> nt_got t i @ cl_buffer c = nt_sent t j \<and>
         (\<exists>c'. nt_clients t j = Some c' \<and> cl_remote c' = Open i)
     | Closed \<Rightarrow> (\<exists>j. nt_peer t i = Some j \<and> nt_clients t j = None \<and> nt_got t i @ cl_buffer c = nt_sent t j))"

definition peer_ok :: "net \<Rightarrow> nat \<Rightarrow> nat \<Rightarrow> bool" where
  "peer_ok t i j \<longleftrightarrow> nt_peer t j = Some i \<and> i \<noteq> j \<and> prefix (nt_got t i) (nt_sent t j)"

definition net_inv :: "net \<Rightarrow> bool" where
  "net_inv t \<longleftrightarrow> (\<forall>i. id_ok t i) \<and> (\<forall>p i. name_ok t p i) \<and> (\<forall>i i' j. wait_ok t i i' j) \<and>
     (\<forall>i c. nt_clients t i = Some c \<longrightarrow> client_ok t i c) \<and>
     (\<forall>i j. nt_peer t i = Some j \<longrightarrow> peer_ok t i j)"

lemma net_inv_facts:
  assumes "net_inv t"
  shows net_inv_id: "id_ok t i" and net_inv_name: "name_ok t p i" and net_inv_wait: "wait_ok t i i' j"
    and net_inv_client: "nt_clients t i = Some c \<Longrightarrow> client_ok t i c"
    and net_inv_peer: "nt_peer t i = Some j \<Longrightarrow> peer_ok t i j"
  using assms unfolding net_inv_def by blast+

lemma net_init_inv: "net_inv net_init"
  by (simp add: net_inv_def id_ok_def name_ok_def wait_ok_def path_of_def queue_of_def net_init_def)

lemma queue_of_Some: "nt_listeners t i = Some l \<Longrightarrow> queue_of t i = ls_awaiting l"
  by (simp add: queue_of_def)

lemma awaiting_fresh:
  assumes "net_inv t" "nt_listeners t i = Some l" "j \<in> set (ls_awaiting l)"
  shows "j < nt_next t" "nt_listeners t j = None" "nt_peer t j = None"
    and "nt_clients t j = Some c \<Longrightarrow> c = client_default"
proof -
  show w: "j < nt_next t" "nt_listeners t j = None" "nt_peer t j = None"
    using net_inv_wait [OF assms(1), of i i j] assms(2,3) by (simp_all add: wait_ok_def queue_of_def)
  assume "nt_clients t j = Some c"
  from net_inv_client [OF assms(1) this] w show "c = client_default"
    by (cases c) (auto simp: client_ok_def client_default_def split: connection.splits)
qed

lemma client_id:
  assumes "net_inv t" "nt_clients t i = Some c"
  shows "i < nt_next t" "nt_listeners t i = None"
  using net_inv_id [OF assms(1), of i] assms(2) by (auto simp: id_ok_def)

lemma listener_id:
  assumes "net_inv t" "nt_listeners t i = Some l"
  shows "i < nt_next t" "nt_clients t i = None"
  using net_inv_id [OF assms(1), of i] assms(2) by (auto simp: id_ok_def)

lemma fresh_id:
  assumes "net_inv t"
  shows "nt_clients t (nt_next t) = None" "nt_listeners t (nt_next t) = None"
    "nt_peer t (nt_next t) = None" "nt_sent t (nt_next t) = []" "nt_got t (nt_next t) = []"
  using net_inv_id [OF assms, of "nt_next t"] by (simp_all add: id_ok_def)

lemma net_step_ids:
  assumes "net_step t t'" "net_inv t"
  shows "id_ok t' k"
  using assms(1) net_inv_id [OF assms(2), of k]
proof cases
  case (net_accept i l r rest c)
  then show ?thesis
    using awaiting_fresh(1,2) [OF assms(2) net_accept(2), of r] listener_id [OF assms(2) net_accept(2)]
      net_inv_id [OF assms(2), of k] by (auto simp: id_ok_def)
next
  case (net_send i c j c' bytes)
  then show ?thesis
    using client_id(1,2) [OF assms(2) net_send(2)] client_id(1,2) [OF assms(2) net_send(4)]
      net_inv_id [OF assms(2), of k] by (auto simp: id_ok_def)
next
  case (net_receive i c n)
  then show ?thesis
    using client_id(1,2) [OF assms(2) net_receive(2)] net_inv_id [OF assms(2), of k]
    by (auto simp: id_ok_def)
next
  case (net_close_connected i c j c')
  then show ?thesis
    using client_id(1,2) [OF assms(2) net_close_connected(4)] net_inv_id [OF assms(2), of k]
    by (auto simp: id_ok_def)
next
  case (net_connect i l)
  then show ?thesis
    using listener_id [OF assms(2) net_connect(2)] net_inv_id [OF assms(2), of k]
    by (auto simp: id_ok_def)
next
  case (net_forget i l r rest)
  then show ?thesis
    using listener_id [OF assms(2) net_forget(2)] net_inv_id [OF assms(2), of k]
    by (auto simp: id_ok_def)
qed (auto simp: id_ok_def)

lemma net_step_names:
  assumes "net_step t t'" "net_inv t"
  shows "name_ok t' p k"
  using assms(1)
proof cases
  case (net_listen q)
  then show ?thesis
    using net_inv_name [OF assms(2), of p k] net_inv_name [OF assms(2), of p "nt_next t"]
      net_inv_name [OF assms(2), of q k] fresh_id(2) [OF assms(2)]
    by (auto simp: name_ok_def path_of_def split: option.splits)
next
  case (net_close_listener i l)
  then show ?thesis
    using net_inv_name [OF assms(2), of p k] net_inv_name [OF assms(2), of p i]
    by (auto simp: name_ok_def path_of_def split: option.splits)
qed (use net_inv_name [OF assms(2), of p k] fresh_id(2) [OF assms(2)]
     in \<open>auto simp: name_ok_def path_of_def listener_default_def split: option.splits\<close>)

lemma net_step_waits:
  assumes "net_step t t'" "net_inv t"
  shows "wait_ok t' k k' j"
  using assms(1)
proof cases
  case (net_connect i l)
  have q: "queue_of t' m = (if m = i then queue_of t i @ [nt_next t] else queue_of t m)" for m
    using net_connect(1,2) by (simp add: queue_of_def)
  have old: "nt_next t \<notin> set (queue_of t m)" for m
    using net_inv_wait [OF assms(2), of m m "nt_next t"] by (auto simp: wait_ok_def)
  have "nt_next t' = nt_next t + 1" "nt_peer t' = nt_peer t" "nt_listeners t' m = None \<longleftrightarrow> nt_listeners t m = None" for m
    using net_connect(1,2) by simp_all
  then show ?thesis
    using net_inv_wait [OF assms(2), of k k' j] net_inv_wait [OF assms(2), of i k' j]
      net_inv_wait [OF assms(2), of k i j] old [of k] old [of k'] old [of i] fresh_id(2,3) [OF assms(2)]
    unfolding wait_ok_def q by auto
next
  case (net_accept i l r rest c)
  have qi: "queue_of t i = r # rest" using net_accept(2,3) by (simp add: queue_of_def)
  have q: "queue_of t' m = (if m = i then rest else queue_of t m)" for m
    using net_accept(1,2) by (simp add: queue_of_def)
  have sub: "set (queue_of t' m) \<subseteq> set (queue_of t m)" "distinct (queue_of t m) \<Longrightarrow> distinct (queue_of t' m)" for m
    using qi by (auto simp: q)
  have "j \<noteq> r" if "j \<in> set (queue_of t' k)"
    using that qi net_inv_wait [OF assms(2), of i k r] by (cases "k = i") (auto simp: q wait_ok_def)
  moreover have "nt_peer t' j = nt_peer t j" if "j \<noteq> r" "j < nt_next t"
    using net_accept(1) that by simp
  moreover have "nt_next t' = nt_next t + 1" "nt_listeners t' j = None \<longleftrightarrow> nt_listeners t j = None"
    using net_accept(1,2) by simp_all
  ultimately show ?thesis
    using net_inv_wait [OF assms(2), of k k' j] sub [of k] sub [of k'] unfolding wait_ok_def by auto
next
  case (net_forget i l r rest)
  have qi: "queue_of t i = r # rest" using net_forget(2,3) by (simp add: queue_of_def)
  have q: "queue_of t' m = (if m = i then rest else queue_of t m)" for m
    using net_forget(1,2) by (simp add: queue_of_def)
  have sub: "set (queue_of t' m) \<subseteq> set (queue_of t m)" "distinct (queue_of t m) \<Longrightarrow> distinct (queue_of t' m)" for m
    using qi by (auto simp: q)
  have "nt_next t' = nt_next t" "nt_peer t' = nt_peer t" "nt_listeners t' j = None \<longleftrightarrow> nt_listeners t j = None"
    using net_forget(1,2) by simp_all
  then show ?thesis
    using net_inv_wait [OF assms(2), of k k' j] sub [of k] sub [of k'] unfolding wait_ok_def by auto
qed (use net_inv_wait [OF assms(2), of k k' j] fresh_id(2) [OF assms(2)]
     in \<open>auto simp: wait_ok_def queue_of_def listener_default_def\<close>)

text \<open>The two ends of an open connection know each other, and only each other.\<close>

lemma open_peers:
  assumes "net_inv t" "nt_clients t i = Some c" "cl_remote c = Open j"
  shows "nt_peer t i = Some j" "nt_peer t j = Some i" "i \<noteq> j" "nt_got t i @ cl_buffer c = nt_sent t j"
    and "\<exists>c'. nt_clients t j = Some c' \<and> cl_remote c' = Open i"
proof -
  show p: "nt_peer t i = Some j" "nt_got t i @ cl_buffer c = nt_sent t j"
    "\<exists>c'. nt_clients t j = Some c' \<and> cl_remote c' = Open i"
    using net_inv_client [OF assms(1,2)] assms(3) by (simp_all add: client_ok_def)
  show "nt_peer t j = Some i" "i \<noteq> j"
    using net_inv_peer [OF assms(1) p(1)] by (simp_all add: peer_ok_def)
qed

text \<open>A client is not affected by a step that leaves its history and the ends it refers to alone.\<close>

lemma client_ok_frame:
  assumes "client_ok t k c" "nt_peer t' k = nt_peer t k" "nt_got t' k = nt_got t k"
    and "cl_remote c = Waiting \<Longrightarrow> nt_sent t' k = nt_sent t k"
    and "\<And>j. nt_peer t k = Some j \<Longrightarrow> nt_sent t' j = nt_sent t j \<and>
      map_option cl_remote (nt_clients t' j) = map_option cl_remote (nt_clients t j)"
  shows "client_ok t' k c"
  using assms by (cases "cl_remote c") (fastforce simp: client_ok_def)+

lemma net_step_client:
  assumes "net_step t t'" "net_inv t" "nt_clients t' k = Some c"
  shows "client_ok t' k c"
  using assms(1)
proof cases
  case (net_accept i l r rest d)
  let ?n = "nt_next t"
  have r: "r < ?n" "nt_peer t r = None" "d = client_default"
    using awaiting_fresh [OF assms(2) net_accept(2), of r] net_accept(3,4) by simp_all
  have h: "nt_sent t r = []" "nt_got t r = []"
    using net_inv_client [OF assms(2) net_accept(4)] r(3) by (simp_all add: client_ok_def client_default_def)
  show ?thesis
  proof (cases "k = r \<or> k = ?n")
    case True
    then show ?thesis
      using assms(3) net_accept(1) r h fresh_id [OF assms(2)]
      by (auto simp: client_ok_def client_default_def)
  next
    case False
    then have ck: "nt_clients t k = Some c" using assms(3) net_accept(1) by simp
    have "j \<noteq> r \<and> j \<noteq> ?n" if "nt_peer t k = Some j" for j
      using net_inv_peer [OF assms(2) that] r(2) fresh_id(3) [OF assms(2)] by (auto simp: peer_ok_def)
    then show ?thesis
      using False net_accept(1) by (intro client_ok_frame [OF net_inv_client [OF assms(2) ck]]) auto
  qed
next
  case (net_send i d j d' bytes)
  note o = open_peers [OF assms(2) net_send(2,3)]
  have d': "cl_remote d' = Open i" using o(5) net_send(4) by simp
  show ?thesis
  proof (cases "k = j")
    case True
    then show ?thesis
      using assms(3) net_send(1,2,3) o open_peers [OF assms(2) net_send(4) d'] d'
      by (auto simp: client_ok_def)
  next
    case False
    then have ck: "nt_clients t k = Some c" using assms(3) net_send(1) by simp
    have "m \<noteq> i" if "nt_peer t k = Some m" for m
      using net_inv_peer [OF assms(2) that] o(1) False by (auto simp: peer_ok_def)
    moreover have "k \<noteq> i" if "cl_remote c = Waiting" using that ck net_send(2,3) by auto
    ultimately show ?thesis
      using False net_send by (intro client_ok_frame [OF net_inv_client [OF assms(2) ck]]) auto
  qed
next
  case (net_receive i d n)
  show ?thesis
  proof (cases "k = i")
    case True
    have "client_ok t i d" using net_inv_client [OF assms(2) net_receive(2)] .
    then show ?thesis
      using True assms(3) net_receive by (cases "cl_remote d") (force simp: client_ok_def)+
  next
    case False
    then have ck: "nt_clients t k = Some c" using assms(3) net_receive(1) by simp
    show ?thesis
      using False net_receive by (intro client_ok_frame [OF net_inv_client [OF assms(2) ck]]) auto
  qed
next
  case (net_close_connected i d j d')
  note o = open_peers [OF assms(2) net_close_connected(2,3)]
  have d': "cl_remote d' = Open i" using o(5) net_close_connected(4) by simp
  show ?thesis
  proof (cases "k = j")
    case True
    then show ?thesis
      using assms(3) net_close_connected(1) o(3) open_peers [OF assms(2) net_close_connected(4) d']
      by (auto simp: client_ok_def)
  next
    case False
    then have ck: "nt_clients t k = Some c" "k \<noteq> i"
      using assms(3) net_close_connected(1) by (auto split: if_splits)
    have "m \<noteq> i \<and> m \<noteq> j" if "nt_peer t k = Some m" for m
      using net_inv_peer [OF assms(2) that] o(1,2) False ck(2) by (auto simp: peer_ok_def)
    then show ?thesis
      using net_close_connected(1) by (intro client_ok_frame [OF net_inv_client [OF assms(2) ck(1)]]) auto
  qed
next
  case (net_close_single i d)
  then have ck: "nt_clients t k = Some c" "k \<noteq> i" using assms(3) by (auto split: if_splits)
  show ?thesis
  proof (cases "nt_peer t k = Some i")
    case True
    then show ?thesis
      using net_inv_client [OF assms(2) ck(1)] net_close_single(1,2,3) by (cases "cl_remote c") (auto simp: client_ok_def)
  next
    case False
    then show ?thesis
      using net_close_single(1) by (intro client_ok_frame [OF net_inv_client [OF assms(2) ck(1)]]) auto
  qed
next
  case (net_connect i l)
  show ?thesis
  proof (cases "k = nt_next t")
    case True
    then show ?thesis
      using assms(3) net_connect(1) fresh_id [OF assms(2)] by (auto simp: client_ok_def client_default_def)
  next
    case False
    then have ck: "nt_clients t k = Some c" using assms(3) net_connect(1) by simp
    have "m \<noteq> nt_next t" if "nt_peer t k = Some m" for m
      using net_inv_peer [OF assms(2) that] fresh_id(3) [OF assms(2)] by (auto simp: peer_ok_def)
    then show ?thesis
      using net_connect(1) by (intro client_ok_frame [OF net_inv_client [OF assms(2) ck]]) auto
  qed
qed (use net_inv_client [OF assms(2), of k] assms(3) in \<open>auto intro: client_ok_frame\<close>)

lemma net_step_peer:
  assumes "net_step t t'" "net_inv t" "nt_peer t' k = Some m"
  shows "peer_ok t' k m"
  using assms(1)
proof cases
  case (net_accept i l r rest d)
  let ?n = "nt_next t"
  have r: "r < ?n" "nt_peer t r = None" "d = client_default"
    using awaiting_fresh [OF assms(2) net_accept(2), of r] net_accept(3,4) by simp_all
  have h: "nt_got t r = []"
    using net_inv_client [OF assms(2) net_accept(4)] r(3) by (simp add: client_ok_def client_default_def)
  show ?thesis
  proof (cases "k = r \<or> k = ?n")
    case True
    then show ?thesis
      using assms(3) net_accept(1) r h fresh_id [OF assms(2)] by (auto simp: peer_ok_def)
  next
    case False
    then have km: "nt_peer t k = Some m" using assms(3) net_accept(1) by simp
    then show ?thesis
      using net_inv_peer [OF assms(2) km] net_accept(1) r(2) fresh_id(3) [OF assms(2)]
      by (auto simp: peer_ok_def)
  qed
next
  case (net_send i d j d' bytes)
  then show ?thesis
    using net_inv_peer [OF assms(2), of k m] assms(3) by (auto simp: peer_ok_def)
next
  case (net_receive i d n)
  have km: "nt_peer t k = Some m" using assms(3) net_receive(1) by simp
  have "prefix (nt_got t i @ take n (cl_buffer d)) (nt_sent t m)" if "k = i"
  proof -
    have "nt_sent t m = nt_got t i @ cl_buffer d"
      using net_inv_client [OF assms(2) net_receive(2)] km that
      by (auto simp: client_ok_def split: connection.splits)
    then show ?thesis by (simp add: take_is_prefix)
  qed
  then show ?thesis
    using net_inv_peer [OF assms(2) km] net_receive(1) by (auto simp: peer_ok_def)
qed (use net_inv_peer [OF assms(2), of k m] assms(3) in \<open>auto simp: peer_ok_def\<close>)

lemma net_step_inv: "net_step t t' \<Longrightarrow> net_inv t \<Longrightarrow> net_inv t'"
  unfolding net_inv_def [of t']
  using net_step_ids net_step_names net_step_waits net_step_client net_step_peer by blast

lemma net_steps_inv: "net_step\<^sup>*\<^sup>* t t' \<Longrightarrow> net_inv t \<Longrightarrow> net_inv t'"
  by (induction rule: rtranclp_induct) (auto intro: net_step_inv)

end
