(* ===== verification/Chan_Proofs.thy ===== *)
theory Chan_Proofs
  imports Chan_Net
begin

text \<open>
  The channel scheme implements the abstract network: every method that returns is simulated by steps
  of the network. From this follow that the scheme never panics, that every connection is a byte
  stream in order and without loss, and that clients are notified of what they can do.
\<close>

section \<open>Abstraction\<close>

definition cli :: "chan \<Rightarrow> nat \<rightharpoonup> client" where
  "cli s i = (case cs_handles s i of
       Some h \<Rightarrow> (case ch_extra h of Client c \<Rightarrow> Some c | Listener _ \<Rightarrow> None) | None \<Rightarrow> None)"

definition lis :: "chan \<Rightarrow> nat \<rightharpoonup> listener" where
  "lis s i = (case cs_handles s i of
       Some h \<Rightarrow> (case ch_extra h of Client _ \<Rightarrow> None | Listener l \<Rightarrow> Some l) | None \<Rightarrow> None)"

text \<open>The state of the scheme together with the history of its connections.\<close>

definition chan_abs ::
  "chan \<Rightarrow> (nat \<Rightarrow> u8 list) \<Rightarrow> (nat \<Rightarrow> u8 list) \<Rightarrow> (nat \<rightharpoonup> nat) \<Rightarrow> net" where
  "chan_abs s W R P = \<lparr>nt_clients = cli s, nt_listeners = lis s, nt_names = cs_listeners s,
     nt_next = cs_next_id s, nt_sent = W, nt_got = R, nt_peer = P\<rparr>"

lemma chan_abs_simps [simp]:
  "nt_clients (chan_abs s W R P) = cli s" "nt_listeners (chan_abs s W R P) = lis s"
  "nt_names (chan_abs s W R P) = cs_listeners s" "nt_next (chan_abs s W R P) = cs_next_id s"
  "nt_sent (chan_abs s W R P) = W" "nt_got (chan_abs s W R P) = R" "nt_peer (chan_abs s W R P) = P"
  by (simp_all add: chan_abs_def)

lemma cli_simps [simp]:
  "cli (put_handle i h s) = (cli s)(i := case ch_extra h of Client c \<Rightarrow> Some c | Listener _ \<Rightarrow> None)"
  "cli (s\<lparr>cs_handles := (cs_handles s)(i := None)\<rparr>) = (cli s)(i := None)"
  "cli (s\<lparr>cs_posted := x\<rparr>) = cli s" "cli (s\<lparr>cs_listeners := y\<rparr>) = cli s"
  "cli (s\<lparr>cs_next_id := n\<rparr>) = cli s"
  by (auto simp: cli_def put_handle_def fun_eq_iff)

lemma lis_simps [simp]:
  "lis (put_handle i h s) = (lis s)(i := case ch_extra h of Client _ \<Rightarrow> None | Listener l \<Rightarrow> Some l)"
  "lis (s\<lparr>cs_handles := (cs_handles s)(i := None)\<rparr>) = (lis s)(i := None)"
  "lis (s\<lparr>cs_posted := x\<rparr>) = lis s" "lis (s\<lparr>cs_listeners := y\<rparr>) = lis s"
  "lis (s\<lparr>cs_next_id := n\<rparr>) = lis s"
  by (auto simp: lis_def put_handle_def fun_eq_iff)

lemma put_handle_simps [simp]:
  "cs_handles (put_handle i h s) = (cs_handles s)(i \<mapsto> h)"
  "cs_listeners (put_handle i h s) = cs_listeners s" "cs_next_id (put_handle i h s) = cs_next_id s"
  "cs_posted (put_handle i h s) = cs_posted s"
  by (simp_all add: put_handle_def)

lemma cli_Some: "cs_handles s i = Some h \<Longrightarrow> ch_extra h = Client c \<Longrightarrow> cli s i = Some c \<and> lis s i = None"
  by (simp add: cli_def lis_def)

lemma lis_Some: "cs_handles s i = Some h \<Longrightarrow> ch_extra h = Listener l \<Longrightarrow> lis s i = Some l \<and> cli s i = None"
  by (simp add: cli_def lis_def)

lemma cli_SomeD: "cli s i = Some c \<Longrightarrow> \<exists>h. cs_handles s i = Some h \<and> ch_extra h = Client c"
  by (auto simp: cli_def split: option.splits extra.splits)

lemma lis_SomeD: "lis s i = Some l \<Longrightarrow> \<exists>h. cs_handles s i = Some h \<and> ch_extra h = Listener l"
  by (auto simp: lis_def split: option.splits extra.splits)

lemma handle_None: "cs_handles s i = None \<longleftrightarrow> cli s i = None \<and> lis s i = None"
  by (auto simp: cli_def lis_def split: option.splits extra.splits)

text \<open>The socket takes every notification.\<close>

definition events_ok :: "chan_env \<Rightarrow> bool" where
  "events_ok E \<longleftrightarrow> (\<forall>r. ce_write_response E r = Ok True)"

lemma post_fevent_ok:
  "events_ok E \<Longrightarrow> chan_post_fevent E i f s = (s\<lparr>cs_posted := cs_posted s @ [post_fevent_response i f]\<rparr>, Ok ())"
  by (simp add: chan_post_fevent_def events_ok_def Let_def)

lemma insert_new_cases:
  assumes "insert_new new s = (s', r)" "r \<noteq> Panic"
  shows "r = Ok (ThisScheme (cs_next_id s) 0)"
    "s' = (put_handle (cs_next_id s) new s)\<lparr>cs_next_id := cs_next_id s + 1\<rparr>"
  using assms by (auto simp: insert_new_def Let_def split: question_splits)

section \<open>Simulation\<close>

text \<open>The history after a call: the bytes written and read, and the connection made.\<close>

fun log_written :: "op \<Rightarrow> scheme_response \<Rightarrow> (nat \<Rightarrow> u8 list) \<Rightarrow> nat \<Rightarrow> u8 list" where
  "log_written (OpWrite t i buf off flags) (Regular (Ok n)) W = W(i := W i @ take n buf)"
| "log_written _ _ W = W"

fun log_read :: "op \<Rightarrow> scheme_response \<Rightarrow> (nat \<Rightarrow> u8 list) \<Rightarrow> nat \<Rightarrow> u8 list" where
  "log_read (OpRead t i buf off flags) (Regular (Ok n)) R = R(i := R i @ take n buf)"
| "log_read _ _ R = R"

fun log_paired :: "chan \<Rightarrow> open_result outcome \<Rightarrow> (nat \<rightharpoonup> nat) \<Rightarrow> nat \<rightharpoonup> nat" where
  "log_paired s (Ok (ThisScheme n flags)) P = (case map_option cl_remote (cli s n) of
       Some (Open r) \<Rightarrow> P(n \<mapsto> r, r \<mapsto> n) | _ \<Rightarrow> P)"
| "log_paired s _ P = P"

lemma abs_new_listener:
  assumes "net_inv (chan_abs s W R P)"
  shows "cs_listeners s p = None \<Longrightarrow> net_step (chan_abs s W R P)
      (chan_abs ((put_handle (cs_next_id s) (h\<lparr>ch_extra := Listener \<lparr>ls_path = Some p, ls_awaiting = []\<rparr>\<rparr>)
        (s\<lparr>cs_listeners := (cs_listeners s)(p \<mapsto> cs_next_id s)\<rparr>))\<lparr>cs_next_id := cs_next_id s + 1\<rparr>) W R P)"
    and "net_step (chan_abs s W R P)
      (chan_abs ((put_handle (cs_next_id s) (h\<lparr>ch_extra := Listener listener_default\<rparr>) s)
        \<lparr>cs_next_id := cs_next_id s + 1\<rparr>) W R P)"
proof -
  have fresh: "cli s (cs_next_id s) = None" using fresh_id(1) [OF assms] by simp
  show "net_step (chan_abs s W R P)
      (chan_abs ((put_handle (cs_next_id s) (h\<lparr>ch_extra := Listener \<lparr>ls_path = Some p, ls_awaiting = []\<rparr>\<rparr>)
        (s\<lparr>cs_listeners := (cs_listeners s)(p \<mapsto> cs_next_id s)\<rparr>))\<lparr>cs_next_id := cs_next_id s + 1\<rparr>) W R P)"
    if "cs_listeners s p = None"
    using net_listen [of "chan_abs s W R P" p] that fresh
    by (simp add: chan_abs_def fun_upd_idem)
  show "net_step (chan_abs s W R P)
      (chan_abs ((put_handle (cs_next_id s) (h\<lparr>ch_extra := Listener listener_default\<rparr>) s)
        \<lparr>cs_next_id := cs_next_id s + 1\<rparr>) W R P)"
    using net_listen_unnamed [of "chan_abs s W R P"] fresh by (simp add: chan_abs_def fun_upd_idem)
qed

text \<open>A client that connects to the listener \<open>i\<close>.\<close>

lemma abs_connect:
  assumes "net_inv (chan_abs s W R P)" "cs_handles s i = Some h" "connect h (cs_next_id s) = Ok h'"
    and "ch_extra new = Client client_default"
  shows "net_step (chan_abs s W R P)
    (chan_abs ((put_handle (cs_next_id s) new ((put_handle i h' s)\<lparr>cs_posted := x\<rparr>))
      \<lparr>cs_next_id := cs_next_id s + 1\<rparr>) W R P)"
proof -
  obtain l where l: "ch_extra h = Listener l" and
    h': "ch_extra h' = Listener (l\<lparr>ls_awaiting := ls_awaiting l @ [cs_next_id s]\<rparr>)"
    using assms(3) by (auto simp: connect_def split: extra.splits)
  have li: "lis s i = Some l" "cli s i = None" using lis_Some [OF assms(2) l] by simp_all
  have fresh: "lis s (cs_next_id s) = None" using fresh_id(2) [OF assms(1)] by simp
  have "i \<noteq> cs_next_id s" using li fresh by auto
  then show ?thesis
    using net_connect [of "chan_abs s W R P" i l] li fresh h' assms(4)
    by (simp add: chan_abs_def fun_upd_idem fun_upd_twist)
qed

lemma sim_open:
  assumes "events_ok E" "net_inv (chan_abs s W R P)" "chan_open E path flags ctx s = (s', r)" "r \<noteq> Panic"
  shows "net_step\<^sup>*\<^sup>* (chan_abs s W R P) (chan_abs s' W R (log_paired s' r P))"
proof (cases "flags AND O_CREAT (ce_abi E) = O_CREAT (ce_abi E) \<and> cs_listeners s path = None")
  case True
  let ?h = "handle_default\<lparr>ch_flags := flags\<rparr>"
  let ?s = "if path \<noteq> [] then s\<lparr>cs_listeners := (cs_listeners s)(path \<mapsto> cs_next_id s)\<rparr> else s"
  let ?l = "if path \<noteq> [] then \<lparr>ls_path = Some path, ls_awaiting = []\<rparr> else listener_default"
  have "insert_new (?h\<lparr>ch_extra := Listener ?l\<rparr>) ?s = (s', r)"
    using assms(3) True by (auto simp: chan_open_def Let_def listener_default_def split: if_splits)
  note ins = insert_new_cases [OF this assms(4)]
  have "net_step (chan_abs s W R P) (chan_abs s' W R P)"
    using abs_new_listener(1) [OF assms(2), of path ?h] abs_new_listener(2) [OF assms(2), of ?h] True
    unfolding ins(2) by simp
  moreover have "log_paired s' r P = P" using ins by simp
  ultimately show ?thesis by simp
next
  case False
  show ?thesis
  proof (cases "flags AND O_CREAT (ce_abi E) = O_CREAT (ce_abi E) \<and> flags AND O_EXCL (ce_abi E) = O_EXCL (ce_abi E)")
    case True
    then show ?thesis using assms(3) False by (auto simp: chan_open_def Let_def)
  next
    case no: False
    show ?thesis
    proof (cases "cs_listeners s path")
      case None
      then show ?thesis using assms(3) False no by (auto simp: chan_open_def Let_def)
    next
      case (Some i)
      let ?new = "handle_default\<lparr>ch_flags := flags\<rparr>"
      obtain h where h: "cs_handles s i = Some h"
        using assms(3,4) False no Some by (cases "cs_handles s i") (auto simp: chan_open_def Let_def)
      show ?thesis
      proof (cases "connect h (cs_next_id s)")
        case (Ok h')
        let ?s1 = "(put_handle i h' s)\<lparr>cs_posted := cs_posted s @
          [post_fevent_response i (EVENT_READ (ce_abi E) OR EVENT_WRITE (ce_abi E))]\<rparr>"
        have "insert_new ?new ?s1 = (s', r)"
          using assms(3) False no Some h Ok by (auto simp: chan_open_def Let_def post_fevent_ok [OF assms(1)])
        note ins = insert_new_cases [OF this assms(4)]
        have "net_step (chan_abs s W R P) (chan_abs s' W R P)"
          using abs_connect [OF assms(2) h Ok, of ?new] unfolding ins(2) by (simp add: handle_default_def)
        moreover have "log_paired s' r P = P" using ins by (simp add: handle_default_def client_default_def)
        ultimately show ?thesis by simp
      qed (use assms(3,4) False no Some h in \<open>auto simp: chan_open_def Let_def\<close>)
    qed
  qed
qed

lemma sim_accept:
  assumes "events_ok E"
    and "net_inv (chan_abs s W R P)" "accept_loop E i handle listener aw s = (s', r)" "r \<noteq> Panic"
    and "cs_handles s i = Some (handle\<lparr>ch_extra := Listener (listener\<lparr>ls_awaiting := aw\<rparr>)\<rparr>)"
  shows "net_step\<^sup>*\<^sup>* (chan_abs s W R P) (chan_abs s' W R (log_paired s' r P))"
  using assms(2-)
proof (induction aw arbitrary: s)
  case Nil
  then show ?case by (auto split: if_splits)
next
  case (Cons remote aw)
  let ?l = "listener\<lparr>ls_awaiting := remote # aw\<rparr>"
  let ?s1 = "put_handle i (handle\<lparr>ch_extra := Listener (listener\<lparr>ls_awaiting := aw\<rparr>)\<rparr>) s"
  have li: "lis s i = Some ?l" "cli s i = None" using lis_Some [OF Cons.prems(4)] by simp_all
  have rem: "remote \<noteq> i" "remote < cs_next_id s"
    using awaiting_fresh(1,2) [OF Cons.prems(1), of i ?l remote] li by auto
  show ?case
  proof (cases "cs_handles s remote")
    case None
    have "net_step (chan_abs s W R P) (chan_abs ?s1 W R P)"
      using net_forget [of "chan_abs s W R P" i ?l remote aw] li None
      by (simp add: chan_abs_def handle_None fun_upd_idem)
    then have "net_inv (chan_abs ?s1 W R P)" "net_step\<^sup>*\<^sup>* (chan_abs s W R P) (chan_abs ?s1 W R P)"
      using net_step_inv [OF _ Cons.prems(1)] by blast+
    moreover have "accept_loop E i handle listener aw ?s1 = (s', r)"
      using Cons.prems(2) None rem(1) by (simp add: Let_def)
    ultimately show ?thesis using Cons.IH Cons.prems(3) by fastforce
  next
    case (Some h)
    have "lis s remote = None" using awaiting_fresh(2) [OF Cons.prems(1), of i ?l remote] li by simp
    then obtain c where c: "ch_extra h = Client c" using Some by (auto simp: lis_def split: extra.splits)
    then have cr: "cli s remote = Some c" using Some by (simp add: cli_def)
    let ?n = "cs_next_id s"
    let ?s2 = "(put_handle remote (h\<lparr>ch_extra := Client (c\<lparr>cl_remote := Open ?n\<rparr>)\<rparr>) ?s1)
      \<lparr>cs_posted := cs_posted s @ [post_fevent_response remote (EVENT_WRITE (ce_abi E))]\<rparr>"
    have "insert_new ((accept handle remote)\<lparr>ch_path := ls_path listener\<rparr>) ?s2 = (s', r)"
      using Cons.prems(2) Some c rem(1) by (simp add: Let_def post_fevent_ok [OF assms(1)])
    note ins = insert_new_cases [OF this Cons.prems(3)]
    have fresh: "lis s ?n = None" "i \<noteq> ?n" using fresh_id(2) [OF Cons.prems(1)] li by auto
    have cl: "cli s' = (cli s)(remote \<mapsto> c\<lparr>cl_remote := Open ?n\<rparr>, ?n \<mapsto> client_default\<lparr>cl_remote := Open remote\<rparr>)"
      "lis s' = (lis s)(i \<mapsto> listener\<lparr>ls_awaiting := aw\<rparr>)"
      using rem fresh li \<open>lis s remote = None\<close> unfolding ins(2)
      by (auto simp: accept_def handle_default_def fun_eq_iff)
    moreover have "cs_listeners s' = cs_listeners s" "cs_next_id s' = ?n + 1" unfolding ins(2) by simp_all
    moreover have "log_paired s' r P = P(remote \<mapsto> ?n, ?n \<mapsto> remote)"
      using ins(1) rem(2) by (simp add: cl fun_upd_twist)
    ultimately have "net_step (chan_abs s W R P) (chan_abs s' W R (log_paired s' r P))"
      using net_accept [of "chan_abs s W R P" i ?l remote aw c] li cr by (simp add: chan_abs_def)
    then show ?thesis by blast
  qed
qed

lemma sim_dup:
  assumes "events_ok E" "net_inv (chan_abs s W R P)" "chan_dup E i buf ctx s = (s', r)" "r \<noteq> Panic"
  shows "net_step\<^sup>*\<^sup>* (chan_abs s W R P) (chan_abs s' W R (log_paired s' r P))"
proof (cases "cs_handles s i")
  case None
  then show ?thesis using assms(3) by (auto simp: chan_dup_def Let_def split: if_splits)
next
  case (Some h)
  consider (listen) "buf = bytes_of ''listen''" | (connect) "buf = bytes_of ''connect''"
    | (other) "buf \<noteq> bytes_of ''listen''" "buf \<noteq> bytes_of ''connect''" by blast
  then show ?thesis
  proof cases
    case listen
    show ?thesis
    proof (cases "ch_extra h")
      case (Listener l)
      then have "accept_loop E i h l (ls_awaiting l) s = (s', r)"
        using assms(3) listen Some by (simp add: chan_dup_def Let_def require_listener_def)
      moreover have "h\<lparr>ch_extra := Listener (l\<lparr>ls_awaiting := ls_awaiting l\<rparr>)\<rparr> = h"
        using Listener by (cases h) simp
      ultimately show ?thesis using sim_accept [OF assms(1,2) _ assms(4)] Some by simp
    qed (use assms(3) listen Some in \<open>auto simp: chan_dup_def Let_def require_listener_def\<close>)
  next
    case connect
    show ?thesis
    proof (cases "connect h (cs_next_id s)")
      case (Ok h')
      then have "require_listener h \<noteq> Err e" "require_listener h \<noteq> Panic" for e
        by (auto simp: connect_def require_listener_def split: extra.splits)
      then obtain l where "require_listener h = Ok l" by (cases "require_listener h") auto
      then have "insert_new handle_default ((put_handle i h' s)\<lparr>cs_posted := cs_posted s @
          [post_fevent_response i (EVENT_READ (ce_abi E) OR EVENT_WRITE (ce_abi E))]\<rparr>) = (s', r)"
        using assms(3) connect Some Ok
        by (simp add: chan_dup_def Let_def post_fevent_ok [OF assms(1)] bytes_of_def)
      note ins = insert_new_cases [OF this assms(4)]
      have "net_step (chan_abs s W R P) (chan_abs s' W R P)"
        using abs_connect [OF assms(2) Some Ok, of handle_default] unfolding ins(2)
        by (simp add: handle_default_def)
      moreover have "log_paired s' r P = P" using ins by (simp add: handle_default_def client_default_def)
      ultimately show ?thesis by simp
    qed (use assms(3,4) connect Some in
        \<open>auto simp: chan_dup_def Let_def require_listener_def connect_def bytes_of_def split: extra.splits\<close>)
  next
    case other
    then show ?thesis
      using assms(3) Some sim_open [OF assms(1,2) _ assms(4)]
      by (auto simp: chan_dup_def Let_def split: if_splits)
  qed
qed

lemma sim_write:
  assumes "events_ok E" "net_inv (chan_abs s W R P)" "chan_write E i buf off flags ctx s = (s', r)"
    and "r \<noteq> Panic"
  shows "net_step\<^sup>*\<^sup>* (chan_abs s W R P)
    (chan_abs s' (case r of Ok n \<Rightarrow> W(i := W i @ take n buf) | _ \<Rightarrow> W) R P)"
proof (cases "\<exists>c j. cli s i = Some c \<and> cl_remote c = Open j")
  case True
  then obtain c j h where c: "cli s i = Some c" "cl_remote c = Open j"
    and h: "cs_handles s i = Some h" "ch_extra h = Client c" using cli_SomeD by blast
  have ci: "nt_clients (chan_abs s W R P) i = Some c" using c by simp
  obtain c' where c': "cli s j = Some c'"
    using open_peers(5) [OF assms(2) ci c(2)] by auto
  then obtain h' where h': "cs_handles s j = Some h'" "ch_extra h' = Client c'" using cli_SomeD by blast
  have eff: "r = Ok (length buf)" "cli s' = (cli s)(j \<mapsto> c'\<lparr>cl_buffer := cl_buffer c' @ buf\<rparr>)"
    "lis s' = lis s" "cs_listeners s' = cs_listeners s" "cs_next_id s' = cs_next_id s"
    using assms(3) h h' c(2) c' cli_Some [OF h']
    by (auto simp: chan_write_def Let_def require_client_def post_fevent_ok [OF assms(1)] fun_upd_idem
        split: if_splits)
  have "net_step (chan_abs s W R P) (chan_abs s' (W(i := W i @ buf)) R P)"
    using net_send [of "chan_abs s W R P" i c j c' buf] c c' eff by (simp add: chan_abs_def)
  then show ?thesis using eff(1) by simp
next
  case False
  then have "s' = s \<and> (\<forall>n. r \<noteq> Ok n)"
    using assms(3)
    by (auto simp: chan_write_def Let_def require_client_def cli_def
        split: question_splits extra.splits connection.splits if_splits)
  then show ?thesis by (cases r) auto
qed

lemma sim_read:
  assumes "net_inv (chan_abs s W R P)" "chan_read E i buf off flags ctx s = ((s', buf'), r)"
  shows "net_step\<^sup>*\<^sup>* (chan_abs s W R P)
    (chan_abs s' W (case r of Ok n \<Rightarrow> R(i := R i @ take n buf') | _ \<Rightarrow> R) P)"
proof (cases "\<exists>c. cli s i = Some c \<and> cl_buffer c \<noteq> []")
  case True
  then obtain c h where c: "cli s i = Some c" "cl_buffer c \<noteq> []"
    and h: "cs_handles s i = Some h" "ch_extra h = Client c" using cli_SomeD by blast
  let ?n = "min (length buf) (length (cl_buffer c))"
  have eff: "r = Ok ?n" "take ?n buf' = take ?n (cl_buffer c)"
    "cli s' = (cli s)(i \<mapsto> c\<lparr>cl_buffer := drop ?n (cl_buffer c)\<rparr>)" "lis s' = lis s"
    "cs_listeners s' = cs_listeners s" "cs_next_id s' = cs_next_id s"
    using assms(2) h c(2) cli_Some [OF h]
    by (auto simp: chan_read_def Let_def require_client_def copy_into_def fun_upd_idem)
  have "net_step (chan_abs s W R P) (chan_abs s' W (R(i := R i @ take ?n (cl_buffer c))) P)"
    using net_receive [of "chan_abs s W R P" i c ?n] c eff by (simp add: chan_abs_def)
  then show ?thesis using eff(1,2) by simp
next
  case False
  then have "s' = s \<and> (\<forall>n. r = Ok n \<longrightarrow> n = 0)"
    using assms(2)
    by (auto simp: chan_read_def Let_def require_client_def cli_def
        split: question_splits extra.splits if_splits)
  then show ?thesis by (cases r) auto
qed

lemma sim_close:
  assumes "events_ok E" "net_inv (chan_abs s W R P)" "chan_on_close E i s = (s', r)" "r \<noteq> Panic"
  shows "net_step\<^sup>*\<^sup>* (chan_abs s W R P) (chan_abs s' W R P)"
proof -
  obtain h where h: "cs_handles s i = Some h"
    using assms(3,4) by (cases "cs_handles s i") (auto simp: chan_on_close_def)
  show ?thesis
  proof (cases "ch_extra h")
    case (Listener l)
    then have "net_step (chan_abs s W R P) (chan_abs s' W R P)"
      using net_close_listener [of "chan_abs s W R P" i l] lis_Some [OF h Listener] assms(3) h
      by (auto simp: chan_on_close_def chan_abs_def Let_def fun_upd_idem split: option.splits)
    then show ?thesis by blast
  next
    case (Client c)
    note ci = cli_Some [OF h Client]
    show ?thesis
    proof (cases "\<exists>j. cl_remote c = Open j")
      case True
      then obtain j where j: "cl_remote c = Open j" by blast
      have "nt_clients (chan_abs s W R P) i = Some c" using ci by simp
      note o = open_peers [OF assms(2) this j]
      obtain c' where c': "cli s j = Some c'" using o(5) by auto
      then obtain h' where h': "cs_handles s j = Some h'" "ch_extra h' = Client c'" using cli_SomeD by blast
      have "cli s' = (cli s)(i := None, j \<mapsto> c'\<lparr>cl_remote := Closed\<rparr>)" "lis s' = lis s"
        "cs_listeners s' = cs_listeners s" "cs_next_id s' = cs_next_id s"
        using assms(3) h Client j h' o(3) ci cli_Some [OF h']
        by (auto simp: chan_on_close_def Let_def post_fevent_ok [OF assms(1)] fun_upd_idem split: if_splits)
      then have "net_step (chan_abs s W R P) (chan_abs s' W R P)"
        using net_close_connected [of "chan_abs s W R P" i c j c'] ci j c' by (simp add: chan_abs_def)
      then show ?thesis by blast
    next
      case False
      then have "net_step (chan_abs s W R P) (chan_abs s' W R P)"
        using net_close_single [of "chan_abs s W R P" i c] ci assms(3) h Client
        by (auto simp: chan_on_close_def chan_abs_def Let_def fun_upd_idem split: connection.splits)
      then show ?thesis by blast
    qed
  qed
qed

lemma sim_fcntl: "chan_fcntl E i cmd arg ctx s = (s', r) \<Longrightarrow> chan_abs s' W R P = chan_abs s W R P"
  by (auto simp: chan_fcntl_def chan_abs_def fun_eq_iff cli_def lis_def split: question_splits if_splits)

lemma query_state:
  "chan_fpath i buf ctx s = ((s', buf'), r) \<Longrightarrow> s' = s"
  "chan_fsync i ctx s = (s', r1) \<Longrightarrow> s' = s"
  "chan_fevent E i f ctx s = (s', r2) \<Longrightarrow> s' = s"
  by (auto simp: chan_fpath_def chan_fsync_def chan_fevent_def Let_def split: question_splits if_splits)

text \<open>The invariant of the scheme: it has a history with which it is a state of the network.\<close>

definition chan_inv :: "chan \<Rightarrow> bool" where
  "chan_inv s \<longleftrightarrow> (\<exists>W R P. net_inv (chan_abs s W R P))"

definition chan_ok :: "chan_env \<Rightarrow> chan \<Rightarrow> bool" where
  "chan_ok E s \<longleftrightarrow> events_ok E \<and> chan_inv s"

lemma chan_keepsI:
  assumes "\<And>s s' r W R P. events_ok E \<Longrightarrow> net_inv (chan_abs s W R P) \<Longrightarrow> m s = (s', r) \<Longrightarrow> r \<noteq> Panic \<Longrightarrow>
    \<exists>W' R' P'. net_step\<^sup>*\<^sup>* (chan_abs s W R P) (chan_abs s' W' R' P')"
  shows "keeps (chan_ok E) m"
  unfolding keeps_def chan_ok_def chan_inv_def using assms net_steps_inv by metis

lemma chan_read_keeps: "keeps_with (chan_ok E) (chan_read E fd buf off ff ctx)"
  unfolding keeps_with_def chan_ok_def chan_inv_def using sim_read net_steps_inv by metis

lemma chan_method_keeps:
  "keeps (chan_ok E) (chan_open E path flags ctx)" "keeps (chan_ok E) (chan_dup E fd buf ctx)"
  "keeps (chan_ok E) (chan_write E fd buf off ff ctx)" "keeps (chan_ok E) (chan_on_close E fd)"
  "keeps (chan_ok E) (chan_fcntl E fd cmd arg ctx)"
  by (rule chan_keepsI; blast intro: sim_open sim_dup sim_write sim_close)+
    (rule chan_keepsI; metis sim_fcntl rtranclp.rtrancl_refl)

lemma chan_query_keeps:
  "keeps I (chan_fsync fd ctx)" "keeps I (chan_fevent E fd ef ctx)" "keeps_with I (chan_fpath fd buf ctx)"
  by (auto simp: keeps_def keeps_with_def dest: query_state)

interpretation chan: scheme_methods "chan_scheme E" "chan_ok E" for E
  by unfold_locales
    (simp_all add: chan_scheme_def default_scheme_def chan_method_keeps chan_read_keeps chan_query_keeps)

section \<open>Runs\<close>

text \<open>
  A run of the scheme with its history: the bytes accepted from and returned to each handle, and the
  handle at the other end of each connection.
\<close>

fun log_response :: "chan \<Rightarrow> scheme_response \<Rightarrow> (nat \<rightharpoonup> nat) \<Rightarrow> nat \<rightharpoonup> nat" where
  "log_response s (Opened r) P = log_paired s r P"
| "log_response s (Regular r) P = P"

inductive chan_run ::
  "chan_env \<Rightarrow> chan \<Rightarrow> (nat \<Rightarrow> u8 list) \<Rightarrow> (nat \<Rightarrow> u8 list) \<Rightarrow> (nat \<rightharpoonup> nat) \<Rightarrow> bool" for E where
  chan_start: "chan_run E chan_new (\<lambda>i. []) (\<lambda>i. []) Map.empty"
| chan_call: "chan_run E s W R P \<Longrightarrow>
    handle_sync_dont_consume (ce_abi E) (chan_scheme E) ctx oper s = ((s', oper'), r) \<Longrightarrow> \<not> panicked r \<Longrightarrow>
    chan_run E s' (log_written oper r W) (log_read oper' r R) (log_response s' r P)"
| chan_close: "chan_run E s W R P \<Longrightarrow> chan_on_close E i s = (s', Ok u) \<Longrightarrow> chan_run E s' W R P"

lemma chan_scheme_simps [simp]:
  "sc_open (chan_scheme E) = chan_open E" "sc_dup (chan_scheme E) = chan_dup E"
  "sc_write (chan_scheme E) = chan_write E" "sc_read (chan_scheme E) = chan_read E"
  "sc_fpath (chan_scheme E) = chan_fpath" "sc_fsync (chan_scheme E) = chan_fsync"
  "sc_fcntl (chan_scheme E) = chan_fcntl E" "sc_fevent (chan_scheme E) = chan_fevent E"
  "sc_on_close (chan_scheme E) = chan_on_close E"
  by (simp_all add: chan_scheme_def)

lemma sim_call:
  assumes "events_ok E" "net_inv (chan_abs s W R P)"
    and run: "handle_sync_dont_consume K (chan_scheme E) ctx oper s = ((s', oper'), r)" and np: "\<not> panicked r"
  shows "net_step\<^sup>*\<^sup>* (chan_abs s W R P)
    (chan_abs s' (log_written oper r W) (log_read oper' r R) (log_response s' r P))"
proof (cases oper)
  case (OpOpen t path flags)
  then show ?thesis
    using run np sim_open [OF assms(1,2)] by (auto split: prod.splits)
next
  case (OpDup t fd buf)
  then show ?thesis
    using run np sim_dup [OF assms(1,2)] by (auto split: prod.splits)
next
  case (OpWrite t fd buf off flags)
  then obtain q where q: "chan_write E fd buf off flags ctx s = (s', q)" "r = Regular q"
    using run by (auto split: prod.splits)
  then show ?thesis
    using sim_write [OF assms(1,2) q(1)] np OpWrite run by (cases q) (auto split: prod.splits)
next
  case (OpRead t fd buf off flags)
  then obtain q buf' where q: "chan_read E fd buf off flags ctx s = ((s', buf'), q)" "r = Regular q"
      "oper' = OpRead t fd buf' off flags"
    using run by (auto split: prod.splits)
  then show ?thesis using sim_read [OF assms(2) q(1)] OpRead by (cases q) auto
next
  case (OpFcntl t fd cmd arg)
  then show ?thesis using run sim_fcntl by (auto split: prod.splits)
qed (use run in \<open>auto simp: chan_scheme_def default_scheme_def dest: query_state split: prod.splits option.splits\<close>)

lemma chan_run_refines:
  assumes "chan_run E s W R P" "events_ok E"
  shows "net_step\<^sup>*\<^sup>* net_init (chan_abs s W R P) \<and> net_inv (chan_abs s W R P)"
  using assms(1)
proof induction
  case chan_start
  have "chan_abs chan_new (\<lambda>i. []) (\<lambda>i. []) Map.empty = net_init"
    by (simp add: chan_abs_def chan_new_def net_init_def cli_def lis_def fun_eq_iff)
  then show ?case using net_init_inv by simp
next
  case (chan_call s W R P ctx oper s' oper' r)
  then show ?case
    using sim_call [OF assms(2) _ chan_call(2,3)] net_steps_inv rtranclp_trans [of net_step] by metis
next
  case (chan_close s W R P i s' u)
  then show ?case
    using sim_close [OF assms(2) _ chan_close(2)] net_steps_inv rtranclp_trans [of net_step]
    by (metis outcome.distinct(3))
qed

end
