(* ===== verification/Chan_Properties.thy ===== *)
theory Chan_Properties
  imports Chan_Proofs
begin

text \<open>
  The properties of the channel scheme, on runs in which the socket takes every notification.
\<close>

section \<open>Sample runs\<close>

definition sample_chan_env :: chan_env where
  "sample_chan_env = \<lparr>ce_abi = sample_abi, ce_write_response = (\<lambda>r. Ok True)\<rparr>"

lemma sample_events_ok: "events_ok sample_chan_env"
  by (simp add: events_ok_def sample_chan_env_def)

fun chan_script ::
  "chan_env \<Rightarrow> op list \<Rightarrow> chan \<times> (nat \<Rightarrow> u8 list) \<times> (nat \<Rightarrow> u8 list) \<times> (nat \<rightharpoonup> nat) \<Rightarrow>
   (chan \<times> (nat \<Rightarrow> u8 list) \<times> (nat \<Rightarrow> u8 list) \<times> (nat \<rightharpoonup> nat)) option" where
  "chan_script E [] x = Some x"
| "chan_script E (oper # rest) (s, W, R, P) =
     (let ((s', oper'), r) = handle_sync_dont_consume (ce_abi E) (chan_scheme E) sample_ctx oper s in
      if panicked r then None
      else chan_script E rest (s', log_written oper r W, log_read oper' r R, log_response s' r P))"

lemma chan_script_run:
  assumes "chan_script E script (s, W, R, P) = Some (s', W', R', P')" "chan_run E s W R P"
  shows "chan_run E s' W' R' P'"
  using assms
proof (induction script arbitrary: s W R P)
  case (Cons oper rest)
  then show ?case by (auto split: prod.splits if_splits intro: Cons.IH chan_call)
qed simp

text \<open>A listener named \<open>x\<close>, a client that connects to it, and two bytes sent and one received.\<close>

definition sample_talk :: "op list" where
  "sample_talk = [OpOpen 0 ''x'' 0x02000000, OpOpen 0 ''x'' 0, OpDup 0 0 (bytes_of ''listen''),
     OpWrite 0 1 [5, 6] 0 0, OpRead 0 2 [0] 0 0]"

lemma sample_talk_run:
  obtains s W R P where "chan_run sample_chan_env s W R P" "W 1 = [5, 6]" "R 2 = [5]" "P 2 = Some 1"
    "map_option cl_buffer (cli s 2) = Some [6]" "cs_next_id s = 3" "cs_handles s 1 \<noteq> None"
proof -
  have "map_option (\<lambda>(s, W, R, P). (W 1, R 2, P 2, map_option cl_buffer (cli s 2), cs_next_id s, cs_handles s 1 \<noteq> None))
      (chan_script sample_chan_env sample_talk (chan_new, (\<lambda>i. []), (\<lambda>i. []), Map.empty)) =
      Some ([5, 6], [5], Some 1, Some [6], 3, True)"
    by (simp add: sample_talk_def chan_new_def chan_open_def chan_dup_def chan_write_def chan_read_def
        sample_chan_env_def sample_abi_def insert_new_def usize_add_def put_handle_def handle_default_def
        client_default_def listener_default_def connect_def chan_post_fevent_def accept_def
        require_listener_def require_client_def cli_def copy_into_def Let_def bytes_of_def)
  then obtain s W R P where "chan_script sample_chan_env sample_talk (chan_new, (\<lambda>i. []), (\<lambda>i. []), Map.empty) =
      Some (s, W, R, P)" "W 1 = [5, 6]" "R 2 = [5]" "P 2 = Some 1"
      "map_option cl_buffer (cli s 2) = Some [6]" "cs_next_id s = 3" "cs_handles s 1 \<noteq> None" by auto
  with that chan_script_run [OF _ chan_start] show thesis by blast
qed

section \<open>Refinement and streams\<close>

text \<open>
  C6. The channel scheme refines the abstract network: every state that calls and closed handles
  lead to, with the history of what was written, read and connected, is a state the network reaches.
\<close>

theorem chan_refines_network:
  assumes "chan_run E s W R P" "events_ok E"
  shows "net_step\<^sup>*\<^sup>* net_init (chan_abs s W R P)"
  using chan_run_refines [OF assms] by blast

theorem chan_refines_network_witness:
  "\<exists>s W R P. chan_run sample_chan_env s W R P \<and> P 2 = Some 1 \<and> net_step\<^sup>*\<^sup>* net_init (chan_abs s W R P)"
  using sample_talk_run chan_refines_network sample_events_ok by metis

text \<open>
  C4. A connection is a byte stream: what a handle has read is a prefix of what the handle at the
  other end has written, and as long as the handle is open, what it has read followed by what is
  buffered for it is exactly what was written, so no byte is lost, duplicated or reordered.
\<close>

theorem chan_stream:
  assumes "chan_run E s W R P" "events_ok E" "P j = Some i"
  shows "prefix (R j) (W i) \<and> (\<forall>c. cli s j = Some c \<longrightarrow> R j @ cl_buffer c = W i)"
proof -
  have inv: "net_inv (chan_abs s W R P)" using chan_run_refines [OF assms(1,2)] by blast
  have "peer_ok (chan_abs s W R P) j i" using net_inv_peer [OF inv] assms(3) by simp
  moreover have "R j @ cl_buffer c = W i" if "cli s j = Some c" for c
    using net_inv_client [OF inv, of j c] that assms(3)
    by (auto simp: client_ok_def split: connection.splits)
  ultimately show ?thesis by (simp add: peer_ok_def)
qed

theorem chan_stream_witness:
  "\<exists>s W R P. chan_run sample_chan_env s W R P \<and> P 2 = Some 1 \<and> R 2 = [5] \<and> W 1 = [5, 6] \<and> prefix (R 2) (W 1)"
  using sample_talk_run chan_stream sample_events_ok by metis

section \<open>No panic\<close>

lemma insert_new_no_panic: "cs_next_id s + 1 < usize_range \<Longrightarrow> snd (insert_new new s) \<noteq> Panic"
  by (simp add: insert_new_def Let_def usize_add_def)

lemma named_listener:
  assumes "net_inv (chan_abs s W R P)" "cs_listeners s p = Some i"
  shows "\<exists>h l. cs_handles s i = Some h \<and> ch_extra h = Listener l"
  using net_inv_name [OF assms(1), of p i] assms(2) lis_SomeD [of s i]
  by (fastforce simp: name_ok_def path_of_def split: option.splits)

lemma open_no_panic:
  assumes "events_ok E" "net_inv (chan_abs s W R P)" "cs_next_id s + 1 < usize_range"
  shows "snd (chan_open E path flags ctx s) \<noteq> Panic"
proof (cases "cs_listeners s path")
  case None
  then show ?thesis using assms(3) insert_new_no_panic by (auto simp: chan_open_def Let_def)
next
  case (Some i)
  from named_listener [OF assms(2) Some] obtain h l where "cs_handles s i = Some h" "ch_extra h = Listener l"
    by blast
  then show ?thesis
    using Some assms(3)
    by (auto simp: chan_open_def Let_def connect_def post_fevent_ok [OF assms(1)]
        intro!: insert_new_no_panic [simplified])
qed

lemma accept_no_panic:
  assumes "events_ok E"
    and "net_inv (chan_abs s W R P)" "cs_next_id s + 1 < usize_range"
    and "cs_handles s i = Some (handle\<lparr>ch_extra := Listener (listener\<lparr>ls_awaiting := aw\<rparr>)\<rparr>)"
  shows "snd (accept_loop E i handle listener aw s) \<noteq> Panic"
  using assms(2-)
proof (induction aw arbitrary: s)
  case (Cons remote aw)
  let ?l = "listener\<lparr>ls_awaiting := remote # aw\<rparr>"
  let ?s1 = "put_handle i (handle\<lparr>ch_extra := Listener (listener\<lparr>ls_awaiting := aw\<rparr>)\<rparr>) s"
  have li: "lis s i = Some ?l" "cli s i = None" using lis_Some [OF Cons.prems(3)] by simp_all
  have rem: "lis s remote = None" "remote \<noteq> i"
    using awaiting_fresh(2) [OF Cons.prems(1), of i ?l remote] li by auto
  show ?case
  proof (cases "cs_handles s remote")
    case None
    have "net_step (chan_abs s W R P) (chan_abs ?s1 W R P)"
      using net_forget [of "chan_abs s W R P" i ?l remote aw] li None
      by (simp add: chan_abs_def handle_None fun_upd_idem)
    from net_step_inv [OF this Cons.prems(1)] show ?thesis
      using Cons.IH [of ?s1] Cons.prems(2) None rem(2) by (simp add: Let_def)
  next
    case (Some h)
    then obtain c where "ch_extra h = Client c" using rem(1) by (auto simp: lis_def split: extra.splits)
    then show ?thesis
      using Some rem(2) Cons.prems(2)
      by (simp add: Let_def post_fevent_ok [OF assms(1)] insert_new_no_panic [simplified])
  qed
qed simp

lemma dup_no_panic:
  assumes "events_ok E" "net_inv (chan_abs s W R P)" "cs_next_id s + 1 < usize_range"
  shows "snd (chan_dup E i buf ctx s) \<noteq> Panic"
proof (cases "cs_handles s i")
  case None
  then show ?thesis by (simp add: chan_dup_def Let_def)
next
  case (Some h)
  show ?thesis
  proof (cases "ch_extra h")
    case (Client c)
    then show ?thesis
      using Some open_no_panic [OF assms]
      by (simp add: chan_dup_def Let_def require_listener_def)
  next
    case (Listener l)
    have "h\<lparr>ch_extra := Listener (l\<lparr>ls_awaiting := ls_awaiting l\<rparr>)\<rparr> = h"
      using Listener by (cases h) simp
    with accept_no_panic [where i = i and handle = h and listener = l and aw = "ls_awaiting l", OF assms] show ?thesis
      using Some Listener open_no_panic [OF assms] assms(3)
      by (simp add: chan_dup_def Let_def require_listener_def connect_def post_fevent_ok [OF assms(1)]
          insert_new_no_panic [simplified])
  qed
qed

lemma connected_handle:
  assumes "net_inv (chan_abs s W R P)" "cs_handles s i = Some h" "ch_extra h = Client c" "cl_remote c = Open j"
  shows "\<exists>h' c'. cs_handles s j = Some h' \<and> ch_extra h' = Client c' \<and> i \<noteq> j"
proof -
  have "nt_clients (chan_abs s W R P) i = Some c" using cli_Some [OF assms(2,3)] by simp
  from open_peers(3,5) [OF assms(1) this assms(4)] show ?thesis using cli_SomeD [of s j] by auto
qed

lemma write_no_panic:
  assumes "events_ok E" "net_inv (chan_abs s W R P)"
  shows "snd (chan_write E i buf off flags ctx s) \<noteq> Panic"
proof (cases "\<exists>h c j. cs_handles s i = Some h \<and> ch_extra h = Client c \<and> cl_remote c = Open j")
  case True
  then obtain h c j where h: "cs_handles s i = Some h" "ch_extra h = Client c" "cl_remote c = Open j" by blast
  with connected_handle [OF assms(2) h] show ?thesis
    by (auto simp: chan_write_def Let_def require_client_def post_fevent_ok [OF assms(1)] split: if_splits)
next
  case False
  then show ?thesis
    by (auto simp: chan_write_def Let_def require_client_def
        split: question_splits extra.splits connection.splits)
qed

lemma close_no_panic:
  assumes "events_ok E" "net_inv (chan_abs s W R P)" "cs_handles s i = Some h"
  shows "snd (chan_on_close E i s) = Ok ()"
proof (cases "ch_extra h")
  case (Client c)
  show ?thesis
  proof (cases "\<exists>j. cl_remote c = Open j")
    case True
    then obtain j where "cl_remote c = Open j" by blast
    with connected_handle [OF assms(2,3) Client] Client assms(3) show ?thesis
      by (auto simp: chan_on_close_def Let_def post_fevent_ok [OF assms(1)])
  qed (use Client assms(3) in \<open>auto simp: chan_on_close_def Let_def split: connection.splits\<close>)
qed (use assms(3) in \<open>auto simp: chan_on_close_def Let_def split: option.splits\<close>)

lemma query_no_panic:
  "snd (chan_read E i buf off flags ctx s) \<noteq> Panic" "snd (chan_fpath i buf ctx s) \<noteq> Panic"
  "snd (chan_fsync i ctx s) \<noteq> Panic" "snd (chan_fcntl E i cmd arg ctx s) \<noteq> Panic"
  "snd (chan_fevent E i ef ctx s) \<noteq> Panic"
  by (auto simp: chan_read_def chan_fpath_def chan_fsync_def chan_fcntl_def chan_fevent_def Let_def
      require_client_def split: question_splits extra.splits)

text \<open>
  C28. As long as the kernel takes every notification that the daemon posts and the ids are not used up,
  the channel scheme does not panic: in every state that a run reaches no call of any kind makes it panic,
  and neither does closing a handle that exists. The \<open>unwrap\<close>, \<open>expect\<close> and \<open>panic!\<close> in the code are not
  reached then; after a refused notification one of them can be.
\<close>

theorem chan_never_panics:
  assumes "chan_run E s W R P" "events_ok E" "cs_next_id s + 1 < usize_range"
  shows "\<not> panicked (snd (handle_sync_dont_consume K (chan_scheme E) ctx oper s)) \<and>
    (cs_handles s i \<noteq> None \<longrightarrow> snd (chan_on_close E i s) = Ok ())"
proof -
  have inv: "net_inv (chan_abs s W R P)" using chan_run_refines [OF assms(1,2)] by blast
  have "\<not> panicked (snd (handle_sync_dont_consume K (chan_scheme E) ctx oper s))"
    using open_no_panic [OF assms(2) inv assms(3)] dup_no_panic [OF assms(2) inv assms(3)]
      write_no_panic [OF assms(2) inv] query_no_panic
    by (cases oper) (simp_all add: case_prod_beta Let_def, simp_all add: chan_scheme_def default_scheme_def
        split: option.splits)
  moreover have "snd (chan_on_close E i s) = Ok ()" if "cs_handles s i \<noteq> None"
    using that close_no_panic [OF assms(2) inv] by auto
  ultimately show ?thesis by blast
qed

theorem chan_never_panics_witness:
  "\<exists>s W R P. chan_run sample_chan_env s W R P \<and> cs_handles s 1 \<noteq> None \<and>
     snd (chan_on_close sample_chan_env 1 s) = Ok ()"
proof -
  obtain s W R P where s: "chan_run sample_chan_env s W R P" "cs_next_id s = 3" "cs_handles s 1 \<noteq> None"
    using sample_talk_run .
  have "cs_next_id s + 1 < usize_range" using s(2) by simp
  with chan_never_panics [OF s(1) sample_events_ok, of sample_abi sample_ctx "OpFsync 0 0" 1] s
  show ?thesis by blast
qed

section \<open>Accepting a connection\<close>

lemma accept_loop_first:
  assumes "events_ok E" "cs_next_id s + 1 < usize_range"
    and "cs_handles s i = Some (handle\<lparr>ch_extra := Listener (listener\<lparr>ls_awaiting := dead @ c # rest\<rparr>)\<rparr>)"
    and "\<forall>d \<in> set dead. cs_handles s d = None" "cs_handles s c = Some hc" "ch_extra hc = Client cl"
    and "c \<noteq> i" "c < cs_next_id s" "i < cs_next_id s"
  shows "\<exists>s'. accept_loop E i handle listener (dead @ c # rest) s = (s', Ok (ThisScheme (cs_next_id s) 0)) \<and>
    map_option cl_remote (cli s' (cs_next_id s)) = Some (Open c) \<and>
    map_option cl_remote (cli s' c) = Some (Open (cs_next_id s)) \<and>
    map_option ls_awaiting (lis s' i) = Some rest"
  using assms(2-)
proof (induction dead arbitrary: s)
  case Nil
  then show ?case
    by (auto simp: Let_def post_fevent_ok [OF assms(1)] insert_new_def usize_add_def accept_def)
next
  case (Cons d dead)
  let ?s1 = "put_handle i (handle\<lparr>ch_extra := Listener (listener\<lparr>ls_awaiting := dead @ c # rest\<rparr>)\<rparr>) s"
  have "d \<noteq> i" using Cons.prems(2,3) by auto
  then have "accept_loop E i handle listener (dead @ c # rest) ?s1 =
      accept_loop E i handle listener ((d # dead) @ c # rest) s"
    using Cons.prems(3) by (simp add: Let_def)
  moreover have "\<forall>d \<in> set dead. cs_handles ?s1 d = None" using Cons.prems(2,3) by auto
  ultimately show ?case using Cons.IH [of ?s1] Cons.prems by simp
qed

text \<open>
  Accepting connects the listener to the client that has waited longest among those that are
  still there: \<open>dup\<close> with \<open>listen\<close> skips the ids of clients that have gone, makes a new handle, points
  it and the waiting client at each other, and leaves the later ones in the queue.
\<close>

lemma chan_accept_first_waiting:
  assumes "chan_run E s W R P" "events_ok E" "cs_next_id s + 1 < usize_range"
    and "lis s i = Some l" "ls_awaiting l = dead @ c # rest"
    and "\<forall>d \<in> set dead. cs_handles s d = None" "cs_handles s c \<noteq> None"
  shows "\<exists>s'. chan_dup E i (bytes_of ''listen'') ctx s = (s', Ok (ThisScheme (cs_next_id s) 0)) \<and>
    map_option cl_remote (cli s' (cs_next_id s)) = Some (Open c) \<and>
    map_option cl_remote (cli s' c) = Some (Open (cs_next_id s)) \<and>
    map_option ls_awaiting (lis s' i) = Some rest"
proof -
  have inv: "net_inv (chan_abs s W R P)" using chan_run_refines [OF assms(1,2)] by blast
  obtain h where h: "cs_handles s i = Some h" "ch_extra h = Listener l" using lis_SomeD [OF assms(4)] by blast
  have eq: "h\<lparr>ch_extra := Listener (l\<lparr>ls_awaiting := dead @ c # rest\<rparr>)\<rparr> = h"
    using h(2) assms(5) [symmetric] by (cases h) simp
  have aw: "c < cs_next_id s" "lis s c = None" "i < cs_next_id s"
    using awaiting_fresh(1,2) [OF inv, of i l c] listener_id(1) [OF inv, of i l] assms(4,5) by simp_all
  have "c \<noteq> i" using aw(2) assms(4) by auto
  moreover obtain hc cl where "cs_handles s c = Some hc" "ch_extra hc = Client cl"
    using aw(2) assms(7) by (auto simp: lis_def split: option.splits extra.splits)
  moreover note accept_loop_first [where handle = h and listener = l and hc = hc and cl = cl,
      OF assms(2,3) _ assms(6) _ _ _ aw(1,3)] h eq
  ultimately
  show ?thesis using assms(5) by (simp add: chan_dup_def Let_def require_listener_def)
qed

section \<open>Notifications\<close>

text \<open>The events \<open>fevent\<close> reports for a handle, and the events a step posted for it.\<close>

definition events :: "abi \<Rightarrow> chan \<Rightarrow> nat \<Rightarrow> u64" where
  "events K s j = (case cs_handles s j of None \<Rightarrow> 0 | Some h \<Rightarrow> handle_events K h)"

definition posted_since :: "chan \<Rightarrow> chan \<Rightarrow> cqe set" where
  "posted_since s s' = set (drop (length (cs_posted s)) (cs_posted s'))"

text \<open>Every event of \<open>a\<close> is one of \<open>b\<close> or of \<open>f\<close>.\<close>

definition covered :: "u64 \<Rightarrow> u64 \<Rightarrow> u64 \<Rightarrow> bool" where
  "covered a b f \<longleftrightarrow> (\<forall>n. bit a n \<longrightarrow> bit b n \<or> bit f n)"

definition woken :: "abi \<Rightarrow> chan \<Rightarrow> chan \<Rightarrow> nat \<Rightarrow> bool" where
  "woken K s s' j \<longleftrightarrow> (\<exists>f. (f = 0 \<or> post_fevent_response j f \<in> posted_since s s') \<and>
     covered (events K s' j) (events K s j) f)"

lemma covered_simps [simp]: "covered a a f" "covered a b a" "covered 0 b f"
  by (simp_all add: covered_def)

lemma covered_trans: "covered a b f \<Longrightarrow> covered b c f \<Longrightarrow> covered a c f"
  by (auto simp: covered_def)

lemma covered_or: "covered (a OR b) c f \<longleftrightarrow> covered a c f \<and> covered b c f"
  by (auto simp: covered_def bit_simps)

lemma covered_in_or [simp]: "covered a (a OR b) f" "covered b (a OR b) f"
  by (simp_all add: covered_def bit_simps)

lemma woken_covered: "covered (events K s' j) (events K s j) 0 \<Longrightarrow> woken K s s' j"
  by (auto simp: woken_def)

lemma woken_same [simp]: "events K s' j = events K s j \<Longrightarrow> woken K s s' j"
  by (simp add: woken_covered)

lemma woken_posted:
  assumes "post_fevent_response j f \<in> posted_since s s'" "covered (events K s' j) (events K s j) f"
  shows "woken K s s' j"
  using assms by (auto simp: woken_def)

lemma woken_by:
  assumes "covered (events K s' j) (events K s j) (if post_fevent_response j f \<in> posted_since s s' then f else 0)"
  shows "woken K s s' j"
  using assms woken_posted [of j f s s' K] woken_covered [of K s' j s] by (simp split: if_splits)

lemma insert_new_events:
  assumes "insert_new new t = (s', r)" "r \<noteq> Panic" "j \<noteq> cs_next_id t"
  shows "events K s' j = events K t j \<and> cs_posted s' = cs_posted t"
  using insert_new_cases [OF assms(1,2)] assms(3) by (simp add: events_def)

lemma insert_new_wakes:
  assumes "insert_new new t = (s', r)" "r \<noteq> Panic" "j \<noteq> cs_next_id t" "cs_handles t = cs_handles s"
  shows "woken K s s' j"
  using insert_new_events [OF assms(1-3), of K] assms(4) by (simp add: events_def)

text \<open>A client that connects wakes the listener.\<close>

lemma connect_wakes:
  assumes "cs_handles s i = Some h" "connect h n = Ok h'" "j \<noteq> cs_next_id s" "r \<noteq> Panic"
    and "insert_new new ((put_handle i h' s)\<lparr>cs_posted := cs_posted s @
      [post_fevent_response i (EVENT_READ K OR EVENT_WRITE K)]\<rparr>) = (s', r)"
  shows "woken K s s' j"
proof -
  have ins: "events K s' j = events K (put_handle i h' s) j"
    "posted_since s s' = {post_fevent_response i (EVENT_READ K OR EVENT_WRITE K)}"
    using insert_new_events [OF assms(5,4), of j K] assms(3) by (simp_all add: events_def posted_since_def)
  show ?thesis
  proof (cases "j = i")
    case True
    have "events K s' i = EVENT_READ K OR EVENT_WRITE K"
      using ins(1) assms(1,2) True
      by (auto simp: events_def handle_events_def connect_def split: extra.splits)
    then show ?thesis using ins(2) True by (intro woken_posted [of _ "EVENT_READ K OR EVENT_WRITE K"]) simp_all
  next
    case False
    then show ?thesis using ins(1) by (simp add: events_def)
  qed
qed

lemma open_wakes:
  assumes "events_ok E" "chan_open E path flags ctx s = (s', r)" "r \<noteq> Panic" "j \<noteq> cs_next_id s"
  shows "woken (ce_abi E) s s' j"
  using assms(2) assms(3,4)
  by (auto simp: chan_open_def Let_def post_fevent_ok [OF assms(1)] split: if_splits question_splits
      elim: insert_new_wakes connect_wakes)

lemma accept_wakes:
  assumes "events_ok E"
    and "accept_loop E i handle listener aw s = (s', r)" "r \<noteq> Panic" "j \<noteq> cs_next_id s"
    and "cs_handles s i = Some (handle\<lparr>ch_extra := Listener (listener\<lparr>ls_awaiting := aw\<rparr>)\<rparr>)"
  shows "woken (ce_abi E) s s' j"
  using assms(2-)
proof (induction aw arbitrary: s)
  case Nil
  then show ?case by (auto split: if_splits)
next
  case (Cons remote aw)
  let ?K = "ce_abi E"
  let ?s1 = "put_handle i (handle\<lparr>ch_extra := Listener (listener\<lparr>ls_awaiting := aw\<rparr>)\<rparr>) s"
  have less: "covered (events ?K ?s1 k) (events ?K s k) f" for k f
    using Cons.prems(4) by (auto simp: events_def handle_events_def)
  show ?case
  proof (cases "cs_handles ?s1 remote")
    case None
    then have "accept_loop E i handle listener aw ?s1 = (s', r)"
      using Cons.prems(1) by (simp add: Let_def split: if_splits)
    then have "woken ?K ?s1 s' j" using Cons.IH [of ?s1] Cons.prems by simp
    then show ?thesis
      using covered_trans [OF _ less] by (auto simp: woken_def posted_since_def)
  next
    case (Some h)
    show ?thesis
    proof (cases "ch_extra h")
      case (Listener l)
      then show ?thesis using Cons.prems(1,2) Some by (simp add: Let_def)
    next
      case (Client c)
      let ?h = "h\<lparr>ch_extra := Client (c\<lparr>cl_remote := Open (cs_next_id s)\<rparr>)\<rparr>"
      have "insert_new ((accept handle remote)\<lparr>ch_path := ls_path listener\<rparr>)
          ((put_handle remote ?h ?s1)\<lparr>cs_posted := cs_posted s @ [post_fevent_response remote (EVENT_WRITE ?K)]\<rparr>) = (s', r)"
        using Cons.prems(1) Some Client by (simp add: Let_def post_fevent_ok [OF assms(1)])
      from insert_new_events [OF this Cons.prems(2), of j ?K] Cons.prems(3)
      have ins: "events ?K s' j = events ?K (put_handle remote ?h ?s1) j"
        "posted_since s s' = {post_fevent_response remote (EVENT_WRITE ?K)}"
        by (simp_all add: events_def posted_since_def)
      have "covered (events ?K (put_handle remote ?h ?s1) j) (events ?K ?s1 j) (if j = remote then EVENT_WRITE ?K else 0)"
        using Some Client by (auto simp: events_def handle_events_def covered_or split: connection.splits)
      from covered_trans [OF this less] have "covered (events ?K s' j) (events ?K s j) (if j = remote then EVENT_WRITE ?K else 0)"
        using ins(1) by simp
      then show ?thesis
        using ins(2) woken_posted [of j "EVENT_WRITE ?K" s s' ?K] woken_covered [of ?K s' j s]
        by (cases "j = remote") simp_all
    qed
  qed
qed

lemma dup_wakes:
  assumes "events_ok E" "chan_dup E i buf ctx s = (s', r)" "r \<noteq> Panic" "j \<noteq> cs_next_id s"
  shows "woken (ce_abi E) s s' j"
proof (cases "cs_handles s i")
  case None
  then show ?thesis using assms(2) by (auto simp: chan_dup_def Let_def split: if_splits)
next
  case (Some h)
  show ?thesis
  proof (cases "ch_extra h")
    case (Client c)
    then show ?thesis
      using assms(2) Some open_wakes [OF assms(1) _ assms(3,4)]
      by (auto simp: chan_dup_def Let_def require_listener_def split: if_splits)
  next
    case (Listener l)
    have "h\<lparr>ch_extra := Listener (l\<lparr>ls_awaiting := ls_awaiting l\<rparr>)\<rparr> = h"
      using Listener by (cases h) simp
    with accept_wakes [where i = i and handle = h and listener = l and aw = "ls_awaiting l", OF assms(1) _ assms(3,4)]
    show ?thesis
      using assms(2) Some Listener open_wakes [OF assms(1) _ assms(3,4)]
        connect_wakes [OF Some _ assms(4,3), of "cs_next_id s"]
      by (auto simp: chan_dup_def Let_def require_listener_def connect_def post_fevent_ok [OF assms(1)]
          split: if_splits)
  qed
qed

lemma write_wakes:
  assumes "events_ok E" "chan_write E i buf off flags ctx s = (s', r)"
  shows "woken (ce_abi E) s s' j"
  using assms(2)
  by (auto simp: chan_write_def Let_def require_client_def post_fevent_ok [OF assms(1)] posted_since_def
      events_def handle_events_def covered_or
      split: question_splits extra.splits connection.splits if_splits
      intro!: woken_by [of _ _ _ _ "EVENT_READ (ce_abi E)"])

lemma read_wakes: "chan_read E i buf off flags ctx s = ((s', buf'), r) \<Longrightarrow> woken K s s' j"
  by (auto simp: chan_read_def Let_def require_client_def events_def handle_events_def covered_or
      split: question_splits extra.splits connection.splits if_splits intro!: woken_covered)

lemma fcntl_wakes: "chan_fcntl E i cmd arg ctx s = (s', r) \<Longrightarrow> woken K s s' j"
  by (auto simp: chan_fcntl_def events_def handle_events_def split: question_splits if_splits)

lemma close_wakes:
  assumes "events_ok E" "chan_on_close E i s = (s', Ok u)"
  shows "woken (ce_abi E) s s' j"
  using assms(2)
  by (auto simp: chan_on_close_def Let_def post_fevent_ok [OF assms(1)] posted_since_def
      events_def handle_events_def covered_or
      split: question_splits extra.splits connection.splits if_splits option.splits
      intro!: woken_by [of _ _ _ _ "EVENT_READ (ce_abi E)"])

text \<open>
  C18. No wake-up is lost: whenever a call or a closed handle makes an event available on a handle that
  existed before (it becomes readable, writable, or a listener gets a client), a notification with
  that event is posted for the handle, so a client that waits for events is woken.
\<close>

theorem chan_no_lost_wakeup:
  assumes "chan_run E s W R P" "events_ok E" "cs_handles s j \<noteq> None"
  shows "(handle_sync_dont_consume (ce_abi E) (chan_scheme E) ctx oper s = ((s', oper'), r) \<and> \<not> panicked r \<longrightarrow>
      woken (ce_abi E) s s' j) \<and>
    (chan_on_close E i s = (s', Ok ()) \<longrightarrow> woken (ce_abi E) s s' j)"
proof -
  have inv: "net_inv (chan_abs s W R P)" using chan_run_refines [OF assms(1,2)] by blast
  have j: "j \<noteq> cs_next_id s"
    using fresh_id(1,2) [OF inv] assms(3) handle_None [of s "cs_next_id s"] by auto
  have "woken (ce_abi E) s s' j"
    if run: "handle_sync_dont_consume (ce_abi E) (chan_scheme E) ctx oper s = ((s', oper'), r)" and "\<not> panicked r"
    using that open_wakes [OF assms(2) _ _ j] dup_wakes [OF assms(2) _ _ j] write_wakes [OF assms(2)]
      read_wakes [of E _ _ _ _ ctx s s'] fcntl_wakes [of E _ _ _ ctx s s']
    by (cases oper) (auto dest: query_state split: prod.splits,
        auto simp: chan_scheme_def default_scheme_def split: option.splits prod.splits)
  then show ?thesis using close_wakes [OF assms(2)] by blast
qed

theorem chan_no_lost_wakeup_witness:
  "\<exists>s s'. cs_handles s 2 \<noteq> None \<and> chan_on_close sample_chan_env 1 s = (s', Ok ()) \<and> woken sample_abi s s' 2"
proof -
  obtain s W R P where s: "chan_run sample_chan_env s W R P" "cs_handles s 1 \<noteq> None"
    and b: "map_option cl_buffer (cli s 2) = Some [6]" using sample_talk_run .
  have two: "cs_handles s 2 \<noteq> None" using b handle_None [of s 2] by auto
  have "net_inv (chan_abs s W R P)" using chan_run_refines s sample_events_ok by blast
  then have "snd (chan_on_close sample_chan_env 1 s) = Ok ()"
    using close_no_panic [OF sample_events_ok] s(2) by auto
  then obtain s' where "chan_on_close sample_chan_env 1 s = (s', Ok ())" by (metis prod.collapse)
  with chan_no_lost_wakeup [OF s(1) sample_events_ok two, of sample_ctx "OpFsync 0 0" s' _ _ 1] two
  show ?thesis by (auto simp: sample_chan_env_def)
qed

section \<open>When a notification fails\<close>

text \<open>The states of a run in which the socket refuses the notification of the second \<open>open\<close>.\<close>

definition refusing_env :: chan_env where
  "refusing_env = sample_chan_env\<lparr>ce_write_response := (\<lambda>r. Ok False)\<rparr>"

definition refused_state :: chan where
  "refused_state =
     fst (chan_open sample_chan_env ''y'' 0x02000000 sample_ctx
       (fst (chan_open refusing_env ''x'' 0 sample_ctx
         (fst (chan_open sample_chan_env ''x'' 0x02000000 sample_ctx chan_new)))))"

text \<open>
  If the socket refuses a notification, the scheme can panic later: \<open>open\<close> puts the id of the new
  client into the listener's queue before it posts the notification, and when that fails it returns
  an error without using the id. The id then goes to the next handle, here another listener, and
  accepting from the queue panics.
\<close>

lemma chan_refused_notification_panics:
  "snd (chan_dup sample_chan_env 0 (bytes_of ''listen'') sample_ctx refused_state) = Panic"
  by (simp add: refused_state_def refusing_env_def chan_new_def chan_open_def chan_dup_def
      sample_chan_env_def sample_abi_def insert_new_def usize_add_def put_handle_def handle_default_def
      client_default_def listener_default_def connect_def chan_post_fevent_def accept_def
      require_listener_def Let_def)

end
