(* ===== verification/Shm.thy ===== *)
theory Shm
  imports Serial_Loop
begin

text \<open>
  The shared memory scheme of \<open>ipcd/src/shm.rs\<close>. An object is a range of the daemon's memory that it
  obtained from the kernel. The model keeps the contents of memory, byte by byte, and the ranges that
  are mapped; where the kernel places a new range is the parameter \<open>se_fmap\<close>, which gets the ranges in
  use and the size.
\<close>

section \<open>State\<close>

record mmap_guard =
  mg_base :: nat
  mg_size :: nat
  mg_len :: nat

record shm_handle =
  sh_buffer :: "mmap_guard option"
  sh_refs :: nat
  sh_unlinked :: bool

datatype shm_fd = Shm string | SchemeRoot

record shm =
  sm_maps :: "string \<rightharpoonup> shm_handle"
  sm_handles :: "nat \<rightharpoonup> shm_fd"
  sm_next_id :: nat
  sm_memory :: "nat \<Rightarrow> u8"
  sm_regions :: "(nat \<times> nat) list"

record shm_env =
  se_abi :: abi
  se_fmap :: "(nat \<times> nat) list \<Rightarrow> nat \<Rightarrow> nat outcome"

definition shm_new :: shm where
  "shm_new = \<lparr>sm_maps = Map.empty, sm_handles = Map.empty, sm_next_id = 0, sm_memory = (\<lambda>a. 0),
     sm_regions = []\<rparr>"

definition shm_handle_default :: shm_handle where
  "shm_handle_default = \<lparr>sh_buffer = None, sh_refs = 0, sh_unlinked = False\<rparr>"

fun as_shm :: "shm_fd \<Rightarrow> string option" where
  "as_shm (Shm path) = Some path"
| "as_shm SchemeRoot = None"

text \<open>\<open>self.handles.get(&id).and_then(Handle::as_shm)\<close>.\<close>

definition shm_path :: "nat \<Rightarrow> shm \<Rightarrow> string option" where
  "shm_path i s = (case sm_handles s i of None \<Rightarrow> None | Some h \<Rightarrow> as_shm h)"

section \<open>Mapped memory\<close>

definition memory_at :: "shm \<Rightarrow> nat \<Rightarrow> nat \<Rightarrow> u8 list" where
  "memory_at s base n = map (\<lambda>k. sm_memory s (base + k)) [0..<n]"

definition store :: "nat \<Rightarrow> u8 list \<Rightarrow> (nat \<Rightarrow> u8) \<Rightarrow> nat \<Rightarrow> u8" where
  "store base bytes mem a = (if base \<le> a \<and> a < base + length bytes then bytes ! (a - base) else mem a)"

text \<open>A new range holds zeros.\<close>

definition guard_alloc :: "shm_env \<Rightarrow> nat \<Rightarrow> shm \<Rightarrow> shm \<times> mmap_guard outcome" where
  "guard_alloc E len s = (let P = PAGE_SIZE (se_abi E); page_count = (len + P - 1) div P in
     question s (usize_mul page_count P) (\<lambda>sz.
     question s (se_fmap E (sm_regions s) sz) (\<lambda>base.
     (s\<lparr>sm_memory := store base (replicate sz 0) (sm_memory s), sm_regions := (base, sz) # sm_regions s\<rparr>,
      Ok \<lparr>mg_base = base, mg_size = sz, mg_len = len\<rparr>))))"

definition guard_len :: "mmap_guard \<Rightarrow> nat" where
  "guard_len g = mg_size g"

definition guard_read :: "mmap_guard \<Rightarrow> nat \<Rightarrow> u8 list \<Rightarrow> shm \<Rightarrow> u8 list \<times> nat outcome" where
  "guard_read g offset buf s =
     question buf (ok_or ERANGE (usize_checked_add offset (length buf))) (\<lambda>f.
     let end_off = min f (mg_len g) in
     if offset > mg_len g then (buf, Err EINVAL)
     else (copy_into buf 0 (memory_at s (mg_base g + offset) (end_off - offset)), Ok (end_off - offset)))"

definition guard_write :: "mmap_guard \<Rightarrow> nat \<Rightarrow> u8 list \<Rightarrow> shm \<Rightarrow> shm \<times> nat outcome" where
  "guard_write g offset buf s =
     question s (ok_or ERANGE (usize_checked_add offset (length buf))) (\<lambda>end_off.
     if end_off > mg_len g then (s, Err EINVAL)
     else (s\<lparr>sm_memory := store (mg_base g + offset) buf (sm_memory s)\<rparr>, Ok (length buf)))"

definition guard_drop :: "mmap_guard \<Rightarrow> shm \<Rightarrow> shm" where
  "guard_drop g s = (if mg_size g = 0 then s
     else s\<lparr>sm_regions := filter (\<lambda>r. r \<noteq> (mg_base g, mg_size g)) (sm_regions s)\<rparr>)"

section \<open>The scheme\<close>

text \<open>\<open>entry.remove_entry()\<close>, which also drops the object's mapping.\<close>

definition remove_entry :: "string \<Rightarrow> shm \<Rightarrow> shm" where
  "remove_entry path s = (let s' = s\<lparr>sm_maps := (sm_maps s)(path := None)\<rparr> in
     case sm_maps s path of
       Some h \<Rightarrow> (case sh_buffer h of Some g \<Rightarrow> guard_drop g s' | None \<Rightarrow> s')
     | None \<Rightarrow> s')"

definition shm_open ::
  "shm_env \<Rightarrow> string \<Rightarrow> u64 \<Rightarrow> caller_ctx \<Rightarrow> shm \<Rightarrow> shm \<times> open_result outcome" where
  "shm_open E path flags ctx s = (let K = se_abi E; i = sm_next_id s in
     if path = [] then
       question s (usize_add i 1) (\<lambda>n.
       (s\<lparr>sm_next_id := n, sm_handles := (sm_handles s)(i \<mapsto> SchemeRoot)\<rparr>, Ok (ThisScheme i 0)))
     else
       question s (case sm_maps s path of
           Some e \<Rightarrow> if flags AND O_EXCL K \<noteq> 0 \<and> flags AND O_CREAT K \<noteq> 0 then Err EEXIST else Ok e
         | None \<Rightarrow> if flags AND O_CREAT K = 0 then Err ENOENT else Ok shm_handle_default) (\<lambda>e.
       question (s\<lparr>sm_maps := (sm_maps s)(path \<mapsto> e)\<rparr>) (usize_add (sh_refs e) 1) (\<lambda>refs.
       let s1 = s\<lparr>sm_maps := (sm_maps s)(path \<mapsto> e\<lparr>sh_refs := refs\<rparr>),
                  sm_handles := (sm_handles s)(i \<mapsto> Shm path)\<rparr> in
       question s1 (usize_add i 1) (\<lambda>n.
       (s1\<lparr>sm_next_id := n\<rparr>, Ok (ThisScheme i (POSITIONED K)))))))"

definition shm_fpath :: "nat \<Rightarrow> u8 list \<Rightarrow> caller_ctx \<Rightarrow> shm \<Rightarrow> (shm \<times> u8 list) \<times> nat outcome" where
  "shm_fpath i buf ctx s = (let
       PREFIX = bytes_of ''/scheme/shm/'';
       len = min (length PREFIX) (length buf);
       buf1 = copy_into buf 0 (take len PREFIX) in
     if len < length PREFIX then ((s, buf1), Ok len)
     else
       question (s, buf1) (ok_or EBADF (shm_path i s)) (\<lambda>path.
       let len2 = min (length path) (length buf - length PREFIX) in
       ((s, copy_into buf1 (length PREFIX) (take len2 (bytes_of path))), Ok (length PREFIX + len2))))"

definition shm_on_close :: "nat \<Rightarrow> shm \<Rightarrow> shm \<times> unit outcome" where
  "shm_on_close i s =
     question s (unwrap (sm_handles s i)) (\<lambda>h.
     let s1 = s\<lparr>sm_handles := (sm_handles s)(i := None)\<rparr> in
     case h of
       SchemeRoot \<Rightarrow> (s1, Ok ())
     | Shm path \<Rightarrow>
         question s1 (unwrap (sm_maps s1 path)) (\<lambda>e.
         question s1 (usize_sub (sh_refs e) 1) (\<lambda>refs.
         let s2 = s1\<lparr>sm_maps := (sm_maps s1)(path \<mapsto> e\<lparr>sh_refs := refs\<rparr>)\<rparr> in
         (if refs = 0 \<and> sh_unlinked e then remove_entry path s2 else s2, Ok ()))))"

definition shm_unlinkat ::
  "nat \<Rightarrow> string \<Rightarrow> u64 \<Rightarrow> caller_ctx \<Rightarrow> shm \<Rightarrow> shm \<times> unit outcome" where
  "shm_unlinkat dirfd path flags ctx s =
     question s (ok_or EBADF (sm_handles s dirfd)) (\<lambda>handle.
     if handle \<noteq> SchemeRoot then (s, Err EACCES)
     else if flags AND 0x200 = 0x200 then (s, Err ENOTDIR)
     else
       question s (ok_or ENOENT (sm_maps s path)) (\<lambda>e.
       let s1 = s\<lparr>sm_maps := (sm_maps s)(path \<mapsto> e\<lparr>sh_unlinked := True\<rparr>)\<rparr> in
       (if sh_refs e = 0 then remove_entry path s1 else s1, Ok ())))"

definition shm_fstat ::
  "shm_env \<Rightarrow> nat \<Rightarrow> stat \<Rightarrow> caller_ctx \<Rightarrow> shm \<Rightarrow> (shm \<times> stat) \<times> unit outcome" where
  "shm_fstat E i stat ctx s =
     question (s, stat) (ok_or EBADF (shm_path i s)) (\<lambda>path.
     question (s, stat) (unwrap (sm_maps s path)) (\<lambda>e.
     let sz = (case sh_buffer e of Some g \<Rightarrow> guard_len g | None \<Rightarrow> 0) in
     ((s, default_stat\<lparr>st_mode := MODE_FILE (se_abi E), st_size := sz\<rparr>), Ok ())))"

text \<open>\<open>*buf = Some(MmapGuard::alloc(len)?)\<close>.\<close>

definition alloc_buffer :: "shm_env \<Rightarrow> string \<Rightarrow> shm_handle \<Rightarrow> nat \<Rightarrow> shm \<Rightarrow> shm \<times> mmap_guard outcome" where
  "alloc_buffer E path e len s =
     then_do (guard_alloc E len s) (\<lambda>s1 g.
     (s1\<lparr>sm_maps := (sm_maps s1)(path \<mapsto> e\<lparr>sh_buffer := Some g\<rparr>)\<rparr>, Ok g))"

definition shm_ftruncate ::
  "shm_env \<Rightarrow> nat \<Rightarrow> nat \<Rightarrow> caller_ctx \<Rightarrow> shm \<Rightarrow> shm \<times> unit outcome" where
  "shm_ftruncate E i len ctx s =
     question s (ok_or EBADF (shm_path i s)) (\<lambda>path.
     question s (unwrap (sm_maps s path)) (\<lambda>e.
     case sh_buffer e of
       Some _ \<Rightarrow> (s, Err EIO)
     | None \<Rightarrow> then_do (alloc_buffer E path e len s) (\<lambda>s1 _. (s1, Ok ()))))"

definition shm_mmap_prep ::
  "shm_env \<Rightarrow> nat \<Rightarrow> nat \<Rightarrow> nat \<Rightarrow> u64 \<Rightarrow> caller_ctx \<Rightarrow> shm \<Rightarrow> shm \<times> nat outcome" where
  "shm_mmap_prep E i offset sz flags ctx s =
     question s (ok_or EBADF (shm_path i s)) (\<lambda>path.
     question s (usize_add offset sz) (\<lambda>total_size.
     question s (unwrap (sm_maps s path)) (\<lambda>e.
     case sh_buffer e of
       Some g \<Rightarrow>
         if total_size > guard_len g then (s, Err ERANGE)
         else question s (usize_add (mg_base g) offset) (\<lambda>p. (s, Ok p))
     | None \<Rightarrow>
         then_do (alloc_buffer E path e sz s) (\<lambda>s1 g.
         question s1 (usize_add (mg_base g) offset) (\<lambda>p. (s1, Ok p))))))"

definition shm_read ::
  "nat \<Rightarrow> u8 list \<Rightarrow> nat \<Rightarrow> u32 \<Rightarrow> caller_ctx \<Rightarrow> shm \<Rightarrow> (shm \<times> u8 list) \<times> nat outcome" where
  "shm_read i buf offset fcntl_flags ctx s =
     question (s, buf) (ok_or EBADF (shm_path i s)) (\<lambda>path.
     question (s, buf) (unwrap (sm_maps s path)) (\<lambda>e.
     case sh_buffer e of
       Some g \<Rightarrow> (let (buf', r) = guard_read g offset buf s in ((s, buf'), r))
     | None \<Rightarrow> ((s, buf), Err ERANGE)))"

definition shm_write ::
  "nat \<Rightarrow> u8 list \<Rightarrow> nat \<Rightarrow> u32 \<Rightarrow> caller_ctx \<Rightarrow> shm \<Rightarrow> shm \<times> nat outcome" where
  "shm_write i buf offset fcntl_flags ctx s =
     question s (ok_or EBADF (shm_path i s)) (\<lambda>path.
     question s (unwrap (sm_maps s path)) (\<lambda>e.
     case sh_buffer e of
       Some g \<Rightarrow> guard_write g offset buf s
     | None \<Rightarrow> (s, Err ERANGE)))"

definition shm_scheme :: "shm_env \<Rightarrow> shm scheme_sync" where
  "shm_scheme E = default_scheme\<lparr>sc_open := shm_open E, sc_fpath := shm_fpath,
     sc_on_close := shm_on_close, sc_unlinkat := shm_unlinkat, sc_fstat := shm_fstat E,
     sc_ftruncate := shm_ftruncate E, sc_mmap_prep := shm_mmap_prep E, sc_read := shm_read,
     sc_write := shm_write\<rparr>"

end
