(* ===== verification/Shm_Proofs.thy ===== *)
theory Shm_Proofs
  imports Shm
begin

text \<open>
  The invariant of the shared memory scheme (reference counts are the numbers of open handles,
  objects occupy disjoint ranges of mapped memory) and that every method keeps it, under the
  documented behaviour of the kernel's memory map.
\<close>

section \<open>The kernel's memory map\<close>

text \<open>
  The documented behaviour of \<open>fmap\<close> without a fixed address: it returns a range inside the address
  space that overlaps no range in use.
\<close>

definition apart :: "nat \<times> nat \<Rightarrow> nat \<times> nat \<Rightarrow> bool" where
  "apart r r' \<longleftrightarrow> fst r + snd r \<le> fst r' \<or> fst r' + snd r' \<le> fst r"

definition fmap_ok :: "shm_env \<Rightarrow> bool" where
  "fmap_ok E \<longleftrightarrow> (\<forall>rs n b. se_fmap E rs n = Ok b \<longrightarrow>
     b + n \<le> usize_range \<and> (\<forall>r \<in> set rs. apart (b, n) r))"

text \<open>A kernel that places a new range after all others.\<close>

definition sample_fmap :: "(nat \<times> nat) list \<Rightarrow> nat \<Rightarrow> nat outcome" where
  "sample_fmap rs n = (let b = fold (\<lambda>r m. max m (fst r + snd r)) rs 4096 in
     if b + n \<le> usize_range then Ok b else Err ENOMEM)"

definition sample_shm_env :: shm_env where
  "sample_shm_env = \<lparr>se_abi = sample_abi, se_fmap = sample_fmap\<rparr>"

lemma fold_max_ge: "m \<le> fold (\<lambda>r m. max m (f r)) rs (m :: nat)"
  "r \<in> set rs \<Longrightarrow> f r \<le> fold (\<lambda>r m. max m (f r)) rs m"
proof (induction rs arbitrary: m)
  case (Cons a rs)
  { case 1 show ?case using Cons(1) [of "max m (f a)"] by simp }
  { case 2 show ?case using Cons(1,2) [of "max m (f a)"] 2 by auto }
qed simp_all

lemma sample_fmap_ok: "fmap_ok sample_shm_env"
  using fold_max_ge(2) [of _ _ "\<lambda>r. fst r + snd r" 4096]
  by (auto simp: fmap_ok_def sample_shm_env_def sample_fmap_def apart_def Let_def split: if_splits)

section \<open>The invariant\<close>

definition shm_ids :: "shm \<Rightarrow> string \<Rightarrow> nat set" where
  "shm_ids s p = {i. sm_handles s i = Some (Shm p)}"

definition count_ok :: "shm \<Rightarrow> string \<Rightarrow> bool" where
  "count_ok s p = (case sm_maps s p of
       None \<Rightarrow> shm_ids s p = {}
     | Some h \<Rightarrow> sh_refs h = card (shm_ids s p) \<and> (sh_unlinked h \<longrightarrow> shm_ids s p \<noteq> {}))"

definition guard_of :: "shm \<Rightarrow> string \<Rightarrow> mmap_guard option" where
  "guard_of s p = (case sm_maps s p of None \<Rightarrow> None | Some h \<Rightarrow> sh_buffer h)"

definition extent :: "mmap_guard \<Rightarrow> nat \<times> nat" where
  "extent g = (mg_base g, mg_size g)"

definition guard_ok :: "shm \<Rightarrow> string \<Rightarrow> mmap_guard \<Rightarrow> bool" where
  "guard_ok s p g \<longleftrightarrow> extent g \<in> set (sm_regions s) \<and> mg_len g \<le> mg_size g \<and>
     mg_base g + mg_size g \<le> usize_range \<and>
     (\<forall>q g'. q \<noteq> p \<longrightarrow> guard_of s q = Some g' \<longrightarrow> apart (extent g) (extent g'))"

definition shm_inv :: "shm \<Rightarrow> bool" where
  "shm_inv s \<longleftrightarrow> (\<forall>i \<ge> sm_next_id s. sm_handles s i = None) \<and> (\<forall>p. count_ok s p) \<and>
     (\<forall>p g. guard_of s p = Some g \<longrightarrow> guard_ok s p g)"

definition shm_ok :: "shm_env \<Rightarrow> shm \<Rightarrow> bool" where
  "shm_ok E s \<longleftrightarrow> abi_ok (se_abi E) \<and> fmap_ok E \<and> shm_inv s"

lemma count_ok_cong:
  "count_ok s p \<Longrightarrow> shm_ids s' p = shm_ids s p \<Longrightarrow> sm_maps s' p = sm_maps s p \<Longrightarrow> count_ok s' p"
  by (simp add: count_ok_def split: option.splits)

lemma shm_ids_close:
  assumes "sm_handles s i = Some h"
  shows "shm_ids (s\<lparr>sm_handles := (sm_handles s)(i := None)\<rparr>) p = (if h = Shm p then shm_ids s p - {i} else shm_ids s p)"
  using assms by (auto simp: shm_ids_def)

lemma shm_ids_maps: "shm_ids (s\<lparr>sm_maps := m\<rparr>) p = shm_ids s p"
  by (simp add: shm_ids_def)

lemma shm_ids_finite: "shm_inv s \<Longrightarrow> finite (shm_ids s p)"
  by (rule finite_subset [of _ "{..<sm_next_id s}"]) (auto simp: shm_ids_def shm_inv_def not_le [symmetric])

lemma next_not_in_ids: "shm_inv s \<Longrightarrow> sm_next_id s \<notin> shm_ids s p"
  by (simp add: shm_ids_def shm_inv_def)

lemma shm_inv_facts:
  assumes "shm_inv s"
  shows shm_inv_count: "count_ok s p" and shm_inv_guard: "guard_of s p = Some g \<Longrightarrow> guard_ok s p g"
    and shm_inv_fresh: "sm_next_id s \<le> i \<Longrightarrow> sm_handles s i = None"
  using assms by (simp_all add: shm_inv_def)

text \<open>A handle on an object has an entry for it.\<close>

lemma handle_entry:
  assumes "shm_inv s" "sm_handles s i = Some (Shm p)"
  obtains h where "sm_maps s p = Some h" "1 \<le> sh_refs h"
proof -
  have "i \<in> shm_ids s p" using assms(2) by (simp add: shm_ids_def)
  with shm_inv_count [OF assms(1), of p] shm_ids_finite [OF assms(1), of p] that show thesis
    by (cases "sm_maps s p") (auto simp: count_ok_def Suc_le_eq card_gt_0_iff)
qed

section \<open>Every method keeps the invariant\<close>

lemma guard_ok_frame:
  assumes "guard_ok s p g" "sm_regions s' = sm_regions s" "\<And>q. guard_of s' q = guard_of s q \<or> guard_of s' q = None"
  shows "guard_ok s' p g"
  unfolding guard_ok_def
proof (intro conjI allI impI)
  fix q g'
  assume "q \<noteq> p" "guard_of s' q = Some g'"
  then have "guard_of s q = Some g'" using assms(3) [of q] by auto
  then show "apart (extent g) (extent g')" using assms(1) \<open>q \<noteq> p\<close> by (simp add: guard_ok_def)
qed (use assms(1,2) in \<open>simp_all add: guard_ok_def\<close>)

lemma shm_invI:
  assumes "shm_inv s" "\<And>i. sm_next_id s' \<le> i \<Longrightarrow> sm_handles s' i = None" "\<And>p. count_ok s' p"
    and "sm_regions s' = sm_regions s" "\<And>q. guard_of s' q = guard_of s q \<or> guard_of s' q = None"
  shows "shm_inv s'"
proof -
  have "guard_ok s' p g" if "guard_of s' p = Some g" for p g
    using that assms(5) [of p] guard_ok_frame [OF shm_inv_guard [OF assms(1)] assms(4,5)] by auto
  then show ?thesis using assms(2,3) by (simp add: shm_inv_def)
qed

lemma guard_of_upd [simp]:
  "guard_of (s\<lparr>sm_handles := hs\<rparr>) q = guard_of s q" "guard_of (s\<lparr>sm_next_id := n\<rparr>) q = guard_of s q"
  "guard_of (s\<lparr>sm_memory := mem\<rparr>) q = guard_of s q" "guard_of (s\<lparr>sm_regions := rs\<rparr>) q = guard_of s q"
  "guard_of (s\<lparr>sm_maps := (sm_maps s)(p \<mapsto> e)\<rparr>) q = (if q = p then sh_buffer e else guard_of s q)"
  "guard_of (s\<lparr>sm_maps := (sm_maps s)(p := None)\<rparr>) q = (if q = p then None else guard_of s q)"
  by (simp_all add: guard_of_def)

lemma shm_open_keeps: "keeps (shm_ok E) (shm_open E path flags ctx)"
proof (rule keepsI)
  fix s s' r
  assume ok: "shm_ok E s" and run: "shm_open E path flags ctx s = (s', r)" and "r \<noteq> Panic"
  have inv: "shm_inv s" using ok by (simp add: shm_ok_def)
  let ?i = "sm_next_id s"
  have fresh: "?i \<notin> shm_ids s p" for p using next_not_in_ids [OF inv] .
  have "shm_inv s'"
  proof (cases "path = []")
    case True
    then have s': "s' = s\<lparr>sm_next_id := ?i + 1, sm_handles := (sm_handles s)(?i \<mapsto> SchemeRoot)\<rparr>"
      using run \<open>r \<noteq> Panic\<close> by (auto simp: shm_open_def Let_def split: question_splits)
    show ?thesis unfolding s'
    proof (rule shm_invI [OF inv])
      fix p
      have "shm_ids (s\<lparr>sm_next_id := ?i + 1, sm_handles := (sm_handles s)(?i \<mapsto> SchemeRoot)\<rparr>) p = shm_ids s p"
        using fresh [of p] by (auto simp: shm_ids_def)
      then show "count_ok (s\<lparr>sm_next_id := ?i + 1, sm_handles := (sm_handles s)(?i \<mapsto> SchemeRoot)\<rparr>) p"
        by (intro count_ok_cong [OF shm_inv_count [OF inv, of p]]) simp_all
    qed (simp_all add: guard_of_def shm_inv_fresh [OF inv])
  next
    case False
    show ?thesis
    proof (cases "s' = s")
      case False
      obtain e where e: "sm_maps s path = Some e \<or> sm_maps s path = None \<and> e = shm_handle_default"
        and s': "s' = s\<lparr>sm_maps := (sm_maps s)(path \<mapsto> e\<lparr>sh_refs := sh_refs e + 1\<rparr>),
          sm_handles := (sm_handles s)(?i \<mapsto> Shm path), sm_next_id := ?i + 1\<rparr>" (is "s' = ?s'")
        using run \<open>r \<noteq> Panic\<close> \<open>path \<noteq> []\<close> False
        by (auto simp: shm_open_def Let_def split: question_splits option.splits if_splits)
      have ids': "shm_ids ?s' p = (if p = path then insert ?i (shm_ids s p) else shm_ids s p)" for p
        using fresh [of p] by (auto simp: shm_ids_def)
      have refs: "sh_refs e = card (shm_ids s path)"
        using shm_inv_count [OF inv, of path] e
        by (cases "sm_maps s path") (auto simp: count_ok_def shm_handle_default_def)
      show ?thesis unfolding s'
      proof (rule shm_invI [OF inv])
        fix p
        show "count_ok ?s' p"
        proof (cases "p = path")
          case True
          have "card (insert ?i (shm_ids s path)) = card (shm_ids s path) + 1"
            using fresh [of path] shm_ids_finite [OF inv, of path] by simp
          then show ?thesis unfolding count_ok_def ids' using True refs by simp
        next
          case False
          with ids' [of p] show ?thesis by (intro count_ok_cong [OF shm_inv_count [OF inv, of p]]) simp_all
        qed
      next
        fix q
        show "guard_of ?s' q = guard_of s q \<or> guard_of ?s' q = None"
          using e by (auto simp: guard_of_def shm_handle_default_def)
      qed (simp_all add: shm_inv_fresh [OF inv])
    qed (use inv in simp)
  qed
  then show "shm_ok E s'" using ok by (simp add: shm_ok_def)
qed

lemma drop_frame:
  "sm_maps (guard_drop g s) = sm_maps s" "sm_handles (guard_drop g s) = sm_handles s"
  "sm_next_id (guard_drop g s) = sm_next_id s" "sm_memory (guard_drop g s) = sm_memory s"
  by (simp_all add: guard_drop_def)

lemma remove_entry_frame:
  "sm_maps (remove_entry p s) = (sm_maps s)(p := None)" "sm_handles (remove_entry p s) = sm_handles s"
  "sm_next_id (remove_entry p s) = sm_next_id s" "sm_memory (remove_entry p s) = sm_memory s"
  by (simp_all add: remove_entry_def Let_def drop_frame split: option.splits)

text \<open>An entry without handles can be removed.\<close>

lemma remove_entry_inv:
  assumes fresh: "\<And>i. sm_next_id s \<le> i \<Longrightarrow> sm_handles s i = None"
    and count: "\<And>q. q \<noteq> p \<Longrightarrow> count_ok s q" "shm_ids s p = {}"
    and guard: "\<And>q g. guard_of s q = Some g \<Longrightarrow> guard_ok s q g"
  shows "shm_inv (remove_entry p s)"
proof -
  have ids': "shm_ids (remove_entry p s) q = shm_ids s q" for q by (simp add: shm_ids_def remove_entry_frame)
  have gs: "guard_of (remove_entry p s) q = (if q = p then None else guard_of s q)" for q
    by (simp add: guard_of_def remove_entry_frame)
  have "guard_ok (remove_entry p s) q g" if q: "q \<noteq> p" "guard_of s q = Some g" for q g
  proof -
    have ok: "guard_ok s q g" using guard q(2) by blast
    have "extent g \<in> set (sm_regions (remove_entry p s))"
    proof (cases "guard_of s p")
      case None
      then have "sm_regions (remove_entry p s) = sm_regions s"
        by (auto simp: remove_entry_def guard_of_def Let_def split: option.splits)
      then show ?thesis using ok by (simp add: guard_ok_def)
    next
      case (Some g0)
      then have "sm_regions (remove_entry p s) =
          (if mg_size g0 = 0 then sm_regions s else filter (\<lambda>r. r \<noteq> extent g0) (sm_regions s))"
        by (auto simp: remove_entry_def guard_of_def Let_def guard_drop_def extent_def split: option.splits)
      moreover have "apart (extent g) (extent g0)" using ok q(1) Some by (auto simp: guard_ok_def)
      ultimately show ?thesis using ok by (auto simp: guard_ok_def apart_def extent_def)
    qed
    with ok show ?thesis by (auto simp: guard_ok_def gs split: if_splits)
  qed
  then have "guard_ok (remove_entry p s) q g" if "guard_of (remove_entry p s) q = Some g" for q g
    using that by (auto simp: gs split: if_splits)
  moreover have "count_ok (remove_entry p s) q" for q
  proof (cases "q = p")
    case True
    then show ?thesis using count(2) by (simp add: count_ok_def ids' remove_entry_frame)
  next
    case False
    then show ?thesis by (intro count_ok_cong [OF count(1)]) (simp_all add: ids' remove_entry_frame)
  qed
  moreover have "sm_handles (remove_entry p s) i = None" if "sm_next_id (remove_entry p s) \<le> i" for i
    using that fresh by (simp add: remove_entry_frame)
  ultimately show ?thesis unfolding shm_inv_def by blast
qed

lemma shm_on_close_keeps: "keeps (shm_ok E) (shm_on_close i)"
proof (rule keepsI)
  fix s s' r
  assume ok: "shm_ok E s" and run: "shm_on_close i s = (s', r)" and "r \<noteq> Panic"
  have inv: "shm_inv s" using ok by (simp add: shm_ok_def)
  let ?s1 = "s\<lparr>sm_handles := (sm_handles s)(i := None)\<rparr>"
  obtain h where h: "sm_handles s i = Some h"
    using run \<open>r \<noteq> Panic\<close> by (cases "sm_handles s i") (auto simp: shm_on_close_def)
  have "shm_inv s'"
  proof (cases h)
    case SchemeRoot
    then have s': "s' = ?s1" using run h by (simp add: shm_on_close_def Let_def)
    have "count_ok ?s1 p" for p
      using h SchemeRoot by (intro count_ok_cong [OF shm_inv_count [OF inv, of p]]) (simp_all add: shm_ids_close)
    then show ?thesis unfolding s' by (intro shm_invI [OF inv]) (simp_all add: shm_inv_fresh [OF inv])
  next
    case (Shm path)
    obtain e where e: "sm_maps s path = Some e" "1 \<le> sh_refs e" using handle_entry [OF inv] h Shm by blast
    let ?s2 = "?s1\<lparr>sm_maps := (sm_maps ?s1)(path \<mapsto> e\<lparr>sh_refs := sh_refs e - 1\<rparr>)\<rparr>"
    have s': "s' = (if sh_refs e - 1 = 0 \<and> sh_unlinked e then remove_entry path ?s2 else ?s2)"
      using run h Shm e by (auto simp: shm_on_close_def Let_def usize_sub_def)
    have ids': "shm_ids ?s2 p = (if p = path then shm_ids s p - {i} else shm_ids s p)" for p
      using h Shm by (simp add: shm_ids_close shm_ids_maps)
    have mem: "i \<in> shm_ids s path" using h Shm by (simp add: shm_ids_def)
    have refs: "sh_refs e = card (shm_ids s path)"
      using shm_inv_count [OF inv, of path] e by (simp add: count_ok_def)
    have card: "card (shm_ids ?s2 path) = sh_refs e - 1" unfolding ids' using refs mem by simp
    have fresh: "sm_next_id ?s2 \<le> k \<Longrightarrow> sm_handles ?s2 k = None" for k using shm_inv_fresh [OF inv] by simp
    have other: "count_ok ?s2 q" if "q \<noteq> path" for q
      using that ids' [of q] by (intro count_ok_cong [OF shm_inv_count [OF inv, of q]]) simp_all
    have gs: "guard_of ?s2 q = guard_of s q" for q using e by (simp add: guard_of_def)
    show ?thesis
    proof (cases "sh_refs e - 1 = 0 \<and> sh_unlinked e")
      case True
      have "shm_ids ?s2 path = {}"
        using card True shm_ids_finite [OF inv, of path] ids' [of path] by (metis card_0_eq finite_Diff)
      moreover have "guard_ok ?s2 q g" if "guard_of ?s2 q = Some g" for q g
      proof (rule guard_ok_frame [OF shm_inv_guard [OF inv]])
        show "guard_of s q = Some g" using that gs by metis
      qed (use gs in simp_all)
      ultimately have "shm_inv (remove_entry path ?s2)" by (intro remove_entry_inv [OF fresh other])
      moreover have "s' = remove_entry path ?s2" unfolding s' if_P [OF True] by (rule refl)
      ultimately show ?thesis by simp
    next
      case False
      have "count_ok ?s2 path"
        using card False shm_inv_count [OF inv, of path] e(1) by (auto simp: count_ok_def)
      then have "count_ok ?s2 q" for q using other by (cases "q = path") auto
      moreover have "s' = ?s2" unfolding s' if_not_P [OF False] by (rule refl)
      ultimately show ?thesis using fresh gs by (intro shm_invI [OF inv]) simp_all
    qed
  qed
  then show "shm_ok E s'" using ok by (simp add: shm_ok_def)
qed

lemma shm_unlinkat_keeps: "keeps (shm_ok E) (shm_unlinkat d path flags ctx)"
proof (rule keepsI)
  fix s s' r
  assume ok: "shm_ok E s" and run: "shm_unlinkat d path flags ctx s = (s', r)"
  have inv: "shm_inv s" using ok by (simp add: shm_ok_def)
  have "shm_inv s'"
  proof (cases "s' = s")
    case False
    then obtain e where e: "sm_maps s path = Some e"
      using run by (auto simp: shm_unlinkat_def split: question_splits if_splits)
    let ?s1 = "s\<lparr>sm_maps := (sm_maps s)(path \<mapsto> e\<lparr>sh_unlinked := True\<rparr>)\<rparr>"
    have s': "s' = (if sh_refs e = 0 then remove_entry path ?s1 else ?s1)"
      using run e False by (auto simp: shm_unlinkat_def Let_def split: question_splits if_splits)
    have count: "sh_refs e = card (shm_ids s path)"
      using shm_inv_count [OF inv, of path] e by (simp add: count_ok_def)
    have other: "count_ok ?s1 q" if "q \<noteq> path" for q
      using that by (intro count_ok_cong [OF shm_inv_count [OF inv, of q]]) (simp_all add: shm_ids_maps)
    have gs: "guard_of ?s1 q = guard_of s q" for q using e by (simp add: guard_of_def)
    show ?thesis
    proof (cases "sh_refs e = 0")
      case True
      have "shm_inv (remove_entry path ?s1)"
      proof (rule remove_entry_inv [OF _ other])
        show "shm_ids ?s1 path = {}"
          using True count shm_ids_finite [OF inv, of path] by (simp add: shm_ids_maps)
      next
        fix q g
        assume "guard_of ?s1 q = Some g"
        then show "guard_ok ?s1 q g"
          by (intro guard_ok_frame [OF shm_inv_guard [OF inv]]) (use gs in simp_all)
      qed (use shm_inv_fresh [OF inv] in simp_all)
      then show ?thesis using s' True by simp
    next
      case False
      then have "shm_ids s path \<noteq> {}" using count by auto
      then have "count_ok ?s1 path" using count by (simp add: count_ok_def shm_ids_maps)
      then have "count_ok ?s1 q" for q using other by (cases "q = path") auto
      then have "shm_inv ?s1" using gs by (intro shm_invI [OF inv]) (use shm_inv_fresh [OF inv] in simp_all)
      then show ?thesis using s' False by simp
    qed
  qed (use inv in simp)
  then show "shm_ok E s'" using ok by (simp add: shm_ok_def)
qed

text \<open>A new object gets a range that holds its bytes and overlaps no other object.\<close>

lemma page_rounding:
  assumes "0 < (P :: nat)"
  shows "len \<le> (len + P - 1) div P * P"
  using div_mult_mod_eq [of "len + P - 1" P] mod_less_divisor [OF assms, of "len + P - 1"] by linarith

lemma alloc_buffer_cases:
  assumes "abi_ok (se_abi E)" "alloc_buffer E path e len s = (s', r)"
  obtains (failed) "s' = s" "\<not> is_ok r"
  | (mapped) g where "r = Ok g" "mg_len g = len" "len \<le> mg_size g" "se_fmap E (sm_regions s) (mg_size g) = Ok (mg_base g)"
      "s' = s\<lparr>sm_memory := store (mg_base g) (replicate (mg_size g) 0) (sm_memory s),
        sm_regions := extent g # sm_regions s, sm_maps := (sm_maps s)(path \<mapsto> e\<lparr>sh_buffer := Some g\<rparr>)\<rparr>"
proof -
  let ?P = "PAGE_SIZE (se_abi E)"
  have P: "0 < ?P" using assms(1) by (simp add: abi_ok_def)
  show thesis
  proof (cases r)
    case (Ok g)
    then show thesis using assms(2) page_rounding [OF P, of len] unfolding alloc_buffer_def guard_alloc_def Let_def
      by (auto intro!: mapped simp: usize_mul_def extent_def split: question_splits if_splits)
  qed (use assms(2) in \<open>auto intro!: failed simp: alloc_buffer_def guard_alloc_def Let_def split: question_splits\<close>)
qed

lemma alloc_buffer_keeps:
  assumes ok: "shm_ok E s" and e: "sm_maps s path = Some e" "sh_buffer e = None"
    and run: "alloc_buffer E path e len s = (s', r)"
  shows "shm_ok E s'"
proof -
  have inv: "shm_inv s" and abi: "abi_ok (se_abi E)" and map: "fmap_ok E" using ok by (simp_all add: shm_ok_def)
  from abi run show ?thesis
  proof (cases rule: alloc_buffer_cases)
    case failed
    then show ?thesis using ok by simp
  next
    case (mapped g)
    have range: "mg_base g + mg_size g \<le> usize_range" "x \<in> set (sm_regions s) \<Longrightarrow> apart (extent g) x" for x
      using map mapped(4) by (auto simp: fmap_ok_def extent_def)
    have regions: "sm_regions s' = extent g # sm_regions s" by (simp add: mapped(5))
    have gs: "guard_of s' q = (if q = path then Some g else guard_of s q)" for q
      by (simp add: mapped(5) guard_of_def)
    have "guard_ok s' q h" if q: "guard_of s' q = Some h" for q h
    proof (cases "q = path")
      case True
      have "apart (extent g) (extent k)" if "q' \<noteq> path" "guard_of s q' = Some k" for q' k
        using shm_inv_guard [OF inv that(2)] by (intro range(2)) (simp add: guard_ok_def)
      then show ?thesis using q True range(1) mapped(2,3) by (auto simp: guard_ok_def gs regions)
    next
      case False
      then have h: "guard_ok s q h" using q gs shm_inv_guard [OF inv] by simp
      then have "apart (extent h) (extent g)" using range(2) [of "extent h"] by (auto simp: guard_ok_def apart_def)
      then show ?thesis using h False by (auto simp: guard_ok_def gs regions)
    qed
    moreover have "count_ok s' q" for q
    proof (cases "q = path")
      case True
      then show ?thesis using shm_inv_count [OF inv, of path] e by (simp add: mapped(5) count_ok_def shm_ids_def)
    next
      case False
      then show ?thesis by (intro count_ok_cong [OF shm_inv_count [OF inv, of q]]) (simp_all add: mapped(5) shm_ids_def)
    qed
    ultimately have "shm_inv s'" using shm_inv_fresh [OF inv] by (simp add: shm_inv_def mapped(5))
    then show ?thesis using ok by (simp add: shm_ok_def)
  qed
qed

lemma shm_ftruncate_keeps: "keeps (shm_ok E) (shm_ftruncate E i len ctx)"
proof (rule keepsI)
  fix s s' r
  assume ok: "shm_ok E s" and run: "shm_ftruncate E i len ctx s = (s', r)"
  show "shm_ok E s'"
  proof (cases "s' = s")
    case False
    then obtain path e r' where "sm_maps s path = Some e" "sh_buffer e = None" "alloc_buffer E path e len s = (s', r')"
      using run by (auto simp: shm_ftruncate_def then_do_def split: question_splits option.splits prod.splits outcome.splits)
    then show ?thesis by (rule alloc_buffer_keeps [OF ok])
  qed (use ok in simp)
qed

lemma shm_mmap_prep_keeps: "keeps (shm_ok E) (shm_mmap_prep E i offset sz flags ctx)"
proof (rule keepsI)
  fix s s' r
  assume ok: "shm_ok E s" and run: "shm_mmap_prep E i offset sz flags ctx s = (s', r)"
  show "shm_ok E s'"
  proof (cases "s' = s")
    case False
    then obtain path e r' where "sm_maps s path = Some e" "sh_buffer e = None" "alloc_buffer E path e sz s = (s', r')"
      using run by (auto simp: shm_mmap_prep_def then_do_def
          split: question_splits option.splits prod.splits outcome.splits if_splits)
    then show ?thesis by (rule alloc_buffer_keeps [OF ok])
  qed (use ok in simp)
qed

text \<open>Contents of memory are no part of the invariant.\<close>

lemma shm_ok_memory: "shm_ok E (s\<lparr>sm_memory := mem\<rparr>) \<longleftrightarrow> shm_ok E s"
proof -
  have "count_ok (s\<lparr>sm_memory := mem\<rparr>) p = count_ok s p" for p
    by (simp add: count_ok_def shm_ids_def split: option.splits)
  then show ?thesis by (simp add: shm_ok_def shm_inv_def guard_ok_def)
qed

lemma shm_write_keeps: "keeps (shm_ok E) (shm_write i buf offset flags ctx)"
proof (rule keepsI)
  fix s s' r
  assume ok: "shm_ok E s" and run: "shm_write i buf offset flags ctx s = (s', r)"
  obtain mem where "s' = s\<lparr>sm_memory := mem\<rparr>"
    using run by (auto simp: shm_write_def guard_write_def split: question_splits option.splits if_splits)
      (metis shm.surjective shm.update_convs(4))+
  then show "shm_ok E s'" using ok by (simp add: shm_ok_memory)
qed

lemma shm_query_keeps:
  "keeps_with I (shm_fpath i buf ctx)" "keeps_with I (shm_fstat E i st ctx)" "keeps_with I (shm_read i buf offset flags ctx)"
  by (auto simp: keeps_with_def shm_fpath_def shm_fstat_def shm_read_def Let_def
      split: question_splits option.splits prod.splits if_splits)

interpretation shm: scheme_methods "shm_scheme E" "shm_ok E" for E
  by unfold_locales
    (simp_all add: shm_scheme_def default_scheme_def shm_open_keeps shm_on_close_keeps shm_unlinkat_keeps
      shm_ftruncate_keeps shm_mmap_prep_keeps shm_write_keeps shm_query_keeps)

end
