(* ===== verification/Shm_Properties.thy ===== *)
theory Shm_Properties
  imports Shm_Proofs
begin

text \<open>
  Correctness of the shared memory scheme on its runs: reference counts, the absence of handles that
  point to nothing, isolation of the objects, and that what one handle writes another handle on the
  same object reads. The last property shows a defect of the mapping of a fresh object.
\<close>

section \<open>Runs\<close>

text \<open>
  A run interleaves calls, closing of handles, and stores of client programs into the ranges they
  have mapped, which change the contents of mapped memory and nothing else.
\<close>

inductive shm_run :: "shm_env \<Rightarrow> shm \<Rightarrow> bool" for E where
  shm_start: "shm_run E shm_new"
| shm_call: "shm_run E s \<Longrightarrow>
    handle_sync_dont_consume (se_abi E) (shm_scheme E) ctx oper s = ((s', oper'), r) \<Longrightarrow> \<not> panicked r \<Longrightarrow>
    shm_run E s'"
| shm_close: "shm_run E s \<Longrightarrow> shm_on_close i s = (s', Ok u) \<Longrightarrow> shm_run E s'"
| shm_client: "shm_run E s \<Longrightarrow> r \<in> set (sm_regions s) \<Longrightarrow> fst r \<le> a \<Longrightarrow> a + length bytes \<le> fst r + snd r \<Longrightarrow>
    shm_run E (s\<lparr>sm_memory := store a bytes (sm_memory s)\<rparr>)"

lemma shm_new_inv: "shm_inv shm_new"
  by (simp add: shm_inv_def shm_new_def count_ok_def guard_of_def shm_ids_def)

lemma shm_run_ok:
  assumes "shm_run E s" "abi_ok (se_abi E)" "fmap_ok E"
  shows "shm_ok E s"
  using assms
proof (induction rule: shm_run.induct)
  case shm_start
  then show ?case by (simp add: shm_ok_def shm_new_inv)
next
  case (shm_call s ctx oper s' oper' r)
  then show ?case using shm.handle_keeps by blast
next
  case (shm_close s i s' u)
  then show ?case using shm_on_close_keeps [of E i] by (auto dest: keepsD)
next
  case (shm_client s r a bytes)
  then show ?case by (simp add: shm_ok_memory)
qed

lemma shm_run_inv: "shm_run E s \<Longrightarrow> abi_ok (se_abi E) \<Longrightarrow> fmap_ok E \<Longrightarrow> shm_inv s"
  using shm_run_ok by (simp add: shm_ok_def)

lemma shm_scheme_simps [simp]:
  "sc_open (shm_scheme E) = shm_open E" "sc_fpath (shm_scheme E) = shm_fpath"
  "sc_on_close (shm_scheme E) = shm_on_close" "sc_unlinkat (shm_scheme E) = shm_unlinkat"
  "sc_fstat (shm_scheme E) = shm_fstat E" "sc_ftruncate (shm_scheme E) = shm_ftruncate E"
  "sc_mmap_prep (shm_scheme E) = shm_mmap_prep E" "sc_read (shm_scheme E) = shm_read"
  "sc_write (shm_scheme E) = shm_write"
  by (simp_all add: shm_scheme_def)

section \<open>Memory\<close>

lemma length_memory_at [simp]: "length (memory_at s b n) = n"
  by (simp add: memory_at_def)

lemma memory_at_store:
  "memory_at (s\<lparr>sm_memory := store b bytes (sm_memory s)\<rparr>) b (length bytes) = bytes"
  by (rule nth_equalityI) (simp_all add: memory_at_def store_def)

lemma memory_at_store_apart:
  assumes "apart (b, n) (c, length bytes)"
  shows "memory_at (s\<lparr>sm_memory := store c bytes (sm_memory s)\<rparr>) b n = memory_at s b n"
  using assms by (auto simp: memory_at_def store_def apart_def)

lemma shm_write_cases:
  assumes "shm_write i buf offset flags ctx s = (s', r)" "sm_handles s i = Some (Shm p)" "guard_of s p = Some g"
  obtains (refused) "s' = s" "\<not> is_ok r"
  | (written) "r = Ok (length buf)" "offset + length buf \<le> mg_len g"
      "s' = s\<lparr>sm_memory := store (mg_base g + offset) buf (sm_memory s)\<rparr>"
  using assms
  by (auto simp: shm_write_def shm_path_def guard_write_def guard_of_def usize_checked_add_def
      split: option.splits if_splits question_splits)

section \<open>Sample runs\<close>

text \<open>Two objects: handles 0 and 1 on \<open>a\<close> with ten bytes, handle 2 on \<open>b\<close> with one page.\<close>

definition sample_ops :: "op list" where
  "sample_ops = [OpOpen 1 ''a'' 0x02000000, OpOpen 1 ''a'' 0, OpFtruncate 1 0 10,
     OpOpen 1 ''b'' 0x02000000, OpFtruncate 1 2 4096]"

fun run_ops :: "shm_env \<Rightarrow> op list \<Rightarrow> shm \<Rightarrow> shm" where
  "run_ops E [] s = s"
| "run_ops E (oper # opers) s =
     run_ops E opers (fst (fst (handle_sync_dont_consume (se_abi E) (shm_scheme E) sample_ctx oper s)))"

fun no_panics :: "shm_env \<Rightarrow> op list \<Rightarrow> shm \<Rightarrow> bool" where
  "no_panics E [] s = True"
| "no_panics E (oper # opers) s = (let ((s', _), r) = handle_sync_dont_consume (se_abi E) (shm_scheme E) sample_ctx oper s
     in \<not> panicked r \<and> no_panics E opers s')"

lemma run_ops_run: "shm_run E s \<Longrightarrow> no_panics E opers s \<Longrightarrow> shm_run E (run_ops E opers s)"
  by (induction opers arbitrary: s) (auto split: prod.splits intro: shm_call)

definition sample_shm :: shm where
  "sample_shm = run_ops sample_shm_env sample_ops shm_new"

lemmas shm_eval = sample_ops_def sample_shm_env_def sample_abi_def sample_fmap_def shm_open_def shm_ftruncate_def
  shm_path_def alloc_buffer_def guard_alloc_def shm_new_def shm_handle_default_def usize_add_def usize_mul_def

lemma sample_shm_eq:
  "sample_shm = \<lparr>sm_maps = [''a'' \<mapsto> \<lparr>sh_buffer = Some \<lparr>mg_base = 4096, mg_size = 4096, mg_len = 10\<rparr>, sh_refs = Suc (Suc 0), sh_unlinked = False\<rparr>,
       ''b'' \<mapsto> \<lparr>sh_buffer = Some \<lparr>mg_base = 8192, mg_size = 4096, mg_len = 4096\<rparr>, sh_refs = 1, sh_unlinked = False\<rparr>],
     sm_handles = [0 \<mapsto> Shm ''a'', 1 \<mapsto> Shm ''a'', Suc (Suc 0) \<mapsto> Shm ''b''], sm_next_id = 3,
     sm_memory = store 8192 (replicate 4096 0) (store 4096 (replicate 4096 0) (\<lambda>a. 0)),
     sm_regions = [(8192, 4096), (4096, 4096)]\<rparr>"
  by (simp add: sample_shm_def shm_eval Let_def fun_upd_twist)

lemma sample_shm_run: "shm_run sample_shm_env sample_shm"
proof -
  have "no_panics sample_shm_env sample_ops shm_new" by (simp add: shm_eval Let_def)
  then show ?thesis unfolding sample_shm_def by (rule run_ops_run [OF shm_start])
qed

lemma sample_shm_abi: "abi_ok (se_abi sample_shm_env)"
  by (simp add: sample_shm_env_def sample_abi_ok)

lemmas sample_shm_hyps = sample_shm_run sample_shm_abi sample_fmap_ok

lemma page_rounding_exact:
  assumes "0 < P" "P dvd (n :: nat)"
  shows "(n + P - 1) div P * P = n"
proof -
  obtain k where "n = P * k" using assms(2) by blast
  moreover have "(P * k + (P - 1)) div P = k"
    using assms(1) by (intro div_nat_eqI) (simp_all add: algebra_simps)
  ultimately show ?thesis using assms(1) by simp
qed

section \<open>Properties\<close>

text \<open>
  C13. On every run of the scheme, the reference count of an object is the number of handles open on it,
  an object whose name was removed still has a handle, and a handle is open only on an object that
  exists.
\<close>

theorem shm_counts_handles:
  assumes "shm_run E s" "abi_ok (se_abi E)" "fmap_ok E"
  shows "count_ok s p"
  using shm_inv_count [OF shm_run_inv [OF assms]] .

theorem shm_counts_handles_witness: "shm_run sample_shm_env sample_shm \<and> count_ok sample_shm ''a''"
  using shm_counts_handles [OF sample_shm_hyps] sample_shm_hyps(1) by blast

text \<open>
  On every run, the internal lookups of an open handle succeed: closing it, reading, writing and
  asking for its status never panic with a handle that points to nothing.
\<close>

lemma shm_no_dangling_handle:
  assumes "shm_run E s" "abi_ok (se_abi E)" "fmap_ok E" "sm_handles s i = Some h"
  shows "snd (shm_on_close i s) \<noteq> Panic \<and> snd (shm_read i buf offset flags ctx s) \<noteq> Panic \<and>
    snd (shm_write i buf offset flags ctx s) \<noteq> Panic \<and> snd (shm_fstat E i st ctx s) \<noteq> Panic"
proof (cases h)
  case (Shm p)
  with handle_entry [OF shm_run_inv [OF assms(1-3)]] assms(4) obtain e
    where "sm_maps s p = Some e" "1 \<le> sh_refs e" by metis
  then show ?thesis using assms(4) Shm
    by (auto simp: shm_on_close_def shm_read_def shm_write_def shm_fstat_def shm_path_def guard_read_def
        guard_write_def Let_def split: question_splits option.splits prod.splits)
qed (use assms(4) in \<open>simp add: shm_on_close_def shm_read_def shm_write_def shm_fstat_def shm_path_def\<close>)

text \<open>
  C16. Objects are isolated: on every run, a write through a handle on one object leaves every byte of
  every other object as it was.
\<close>

theorem shm_write_isolated:
  assumes "shm_run E s" "abi_ok (se_abi E)" "fmap_ok E"
    and "sm_handles s i = Some (Shm p)" "q \<noteq> p" "guard_of s q = Some g"
    and run: "shm_write i buf offset flags ctx s = (s', r)"
  shows "memory_at s' (mg_base g) (mg_size g) = memory_at s (mg_base g) (mg_size g)"
proof (cases "guard_of s p")
  case None
  then show ?thesis
    using run assms(4) by (auto simp: shm_write_def shm_path_def guard_of_def split: option.splits question_splits)
next
  case (Some h)
  from run assms(4) Some show ?thesis
  proof (cases rule: shm_write_cases)
    case written
    have "guard_ok s p h" using shm_inv_guard [OF shm_run_inv [OF assms(1-3)] Some] .
    then have "apart (mg_base g, mg_size g) (mg_base h + offset, length buf)"
      using assms(5,6) written(2) by (fastforce simp: guard_ok_def apart_def extent_def)
    then show ?thesis unfolding written(3) by (rule memory_at_store_apart)
  qed simp
qed

theorem shm_write_isolated_witness:
  "memory_at (fst (shm_write 0 [1, 2, 3] 4 0 sample_ctx sample_shm)) 8192 4096 = memory_at sample_shm 8192 4096"
proof -
  let ?g = "\<lparr>mg_base = 8192, mg_size = 4096, mg_len = 4096\<rparr>"
  have "guard_of sample_shm ''b'' = Some ?g" "sm_handles sample_shm 0 = Some (Shm ''a'')"
    by (simp_all add: sample_shm_eq guard_of_def)
  then have "memory_at s' (mg_base ?g) (mg_size ?g) = memory_at sample_shm (mg_base ?g) (mg_size ?g)"
    if "shm_write 0 [1, 2, 3] 4 0 sample_ctx sample_shm = (s', r)" for s' r
    using shm_write_isolated [OF sample_shm_hyps _ _ _ that, of "''a''" "''b''" ?g] by simp
  then show ?thesis by (metis (no_types, lifting) prod.collapse mmap_guard.select_convs(1,2))
qed

text \<open>
  What is written through one handle is read through any other handle on the same object: after a
  successful write, reading as many bytes at the same offset gives exactly the bytes written.
\<close>

lemma shm_read_after_write:
  assumes "sm_handles s i = Some (Shm p)" "sm_handles s j = Some (Shm p)"
    and run: "shm_write i data offset flags ctx s = (s', Ok n)" and "length buf = length data"
  shows "shm_read j buf offset flags' ctx' s' = ((s', data), Ok n)"
proof (cases "guard_of s p")
  case None
  then show ?thesis
    using run assms(1) by (auto simp: shm_write_def shm_path_def guard_of_def split: option.splits question_splits)
next
  case (Some g)
  from run assms(1) Some show ?thesis
  proof (cases rule: shm_write_cases)
    case written
    have "offset + length data < usize_range"
      using run assms(1) Some by (auto simp: shm_write_def shm_path_def guard_write_def guard_of_def
          usize_checked_add_def split: option.splits if_splits question_splits)
    then show ?thesis using assms(2,4) Some written
      by (auto simp: shm_read_def shm_path_def guard_read_def guard_of_def usize_checked_add_def memory_at_store
          copy_into_def split: option.splits)
  qed simp
qed

text \<open>
  C34. Mapping an object that has memory. The unchecked sum of offset and size is what can panic; a
  window that does not fit is refused with \<open>ERANGE\<close> and no change. A window that is handed out lies
  inside the object and apart from every other object: writes through handles on other objects never
  change it, and a write through a handle on this object shows up in it at the same place.
\<close>

theorem shm_mmap_within_object:
  assumes run: "shm_run E s" "abi_ok (se_abi E)" "fmap_ok E" and i: "sm_handles s i = Some (Shm p)" "guard_of s p = Some g"
  shows "\<exists>r. shm_mmap_prep E i offset sz flags ctx s = (s, r) \<and>
    (r = Panic \<longleftrightarrow> usize_range \<le> offset + sz \<or> offset + sz \<le> mg_size g \<and> mg_base g + offset = usize_range) \<and>
    (r = Err ERANGE \<longleftrightarrow> offset + sz < usize_range \<and> mg_size g < offset + sz) \<and>
    (r = Panic \<or> r = Err ERANGE \<or> r = Ok (mg_base g + offset)) \<and>
    (\<forall>a. r = Ok a \<longrightarrow> a + sz \<le> mg_base g + mg_size g \<and>
      (\<forall>q h. q \<noteq> p \<longrightarrow> guard_of s q = Some h \<longrightarrow> apart (a, sz) (mg_base h, mg_size h)) \<and>
      (\<forall>j q data k fl ctx' s' r'. sm_handles s j = Some (Shm q) \<and> q \<noteq> p \<and> shm_write j data k fl ctx' s = (s', r') \<longrightarrow>
        memory_at s' a sz = memory_at s a sz) \<and>
      (\<forall>j data k fl ctx' s' n. sm_handles s j = Some (Shm p) \<and> shm_write j data (offset + k) fl ctx' s = (s', Ok n) \<longrightarrow>
        memory_at s' (a + k) (length data) = data))"
    (is "\<exists>r. _ \<and> _ \<and> _ \<and> _ \<and> (\<forall>a. r = Ok a \<longrightarrow> ?window a)")
proof -
  have g: "guard_ok s p g" using shm_inv_guard [OF shm_run_inv [OF run] i(2)] .
  obtain e where e: "sm_maps s p = Some e" "sh_buffer e = Some g" using i(2) by (auto simp: guard_of_def split: option.splits)
  define r where "r = snd (shm_mmap_prep E i offset sz flags ctx s)"
  have prep: "shm_mmap_prep E i offset sz flags ctx s = (s, r)"
    and r: "r = (if usize_range \<le> offset + sz then Panic else if mg_size g < offset + sz then Err ERANGE
      else if usize_range \<le> mg_base g + offset then Panic else Ok (mg_base g + offset))"
    using i(1) e by (auto simp: r_def shm_mmap_prep_def shm_path_def guard_len_def usize_add_def)
  have within: "a = mg_base g + offset" "offset + sz \<le> mg_size g" if "r = Ok a" for a using that r by (auto split: if_splits)
  have other: "apart (a, sz) (mg_base h, mg_size h)" if "r = Ok a" "q \<noteq> p" "guard_of s q = Some h" for a q h
    using g within [OF that(1)] that(2,3) by (fastforce simp: guard_ok_def apart_def extent_def)
  have keeps: "memory_at s' a sz = memory_at s a sz"
    if "r = Ok a" "sm_handles s j = Some (Shm q)" "q \<noteq> p" "shm_write j data k fl ctx' s = (s', r')" for a j q data k fl ctx' s' r'
  proof (cases "guard_of s q")
    case None
    then show ?thesis using that by (auto simp: shm_write_def shm_path_def guard_of_def split: option.splits question_splits)
  next
    case (Some h)
    from that(4,2) Some show ?thesis
    proof (cases rule: shm_write_cases)
      case written
      have "mg_len h \<le> mg_size h" using shm_inv_guard [OF shm_run_inv [OF run] Some] by (simp add: guard_ok_def)
      then have "apart (a, sz) (mg_base h + k, length data)"
        using other [OF that(1,3) Some] written(2) by (auto simp: apart_def)
      then show ?thesis unfolding written(3) by (rule memory_at_store_apart)
    qed simp
  qed
  have coherent: "memory_at s' (a + k) (length data) = data"
    if "r = Ok a" "sm_handles s j = Some (Shm p)" "shm_write j data (offset + k) fl ctx' s = (s', Ok n)" for a j data k fl ctx' s' n
    using that(3,2) i(2)
  proof (cases rule: shm_write_cases)
    case written
    then show ?thesis using within(1) [OF that(1)] by (simp add: memory_at_store add.assoc)
  qed simp
  have "mg_base g + mg_size g \<le> usize_range" using g by (simp add: guard_ok_def)
  then have cases: "r = Panic \<longleftrightarrow> usize_range \<le> offset + sz \<or> offset + sz \<le> mg_size g \<and> mg_base g + offset = usize_range"
    "r = Err ERANGE \<longleftrightarrow> offset + sz < usize_range \<and> mg_size g < offset + sz" "r = Panic \<or> r = Err ERANGE \<or> r = Ok (mg_base g + offset)"
    using r by auto
  have window: "\<forall>a. r = Ok a \<longrightarrow> ?window a"
  proof (intro allI impI)
    fix a assume a: "r = Ok a"
    show "?window a"
    proof (intro conjI)
      show "a + sz \<le> mg_base g + mg_size g" using within [OF a] by simp
    qed (use other [OF a] keeps [OF a] coherent [OF a] in fast)+
  qed
  show ?thesis by (rule exI [of _ r]) (intro conjI prep cases window)
qed

theorem shm_mmap_within_object_witness:
  "shm_mmap_prep sample_shm_env 2 1024 2048 0 sample_ctx sample_shm = (sample_shm, Ok 9216) \<and>
   shm_mmap_prep sample_shm_env 2 1024 4096 0 sample_ctx sample_shm = (sample_shm, Err ERANGE) \<and>
   shm_mmap_prep sample_shm_env 2 1024 (usize_range - 1) 0 sample_ctx sample_shm = (sample_shm, Panic) \<and>
   memory_at (fst (shm_write 0 [1, 2, 3] 4 0 sample_ctx sample_shm)) 9216 2048 = memory_at sample_shm 9216 2048"
proof -
  let ?g = "\<lparr>mg_base = 8192, mg_size = 4096, mg_len = 4096\<rparr>"
  have h: "sm_handles sample_shm 2 = Some (Shm ''b'')" "guard_of sample_shm ''b'' = Some ?g" "sm_handles sample_shm 0 = Some (Shm ''a'')"
    by (simp_all add: sample_shm_eq guard_of_def)
  note maps = shm_mmap_within_object [OF sample_shm_hyps h(1,2), where flags = 0 and ctx = sample_ctx]
  obtain r where r: "shm_mmap_prep sample_shm_env 2 1024 2048 0 sample_ctx sample_shm = (sample_shm, r)" "r = Ok 9216"
    "\<forall>j q data k fl ctx' s' r'. sm_handles sample_shm j = Some (Shm q) \<and> q \<noteq> ''b'' \<and> shm_write j data k fl ctx' sample_shm = (s', r') \<longrightarrow>
        memory_at s' 9216 2048 = memory_at sample_shm 9216 2048"
    using maps [of 1024 2048] by auto
  moreover have "shm_mmap_prep sample_shm_env 2 1024 4096 0 sample_ctx sample_shm = (sample_shm, Err ERANGE)" using maps [of 1024 4096] by auto
  moreover have "shm_mmap_prep sample_shm_env 2 1024 (usize_range - 1) 0 sample_ctx sample_shm = (sample_shm, Panic)"
    using maps [of 1024 "usize_range - 1"] by auto
  moreover obtain s' r' where "shm_write 0 [1, 2, 3] 4 0 sample_ctx sample_shm = (s', r')" by fastforce
  ultimately show ?thesis using h(3) by fastforce
qed

text \<open>
  C39. The first mapping of an object that has no memory yet is not checked against its range: it
  allocates \<open>sz\<close> bytes and returns the base plus \<open>offset\<close>, so with a whole number of pages and any
  offset greater than zero the window handed out ends past the end of the object.
\<close>

theorem shm_first_mmap_overruns:
  assumes "abi_ok (se_abi E)" "sm_handles s i = Some (Shm p)" "sm_maps s p = Some e" "sh_buffer e = None"
    and "PAGE_SIZE (se_abi E) dvd sz" "0 < offset"
    and run: "shm_mmap_prep E i offset sz flags ctx s = (s', Ok a)"
  shows "\<exists>g. guard_of s' p = Some g \<and> mg_base g + mg_size g < a + sz"
proof -
  from run assms(2-4) obtain g where alloc: "alloc_buffer E p e sz s = (s', Ok g)" and a: "a = mg_base g + offset"
    by (auto simp: shm_mmap_prep_def shm_path_def elim!: then_do_eq_OkE split: question_splits)
  have "mg_size g = (sz + PAGE_SIZE (se_abi E) - 1) div PAGE_SIZE (se_abi E) * PAGE_SIZE (se_abi E)"
    using alloc by (auto simp: alloc_buffer_def guard_alloc_def usize_mul_def Let_def elim!: then_do_eq_OkE
        split: question_splits if_splits)
  then have "mg_size g = sz"
    using page_rounding_exact [OF _ assms(5)] assms(1) by (simp add: abi_ok_def)
  moreover have "guard_of s' p = Some g"
    using alloc by (auto simp: alloc_buffer_def guard_of_def elim!: then_do_eq_OkE)
  ultimately show ?thesis using assms(6) a by auto
qed

theorem shm_first_mmap_overruns_witness:
  "\<exists>s' g. shm_mmap_prep sample_shm_env 0 4096 4096 0 sample_ctx
       (run_ops sample_shm_env [OpOpen 1 ''a'' 0x02000000] shm_new) = (s', Ok 8192) \<and>
     guard_of s' ''a'' = Some g \<and> mg_base g + mg_size g < 8192 + 4096"
proof -
  let ?s = "run_ops sample_shm_env [OpOpen 1 ''a'' 0x02000000] shm_new"
  let ?m = "shm_mmap_prep sample_shm_env 0 4096 4096 0 sample_ctx ?s"
  have "?m = (fst ?m, Ok 8192)"
    by (simp add: shm_eval shm_mmap_prep_def Let_def)
  from shm_first_mmap_overruns [OF sample_shm_abi _ _ _ _ _ this, of "''a''" "\<lparr>sh_buffer = None, sh_refs = 1, sh_unlinked = False\<rparr>"] this
  show ?thesis by (simp add: shm_eval Let_def) blast
qed

end
