(* ===== verification/Zerod.thy ===== *)
theory Zerod
  imports Serial_Loop
begin

text \<open>
  The \<open>zerod\<close> daemon, which serves \<open>null:\<close> or \<open>zero:\<close> depending on the name it is started under
  (\<open>zerod/src/main.rs\<close>, \<open>zerod/src/scheme.rs\<close>). Its scheme has no state beside that choice.
\<close>

section \<open>The daemon\<close>

datatype ty = Null | Zero

definition zero_ty :: "string option \<Rightarrow> ty outcome" where
  "zero_ty arg0 = and_then (unwrap arg0) (\<lambda>name.
     if name = ''nulld'' then Ok Null else if name = ''zerod'' then Ok Zero else Panic)"

fun zero_name :: "ty \<Rightarrow> string" where
  "zero_name Null = ''null''"
| "zero_name Zero = ''zero''"

section \<open>The scheme\<close>

definition zero_open :: "string \<Rightarrow> u64 \<Rightarrow> caller_ctx \<Rightarrow> ty \<Rightarrow> ty \<times> open_result outcome" where
  "zero_open path flags ctx s = (s, Ok (ThisScheme 0 0))"

definition zero_read ::
  "nat \<Rightarrow> u8 list \<Rightarrow> nat \<Rightarrow> u32 \<Rightarrow> caller_ctx \<Rightarrow> ty \<Rightarrow> (ty \<times> u8 list) \<times> nat outcome" where
  "zero_read f buf offset flags ctx s = (case s of
       Null \<Rightarrow> ((s, buf), Ok 0)
     | Zero \<Rightarrow> ((s, replicate (length buf) 0), Ok (length buf)))"

definition zero_write ::
  "nat \<Rightarrow> u8 list \<Rightarrow> nat \<Rightarrow> u32 \<Rightarrow> caller_ctx \<Rightarrow> ty \<Rightarrow> ty \<times> nat outcome" where
  "zero_write f buffer offset flags ctx s = (s, Ok (length buffer))"

definition zero_fcntl :: "nat \<Rightarrow> u64 \<Rightarrow> u64 \<Rightarrow> caller_ctx \<Rightarrow> ty \<Rightarrow> ty \<times> nat outcome" where
  "zero_fcntl i cmd arg ctx s = (s, Ok 0)"

definition zero_fsize :: "nat \<Rightarrow> caller_ctx \<Rightarrow> ty \<Rightarrow> ty \<times> nat outcome" where
  "zero_fsize i ctx s = (s, Ok 0)"

definition zero_ftruncate :: "nat \<Rightarrow> nat \<Rightarrow> caller_ctx \<Rightarrow> ty \<Rightarrow> ty \<times> unit outcome" where
  "zero_ftruncate i len ctx s = (s, Ok ())"

definition zero_fpath :: "nat \<Rightarrow> u8 list \<Rightarrow> caller_ctx \<Rightarrow> ty \<Rightarrow> (ty \<times> u8 list) \<times> nat outcome" where
  "zero_fpath i buf ctx s = (let
       scheme_path = bytes_of ''zero:'';
       sz = min (length buf) (length scheme_path) in
     ((s, copy_into buf 0 (take sz scheme_path)), Ok sz))"

definition zero_fsync :: "nat \<Rightarrow> caller_ctx \<Rightarrow> ty \<Rightarrow> ty \<times> unit outcome" where
  "zero_fsync f ctx s = (s, Ok ())"

definition zero_on_close :: "nat \<Rightarrow> ty \<Rightarrow> ty \<times> unit outcome" where
  "zero_on_close f s = (s, Ok ())"

definition zero_fstat :: "abi \<Rightarrow> nat \<Rightarrow> stat \<Rightarrow> caller_ctx \<Rightarrow> ty \<Rightarrow> (ty \<times> stat) \<times> unit outcome" where
  "zero_fstat K i stat ctx s = ((s, stat\<lparr>st_mode := 0x1B6 OR MODE_CHR K, st_size := 0, st_blocks := 0,
     st_blksize := 4096, st_nlink := 1\<rparr>), Ok ())"

definition zero_scheme :: "abi \<Rightarrow> ty scheme_sync" where
  "zero_scheme K = default_scheme\<lparr>sc_open := zero_open, sc_read := zero_read, sc_write := zero_write,
     sc_fcntl := zero_fcntl, sc_fsize := zero_fsize, sc_ftruncate := zero_ftruncate,
     sc_fpath := zero_fpath, sc_fsync := zero_fsync, sc_on_close := zero_on_close,
     sc_fstat := zero_fstat K\<rparr>"

text \<open>The daemon, from the name it is started under and the requests it is sent.\<close>

definition zero_daemon :: "abi \<Rightarrow> memory \<Rightarrow> string option \<Rightarrow> sqe list \<Rightarrow> (ty \<times> cqe list) outcome" where
  "zero_daemon K M arg0 qs = and_then (zero_ty arg0) (\<lambda>ty.
     let (s, r) = serve_requests K M (zero_scheme K) qs ty in map_outcome (Pair s) r)"

lemmas zero_method_defs = zero_scheme_def default_scheme_def zero_open_def zero_read_def zero_write_def
  zero_fcntl_def zero_fsize_def zero_ftruncate_def zero_fpath_def zero_fsync_def zero_on_close_def zero_fstat_def

section \<open>The contract\<close>

text \<open>No method changes the state and none panics.\<close>

interpretation zero: scheme_total "zero_scheme K" "\<lambda>n s. s = t" "\<lambda>_. True" for K t
proof unfold_locales
  show "\<not> panicked r \<and> s' = t" if "s = t" "handle_sync_dont_consume K' (zero_scheme K) ctx oper s = ((s', oper'), r)"
    for K' ctx oper oper' s s' r
    using that by (cases oper) (auto simp: zero_method_defs Let_def split: ty.splits option.splits prod.splits)
qed (auto simp: zero_method_defs)

section \<open>Properties\<close>

text \<open>
  Started under one of its two names, the daemon serves every sequence of requests to its end: as
  long as the kernel's entries are well formed it never panics, and it writes one response per call, in
  the order of the calls.
\<close>

lemma zero_serves_everything:
  assumes "arg0 = ''nulld'' \<or> arg0 = ''zerod''" "list_all (well_formed K M (\<lambda>_. True)) qs"
  shows "\<exists>s outs. zero_daemon K M (Some arg0) qs = Ok (s, outs) \<and> map cqe_tag outs = call_tags K qs"
proof -
  obtain ty where ty: "zero_ty (Some arg0) = Ok ty" using assms(1) by (auto simp: zero_ty_def)
  obtain s outs where "serve_requests K M (zero_scheme K) qs ty = (s, Ok outs)" "map cqe_tag outs = call_tags K qs"
    using zero.serve_requests_total [OF refl assms(2)] by blast
  then show ?thesis by (simp add: zero_daemon_def ty)
qed

end
