(* ===== verification/Logd.thy ===== *)
theory Logd
  imports Serial_Loop
begin

text \<open>
  The \<open>logd\<close> daemon (\<open>logd/src/scheme.rs\<close>): the scheme that collects lines per handle and process, the
  thread that writes them to the kernel's debug output and to the sinks, and the thread that copies
  the kernel's log. The channel between the threads is the list of the commands sent on it, oldest
  first; its receiver lives as long as the daemon, so sending never fails. Whether a sink can be
  opened, and what the kernel's log gives to each read, are arguments.
\<close>

section \<open>State\<close>

datatype log_handle = Log string "nat \<rightharpoonup> u8 list" | AddSink

datatype output_cmd = CmdLog "u8 list" | CmdLogKernel "u8 list" | CmdAddSink string

record logd =
  lg_next_id :: nat
  lg_output_tx :: "output_cmd list"
  lg_handles :: "nat \<rightharpoonup> log_handle"

definition log_new :: logd where
  "log_new = \<lparr>lg_next_id = 0, lg_output_tx = [], lg_handles = Map.empty\<rparr>"

section \<open>The output thread\<close>

record sink =
  sk_path :: string
  sk_lines :: "u8 list list"

record out_state =
  ot_debug :: "u8 list list"
  ot_files :: "sink list"
  ot_logs :: "u8 list list"

definition output_new :: out_state where
  "output_new = \<lparr>ot_debug = [], ot_files = [], ot_logs = []\<rparr>"

text \<open>\<open>while logs.len() > 1000 { logs.pop_front(); }\<close>.\<close>

fun trim_logs :: "u8 list list \<Rightarrow> u8 list list" where
  "trim_logs [] = []"
| "trim_logs (l # ls) = (if length (l # ls) > 1000 then trim_logs ls else l # ls)"

definition write_sink :: "u8 list \<Rightarrow> sink \<Rightarrow> sink" where
  "write_sink line f = f\<lparr>sk_lines := sk_lines f @ [line]\<rparr>"

text \<open>One command; the second argument tells whether the sink could be opened.\<close>

fun output_step :: "output_cmd \<Rightarrow> bool \<Rightarrow> out_state \<Rightarrow> out_state" where
  "output_step (CmdLog line) opened s =
     s\<lparr>ot_debug := ot_debug s @ [line], ot_files := map (write_sink line) (ot_files s),
       ot_logs := trim_logs (ot_logs s @ [line])\<rparr>"
| "output_step (CmdLogKernel line) opened s =
     s\<lparr>ot_files := map (write_sink line) (ot_files s), ot_logs := trim_logs (ot_logs s @ [line])\<rparr>"
| "output_step (CmdAddSink path) opened s =
     (if opened then s\<lparr>ot_files := ot_files s @
        [fold write_sink (ot_logs s) \<lparr>sk_path = path, sk_lines = []\<rparr>]\<rparr>
      else s)"

fun output_thread :: "(output_cmd \<times> bool) list \<Rightarrow> out_state \<Rightarrow> out_state" where
  "output_thread [] s = s"
| "output_thread ((cmd, opened) # cmds) s = output_thread cmds (output_step cmd opened s)"

section \<open>Assembling lines\<close>

fun write_logs ::
  "string \<Rightarrow> bool \<Rightarrow> u8 list \<Rightarrow> u8 list \<Rightarrow> output_cmd list \<Rightarrow> u8 list \<times> output_cmd list" where
  "write_logs ctxt kern [] handle_buf tx = (handle_buf, tx)"
| "write_logs ctxt kern (b # bs) handle_buf tx = (let
       started = (if handle_buf = [] \<and> ctxt \<noteq> [] then bytes_of ctxt @ bytes_of '': '' else handle_buf);
       pushed = started @ [b] in
     if b = 10
     then write_logs ctxt kern bs [] (tx @ [if kern then CmdLogKernel pushed else CmdLog pushed])
     else write_logs ctxt kern bs pushed tx)"

section \<open>The kernel log thread\<close>

definition kernel_buf :: "u8 list" where
  "kernel_buf = copy_into (replicate 4096 0) 0 (bytes_of ''kernel: '')"

text \<open>
  The first argument lists what the successive reads store behind the prefix; a read is at most as
  long as the rest of the buffer.
\<close>

fun kernel_thread ::
  "u8 list list \<Rightarrow> u8 list \<Rightarrow> u8 list \<Rightarrow> output_cmd list \<Rightarrow> u8 list \<times> output_cmd list" where
  "kernel_thread [] buf handle_buf tx = (handle_buf, tx)"
| "kernel_thread (chunk # chunks) buf handle_buf tx =
     (if chunk = [] then (handle_buf, tx)
      else let
        buf' = copy_into buf (length (bytes_of ''kernel: '')) chunk;
        (handle_buf', tx') = write_logs ''kernel'' True buf' handle_buf tx in
      kernel_thread chunks buf' handle_buf' tx')"

section \<open>The scheme\<close>

definition log_open :: "string \<Rightarrow> u64 \<Rightarrow> caller_ctx \<Rightarrow> logd \<Rightarrow> logd \<times> open_result outcome" where
  "log_open path flags ctx s = (let i = lg_next_id s in
     question s (usize_add i 1) (\<lambda>n.
     (s\<lparr>lg_next_id := n,
        lg_handles := (lg_handles s)(i \<mapsto> if path = ''add_sink'' then AddSink else Log path Map.empty)\<rparr>,
      Ok (ThisScheme i 0))))"

definition log_read ::
  "nat \<Rightarrow> u8 list \<Rightarrow> nat \<Rightarrow> u32 \<Rightarrow> caller_ctx \<Rightarrow> logd \<Rightarrow> (logd \<times> u8 list) \<times> nat outcome" where
  "log_read i buf offset flags ctx s =
     question (s, buf) (ok_or EBADF (lg_handles s i)) (\<lambda>_. ((s, buf), Ok 0))"

definition log_write ::
  "nat \<Rightarrow> u8 list \<Rightarrow> nat \<Rightarrow> u32 \<Rightarrow> caller_ctx \<Rightarrow> logd \<Rightarrow> logd \<times> nat outcome" where
  "log_write i buf offset flags ctx s =
     question s (ok_or EBADF (lg_handles s i)) (\<lambda>handle.
     case handle of
       Log ctxt bufs \<Rightarrow> (let
           handle_buf = (case bufs (ctx_pid ctx) of Some b \<Rightarrow> b | None \<Rightarrow> []);
           (handle_buf', tx) = write_logs ctxt False buf handle_buf (lg_output_tx s) in
         (s\<lparr>lg_handles := (lg_handles s)(i \<mapsto> Log ctxt (bufs(ctx_pid ctx \<mapsto> handle_buf'))), lg_output_tx := tx\<rparr>,
          Ok (length buf)))
     | AddSink \<Rightarrow>
         if utf8_valid buf
         then (s\<lparr>lg_output_tx := lg_output_tx s @ [CmdAddSink (string_of buf)]\<rparr>, Ok (length buf))
         else (s, Err EINVAL))"

definition log_fcntl :: "nat \<Rightarrow> u64 \<Rightarrow> u64 \<Rightarrow> caller_ctx \<Rightarrow> logd \<Rightarrow> logd \<times> nat outcome" where
  "log_fcntl i cmd arg ctx s = question s (ok_or EBADF (lg_handles s i)) (\<lambda>_. (s, Ok 0))"

definition log_fpath :: "nat \<Rightarrow> u8 list \<Rightarrow> caller_ctx \<Rightarrow> logd \<Rightarrow> (logd \<times> u8 list) \<times> nat outcome" where
  "log_fpath i buf ctx s =
     question (s, buf) (ok_or EBADF (lg_handles s i)) (\<lambda>handle. let
       scheme_path = bytes_of ''/scheme/log/'';
       n = min (length buf) (length scheme_path);
       buf1 = copy_into buf 0 (take n scheme_path);
       path_bytes = (case handle of Log ctxt bufs \<Rightarrow> bytes_of ctxt | AddSink \<Rightarrow> bytes_of ''add_sink'');
       k = min (length buf - n) (length path_bytes) in
     ((s, copy_into buf1 n (take k path_bytes)), Ok (n + k)))"

definition log_fsync :: "nat \<Rightarrow> caller_ctx \<Rightarrow> logd \<Rightarrow> logd \<times> unit outcome" where
  "log_fsync i ctx s = question s (ok_or EBADF (lg_handles s i)) (\<lambda>_. (s, Ok ()))"

definition log_on_close :: "nat \<Rightarrow> logd \<Rightarrow> logd \<times> unit outcome" where
  "log_on_close i s = (s\<lparr>lg_handles := (lg_handles s)(i := None)\<rparr>, Ok ())"

definition log_scheme :: "logd scheme_sync" where
  "log_scheme = default_scheme\<lparr>sc_open := log_open, sc_read := log_read, sc_write := log_write,
     sc_fcntl := log_fcntl, sc_fpath := log_fpath, sc_fsync := log_fsync, sc_on_close := log_on_close\<rparr>"

text \<open>The daemon's request loop.\<close>

definition log_daemon :: "abi \<Rightarrow> memory \<Rightarrow> sqe list \<Rightarrow> logd \<times> cqe list outcome" where
  "log_daemon K M qs = serve_requests K M log_scheme qs log_new"

section \<open>The output thread keeps a bounded history\<close>

lemma trim_logs_drop: "trim_logs ls = drop (length ls - 1000) ls"
  by (induction ls) (auto simp: drop_Cons')

text \<open>The lines among a sequence of commands.\<close>

definition logged :: "(output_cmd \<times> bool) list \<Rightarrow> u8 list list" where
  "logged cmds = concat (map (\<lambda>(cmd, _). case cmd of CmdLog l \<Rightarrow> [l] | CmdLogKernel l \<Rightarrow> [l] | CmdAddSink p \<Rightarrow> []) cmds)"

lemma logged_simps [simp]:
  "logged [] = []" "logged ((CmdLog l, b) # cs) = l # logged cs" "logged ((CmdLogKernel l, b) # cs) = l # logged cs"
  "logged ((CmdAddSink p, b) # cs) = logged cs"
  by (simp_all add: logged_def)

lemma drop_bounded: "drop (length (drop n xs @ ys) - k) (drop n xs @ ys) = drop (length (xs @ ys) - k) (xs @ ys)"
  if "n = length xs - k"
  using that by (cases "length xs \<le> k") (auto simp: drop_append add.commute)

lemma output_logs:
  "ot_logs s = drop (length ls - 1000) ls \<Longrightarrow>
   ot_logs (output_thread cs s) = drop (length (ls @ logged cs) - 1000) (ls @ logged cs)"
proof (induction cs s arbitrary: ls rule: output_thread.induct)
  case (2 cmd opened cs s)
  show ?case
  proof (cases cmd)
    case (CmdLog l)
    then show ?thesis using "2.IH" [of "ls @ [l]"] "2.prems" drop_bounded [of _ ls 1000 "[l]"] by (simp add: trim_logs_drop)
  next
    case (CmdLogKernel l)
    then show ?thesis using "2.IH" [of "ls @ [l]"] "2.prems" drop_bounded [of _ ls 1000 "[l]"] by (simp add: trim_logs_drop)
  next
    case (CmdAddSink p)
    then show ?thesis using "2.IH" [of ls] "2.prems" by simp
  qed
qed simp

lemma fold_write_sink: "fold write_sink ls f = f\<lparr>sk_lines := sk_lines f @ ls\<rparr>"
  by (induction ls arbitrary: f) (simp_all add: write_sink_def)

text \<open>A sink that is open gets every later line.\<close>

lemma output_open_sink:
  "k < length (ot_files s) \<Longrightarrow>
   ot_files (output_thread cs s) ! k = (ot_files s ! k)\<lparr>sk_lines := sk_lines (ot_files s ! k) @ logged cs\<rparr>"
proof (induction cs s rule: output_thread.induct)
  case (2 cmd opened cs s)
  then show ?case by (cases cmd) (auto simp: write_sink_def nth_append)
qed simp

lemma output_thread_append: "output_thread (cs @ ds) s = output_thread ds (output_thread cs s)"
  by (induction cs s rule: output_thread.induct) simp_all

text \<open>
  A sink gets the recent history and everything after it, once and in order: whatever commands were
  handled before and are handled after a sink is added, the sink is given the last 1000 lines logged
  before, then every line logged since, and nothing else.
\<close>

lemma sink_gets_history_and_rest:
  "ot_files (output_thread (before @ (CmdAddSink path, True) # later) output_new) !
     length (ot_files (output_thread before output_new)) =
   \<lparr>sk_path = path, sk_lines = drop (length (logged before) - 1000) (logged before) @ logged later\<rparr>"
proof -
  let ?s = "output_thread before output_new"
  let ?t = "output_step (CmdAddSink path) True ?s"
  have logs: "ot_logs ?s = drop (length (logged before) - 1000) (logged before)"
    using output_logs [of output_new "[]" before] by (simp add: output_new_def)
  have "ot_files ?t ! length (ot_files ?s) = \<lparr>sk_path = path, sk_lines = ot_logs ?s\<rparr>"
    by (simp add: fold_write_sink)
  then show ?thesis
    using output_open_sink [of "length (ot_files ?s)" ?t later] by (simp add: output_thread_append logs)
qed

section \<open>The contract of the scheme\<close>

text \<open>Handle ids that were not given out are unused.\<close>

definition log_inv :: "logd \<Rightarrow> bool" where
  "log_inv s \<longleftrightarrow> (\<forall>i \<ge> lg_next_id s. lg_handles s i = None)"

lemmas log_method_defs = log_open_def log_read_def log_write_def log_fcntl_def log_fpath_def log_fsync_def log_on_close_def

lemma log_invD: "log_inv s \<Longrightarrow> lg_handles s i = Some h \<Longrightarrow> i < lg_next_id s"
  by (metis log_inv_def not_le option.distinct(1))

lemma log_method_keeps:
  "keeps log_inv (log_open path flags ctx)" "keeps log_inv (log_write i buf off fl ctx)"
  "keeps log_inv (log_fcntl i cmd arg ctx)" "keeps log_inv (log_fsync i ctx)" "keeps log_inv (log_on_close i)"
  "keeps_with log_inv (log_read i buf off fl ctx)" "keeps_with log_inv (log_fpath i buf ctx)"
  by (auto simp: keeps_def keeps_with_def log_method_defs Let_def log_inv_def
      split: question_splits log_handle.splits if_splits prod.splits)

interpretation log: scheme_methods log_scheme log_inv
  by unfold_locales (simp_all add: log_scheme_def default_scheme_def log_method_keeps)

section \<open>Lines are kept whole\<close>

definition line_prefix :: "string \<Rightarrow> u8 list" where
  "line_prefix ctxt = (if ctxt = [] then [] else bytes_of ctxt @ bytes_of '': '')"

definition one_line :: "u8 list \<Rightarrow> bool" where
  "one_line l \<longleftrightarrow> (\<exists>l0. l = l0 @ [10] \<and> 10 \<notin> set l0)"

text \<open>
  The bytes \<open>d\<close> that a process wrote to a handle, cut after each newline: the complete lines were sent
  in order, each behind the handle's prefix, and the rest waits in the buffer.
\<close>

definition stream_ok :: "string \<Rightarrow> u8 list \<Rightarrow> u8 list \<Rightarrow> output_cmd list \<Rightarrow> bool" where
  "stream_ok ctxt d handle_buf sent \<longleftrightarrow> (\<exists>ls r. d = concat ls @ r \<and> list_all one_line ls \<and> 10 \<notin> set r \<and>
     sent = map (\<lambda>l. CmdLog (line_prefix ctxt @ l)) ls \<and>
     handle_buf = (if r = [] then [] else line_prefix ctxt @ r))"

lemma stream_ok_start: "stream_ok ctxt [] [] []"
  by (simp add: stream_ok_def)

lemma stream_ok_push:
  assumes "stream_ok ctxt d hb sent"
    and "started = (if hb = [] \<and> ctxt \<noteq> [] then bytes_of ctxt @ bytes_of '': '' else hb)"
  shows "stream_ok ctxt (d @ [b]) (if b = 10 then [] else started @ [b])
    (sent @ (if b = 10 then [CmdLog (started @ [b])] else []))"
proof -
  obtain ls r where s: "d = concat ls @ r" "list_all one_line ls" "10 \<notin> set r"
      "sent = map (\<lambda>l. CmdLog (line_prefix ctxt @ l)) ls" "hb = (if r = [] then [] else line_prefix ctxt @ r)"
    using assms(1) by (auto simp: stream_ok_def)
  have st: "started = line_prefix ctxt @ r" using s(5) assms(2) by (auto simp: line_prefix_def)
  show ?thesis
  proof (cases "b = 10")
    case True
    then have "one_line (r @ [b])" using s(3) by (auto simp: one_line_def)
    then show ?thesis unfolding stream_ok_def using s st True
      by (intro exI [of _ "ls @ [r @ [b]]"] exI [of _ "[]"]) simp
  next
    case False
    then show ?thesis unfolding stream_ok_def using s st
      by (intro exI [of _ ls] exI [of _ "r @ [b]"]) simp
  qed
qed

lemma write_logs_stream:
  assumes "stream_ok ctxt d hb sent" "write_logs ctxt False buf hb tx = (hb', tx')"
  shows "\<exists>new. tx' = tx @ new \<and> stream_ok ctxt (d @ buf) hb' (sent @ new)"
  using assms
proof (induction buf arbitrary: d hb sent tx)
  case (Cons b bs)
  let ?started = "if hb = [] \<and> ctxt \<noteq> [] then bytes_of ctxt @ bytes_of '': '' else hb"
  let ?new = "if b = 10 then [CmdLog (?started @ [b])] else []"
  have "write_logs ctxt False bs (if b = 10 then [] else ?started @ [b]) (tx @ ?new) = (hb', tx')"
    using Cons.prems(2) by (auto simp: Let_def split: if_splits)
  from Cons.IH [OF stream_ok_push [OF Cons.prems(1) refl] this] show ?case by auto
qed simp

section \<open>Runs\<close>

text \<open>
  A run with its history: the bytes each process wrote to each handle, and every command sent, labelled
  with the handle and the process whose write caused it.
\<close>

type_synonym log_history = "nat \<times> nat \<Rightarrow> u8 list"

fun logd_written :: "caller_ctx \<Rightarrow> op \<Rightarrow> scheme_response \<Rightarrow> log_history \<Rightarrow> log_history" where
  "logd_written ctx (OpWrite t fd buf off fl) (Regular (Ok n)) H =
     H((fd, ctx_pid ctx) := H (fd, ctx_pid ctx) @ take n buf)"
| "logd_written ctx oper r H = H"

fun log_source :: "caller_ctx \<Rightarrow> op \<Rightarrow> nat \<times> nat" where
  "log_source ctx (OpWrite t fd buf off fl) = (fd, ctx_pid ctx)"
| "log_source ctx oper = (0, 0)"

inductive log_run :: "abi \<Rightarrow> logd \<Rightarrow> log_history \<Rightarrow> ((nat \<times> nat) \<times> output_cmd) list \<Rightarrow> bool" for K where
  log_start: "log_run K log_new (\<lambda>_. []) []"
| log_call: "log_run K s H T \<Longrightarrow>
    handle_sync_dont_consume K log_scheme ctx oper s = ((s', oper'), r) \<Longrightarrow> \<not> panicked r \<Longrightarrow>
    log_run K s' (logd_written ctx oper r H)
      (T @ map (Pair (log_source ctx oper)) (drop (length (lg_output_tx s)) (lg_output_tx s')))"
| log_close: "log_run K s H T \<Longrightarrow> log_on_close i s = (s', Ok u) \<Longrightarrow> log_run K s' H T"

definition sent_by :: "((nat \<times> nat) \<times> output_cmd) list \<Rightarrow> nat \<times> nat \<Rightarrow> output_cmd list" where
  "sent_by T k = map snd (filter (\<lambda>t. fst t = k) T)"

definition pending :: "(nat \<rightharpoonup> u8 list) \<Rightarrow> nat \<Rightarrow> u8 list" where
  "pending bufs p = (case bufs p of Some b \<Rightarrow> b | None \<Rightarrow> [])"

text \<open>The history of a run agrees with the state; ids not given out have none.\<close>

definition log_agrees :: "logd \<Rightarrow> log_history \<Rightarrow> ((nat \<times> nat) \<times> output_cmd) list \<Rightarrow> bool" where
  "log_agrees s H T \<longleftrightarrow> log_inv s \<and> map snd T = lg_output_tx s \<and>
     (\<forall>i c bufs p. lg_handles s i = Some (Log c bufs) \<longrightarrow> stream_ok c (H (i, p)) (pending bufs p) (sent_by T (i, p))) \<and>
     (\<forall>i p. lg_next_id s \<le> i \<longrightarrow> H (i, p) = [] \<and> sent_by T (i, p) = [])"

lemma sent_by_append [simp]:
  "sent_by (T @ map (Pair k) cs) k' = sent_by T k' @ (if k' = k then cs else [])"
  "sent_by (T @ [(k, c)]) k' = sent_by T k' @ (if k' = k then [c] else [])"
  by (induction cs) (auto simp: sent_by_def)

lemma log_agrees_start: "log_agrees log_new (\<lambda>_. []) []"
  by (simp add: log_agrees_def log_inv_def log_new_def sent_by_def)

lemma log_agrees_open:
  assumes "log_agrees s H T" "log_open path flags ctx s = (s', r)" "r \<noteq> Panic"
  shows "log_agrees s' H T"
proof -
  have s': "s' = s\<lparr>lg_next_id := lg_next_id s + 1, lg_handles := (lg_handles s)(lg_next_id s \<mapsto>
      if path = ''add_sink'' then AddSink else Log path Map.empty)\<rparr>"
    using assms(2,3) by (auto simp: log_open_def Let_def split: question_splits)
  have "stream_ok c (H (i, p)) (pending bufs p) (sent_by T (i, p))" if "lg_handles s' i = Some (Log c bufs)" for i c bufs p
  proof (cases "i = lg_next_id s")
    case True
    then show ?thesis using that assms(1)
      by (auto simp: s' log_agrees_def pending_def stream_ok_start split: if_splits)
  next
    case False
    then show ?thesis using that assms(1) by (simp add: s' log_agrees_def)
  qed
  then show ?thesis using assms(1) by (simp add: log_agrees_def s' log_inv_def)
qed

lemma log_agrees_write:
  assumes ok: "log_agrees s H T" and run: "log_write fd buf off fl ctx s = (s', Ok n)"
  shows "log_agrees s' (H((fd, ctx_pid ctx) := H (fd, ctx_pid ctx) @ take n buf))
    (T @ map (Pair (fd, ctx_pid ctx)) (drop (length (lg_output_tx s)) (lg_output_tx s')))"
proof -
  let ?k = "(fd, ctx_pid ctx)"
  obtain h where h: "lg_handles s fd = Some h" using run by (auto simp: log_write_def split: question_splits)
  have n: "n = length buf" using run h by (auto simp: log_write_def Let_def split: log_handle.splits if_splits prod.splits)
  have fd: "fd < lg_next_id s" using log_invD ok h by (auto simp: log_agrees_def)
  show ?thesis
  proof (cases h)
    case AddSink
    then have s': "s' = s\<lparr>lg_output_tx := lg_output_tx s @ [CmdAddSink (string_of buf)]\<rparr>"
      using run h by (simp add: log_write_def split: if_splits)
    show ?thesis using ok h AddSink fd n by (auto simp: s' log_agrees_def log_inv_def)
  next
    case (Log c bufs)
    obtain hb tx where w: "write_logs c False buf (pending bufs (ctx_pid ctx)) (lg_output_tx s) = (hb, tx)" by fastforce
    then have s': "s' = s\<lparr>lg_handles := (lg_handles s)(fd \<mapsto> Log c (bufs(ctx_pid ctx \<mapsto> hb))), lg_output_tx := tx\<rparr>"
      using run h Log by (simp add: log_write_def pending_def Let_def)
    have "stream_ok c (H ?k) (pending bufs (ctx_pid ctx)) (sent_by T ?k)" using ok h Log by (simp add: log_agrees_def)
    from write_logs_stream [OF this w] obtain new where
      new: "tx = lg_output_tx s @ new" "stream_ok c (H ?k @ buf) hb (sent_by T ?k @ new)" by blast
    have "stream_ok c' ((H(?k := H ?k @ buf)) (i, p)) (pending bufs' p) (sent_by (T @ map (Pair ?k) new) (i, p))"
      if "lg_handles s' i = Some (Log c' bufs')" for i c' bufs' p
      using that new(2) ok h Log by (auto simp: s' log_agrees_def pending_def split: if_splits)
    then show ?thesis using ok fd n new(1) by (auto simp: s' log_agrees_def log_inv_def comp_def)
  qed
qed

lemma log_scheme_simps [simp]:
  "sc_open log_scheme = log_open" "sc_read log_scheme = log_read" "sc_write log_scheme = log_write"
  "sc_fcntl log_scheme = log_fcntl" "sc_fpath log_scheme = log_fpath" "sc_fsync log_scheme = log_fsync"
  "sc_on_close log_scheme = log_on_close"
  by (simp_all add: log_scheme_def)

lemma log_write_failed: "log_write fd buf off fl ctx s = (s', r) \<Longrightarrow> \<not> is_ok r \<Longrightarrow> s' = s"
  by (auto simp: log_write_def Let_def split: question_splits log_handle.splits if_splits prod.splits)

lemma log_call_agrees:
  assumes ok: "log_agrees s H T"
    and run: "handle_sync_dont_consume K log_scheme ctx oper s = ((s', oper'), r)" and np: "\<not> panicked r"
  shows "log_agrees s' (logd_written ctx oper r H)
    (T @ map (Pair (log_source ctx oper)) (drop (length (lg_output_tx s)) (lg_output_tx s')))"
proof (cases oper)
  case (OpOpen t path flags)
  obtain ro where o: "log_open path flags ctx s = (s', ro)" "r = Opened ro"
    using run OpOpen by (auto split: prod.splits)
  moreover have "lg_output_tx s' = lg_output_tx s" using o(1) by (auto simp: log_open_def Let_def split: question_splits)
  ultimately show ?thesis using log_agrees_open [OF ok o(1)] np OpOpen by simp
next
  case (OpWrite t fd buf off fl)
  obtain rw where w: "log_write fd buf off fl ctx s = (s', rw)" "r = Regular rw"
    using run OpWrite by (auto split: prod.splits)
  show ?thesis
  proof (cases rw)
    case (Ok n)
    then show ?thesis using log_agrees_write [OF ok] w OpWrite by simp
  qed (use log_write_failed [OF w(1)] ok w(2) OpWrite in simp_all)
qed (use run ok in \<open>auto simp: log_method_defs log_scheme_def default_scheme_def Let_def
      split: question_splits prod.splits option.splits\<close>)

lemma log_run_agrees: "log_run K s H T \<Longrightarrow> log_agrees s H T"
proof (induction rule: log_run.induct)
  case (log_close s H T i s' u)
  then show ?case by (auto simp: log_on_close_def log_agrees_def log_inv_def split: if_splits)
qed (simp_all add: log_agrees_start log_call_agrees)

section \<open>Properties\<close>

text \<open>
  C14. Log lines are never torn or mixed: on every run, for every open handle and process, cutting the
  bytes that process wrote to the handle after each newline gives exactly the lines sent for it to the
  output, in order and each behind the handle's name, with the unfinished rest held back, however the
  writes were divided and whatever other processes wrote in between.
\<close>

theorem log_lines_whole:
  assumes "log_run K s H T" "lg_handles s i = Some (Log c bufs)"
  shows "\<exists>ls r. H (i, p) = concat ls @ r \<and> list_all one_line ls \<and> 10 \<notin> set r \<and>
    sent_by T (i, p) = map (\<lambda>l. CmdLog (line_prefix c @ l)) ls \<and>
    pending bufs p = (if r = [] then [] else line_prefix c @ r) \<and> map snd T = lg_output_tx s"
  using log_run_agrees [OF assms(1)] assms(2) unfolding log_agrees_def stream_ok_def by metis

text \<open>Two processes share a handle and write \<open>a\<close>, \<open>x\<close> and \<open>b\<close> with a newline, in turn.\<close>

definition sample_pid :: "nat \<Rightarrow> caller_ctx" where
  "sample_pid p = sample_ctx\<lparr>ctx_pid := p\<rparr>"

lemma sample_log_run:
  "\<exists>s H T bufs. log_run K s H T \<and> lg_handles s 0 = Some (Log ''p'' bufs) \<and> H (0, 1) = [97, 98, 10] \<and>
     H (0, 2) = [120] \<and> sent_by T (0, 1) = [CmdLog (bytes_of ''p: '' @ [97, 98, 10])]"
proof -
  let ?s1 = "fst (log_open ''p'' 0 sample_ctx log_new)"
  let ?s2 = "fst (log_write 0 [97] 0 0 (sample_pid 1) ?s1)"
  let ?s3 = "fst (log_write 0 [120] 0 0 (sample_pid 2) ?s2)"
  let ?s4 = "fst (log_write 0 [98, 10] 0 0 (sample_pid 1) ?s3)"
  note ev = log_open_def log_write_def log_new_def usize_add_def sample_pid_def sample_ctx_def
  have "log_run K ?s1 (\<lambda>_. []) []"
    using log_call [OF log_start, of K sample_ctx "OpOpen 1 ''p'' 0" ?s1 "OpOpen 1 ''p'' 0" "Opened (Ok (ThisScheme 0 0))"]
    by (simp add: ev)
  from log_call [OF this, of "sample_pid 1" "OpWrite 1 0 [97] 0 0" ?s2 "OpWrite 1 0 [97] 0 0" "Regular (Ok 1)"]
  have "log_run K ?s2 ((\<lambda>_. [])((0, 1) := [97])) []" by (simp add: ev)
  from log_call [OF this, of "sample_pid 2" "OpWrite 1 0 [120] 0 0" ?s3 "OpWrite 1 0 [120] 0 0" "Regular (Ok 1)"]
  have "log_run K ?s3 ((\<lambda>_. [])((0, 1) := [97], (0, 2) := [120])) []" by (simp add: ev)
  from log_call [OF this, of "sample_pid 1" "OpWrite 1 0 [98, 10] 0 0" ?s4 "OpWrite 1 0 [98, 10] 0 0" "Regular (Ok 2)"]
  have "log_run K ?s4 ((\<lambda>_. [])((0, 2) := [120], (0, 1) := [97, 98, 10]))
      [((0, 1), CmdLog (bytes_of ''p: '' @ [97, 98, 10]))]"
    by (simp add: ev fun_upd_twist) (simp add: bytes_of_def fun_upd_twist)
  moreover obtain bufs where "lg_handles ?s4 0 = Some (Log ''p'' bufs)" by (simp add: ev)
  ultimately show ?thesis
    by (intro exI [of _ ?s4] exI [of _ bufs] exI conjI) (assumption | simp add: sent_by_def)+
qed

theorem log_lines_whole_witness:
  "\<exists>s H T bufs ls r. log_run sample_abi s H T \<and> lg_handles s 0 = Some (Log ''p'' bufs) \<and> H (0, 1) = [97, 98, 10] \<and>
     H (0, 1) = concat ls @ r \<and> list_all one_line ls \<and> sent_by T (0, 1) = map (\<lambda>l. CmdLog (line_prefix ''p'' @ l)) ls"
proof -
  obtain s H T bufs where run: "log_run sample_abi s H T" "lg_handles s 0 = Some (Log ''p'' bufs)" "H (0, 1) = [97, 98, 10]"
    using sample_log_run by blast
  with log_lines_whole [OF run(1,2), of 1] show ?thesis by blast
qed

text \<open>
  The thread that copies the kernel's log passes its whole buffer on, not the bytes it just read: a
  read of one line gives that line with the name \<open>kernel\<close> twice, and the unread rest of the buffer is
  taken as the beginning of the next line.
\<close>

lemma kernel_log_takes_whole_buffer:
  assumes "10 \<notin> set l" "length l < 4087"
  shows "kernel_thread [l @ [10], []] kernel_buf [] [] =
    (bytes_of ''kernel: '' @ replicate (4087 - length l) 0, [CmdLogKernel (bytes_of ''kernel: kernel: '' @ l @ [10])])"
proof -
  have plain: "write_logs c k xs hb tx = (if xs = [] then hb else (if hb = [] then line_prefix c else hb) @ xs, tx)"
    if "10 \<notin> set xs" "c \<noteq> []" for c k xs hb tx
    using that
    by (induction xs arbitrary: hb) (auto simp: line_prefix_def Let_def)
  have append: "write_logs c k (xs @ ys) hb tx = (let (hb', tx') = write_logs c k xs hb tx in write_logs c k ys hb' tx')"
    for c k xs ys hb tx
    by (induction xs arbitrary: hb tx) (simp_all add: Let_def)
  have buf: "copy_into kernel_buf (length (bytes_of ''kernel: '')) (l @ [10]) = (bytes_of ''kernel: '' @ l) @ [10] @ replicate (4087 - length l) 0"
    using assms(2) by (simp add: kernel_buf_def copy_into_def)
  have "10 \<notin> set (bytes_of ''kernel: '' @ l)" using assms(1) by (simp add: bytes_of_def)
  then have "write_logs ''kernel'' True (copy_into kernel_buf (length (bytes_of ''kernel: '')) (l @ [10])) [] [] =
    (bytes_of ''kernel: '' @ replicate (4087 - length l) 0, [CmdLogKernel (bytes_of ''kernel: kernel: '' @ l @ [10])])"
    using assms(2) unfolding buf append
    by (simp add: plain Let_def) (simp add: line_prefix_def bytes_of_def)
  then show ?thesis by (simp add: Let_def)
qed

end
