(* ===== verification/Randd.thy ===== *)
theory Randd
  imports Serial_Loop
begin

text \<open>
  The \<open>randd\<close> daemon (\<open>randd/src/main.rs\<close>). The generator of \<open>rand_chacha\<close> and the hash of \<open>sha2\<close> are
  parameters: a record of the functions the code calls. Hashing several inputs in turn is hashing
  their concatenation. File numbers are 64-bit words that wrap around, as in the source.
\<close>

section \<open>The random number generator\<close>

record 'g rand_env =
  re_abi :: abi
  re_from_seed :: "u8 list \<Rightarrow> 'g"
  re_set_stream :: "u64 \<Rightarrow> 'g \<Rightarrow> 'g"
  re_fill_bytes :: "nat \<Rightarrow> 'g \<Rightarrow> 'g \<times> u8 list"
  re_sha256 :: "u8 list \<Rightarrow> u8 list"

definition to_le_bytes :: "u64 \<Rightarrow> u8 list" where
  "to_le_bytes w = map (\<lambda>k. ucast (drop_bit (8 * k) w)) [0..<8]"

abbreviation SEED_BYTES :: nat where
  "SEED_BYTES \<equiv> 32"

text \<open>
  The seed on \<open>x86_64\<close>: whether the processor has \<open>rdrand\<close>, and what its executions return.
\<close>

definition create_rdrand_seed_x86_64 :: "bool option \<Rightarrow> (nat \<Rightarrow> u64) \<Rightarrow> u8 list outcome" where
  "create_rdrand_seed_x86_64 has_rdrand rdrand = (let rng = replicate SEED_BYTES 0 in
     and_then (unwrap has_rdrand) (\<lambda>has.
     Ok (if has then fold (\<lambda>i rng. copy_into rng (i * 8) (to_le_bytes (rdrand i))) [0..<SEED_BYTES div 8] rng
         else rng)))"

text \<open>
  The seed on \<open>aarch64\<close>: the hash of 64 samples of the counter, each with its round, and a last one.
\<close>

definition create_rdrand_seed_aarch64 :: "'g rand_env \<Rightarrow> (nat \<Rightarrow> u64) \<Rightarrow> u8 list outcome" where
  "create_rdrand_seed_aarch64 E cntvct = (let
       hash = re_sha256 E (concat (map (\<lambda>round. to_le_bytes (cntvct round) @ to_le_bytes (word_of_nat round)) [0..<64])
         @ to_le_bytes (cntvct 64)) in
     if length hash = SEED_BYTES then Ok hash else Panic)"

section \<open>Open files\<close>

definition MODE_WRITE :: u16 where "MODE_WRITE = 2"
definition MODE_READ :: u16 where "MODE_READ = 4"

record open_file_info =
  oi_flags :: u64
  oi_uid :: u32
  oi_gid :: u32
  oi_stat :: stat

definition permission :: "open_file_info \<Rightarrow> u16 \<Rightarrow> bool" where
  "permission f op = (let
       perm0 = st_mode (oi_stat f) AND 7;
       perm1 = (if oi_uid f = st_uid (oi_stat f) then perm0 OR (drop_bit 6 (st_mode (oi_stat f)) AND 7) else perm0);
       perm2 = (if oi_gid f = st_gid (oi_stat f) \<or> st_gid (oi_stat f) = 0
                then perm1 OR (drop_bit 3 (st_mode (oi_stat f)) AND 7) else perm1);
       perm3 = (if oi_uid f = 0 then perm2 OR 7 else perm2) in
     perm3 AND op = op)"

definition o_flag_set :: "open_file_info \<Rightarrow> u64 \<Rightarrow> bool" where
  "o_flag_set f flag = (flag AND oi_flags f = flag)"

section \<open>The scheme\<close>

record 'g rand =
  rs_prng :: 'g
  rs_prng_stat :: stat
  rs_open_descriptors :: "nat \<rightharpoonup> open_file_info"
  rs_next_fd :: u64

definition rand_new :: "'g rand_env \<Rightarrow> u8 list \<Rightarrow> 'g rand" where
  "rand_new E seed = \<lparr>rs_prng = re_from_seed E seed,
     rs_prng_stat = default_stat\<lparr>st_mode := MODE_CHR (re_abi E) OR 0x1A4, st_gid := 0, st_uid := 0\<rparr>,
     rs_open_descriptors = Map.empty, rs_next_fd = 0\<rparr>"

definition get_fd :: "nat \<Rightarrow> 'g rand \<Rightarrow> open_file_info outcome" where
  "get_fd fd s = ok_or EBADF (rs_open_descriptors s fd)"

definition can_perform_op_on_fd :: "nat \<Rightarrow> u16 \<Rightarrow> 'g rand \<Rightarrow> open_file_info outcome" where
  "can_perform_op_on_fd fd op s = and_then (get_fd fd s) (\<lambda>f. if \<not> permission f op then Err EPERM else Ok f)"

text \<open>\<open>copy_from_slice\<close> panics when the hash does not have the length of a seed.\<close>

definition reseed_prng :: "'g rand_env \<Rightarrow> u8 list \<Rightarrow> 'g rand \<Rightarrow> 'g rand \<times> unit outcome" where
  "reseed_prng E entropy s = (let hash = re_sha256 E entropy in
     if length hash = SEED_BYTES then (s\<lparr>rs_prng := re_from_seed E hash\<rparr>, Ok ()) else (s, Panic))"

text \<open>
  The loop that looks for the next unused file number; \<open>None\<close> is a loop that does not end, which
  leaves the request, and the daemon, without an answer: \<open>rand_open\<close> gives \<open>Panic\<close> for it.
\<close>

partial_function (option) next_free :: "(nat \<rightharpoonup> open_file_info) \<Rightarrow> u64 \<Rightarrow> u64 option" where
  "next_free m fd = (if m (unat fd) = None then Some fd else next_free m (fd + 1))"

definition rand_open ::
  "'g rand_env \<Rightarrow> string \<Rightarrow> u64 \<Rightarrow> caller_ctx \<Rightarrow> 'g rand \<Rightarrow> 'g rand \<times> open_result outcome" where
  "rand_open E path flags ctx s = (let K = re_abi E in
     if path \<noteq> [] \<and> path \<noteq> ''/urandom'' then (s, Err ENOENT)
     else if flags AND (O_CREAT K OR O_EXCL K) = O_CREAT K OR O_EXCL K then (s, Err EEXIST)
     else let
       fd = rs_next_fd s;
       f = \<lparr>oi_flags = flags, oi_uid = ctx_uid ctx, oi_gid = ctx_gid ctx, oi_stat = rs_prng_stat s\<rparr> in
     if (o_flag_set f (O_RDONLY K) \<or> o_flag_set f (O_RDWR K)) \<and> \<not> permission f MODE_READ then (s, Err EPERM)
     else if (o_flag_set f (O_WRONLY K) \<or> o_flag_set f (O_RDWR K)) \<and> \<not> permission f MODE_WRITE then (s, Err EPERM)
     else let s1 = s\<lparr>rs_open_descriptors := (rs_open_descriptors s)(unat fd \<mapsto> f)\<rparr> in
       question s1 (unwrap (next_free (rs_open_descriptors s1) (fd + 1))) (\<lambda>n.
       (s1\<lparr>rs_next_fd := n\<rparr>, Ok (ThisScheme (unat fd) 0))))"

definition rand_read ::
  "'g rand_env \<Rightarrow> nat \<Rightarrow> u8 list \<Rightarrow> nat \<Rightarrow> u32 \<Rightarrow> caller_ctx \<Rightarrow> 'g rand \<Rightarrow> ('g rand \<times> u8 list) \<times> nat outcome" where
  "rand_read E f buf offset flags ctx s =
     question (s, buf) (can_perform_op_on_fd f MODE_READ s) (\<lambda>_. let
       (g, bytes) = re_fill_bytes E (length buf) (re_set_stream E (word_of_nat f) (rs_prng s)) in
     ((s\<lparr>rs_prng := g\<rparr>, bytes), Ok (length buf)))"

definition rand_write ::
  "'g rand_env \<Rightarrow> nat \<Rightarrow> u8 list \<Rightarrow> nat \<Rightarrow> u32 \<Rightarrow> caller_ctx \<Rightarrow> 'g rand \<Rightarrow> 'g rand \<times> nat outcome" where
  "rand_write E f buf offset flags ctx s =
     question s (can_perform_op_on_fd f MODE_WRITE s) (\<lambda>_. let
       (g, rng_buf) = re_fill_bytes E SEED_BYTES (rs_prng s) in
     then_do (reseed_prng E (rng_buf @ buf) (s\<lparr>rs_prng := g\<rparr>)) (\<lambda>s' _. (s', Ok (length buf))))"

definition rand_fchmod :: "'g rand_env \<Rightarrow> nat \<Rightarrow> u16 \<Rightarrow> caller_ctx \<Rightarrow> 'g rand \<Rightarrow> 'g rand \<times> unit outcome" where
  "rand_fchmod E f mode ctx s =
     question s (get_fd f s) (\<lambda>info.
     if oi_uid info \<noteq> st_uid (oi_stat info) \<and> oi_uid info \<noteq> 0 then (s, Err EPERM)
     else (s\<lparr>rs_prng_stat := (rs_prng_stat s)\<lparr>st_mode := MODE_CHR (re_abi E) OR mode\<rparr>\<rparr>, Ok ()))"

definition rand_fchown :: "nat \<Rightarrow> u32 \<Rightarrow> u32 \<Rightarrow> caller_ctx \<Rightarrow> 'g rand \<Rightarrow> 'g rand \<times> unit outcome" where
  "rand_fchown f u g ctx s =
     question s (get_fd f s) (\<lambda>info.
     if oi_uid info \<noteq> st_uid (oi_stat info) \<and> oi_uid info \<noteq> 0 then (s, Err EPERM)
     else (s\<lparr>rs_prng_stat := (rs_prng_stat s)\<lparr>st_uid := u, st_gid := g\<rparr>\<rparr>, Ok ()))"

definition rand_fcntl :: "nat \<Rightarrow> u64 \<Rightarrow> u64 \<Rightarrow> caller_ctx \<Rightarrow> 'g rand \<Rightarrow> 'g rand \<times> nat outcome" where
  "rand_fcntl i cmd arg ctx s = (s, Ok 0)"

definition rand_fevent :: "'g rand_env \<Rightarrow> nat \<Rightarrow> u64 \<Rightarrow> caller_ctx \<Rightarrow> 'g rand \<Rightarrow> 'g rand \<times> u64 outcome" where
  "rand_fevent E i flags ctx s = (s, Ok (EVENT_READ (re_abi E)))"

definition rand_fpath :: "nat \<Rightarrow> u8 list \<Rightarrow> caller_ctx \<Rightarrow> 'g rand \<Rightarrow> ('g rand \<times> u8 list) \<times> nat outcome" where
  "rand_fpath f buf ctx s = (let
       scheme_path = bytes_of ''rand'';
       i = min (length buf) (length scheme_path) in
     ((s, copy_into buf 0 (take i scheme_path)), Ok i))"

definition rand_fstat :: "nat \<Rightarrow> stat \<Rightarrow> caller_ctx \<Rightarrow> 'g rand \<Rightarrow> ('g rand \<times> stat) \<times> unit outcome" where
  "rand_fstat f stat ctx s =
     question (s, stat) (can_perform_op_on_fd f MODE_READ s) (\<lambda>_. ((s, rs_prng_stat s), Ok ()))"

definition rand_on_close :: "nat \<Rightarrow> 'g rand \<Rightarrow> 'g rand \<times> unit outcome" where
  "rand_on_close f s = (s\<lparr>rs_open_descriptors := (rs_open_descriptors s)(f := None)\<rparr>, Ok ())"

definition rand_scheme :: "'g rand_env \<Rightarrow> 'g rand scheme_sync" where
  "rand_scheme E = default_scheme\<lparr>sc_open := rand_open E, sc_read := rand_read E, sc_write := rand_write E,
     sc_fchmod := rand_fchmod E, sc_fchown := rand_fchown, sc_fcntl := rand_fcntl, sc_fevent := rand_fevent E,
     sc_fpath := rand_fpath, sc_fstat := rand_fstat, sc_on_close := rand_on_close\<rparr>"

text \<open>The daemon's request loop, on a machine that gave the seed.\<close>

definition rand_daemon :: "'g rand_env \<Rightarrow> memory \<Rightarrow> u8 list \<Rightarrow> sqe list \<Rightarrow> 'g rand \<times> cqe list outcome" where
  "rand_daemon E M seed qs = serve_requests (re_abi E) M (rand_scheme E) qs (rand_new E seed)"

section \<open>The search for a file number\<close>

text \<open>Starting anywhere, the search ends at an unused number if there is one.\<close>

lemma next_free_steps:
  assumes "m (unat (fd + word_of_nat n)) = None"
  shows "\<exists>fd'. next_free m fd = Some fd'"
  using assms
proof (induction n arbitrary: fd)
  case 0
  then show ?case by (simp add: next_free.simps)
next
  case (Suc n)
  then have "\<exists>fd'. next_free m (fd + 1) = Some fd'" by (simp add: ac_simps)
  then show ?case by (subst next_free.simps) simp
qed

lemma next_free_returns:
  assumes "m (unat (fd' :: u64)) = None"
  shows "\<exists>n. next_free m fd = Some n"
  by (rule next_free_steps [of m fd "unat (fd' - fd)"]) (simp add: assms)

lemma next_free_unused: "next_free m fd = Some n \<Longrightarrow> m (unat n) = None"
proof (rule next_free.raw_induct [where P = "\<lambda>m fd n. m (unat n) = None"])
qed (auto split: if_splits)

lemma unat_lt64: "unat (w :: u64) < usize_range"
  using unsigned_less [where 'a = nat, of w] by simp

lemma exists_free:
  assumes "card (dom m) < usize_range" "dom m \<subseteq> {..<usize_range}"
  shows "\<exists>fd :: u64. m (unat fd) = None"
proof -
  have "dom m \<noteq> {..<usize_range}" using assms(1) by auto
  then obtain k where "k < usize_range" "k \<notin> dom m" using assms(2) by blast
  then have "m (unat (word_of_nat k :: u64)) = None" by (auto simp: unat_of_nat)
  then show ?thesis by blast
qed

section \<open>The contract\<close>

text \<open>The number kept for the next file is unused, and all numbers in use are 64-bit numbers.\<close>

definition rand_inv :: "'g rand \<Rightarrow> bool" where
  "rand_inv s \<longleftrightarrow> rs_open_descriptors s (unat (rs_next_fd s)) = None \<and> dom (rs_open_descriptors s) \<subseteq> {..<usize_range}"

lemmas rand_method_defs = rand_open_def rand_read_def rand_write_def rand_fchmod_def rand_fchown_def rand_fcntl_def
  rand_fevent_def rand_fpath_def rand_fstat_def rand_on_close_def reseed_prng_def

text \<open>\<open>open\<close> either refuses, or enters the file and looks for the next number.\<close>

definition rand_enter :: "string \<Rightarrow> u64 \<Rightarrow> caller_ctx \<Rightarrow> 'g rand \<Rightarrow> nat \<rightharpoonup> open_file_info" where
  "rand_enter path flags ctx s = (rs_open_descriptors s)(unat (rs_next_fd s) \<mapsto>
     \<lparr>oi_flags = flags, oi_uid = ctx_uid ctx, oi_gid = ctx_gid ctx, oi_stat = rs_prng_stat s\<rparr>)"

lemma rand_open_forms:
  obtains (refused) e where "rand_open E path flags ctx s = (s, Err e)"
  | (entered) "rand_open E path flags ctx s = (let s1 = s\<lparr>rs_open_descriptors := rand_enter path flags ctx s\<rparr> in
      question s1 (unwrap (next_free (rand_enter path flags ctx s) (rs_next_fd s + 1)))
      (\<lambda>n. (s1\<lparr>rs_next_fd := n\<rparr>, Ok (ThisScheme (unat (rs_next_fd s)) 0))))"
proof -
  let ?f = "\<lparr>oi_flags = flags, oi_uid = ctx_uid ctx, oi_gid = ctx_gid ctx, oi_stat = rs_prng_stat s\<rparr>"
  let ?s1 = "s\<lparr>rs_open_descriptors := (rs_open_descriptors s)(unat (rs_next_fd s) \<mapsto> ?f)\<rparr>"
  obtain s' r where eq: "rand_open E path flags ctx s = (s', r)" by (metis surj_pair)
  then have "(\<exists>e. (s', r) = (s, Err e)) \<or>
    (s', r) = question ?s1 (unwrap (next_free (rs_open_descriptors ?s1) (rs_next_fd s + 1)))
      (\<lambda>n. (?s1\<lparr>rs_next_fd := n\<rparr>, Ok (ThisScheme (unat (rs_next_fd s)) 0)))"
    unfolding rand_open_def Let_def by (metis (no_types, lifting))
  then show thesis using eq that by (auto simp: rand_enter_def Let_def)
qed

lemma rand_open_cases:
  assumes "rand_open E path flags ctx s = (s', r)" "r \<noteq> Panic"
  obtains (refused) "s' = s" "\<not> is_ok r"
  | (opened) f n where "r = Ok (ThisScheme (unat (rs_next_fd s)) 0)" "oi_stat f = rs_prng_stat s" "oi_uid f = ctx_uid ctx"
      "s' = s\<lparr>rs_open_descriptors := (rs_open_descriptors s)(unat (rs_next_fd s) \<mapsto> f), rs_next_fd := n\<rparr>"
      "next_free (rs_open_descriptors s') (rs_next_fd s + 1) = Some n"
proof (cases rule: rand_open_forms [of E path flags ctx s])
  case (refused e)
  then show thesis using assms(1) that(1) by simp
next
  case entered
  then obtain n where n: "next_free (rand_enter path flags ctx s) (rs_next_fd s + 1) = Some n"
    "s' = s\<lparr>rs_open_descriptors := rand_enter path flags ctx s, rs_next_fd := n\<rparr>"
    "r = Ok (ThisScheme (unat (rs_next_fd s)) 0)"
    using assms by (cases "next_free (rand_enter path flags ctx s) (rs_next_fd s + 1)") (simp_all add: Let_def)
  then show thesis by (intro that(2)) (simp_all add: rand_enter_def)
qed

lemma rand_open_keeps: "keeps rand_inv (rand_open E path flags ctx)"
proof (rule keepsI)
  fix s s' r
  assume inv: "rand_inv s" and run: "rand_open E path flags ctx s = (s', r)" and "r \<noteq> Panic"
  from run \<open>r \<noteq> Panic\<close> show "rand_inv s'"
  proof (cases rule: rand_open_cases)
    case (opened f n)
    then show ?thesis
      using inv next_free_unused [OF opened(5)] unat_lt64 [of "rs_next_fd s"] by (auto simp: rand_inv_def)
  qed (use inv in simp)
qed

lemma rand_method_keeps:
  "keeps rand_inv (rand_write E f buf off fl ctx)" "keeps rand_inv (rand_fchmod E f mode ctx)"
  "keeps rand_inv (rand_fchown f u g ctx)" "keeps rand_inv (rand_fcntl f cmd arg ctx)"
  "keeps rand_inv (rand_fevent E f fl' ctx)" "keeps rand_inv (rand_on_close f)"
  "keeps_with rand_inv (rand_read E f buf off fl ctx)" "keeps_with rand_inv (rand_fpath f buf ctx)"
  "keeps_with rand_inv (rand_fstat f st ctx)"
  by (auto simp: keeps_def keeps_with_def rand_method_defs Let_def rand_inv_def then_do_def
      split: question_splits if_splits prod.splits)

interpretation rand: scheme_methods "rand_scheme E" rand_inv for E
  by unfold_locales (simp_all add: rand_scheme_def default_scheme_def rand_open_keeps rand_method_keeps)

section \<open>Permissions\<close>

text \<open>
  The access a file number gives, bit by bit: to everybody, to the owner, to the group (or to
  everybody when the group is 0), and to root.
\<close>

definition granted :: "nat \<Rightarrow> open_file_info \<Rightarrow> bool" where
  "granted n f \<longleftrightarrow> oi_uid f = 0 \<or> bit (st_mode (oi_stat f)) n \<or>
     oi_uid f = st_uid (oi_stat f) \<and> bit (st_mode (oi_stat f)) (n + 6) \<or>
     (oi_gid f = st_gid (oi_stat f) \<or> st_gid (oi_stat f) = 0) \<and> bit (st_mode (oi_stat f)) (n + 3)"

lemma and_bit_iff: "n < 16 \<Longrightarrow> w AND push_bit n 1 = push_bit n 1 \<longleftrightarrow> bit (w :: u16) n"
  using and_single_bit [of w n] by (auto simp: bit_eq_iff bit_simps)

lemma permission_granted:
  assumes "n < 3"
  shows "permission f (push_bit n 1) \<longleftrightarrow> granted n f"
proof -
  have seven: "bit (7 :: u16) n"
    using assms by (auto simp: numeral_eq_Suc less_Suc_eq bit_simps)
  show ?thesis
    using assms and_bit_iff [of n] seven
    by (auto simp: permission_def granted_def Let_def bit_simps ac_simps)
qed

lemma can_perform_granted:
  "can_perform_op_on_fd fd MODE_READ s =
     (case rs_open_descriptors s fd of None \<Rightarrow> Err EBADF | Some f \<Rightarrow> if granted 2 f then Ok f else Err EPERM)"
  "can_perform_op_on_fd fd MODE_WRITE s =
     (case rs_open_descriptors s fd of None \<Rightarrow> Err EBADF | Some f \<Rightarrow> if granted 1 f then Ok f else Err EPERM)"
  using permission_granted [of 2] permission_granted [of 1]
  by (auto simp: can_perform_op_on_fd_def get_fd_def MODE_READ_def MODE_WRITE_def split: option.splits)

section \<open>Runs\<close>

inductive rand_run :: "'g rand_env \<Rightarrow> 'g rand \<Rightarrow> bool" for E where
  rand_start: "rand_run E (rand_new E seed)"
| rand_call: "rand_run E s \<Longrightarrow>
    handle_sync_dont_consume (re_abi E) (rand_scheme E) ctx oper s = ((s', oper'), r) \<Longrightarrow> \<not> panicked r \<Longrightarrow>
    rand_run E s'"
| rand_close: "rand_run E s \<Longrightarrow> rand_on_close i s = (s', Ok u) \<Longrightarrow> rand_run E s'"

lemma rand_run_inv: "rand_run E s \<Longrightarrow> rand_inv s"
proof (induction rule: rand_run.induct)
  case (rand_start seed)
  then show ?case by (simp add: rand_inv_def rand_new_def)
next
  case (rand_call s ctx oper s' oper' r)
  then show ?case using rand.handle_keeps by blast
next
  case (rand_close s i s' u)
  then show ?case using rand_method_keeps(6) [of i] by (auto dest: keepsD)
qed

text \<open>A counter in place of the generator, and an instance where one file is open.\<close>

definition sample_rand_env :: "nat rand_env" where
  "sample_rand_env = \<lparr>re_abi = sample_abi, re_from_seed = length, re_set_stream = (\<lambda>k g. g),
     re_fill_bytes = (\<lambda>n g. (g + 1, replicate n (word_of_nat g))), re_sha256 = resize 32 0\<rparr>"

definition sample_rand :: "nat rand" where
  "sample_rand = fst (rand_open sample_rand_env [] 0 sample_ctx (rand_new sample_rand_env []))"

lemma sample_rand_open:
  "rand_open sample_rand_env [] 0 sample_ctx (rand_new sample_rand_env []) = (sample_rand, Ok (ThisScheme 0 0))"
  "rs_open_descriptors sample_rand = [0 \<mapsto> \<lparr>oi_flags = 0, oi_uid = 0, oi_gid = 0,
     oi_stat = default_stat\<lparr>st_mode := 0x21A4, st_gid := 0, st_uid := 0\<rparr>\<rparr>]"
  "rs_next_fd sample_rand = 1"
  by (simp_all add: sample_rand_def rand_open_def rand_new_def sample_rand_env_def sample_abi_def sample_ctx_def
      o_flag_set_def next_free.simps)

lemma sample_rand_run: "rand_run sample_rand_env sample_rand"
  using rand_call [OF rand_start, of sample_rand_env sample_ctx "OpOpen 1 [] 0" "[]"] sample_rand_open(1)
  by (simp add: rand_scheme_def)

section \<open>Properties\<close>

text \<open>
  C17. Open files never share a number: on every run, a successful \<open>open\<close> returns a number that is not in
  use, even after the counter has wrapped around, and changes no other entry of the table.
\<close>

theorem rand_open_fresh:
  assumes "rand_run E s" "rand_open E path flags ctx s = (s', Ok r)"
  shows "\<exists>i f. r = ThisScheme i 0 \<and> rs_open_descriptors s i = None \<and>
    rs_open_descriptors s' = (rs_open_descriptors s)(i \<mapsto> f) \<and> oi_stat f = rs_prng_stat s \<and> oi_uid f = ctx_uid ctx"
proof -
  from assms(2) outcome.distinct(3) show ?thesis
  proof (cases rule: rand_open_cases)
    case (opened f n)
    then show ?thesis using rand_run_inv [OF assms(1)]
      by (intro exI [of _ "unat (rs_next_fd s)"] exI [of _ f]) (simp add: rand_inv_def)
  qed simp_all
qed

theorem rand_open_fresh_witness:
  "\<exists>s' i f. rand_open sample_rand_env [] 0 sample_ctx sample_rand = (s', Ok (ThisScheme i 0)) \<and>
     rs_open_descriptors sample_rand i = None \<and> rs_open_descriptors s' = (rs_open_descriptors sample_rand)(i \<mapsto> f)"
proof -
  have "rand_open sample_rand_env [] 0 sample_ctx sample_rand =
      (fst (rand_open sample_rand_env [] 0 sample_ctx sample_rand), Ok (ThisScheme 1 0))"
    by (simp add: rand_open_def sample_rand_open sample_rand_env_def sample_abi_def sample_ctx_def o_flag_set_def
        permission_def next_free.simps)
  from this rand_open_fresh [OF sample_rand_run this] show ?thesis by blast
qed

text \<open>
  C33. The search for the next file number ends: while fewer than \<open>2^64 - 1\<close> files are open, \<open>open\<close>
  always returns, with a file number or an error.
\<close>

theorem rand_open_returns:
  assumes "rand_run E s" "card (dom (rs_open_descriptors s)) < usize_range - 1"
  shows "snd (rand_open E path flags ctx s) \<noteq> Panic"
proof -
  let ?m = "rand_enter path flags ctx s"
  have dom: "dom ?m = insert (unat (rs_next_fd s)) (dom (rs_open_descriptors s))" by (simp add: rand_enter_def)
  have "dom (rs_open_descriptors s) \<subseteq> {..<usize_range}"
    using rand_run_inv [OF assms(1)] by (simp add: rand_inv_def)
  then have "dom ?m \<subseteq> {..<usize_range}" "finite (dom (rs_open_descriptors s))"
    using unat_lt64 [of "rs_next_fd s"] finite_subset by (auto simp: dom)
  moreover from this have "card (dom ?m) < usize_range" using assms(2) by (simp add: dom card_insert_if)
  ultimately obtain n where n: "next_free ?m (rs_next_fd s + 1) = Some n"
    using exists_free next_free_returns by metis
  show ?thesis by (cases rule: rand_open_forms [of E path flags ctx s]) (simp_all add: n Let_def)
qed

theorem rand_open_returns_witness: "snd (rand_open sample_rand_env [] 0 sample_ctx sample_rand) \<noteq> Panic"
  using rand_open_returns [OF sample_rand_run] by (simp add: sample_rand_open(2))

text \<open>
  Access is decided by the permission bits the file had when it was opened: on every branch, reading
  fails with \<open>EBADF\<close> for a number that is not open, with \<open>EPERM\<close> unless a read bit is granted to the
  caller who opened it, and returns the whole buffer otherwise; writing likewise with the write bit.
\<close>

lemma rand_access:
  assumes "\<And>xs. length (re_sha256 E xs) = SEED_BYTES"
  shows "snd (rand_read E i buf off fl ctx s) = (case rs_open_descriptors s i of None \<Rightarrow> Err EBADF
      | Some f \<Rightarrow> if granted 2 f then Ok (length buf) else Err EPERM) \<and>
    snd (rand_write E i buf off fl ctx s) = (case rs_open_descriptors s i of None \<Rightarrow> Err EBADF
      | Some f \<Rightarrow> if granted 1 f then Ok (length buf) else Err EPERM)"
  using assms
  by (simp add: rand_read_def rand_write_def can_perform_granted reseed_prng_def Let_def split: option.splits prod.splits)

end
