(* ===== verification/Pty.thy ===== *)
theory Pty
  imports Serial_Loop
begin

text \<open>
  A pseudo terminal and its line discipline (\<open>ptyd/src/pty.rs\<close>). The layout of \<open>Termios\<close>, its flags and
  the indices of the control characters belong to the \<open>redox_termios\<close> crate and are a record of
  parameters. The settings and the window size are the bytes the code exposes; the flags are read from
  the bytes. Signals sent with \<open>kill\<close>, whose result the code ignores, are recorded in \<open>py_kills\<close>.
\<close>

section \<open>Parameters and state\<close>

record tty =
  c_iflag :: "u8 list \<Rightarrow> u32"
  c_oflag :: "u8 list \<Rightarrow> u32"
  c_lflag :: "u8 list \<Rightarrow> u32"
  c_cc :: "u8 list \<Rightarrow> nat \<Rightarrow> u8"
  INLCR :: u32
  IGNCR :: u32
  ICRNL :: u32
  OPOST :: u32
  ONLCR :: u32
  ECHO :: u32
  ECHOE :: u32
  ECHONL :: u32
  ICANON :: u32
  ISIG :: u32
  IEXTEN :: u32
  IXON :: u32
  VEOF :: nat
  VEOL :: nat
  VEOL2 :: nat
  VERASE :: nat
  VWERASE :: nat
  VKILL :: nat
  VREPRINT :: nat
  VINTR :: nat
  VQUIT :: nat
  VSUSP :: nat
  VSTART :: nat
  VSTOP :: nat
  VLNEXT :: nat
  VDISCARD :: nat
  VMIN :: nat
  VTIME :: nat
  SIGINT :: nat
  SIGQUIT :: nat
  SIGTSTP :: nat
  termios_default :: "u8 list"
  winsize_default :: "u8 list"

record pty =
  py_id :: nat
  py_pgrp :: nat
  py_termios :: "u8 list"
  py_winsize :: "u8 list"
  py_cooked :: "u8 list"
  py_miso :: "u8 list list"
  py_mosi :: "u8 list list"
  py_timeout_count :: u64
  py_timeout_character :: "u64 option"
  py_kills :: "(nat \<times> nat) list"

definition pty_new :: "tty \<Rightarrow> nat \<Rightarrow> pty" where
  "pty_new T i = \<lparr>py_id = i, py_pgrp = 0, py_termios = termios_default T, py_winsize = winsize_default T,
     py_cooked = [], py_miso = [], py_mosi = [], py_timeout_count = 0, py_timeout_character = None, py_kills = []\<rparr>"

text \<open>The decimal digits of a number, as \<open>{}\<close> prints it.\<close>

fun decimal :: "nat \<Rightarrow> string" where
  "decimal n = (if n < 10 then [] else decimal (n div 10)) @ [char_of (48 + n mod 10)]"

text \<open>\<open>write!\<close> into a cursor over the buffer keeps what fits.\<close>

definition pty_path :: "u8 list \<Rightarrow> pty \<Rightarrow> u8 list \<times> nat outcome" where
  "pty_path buf p = (let bytes = take (length buf) (bytes_of (''/scheme/pty/'' @ decimal (py_id p))) in
     (copy_into buf 0 bytes, Ok (length bytes)))"

section \<open>Output\<close>

abbreviation iflag :: "tty \<Rightarrow> pty \<Rightarrow> u32 \<Rightarrow> bool" where
  "iflag T p f \<equiv> c_iflag T (py_termios p) AND f = f"

abbreviation oflag :: "tty \<Rightarrow> pty \<Rightarrow> u32 \<Rightarrow> bool" where
  "oflag T p f \<equiv> c_oflag T (py_termios p) AND f = f"

abbreviation lflag :: "tty \<Rightarrow> pty \<Rightarrow> u32 \<Rightarrow> bool" where
  "lflag T p f \<equiv> c_lflag T (py_termios p) AND f = f"

definition pty_output :: "tty \<Rightarrow> u8 list \<Rightarrow> pty \<Rightarrow> pty" where
  "pty_output T buf p = (let
       vec = 0 # concat (map (\<lambda>b. if oflag T p (OPOST T) \<and> oflag T p (ONLCR T) \<and> b = 10 then [13, b] else [b]) buf) in
     p\<lparr>py_miso := py_miso p @ [vec]\<rparr>)"

section \<open>Delivery of raw input\<close>

text \<open>\<open>self.mosi.push_back(self.cooked.clone()); self.cooked.clear()\<close>.\<close>

definition push_line :: "pty \<Rightarrow> pty" where
  "push_line p = p\<lparr>py_mosi := py_mosi p @ [py_cooked p], py_cooked := []\<rparr>"

definition pty_update :: "tty \<Rightarrow> pty \<Rightarrow> pty" where
  "pty_update T p = (let
       vmin = unat (c_cc T (py_termios p) (VMIN T));
       vtime = ucast (c_cc T (py_termios p) (VTIME T)) :: u64 in
     if lflag T p (ICANON T) then p
     else if vtime = 0 then
       if vmin = 0 then (if py_mosi p = [] then push_line p else p)
       else (if vmin \<le> length (py_cooked p) then push_line p else p)
     else if vmin = 0 then
       if py_cooked p \<noteq> [] then push_line p
       else case py_timeout_character p of
         Some c \<Rightarrow>
           if c + vtime \<le> py_timeout_count p then
             let p1 = p\<lparr>py_timeout_character := None\<rparr> in
             if py_mosi p1 = [] then push_line p1 else p1
           else p
       | None \<Rightarrow> p\<lparr>py_timeout_character := Some (py_timeout_count p)\<rparr>
     else if vmin \<le> length (py_cooked p) then push_line p
     else if py_cooked p \<noteq> [] then
       case py_timeout_character p of
         Some c \<Rightarrow> if c + vtime \<le> py_timeout_count p then push_line (p\<lparr>py_timeout_character := None\<rparr>) else p
       | None \<Rightarrow> p
     else p)"

definition pty_timeout :: "tty \<Rightarrow> u64 \<Rightarrow> pty \<Rightarrow> pty" where
  "pty_timeout T ct p =
     (if py_timeout_count p \<noteq> ct then pty_update T (p\<lparr>py_timeout_count := ct\<rparr>) else p)"

section \<open>Input\<close>

definition is_cc :: "tty \<Rightarrow> pty \<Rightarrow> u8 \<Rightarrow> nat \<Rightarrow> bool" where
  "is_cc T p b i = (b \<noteq> 0 \<and> b = c_cc T (py_termios p) i)"

definition is_vdisable :: "tty \<Rightarrow> pty \<Rightarrow> nat \<Rightarrow> bool" where
  "is_vdisable T p i = (c_cc T (py_termios p) i = 0)"

definition cook :: "u8 \<Rightarrow> pty \<Rightarrow> pty" where
  "cook b p = p\<lparr>py_cooked := py_cooked p @ [b]\<rparr>"

definition echo_if :: "tty \<Rightarrow> bool \<Rightarrow> u8 list \<Rightarrow> pty \<Rightarrow> pty" where
  "echo_if T c bytes p = (if c then pty_output T bytes p else p)"

text \<open>
  One \<open>if cond { action; b = 0; }\<close> of the loop body, on the terminal and the current byte. A byte that
  has become 0 is used up.
\<close>

definition consume :: "(pty \<Rightarrow> u8 \<Rightarrow> bool) \<Rightarrow> (u8 \<Rightarrow> pty \<Rightarrow> pty) \<Rightarrow> pty \<times> u8 \<Rightarrow> pty \<times> u8" where
  "consume cond action pb = (case pb of (p, b) \<Rightarrow> if cond p b then (action b p, 0) else (p, b))"

definition input_translate :: "tty \<Rightarrow> pty \<Rightarrow> u8 \<Rightarrow> u8" where
  "input_translate T p b =
     (if b = 10 then (if iflag T p (INLCR T) then 13 else b)
      else if b = 13 then (if iflag T p (IGNCR T) then 0 else if iflag T p (ICRNL T) then 10 else b)
      else b)"

definition end_line :: "tty \<Rightarrow> u8 \<Rightarrow> pty \<Rightarrow> pty" where
  "end_line T b p = push_line (cook b (echo_if T (lflag T p (ECHO T)) [b] p))"

definition erase :: "tty \<Rightarrow> u8 \<Rightarrow> pty \<Rightarrow> pty" where
  "erase T b p = (if py_cooked p = [] then p
     else echo_if T (lflag T p (ECHOE T)) [8, 32, 8] (p\<lparr>py_cooked := butlast (py_cooked p)\<rparr>))"

definition input_canon :: "tty \<Rightarrow> pty \<times> u8 \<Rightarrow> pty \<times> u8" where
  "input_canon T pb0 = (let
       pb1 = consume (\<lambda>p b. b = 10)
         (\<lambda>b p. push_line (cook b (echo_if T (lflag T p (ECHO T) \<or> lflag T p (ECHONL T)) [b] p))) pb0;
       pb2 = consume (\<lambda>p b. is_cc T p b (VEOF T)) (\<lambda>b p. push_line p) pb1;
       pb3 = consume (\<lambda>p b. is_cc T p b (VEOL T)) (end_line T) pb2;
       pb4 = consume (\<lambda>p b. is_cc T p b (VEOL2 T)) (end_line T) pb3;
       pb5 = consume (\<lambda>p b. is_cc T p b (VERASE T) \<and> \<not> is_vdisable T p (VERASE T)) (erase T) pb4;
       pb6 = consume (\<lambda>p b. is_cc T p b (VWERASE T) \<and> lflag T p (IEXTEN T)) (\<lambda>b p. p) pb5;
       pb7 = consume (\<lambda>p b. is_cc T p b (VKILL T)) (\<lambda>b p. p) pb6 in
     consume (\<lambda>p b. is_cc T p b (VREPRINT T) \<and> lflag T p (IEXTEN T)) (\<lambda>b p. p) pb7)"

definition send_signal :: "nat \<Rightarrow> u8 \<Rightarrow> pty \<Rightarrow> pty" where
  "send_signal sig b p = (if py_pgrp p \<noteq> 0 then p\<lparr>py_kills := py_kills p @ [(py_pgrp p, sig)]\<rparr> else p)"

definition input_signals :: "tty \<Rightarrow> pty \<times> u8 \<Rightarrow> pty \<times> u8" where
  "input_signals T pb0 = (let
       pb1 = consume (\<lambda>p b. is_cc T p b (VINTR T) \<and> \<not> is_vdisable T p (VINTR T)) (send_signal (SIGINT T)) pb0;
       pb2 = consume (\<lambda>p b. is_cc T p b (VQUIT T) \<and> \<not> is_vdisable T p (VQUIT T)) (send_signal (SIGQUIT T)) pb1 in
     consume (\<lambda>p b. is_cc T p b (VSUSP T) \<and> \<not> is_vdisable T p (VSUSP T)) (send_signal (SIGTSTP T)) pb2)"

definition input_flow :: "tty \<Rightarrow> pty \<times> u8 \<Rightarrow> pty \<times> u8" where
  "input_flow T pb = consume (\<lambda>p b. is_cc T p b (VSTOP T)) (\<lambda>b p. p)
     (consume (\<lambda>p b. is_cc T p b (VSTART T)) (\<lambda>b p. p) pb)"

definition input_literal :: "tty \<Rightarrow> pty \<times> u8 \<Rightarrow> pty \<times> u8" where
  "input_literal T pb = consume (\<lambda>p b. is_cc T p b (VDISCARD T) \<and> lflag T p (IEXTEN T)) (\<lambda>b p. p)
     (consume (\<lambda>p b. is_cc T p b (VLNEXT T) \<and> lflag T p (IEXTEN T)) (\<lambda>b p. p) pb)"

definition input_byte :: "tty \<Rightarrow> u8 \<Rightarrow> pty \<Rightarrow> pty" where
  "input_byte T byte p0 = (let
       pb0 = (p0, input_translate T p0 byte);
       pb1 = (if lflag T p0 (ICANON T) then input_canon T pb0 else pb0);
       pb2 = (if lflag T p0 (ISIG T) then input_signals T pb1 else pb1);
       pb3 = (if lflag T p0 (IXON T) then input_flow T pb2 else pb2);
       (p, b) = input_literal T pb3 in
     if b \<noteq> 0 then
       let p1 = echo_if T (lflag T p0 (ECHO T)) [b] p in
       cook b (p1\<lparr>py_timeout_character := Some (py_timeout_count p1)\<rparr>)
     else p)"

definition pty_input :: "tty \<Rightarrow> u8 list \<Rightarrow> pty \<Rightarrow> pty" where
  "pty_input T buf p = pty_update T (fold (input_byte T) buf p)"

section \<open>Settings are kept\<close>

lemma termios_steps [simp]:
  "py_termios (pty_output T buf p) = py_termios p" "py_termios (echo_if T c buf p) = py_termios p"
  "py_termios (push_line p) = py_termios p" "py_termios (cook b p) = py_termios p"
  "py_termios (end_line T b p) = py_termios p" "py_termios (erase T b p) = py_termios p"
  "py_termios (send_signal s b p) = py_termios p" "py_termios (pty_update T p) = py_termios p"
  by (simp_all add: pty_output_def echo_if_def push_line_def cook_def end_line_def erase_def send_signal_def
      pty_update_def Let_def split: option.splits)

lemma id_steps [simp]:
  "py_id (pty_output T buf p) = py_id p" "py_id (echo_if T c buf p) = py_id p"
  "py_id (push_line p) = py_id p" "py_id (cook b p) = py_id p"
  "py_id (end_line T b p) = py_id p" "py_id (erase T b p) = py_id p"
  "py_id (send_signal s b p) = py_id p" "py_id (pty_update T p) = py_id p"
  by (simp_all add: pty_output_def echo_if_def push_line_def cook_def end_line_def erase_def send_signal_def
      pty_update_def Let_def split: option.splits)

text \<open>What every action keeps, the whole body keeps.\<close>

lemma consume_keeps: "(\<And>b p. f (action b p) = f p) \<Longrightarrow> f (fst (consume c action pb)) = f (fst pb)"
  by (cases pb) (simp add: consume_def)

lemma input_stages_keep:
  assumes "\<And>b p. f (end_line T b p) = f p" "\<And>p. f (push_line p) = f p" "\<And>b p. f (cook b p) = f p"
    and "\<And>c bs p. f (echo_if T c bs p) = f p" "\<And>b p. f (erase T b p) = f p" "\<And>s b p. f (send_signal s b p) = f p"
  shows "f (fst (input_canon T pb)) = f (fst pb)" "f (fst (input_signals T pb)) = f (fst pb)"
    "f (fst (input_flow T pb)) = f (fst pb)" "f (fst (input_literal T pb)) = f (fst pb)"
  using assms by (simp_all add: input_canon_def input_signals_def input_flow_def input_literal_def Let_def consume_keeps)

lemma input_byte_keeps:
  assumes "\<And>b p. f (end_line T b p) = f p" "\<And>p. f (push_line p) = f p" "\<And>b p. f (cook b p) = f p"
    and "\<And>c bs p. f (echo_if T c bs p) = f p" "\<And>b p. f (erase T b p) = f p" "\<And>s b p. f (send_signal s b p) = f p"
    and "\<And>p t. f (p\<lparr>py_timeout_character := t\<rparr>) = f p"
  shows "f (input_byte T b p) = f p"
  using input_stages_keep [where f = f, OF assms(1-6)] assms(3,4,7)
  by (simp add: input_byte_def Let_def split_beta)

lemma termios_input_byte [simp]: "py_termios (input_byte T b p) = py_termios p"
  by (rule input_byte_keeps) simp_all

lemma id_input_byte [simp]: "py_id (input_byte T b p) = py_id p"
  by (rule input_byte_keeps) simp_all

lemma id_pty_input [simp]: "py_id (pty_input T buf p) = py_id p"
proof -
  have "py_id (fold (input_byte T) buf p) = py_id p" by (induction buf arbitrary: p) simp_all
  then show ?thesis by (simp add: pty_input_def)
qed

end
