(* ===== verification/Ptyd.thy ===== *)
theory Ptyd
  imports Pty
begin

text \<open>
  The \<open>ptyd\<close> daemon: the five kinds of resources behind a handle (\<open>controlterm.rs\<close>, \<open>subterm.rs\<close>,
  \<open>pgrp.rs\<close>, \<open>termios.rs\<close>, \<open>winsize.rs\<close>), the scheme (\<open>scheme.rs\<close>) and the event loop (\<open>main.rs\<close>).

  A terminal is owned by its control handle: the only \<open>Rc\<close> to it is in that handle, so the model keeps
  the terminal there. A \<open>Weak\<close> pointer is the id of the control handle, and upgrading it succeeds while
  that handle is open. Ids are not used twice, so an id stands for one terminal for ever.
\<close>

section \<open>State\<close>

record pty_env =
  pe_abi :: abi
  pe_tty :: tty

datatype resource =
    PtyControlTerm pty u64 bool bool
  | PtySubTerm nat u64 bool bool
  | PtyPgrp nat u64
  | PtyTermios nat u64
  | PtyWinsize nat u64

record ptys =
  pt_next_id :: nat
  pt_handles :: "nat \<rightharpoonup> resource"

definition pty_scheme_new :: ptys where
  "pty_scheme_new = \<lparr>pt_next_id = 0, pt_handles = Map.empty\<rparr>"

text \<open>\<open>Resource::pty\<close>, \<open>Resource::flags\<close>, \<open>Weak::upgrade\<close> and \<open>Rc::weak_count\<close>.\<close>

fun res_pty :: "resource \<Rightarrow> nat" where
  "res_pty (PtyControlTerm p f r w) = py_id p"
| "res_pty (PtySubTerm k f r w) = k"
| "res_pty (PtyPgrp k f) = k"
| "res_pty (PtyTermios k f) = k"
| "res_pty (PtyWinsize k f) = k"

fun res_flags :: "resource \<Rightarrow> u64" where
  "res_flags (PtyControlTerm p f r w) = f"
| "res_flags (PtySubTerm k f r w) = f"
| "res_flags (PtyPgrp k f) = f"
| "res_flags (PtyTermios k f) = f"
| "res_flags (PtyWinsize k f) = f"

fun set_res_flags :: "u64 \<Rightarrow> resource \<Rightarrow> resource" where
  "set_res_flags g (PtyControlTerm p f r w) = PtyControlTerm p g r w"
| "set_res_flags g (PtySubTerm k f r w) = PtySubTerm k g r w"
| "set_res_flags g (PtyPgrp k f) = PtyPgrp k g"
| "set_res_flags g (PtyTermios k f) = PtyTermios k g"
| "set_res_flags g (PtyWinsize k f) = PtyWinsize k g"

fun is_weak_to :: "nat \<Rightarrow> resource \<Rightarrow> bool" where
  "is_weak_to k (PtyControlTerm p f r w) = False"
| "is_weak_to k res = (res_pty res = k)"

definition upgrade :: "nat \<Rightarrow> ptys \<Rightarrow> pty option" where
  "upgrade k s = (case pt_handles s k of Some (PtyControlTerm p f r w) \<Rightarrow> Some p | _ \<Rightarrow> None)"

definition weak_count :: "nat \<Rightarrow> ptys \<Rightarrow> nat" where
  "weak_count k s = length (filter (\<lambda>i. case pt_handles s i of Some res \<Rightarrow> is_weak_to k res | None \<Rightarrow> False)
     [0..<pt_next_id s])"

definition set_handle :: "nat \<Rightarrow> resource \<Rightarrow> ptys \<Rightarrow> ptys" where
  "set_handle i res s = s\<lparr>pt_handles := (pt_handles s)(i \<mapsto> res)\<rparr>"

text \<open>A change of the terminal behind a weak pointer.\<close>

definition set_pty :: "nat \<Rightarrow> pty \<Rightarrow> ptys \<Rightarrow> ptys" where
  "set_pty k p s = (case pt_handles s k of
       Some (PtyControlTerm p' f r w) \<Rightarrow> set_handle k (PtyControlTerm p f r w) s
     | _ \<Rightarrow> s)"

section \<open>Resources\<close>

text \<open>The copying loops of \<open>read\<close>: as much of the source as fits.\<close>

definition copy_out :: "u8 list \<Rightarrow> u8 list \<Rightarrow> u8 list \<times> nat" where
  "copy_out buf src = (let n = min (length buf) (length src) in (copy_into buf 0 (take n src), n))"

definition u32_ne_bytes :: "u32 \<Rightarrow> u8 list" where
  "u32_ne_bytes w = map (\<lambda>k. ucast (drop_bit (8 * k) w)) [0..<4]"

definition u32_from_ne_bytes :: "u8 list \<Rightarrow> u32" where
  "u32_from_ne_bytes bs = foldr (\<lambda>b w. ucast b OR push_bit 8 w) bs 0"

definition control_read ::
  "abi \<Rightarrow> nat \<Rightarrow> pty \<Rightarrow> u64 \<Rightarrow> bool \<Rightarrow> u8 list \<Rightarrow> ptys \<Rightarrow> (ptys \<times> u8 list) \<times> nat outcome" where
  "control_read K i p f w buf s = (case py_miso p of
       packet # rest \<Rightarrow> (let
           (buf', n) = copy_out buf packet;
           miso = (if n < length packet then (packet ! 0 # drop n packet) # rest else rest) in
         ((set_handle i (PtyControlTerm (p\<lparr>py_miso := miso\<rparr>) f False w) s, buf'), Ok n))
     | [] \<Rightarrow> ((set_handle i (PtyControlTerm p f False w) s, buf),
         if f AND O_NONBLOCK K = O_NONBLOCK K \<or> weak_count (py_id p) s = 0 then Err EAGAIN else Err EWOULDBLOCK))"

definition sub_read ::
  "pty_env \<Rightarrow> nat \<Rightarrow> nat \<Rightarrow> u64 \<Rightarrow> bool \<Rightarrow> u8 list \<Rightarrow> ptys \<Rightarrow> (ptys \<times> u8 list) \<times> nat outcome" where
  "sub_read E i k f w buf s0 = (let s = set_handle i (PtySubTerm k f False w) s0 in
     case upgrade k s of
       None \<Rightarrow> ((s, buf), Ok 0)
     | Some p0 \<Rightarrow> (let p = pty_update (pe_tty E) p0 in
         case py_mosi p of
           packet # rest \<Rightarrow> (let
               (buf', n) = copy_out buf packet;
               mosi = (if n < length packet then drop n packet # rest else rest) in
             ((set_pty k (p\<lparr>py_mosi := mosi\<rparr>) s, buf'), Ok n))
         | [] \<Rightarrow> ((set_pty k p s, buf),
             if f AND O_NONBLOCK (pe_abi E) = O_NONBLOCK (pe_abi E) then Err EAGAIN else Err EWOULDBLOCK)))"

definition control_write :: "pty_env \<Rightarrow> nat \<Rightarrow> pty \<Rightarrow> u64 \<Rightarrow> bool \<Rightarrow> bool \<Rightarrow> u8 list \<Rightarrow> ptys \<Rightarrow> ptys \<times> nat outcome" where
  "control_write E i p f r w buf s =
     (if 64 \<le> length (py_mosi p) then (s, Err EWOULDBLOCK)
      else (set_handle i (PtyControlTerm (pty_input (pe_tty E) buf p) f r w) s, Ok (length buf)))"

definition sub_write :: "pty_env \<Rightarrow> nat \<Rightarrow> u8 list \<Rightarrow> ptys \<Rightarrow> ptys \<times> nat outcome" where
  "sub_write E k buf s = (case upgrade k s of
       Some p \<Rightarrow> if 64 \<le> length (py_miso p) then (s, Err EWOULDBLOCK)
         else (set_pty k (pty_output (pe_tty E) buf p) s, Ok (length buf))
     | None \<Rightarrow> (s, Err EPIPE))"

definition sub_sync :: "nat \<Rightarrow> ptys \<Rightarrow> ptys \<times> unit outcome" where
  "sub_sync k s = (case upgrade k s of
       Some p \<Rightarrow> (set_pty k (p\<lparr>py_miso := py_miso p @ [[1]]\<rparr>) s, Ok ())
     | None \<Rightarrow> (s, Err EPIPE))"

definition pgrp_read :: "nat \<Rightarrow> u8 list \<Rightarrow> ptys \<Rightarrow> (ptys \<times> u8 list) \<times> nat outcome" where
  "pgrp_read k buf s = (case upgrade k s of
       Some p \<Rightarrow> if length buf < 4 then ((s, buf), Err EBADF)
         else ((s, copy_into buf 0 (u32_ne_bytes (word_of_nat (py_pgrp p)))), Ok 4)
     | None \<Rightarrow> ((s, buf), Ok 0))"

definition pgrp_write :: "nat \<Rightarrow> u8 list \<Rightarrow> ptys \<Rightarrow> ptys \<times> nat outcome" where
  "pgrp_write k buf s = (case upgrade k s of
       Some p \<Rightarrow> if length buf < 4 then (s, Err EBADF)
         else (set_pty k (p\<lparr>py_pgrp := unat (u32_from_ne_bytes (take 4 buf))\<rparr>) s, Ok 4)
     | None \<Rightarrow> (s, Err EPIPE))"

definition termios_read :: "nat \<Rightarrow> u8 list \<Rightarrow> ptys \<Rightarrow> (ptys \<times> u8 list) \<times> nat outcome" where
  "termios_read k buf s = (case upgrade k s of
       Some p \<Rightarrow> (let (buf', n) = copy_out buf (py_termios p) in ((s, buf'), Ok n))
     | None \<Rightarrow> ((s, buf), Ok 0))"

definition termios_write :: "nat \<Rightarrow> u8 list \<Rightarrow> ptys \<Rightarrow> ptys \<times> nat outcome" where
  "termios_write k buf s = (case upgrade k s of
       Some p \<Rightarrow> (let (termios, n) = copy_out (py_termios p) buf in (set_pty k (p\<lparr>py_termios := termios\<rparr>) s, Ok n))
     | None \<Rightarrow> (s, Err EPIPE))"

definition winsize_read :: "nat \<Rightarrow> u8 list \<Rightarrow> ptys \<Rightarrow> (ptys \<times> u8 list) \<times> nat outcome" where
  "winsize_read k buf s = (case upgrade k s of
       Some p \<Rightarrow> (let (buf', n) = copy_out buf (py_winsize p) in ((s, buf'), Ok n))
     | None \<Rightarrow> ((s, buf), Ok 0))"

definition winsize_write :: "nat \<Rightarrow> u8 list \<Rightarrow> ptys \<Rightarrow> ptys \<times> nat outcome" where
  "winsize_write k buf s = (case upgrade k s of
       Some p \<Rightarrow> (let (winsize, n) = copy_out (py_winsize p) buf in (set_pty k (p\<lparr>py_winsize := winsize\<rparr>) s, Ok n))
     | None \<Rightarrow> (s, Err EPIPE))"

text \<open>The calls through the trait object.\<close>

fun res_path :: "resource \<Rightarrow> u8 list \<Rightarrow> ptys \<Rightarrow> u8 list \<times> nat outcome" where
  "res_path (PtyControlTerm p f r w) buf s = pty_path buf p"
| "res_path res buf s = (case upgrade (res_pty res) s of Some p \<Rightarrow> pty_path buf p | None \<Rightarrow> (buf, Err EPIPE))"

fun res_read :: "pty_env \<Rightarrow> nat \<Rightarrow> resource \<Rightarrow> u8 list \<Rightarrow> ptys \<Rightarrow> (ptys \<times> u8 list) \<times> nat outcome" where
  "res_read E i (PtyControlTerm p f r w) buf s = control_read (pe_abi E) i p f w buf s"
| "res_read E i (PtySubTerm k f r w) buf s = sub_read E i k f w buf s"
| "res_read E i (PtyPgrp k f) buf s = pgrp_read k buf s"
| "res_read E i (PtyTermios k f) buf s = termios_read k buf s"
| "res_read E i (PtyWinsize k f) buf s = winsize_read k buf s"

fun res_write :: "pty_env \<Rightarrow> nat \<Rightarrow> resource \<Rightarrow> u8 list \<Rightarrow> ptys \<Rightarrow> ptys \<times> nat outcome" where
  "res_write E i (PtyControlTerm p f r w) buf s = control_write E i p f r w buf s"
| "res_write E i (PtySubTerm k f r w) buf s = sub_write E k buf s"
| "res_write E i (PtyPgrp k f) buf s = pgrp_write k buf s"
| "res_write E i (PtyTermios k f) buf s = termios_write k buf s"
| "res_write E i (PtyWinsize k f) buf s = winsize_write k buf s"

fun res_sync :: "resource \<Rightarrow> ptys \<Rightarrow> ptys \<times> unit outcome" where
  "res_sync (PtySubTerm k f r w) s = sub_sync k s"
| "res_sync res s = (s, Ok ())"

definition res_fcntl :: "abi \<Rightarrow> nat \<Rightarrow> resource \<Rightarrow> u64 \<Rightarrow> u64 \<Rightarrow> ptys \<Rightarrow> ptys \<times> nat outcome" where
  "res_fcntl K i res cmd arg s =
     (if cmd = F_GETFL K then (s, Ok (unat (res_flags res)))
      else if cmd = F_SETFL K then
        (set_handle i (set_res_flags ((res_flags res AND O_ACCMODE K) OR (arg AND NOT (O_ACCMODE K))) res) s, Ok 0)
      else (s, Err EINVAL))"

text \<open>
  \<open>Resource::events\<close>, on the resource and whether there is something to read; the marks of what was
  notified are updated.
\<close>

definition term_events :: "abi \<Rightarrow> bool option \<Rightarrow> bool \<Rightarrow> bool \<Rightarrow> bool \<times> bool \<times> u64" where
  "term_events K readable r w = (let
       (r', ev) = (case readable of
           Some True \<Rightarrow> (True, if r then 0 else EVENT_READ K)
         | Some False \<Rightarrow> (False, 0)
         | None \<Rightarrow> (r, 0)) in
     (r', True, if w then ev else ev OR EVENT_WRITE K))"

definition control_events :: "abi \<Rightarrow> pty \<Rightarrow> u64 \<Rightarrow> bool \<Rightarrow> bool \<Rightarrow> resource \<times> u64" where
  "control_events K p f r w =
     (let (r', w', ev) = term_events K (Some (py_miso p \<noteq> [])) r w in (PtyControlTerm p f r' w', ev))"

definition sub_events :: "abi \<Rightarrow> nat \<Rightarrow> u64 \<Rightarrow> bool \<Rightarrow> bool \<Rightarrow> ptys \<Rightarrow> resource \<times> u64" where
  "sub_events K k f r w s =
     (let (r', w', ev) = term_events K (map_option (\<lambda>p. py_mosi p \<noteq> []) (upgrade k s)) r w
      in (PtySubTerm k f r' w', ev))"

fun res_events :: "abi \<Rightarrow> resource \<Rightarrow> ptys \<Rightarrow> resource \<times> u64" where
  "res_events K (PtyControlTerm p f r w) s = control_events K p f r w"
| "res_events K (PtySubTerm k f r w) s = sub_events K k f r w s"
| "res_events K res s = (res, 0)"

text \<open>The marks are cleared first, so that everything is notified again.\<close>

fun res_fevent :: "abi \<Rightarrow> nat \<Rightarrow> resource \<Rightarrow> ptys \<Rightarrow> ptys \<times> u64 outcome" where
  "res_fevent K i (PtyControlTerm p f r w) s =
     (let (res, ev) = res_events K (PtyControlTerm p f False False) s in (set_handle i res s, Ok ev))"
| "res_fevent K i (PtySubTerm k f r w) s =
     (let (res, ev) = res_events K (PtySubTerm k f False False) s in (set_handle i res s, Ok ev))"
| "res_fevent K i res s = (s, Err EBADF)"

fun res_timeout :: "tty \<Rightarrow> u64 \<Rightarrow> resource \<Rightarrow> resource" where
  "res_timeout T ct (PtyControlTerm p f r w) = PtyControlTerm (pty_timeout T ct p) f r w"
| "res_timeout T ct res = res"

lemmas res_op_defs = control_write_def sub_write_def sub_sync_def pgrp_read_def pgrp_write_def termios_read_def
  termios_write_def winsize_read_def winsize_write_def control_events_def sub_events_def

section \<open>The scheme\<close>

text \<open>\<open>str::parse::<usize>\<close>.\<close>

definition is_digit :: "char \<Rightarrow> bool" where
  "is_digit c \<longleftrightarrow> 48 \<le> (of_char c :: nat) \<and> (of_char c :: nat) \<le> 57"

definition parse_usize :: "string \<Rightarrow> nat option" where
  "parse_usize s = (let
       ds = (case s of c # cs \<Rightarrow> if c = CHR ''+'' then cs else s | [] \<Rightarrow> []);
       n = foldl (\<lambda>a c. a * 10 + (of_char c - 48)) 0 ds in
     if ds \<noteq> [] \<and> list_all is_digit ds \<and> n < usize_range then Some n else None)"

text \<open>\<open>let id = self.next_id; self.next_id += 1; self.handles.insert(id, handle)\<close>.\<close>

definition add_handle :: "(nat \<Rightarrow> resource) \<Rightarrow> ptys \<Rightarrow> ptys \<times> open_result outcome" where
  "add_handle mk s = (let i = pt_next_id s in
     question s (usize_add i 1) (\<lambda>n.
     (set_handle i (mk i) (s\<lparr>pt_next_id := n\<rparr>), Ok (ThisScheme i 0))))"

definition pty_open :: "pty_env \<Rightarrow> string \<Rightarrow> u64 \<Rightarrow> caller_ctx \<Rightarrow> ptys \<Rightarrow> ptys \<times> open_result outcome" where
  "pty_open E path0 flags ctx s = (let path = trim_slashes path0 in
     if path = [] then add_handle (\<lambda>i. PtyControlTerm (pty_new (pe_tty E) i) flags False False) s
     else
       question s (ok_or EINVAL (parse_usize path)) (\<lambda>control_term_id.
       question s (ok_or ENOENT (pt_handles s control_term_id)) (\<lambda>handle.
       add_handle (\<lambda>i. PtySubTerm (res_pty handle) flags False False) s)))"

definition pty_dup :: "nat \<Rightarrow> u8 list \<Rightarrow> caller_ctx \<Rightarrow> ptys \<Rightarrow> ptys \<times> open_result outcome" where
  "pty_dup old_id buf ctx s =
     question s (ok_or EBADF (pt_handles s old_id)) (\<lambda>old.
     if buf = bytes_of ''pgrp'' then add_handle (\<lambda>i. PtyPgrp (res_pty old) (res_flags old)) s
     else if buf = bytes_of ''termios'' then add_handle (\<lambda>i. PtyTermios (res_pty old) (res_flags old)) s
     else if buf = bytes_of ''winsize'' then add_handle (\<lambda>i. PtyWinsize (res_pty old) (res_flags old)) s
     else (s, Err EINVAL))"

definition pty_read ::
  "pty_env \<Rightarrow> nat \<Rightarrow> u8 list \<Rightarrow> nat \<Rightarrow> u32 \<Rightarrow> caller_ctx \<Rightarrow> ptys \<Rightarrow> (ptys \<times> u8 list) \<times> nat outcome" where
  "pty_read E i buf offset flags ctx s =
     question (s, buf) (ok_or EBADF (pt_handles s i)) (\<lambda>handle. res_read E i handle buf s)"

definition pty_write ::
  "pty_env \<Rightarrow> nat \<Rightarrow> u8 list \<Rightarrow> nat \<Rightarrow> u32 \<Rightarrow> caller_ctx \<Rightarrow> ptys \<Rightarrow> ptys \<times> nat outcome" where
  "pty_write E i buf offset flags ctx s =
     question s (ok_or EBADF (pt_handles s i)) (\<lambda>handle. res_write E i handle buf s)"

definition pty_fcntl :: "pty_env \<Rightarrow> nat \<Rightarrow> u64 \<Rightarrow> u64 \<Rightarrow> caller_ctx \<Rightarrow> ptys \<Rightarrow> ptys \<times> nat outcome" where
  "pty_fcntl E i cmd arg ctx s =
     question s (ok_or EBADF (pt_handles s i)) (\<lambda>handle. res_fcntl (pe_abi E) i handle cmd arg s)"

definition pty_fevent :: "pty_env \<Rightarrow> nat \<Rightarrow> u64 \<Rightarrow> caller_ctx \<Rightarrow> ptys \<Rightarrow> ptys \<times> u64 outcome" where
  "pty_fevent E i flags ctx s =
     question s (ok_or EBADF (pt_handles s i)) (\<lambda>handle. res_fevent (pe_abi E) i handle s)"

definition pty_fpath :: "nat \<Rightarrow> u8 list \<Rightarrow> caller_ctx \<Rightarrow> ptys \<Rightarrow> (ptys \<times> u8 list) \<times> nat outcome" where
  "pty_fpath i buf ctx s =
     question (s, buf) (ok_or EBADF (pt_handles s i)) (\<lambda>handle.
     let (buf', r) = res_path handle buf s in ((s, buf'), r))"

definition pty_fstat :: "pty_env \<Rightarrow> nat \<Rightarrow> stat \<Rightarrow> caller_ctx \<Rightarrow> ptys \<Rightarrow> (ptys \<times> stat) \<times> unit outcome" where
  "pty_fstat E i stat ctx s =
     question (s, stat) (ok_or EBADF (pt_handles s i)) (\<lambda>_.
     ((s, default_stat\<lparr>st_mode := MODE_CHR (pe_abi E) OR 0x1B6\<rparr>), Ok ()))"

definition pty_fsync :: "nat \<Rightarrow> caller_ctx \<Rightarrow> ptys \<Rightarrow> ptys \<times> unit outcome" where
  "pty_fsync i ctx s = question s (ok_or EBADF (pt_handles s i)) (\<lambda>handle. res_sync handle s)"

definition pty_on_close :: "nat \<Rightarrow> ptys \<Rightarrow> ptys \<times> unit outcome" where
  "pty_on_close i s = (s\<lparr>pt_handles := (pt_handles s)(i := None)\<rparr>, Ok ())"

definition pty_scheme :: "pty_env \<Rightarrow> ptys scheme_sync" where
  "pty_scheme E = default_scheme\<lparr>sc_open := pty_open E, sc_dup := pty_dup, sc_read := pty_read E,
     sc_write := pty_write E, sc_fcntl := pty_fcntl E, sc_fevent := pty_fevent E, sc_fpath := pty_fpath,
     sc_fstat := pty_fstat E, sc_fsync := pty_fsync, sc_on_close := pty_on_close\<rparr>"

section \<open>The event loop\<close>

text \<open>
  \<open>pl_socket\<close> is what was written to the scheme's socket, oldest first. As in the readiness loop, what a
  socket call returned and the order of the parked requests are arguments.
\<close>

record pty_loop =
  pl_scheme :: ptys
  pl_handler :: readiness
  pl_timeout_count :: u64
  pl_socket :: "cqe list"

definition pty_loop_new :: pty_loop where
  "pty_loop_new = \<lparr>pl_scheme = pty_scheme_new, pl_handler = readiness_new, pl_timeout_count = 0, pl_socket = []\<rparr>"

definition scan_requests ::
  "pty_env \<Rightarrow> memory \<Rightarrow> sqe list outcome \<Rightarrow> u32 list \<Rightarrow> nat outcome \<Rightarrow> pty_loop \<Rightarrow> pty_loop \<times> unit outcome" where
  "scan_requests E M rio keys wio l = (let K = pe_abi E; S = pty_scheme E in
     case rb_read_requests rio (pl_handler l) of
       (h1, Ok True) \<Rightarrow>
         (case process_requests K M S (pl_scheme l, h1) of
            ((s2, h2), Ok _) \<Rightarrow>
              (case poll_all_requests K S keys (s2, h2) of
                 ((s3, h3), Ok _) \<Rightarrow>
                   (case rb_write_responses wio h3 of
                      (h4, Ok True) \<Rightarrow>
                        (l\<lparr>pl_scheme := s3, pl_handler := h4, pl_socket := pl_socket l @
                           (case wio of Ok n \<Rightarrow> take n (responses_to_write h3) | _ \<Rightarrow> [])\<rparr>, Ok ())
                    | (h4, _) \<Rightarrow> (l\<lparr>pl_scheme := s3, pl_handler := h4\<rparr>, Panic))
               | ((s3, h3), _) \<Rightarrow> (l\<lparr>pl_scheme := s3, pl_handler := h3\<rparr>, Panic))
          | ((s2, h2), _) \<Rightarrow> (l\<lparr>pl_scheme := s2, pl_handler := h2\<rparr>, Panic))
     | (h1, _) \<Rightarrow> (l\<lparr>pl_handler := h1\<rparr>, Panic))"

text \<open>\<open>for (_id, handle) in handles.iter_mut() { handle.timeout(timeout_count); }\<close>.\<close>

definition timeout_handles :: "tty \<Rightarrow> u64 \<Rightarrow> ptys \<Rightarrow> ptys" where
  "timeout_handles T ct s = s\<lparr>pt_handles := (\<lambda>i. map_option (res_timeout T ct) (pt_handles s i))\<rparr>"

definition time_event :: "pty_env \<Rightarrow> u32 list \<Rightarrow> pty_loop \<Rightarrow> pty_loop \<times> unit outcome" where
  "time_event E keys l = (let
       ct = pl_timeout_count l + 1;
       s1 = timeout_handles (pe_tty E) ct (pl_scheme l);
       l1 = l\<lparr>pl_timeout_count := ct, pl_scheme := s1\<rparr> in
     case poll_all_requests (pe_abi E) (pty_scheme E) keys (s1, pl_handler l) of
       ((s2, h2), Ok _) \<Rightarrow> (l1\<lparr>pl_scheme := s2, pl_handler := h2\<rparr>, Ok ())
     | ((s2, h2), _) \<Rightarrow> (l1\<lparr>pl_scheme := s2, pl_handler := h2\<rparr>, Panic))"

fun issue_list :: "abi \<Rightarrow> nat list \<Rightarrow> ptys \<Rightarrow> ptys \<times> cqe list" where
  "issue_list K [] s = (s, [])"
| "issue_list K (i # is) s = (case pt_handles s i of
       None \<Rightarrow> issue_list K is s
     | Some res \<Rightarrow> (let
           (res', ev) = res_events K res s;
           (s', out) = issue_list K is (set_handle i res' s) in
         (s', (if ev \<noteq> 0 then [post_fevent_response i ev] else []) @ out)))"

definition issue_events :: "abi \<Rightarrow> pty_loop \<Rightarrow> pty_loop" where
  "issue_events K l = (let (s', out) = issue_list K [0..<pt_next_id (pl_scheme l)] (pl_scheme l) in
     l\<lparr>pl_scheme := s', pl_socket := pl_socket l @ out\<rparr>)"

text \<open>The time of the next tick: a tenth of a second later, with the nanoseconds carried.\<close>

function carry_nsec :: "timespec \<Rightarrow> timespec" where
  "carry_nsec t = (if tv_nsec t \<ge> 1000000000
     then carry_nsec (t\<lparr>tv_sec := tv_sec t + 1, tv_nsec := tv_nsec t - 1000000000\<rparr>) else t)"
  by pat_completeness auto
termination
  by (relation "measure (\<lambda>t. nat (tv_nsec t))") auto

definition next_tick :: "timespec \<Rightarrow> timespec" where
  "next_tick t = carry_nsec (t\<lparr>tv_nsec := tv_nsec t + 100000000\<rparr>)"

text \<open>One event of the daemon's event queue, from the socket or from the clock.\<close>

datatype pty_event = SocketEvent "sqe list outcome" "u32 list" "nat outcome" | TimeEvent "u32 list"

fun pty_event_step :: "pty_env \<Rightarrow> memory \<Rightarrow> pty_event \<Rightarrow> pty_loop \<Rightarrow> pty_loop \<times> unit outcome" where
  "pty_event_step E M (SocketEvent rio keys wio) l =
     then_do (scan_requests E M rio keys wio l) (\<lambda>l' _. (issue_events (pe_abi E) l', Ok ()))"
| "pty_event_step E M (TimeEvent keys) l =
     then_do (time_event E keys l) (\<lambda>l' _. (issue_events (pe_abi E) l', Ok ()))"

end
