(* ===== verification/Pty_Discipline.thy ===== *)
theory Pty_Discipline
  imports Pty
begin

text \<open>
  The line discipline of a terminal does what its settings say: in canonical mode it is a line editor,
  in raw mode it passes every byte on, except that it cannot represent the byte 0.
\<close>

section \<open>Bytes that are used up\<close>

lemma is_cc_zero [simp]: "\<not> is_cc T p 0 i"
  by (simp add: is_cc_def)

lemma stages_zero [simp]:
  "input_canon T (p, 0) = (p, 0)" "input_signals T (p, 0) = (p, 0)" "input_flow T (p, 0) = (p, 0)"
  "input_literal T (p, 0) = (p, 0)"
  by (simp_all add: input_canon_def input_signals_def input_flow_def input_literal_def consume_def)

lemma input_steps_frame [simp]:
  "py_cooked (pty_output T buf p) = py_cooked p" "py_mosi (pty_output T buf p) = py_mosi p"
  "py_cooked (echo_if T c buf p) = py_cooked p" "py_mosi (echo_if T c buf p) = py_mosi p"
  "py_cooked (cook b p) = py_cooked p @ [b]" "py_mosi (cook b p) = py_mosi p"
  "py_cooked (push_line p) = []" "py_mosi (push_line p) = py_mosi p @ [py_cooked p]"
  "py_cooked (erase T b p) = butlast (py_cooked p)" "py_mosi (erase T b p) = py_mosi p"
  by (simp_all add: pty_output_def echo_if_def cook_def push_line_def erase_def Let_def)

section \<open>Canonical mode\<close>

text \<open>The control characters the code compares a byte with.\<close>

definition control_chars :: "tty \<Rightarrow> pty \<Rightarrow> u8 list" where
  "control_chars T p = map (c_cc T (py_termios p)) [VEOF T, VEOL T, VEOL2 T, VERASE T, VWERASE T, VKILL T, VREPRINT T,
     VINTR T, VQUIT T, VSUSP T, VSTART T, VSTOP T, VLNEXT T, VDISCARD T]"

definition plain :: "tty \<Rightarrow> pty \<Rightarrow> u8 \<Rightarrow> bool" where
  "plain T p b \<longleftrightarrow> b \<noteq> 0 \<and> b \<noteq> 10 \<and> b \<noteq> 13 \<and> b \<notin> set (control_chars T p)"

text \<open>The erase character is set and is not at the same time a line end or carriage return.\<close>

definition erase_char :: "tty \<Rightarrow> pty \<Rightarrow> u8 \<Rightarrow> bool" where
  "erase_char T p b \<longleftrightarrow> b = c_cc T (py_termios p) (VERASE T) \<and> b \<notin> {0, 10, 13} \<and>
     b \<notin> c_cc T (py_termios p) ` {VEOF T, VEOL T, VEOL2 T}"

lemma plain_not_cc:
  assumes "plain T p b" "py_termios q = py_termios p"
  shows "\<not> is_cc T q b (VEOF T)" "\<not> is_cc T q b (VEOL T)" "\<not> is_cc T q b (VEOL2 T)" "\<not> is_cc T q b (VERASE T)"
    "\<not> is_cc T q b (VWERASE T)" "\<not> is_cc T q b (VKILL T)" "\<not> is_cc T q b (VREPRINT T)" "\<not> is_cc T q b (VINTR T)"
    "\<not> is_cc T q b (VQUIT T)" "\<not> is_cc T q b (VSUSP T)" "\<not> is_cc T q b (VSTART T)" "\<not> is_cc T q b (VSTOP T)"
    "\<not> is_cc T q b (VLNEXT T)" "\<not> is_cc T q b (VDISCARD T)"
  using assms by (auto simp: plain_def control_chars_def is_cc_def)

lemma input_plain:
  assumes "plain T p b"
  shows "py_cooked (input_byte T b p) = py_cooked p @ [b]" "py_mosi (input_byte T b p) = py_mosi p"
proof -
  have b: "b \<noteq> 0" "b \<noteq> 10" "b \<noteq> 13" using assms by (simp_all add: plain_def)
  have stages: "input_canon T (p, b) = (p, b)" "input_signals T (p, b) = (p, b)" "input_flow T (p, b) = (p, b)"
    "input_literal T (p, b) = (p, b)" "input_translate T p b = b"
    using b plain_not_cc [OF assms refl]
    by (simp_all add: input_canon_def input_signals_def input_flow_def input_literal_def input_translate_def consume_def)
  show "py_cooked (input_byte T b p) = py_cooked p @ [b]" "py_mosi (input_byte T b p) = py_mosi p"
    using b by (simp_all add: input_byte_def stages Let_def)
qed

lemma input_newline:
  assumes "lflag T p (ICANON T)" "\<not> iflag T p (INLCR T)"
  shows "py_cooked (input_byte T 10 p) = []" "py_mosi (input_byte T 10 p) = py_mosi p @ [py_cooked p @ [10]]"
proof -
  have canon: "input_canon T (p, 10) =
      (push_line (cook 10 (echo_if T (lflag T p (ECHO T) \<or> lflag T p (ECHONL T)) [10] p)), 0)"
    by (simp add: input_canon_def consume_def)
  show "py_cooked (input_byte T 10 p) = []" "py_mosi (input_byte T 10 p) = py_mosi p @ [py_cooked p @ [10]]"
    using assms by (simp_all add: input_byte_def input_translate_def canon Let_def)
qed

lemma input_erase:
  assumes "lflag T p (ICANON T)" "erase_char T p b"
  shows "py_cooked (input_byte T b p) = butlast (py_cooked p)" "py_mosi (input_byte T b p) = py_mosi p"
proof -
  have cc: "is_cc T p b (VERASE T)" "\<not> is_vdisable T p (VERASE T)" "\<not> is_cc T p b (VEOF T)" "\<not> is_cc T p b (VEOL T)"
    "\<not> is_cc T p b (VEOL2 T)" "b \<noteq> 10" "b \<noteq> 13"
    using assms(2) by (auto simp: erase_char_def is_cc_def is_vdisable_def)
  have canon: "input_canon T (p, b) = (erase T b p, 0)"
    using cc by (simp add: input_canon_def consume_def)
  have "input_translate T p b = b" using cc by (simp add: input_translate_def)
  then show "py_cooked (input_byte T b p) = butlast (py_cooked p)" "py_mosi (input_byte T b p) = py_mosi p"
    using assms(1) by (simp_all add: input_byte_def canon Let_def)
qed

text \<open>A line editor: the lines finished so far and the line being typed.\<close>

fun edit :: "u8 \<Rightarrow> u8 list list \<times> u8 list \<Rightarrow> u8 list list \<times> u8 list" where
  "edit b (ls, cur) = (if b = 10 then (ls @ [cur @ [10]], []) else (ls, cur @ [b]))"

fun line_editor :: "u8 \<Rightarrow> u8 list \<Rightarrow> u8 list list \<times> u8 list \<Rightarrow> u8 list list \<times> u8 list" where
  "line_editor e [] s = s"
| "line_editor e (b # bs) (ls, cur) =
     line_editor e bs (if b = e then (ls, butlast cur) else edit b (ls, cur))"

lemma input_edits:
  assumes "lflag T p (ICANON T)" "\<not> iflag T p (INLCR T)" "erase_char T p e"
    and "\<forall>b \<in> set buf. b = 10 \<or> b = e \<or> plain T p b"
  shows "(py_mosi (fold (input_byte T) buf p), py_cooked (fold (input_byte T) buf p)) =
    line_editor e buf (py_mosi p, py_cooked p)"
  using assms
proof (induction buf arbitrary: p)
  case (Cons b bs)
  have e: "e \<noteq> 10" using Cons.prems(3) by (auto simp: erase_char_def)
  have step: "(py_mosi (input_byte T b p), py_cooked (input_byte T b p)) =
      (if b = e then (py_mosi p, butlast (py_cooked p)) else edit b (py_mosi p, py_cooked p))"
    using Cons.prems e input_newline [of T p] input_erase [of T p b] input_plain [of T p b] by (auto simp: plain_def)
  have same: "plain T (input_byte T b p) = plain T p" "erase_char T (input_byte T b p) = erase_char T p"
    by (simp_all add: fun_eq_iff plain_def control_chars_def erase_char_def)
  have "(py_mosi (fold (input_byte T) bs (input_byte T b p)), py_cooked (fold (input_byte T) bs (input_byte T b p))) =
      line_editor e bs (py_mosi (input_byte T b p), py_cooked (input_byte T b p))"
    using Cons.prems by (intro Cons.IH) (simp_all add: same)
  then show ?case by (simp add: step)
qed simp

lemma termios_fold_input [simp]: "py_termios (fold (input_byte T) buf p) = py_termios p"
  by (induction buf arbitrary: p) simp_all

section \<open>Raw mode\<close>

definition raw_mode :: "tty \<Rightarrow> pty \<Rightarrow> bool" where
  "raw_mode T p \<longleftrightarrow> \<not> lflag T p (ICANON T) \<and> \<not> lflag T p (ISIG T) \<and> \<not> lflag T p (IXON T) \<and>
     \<not> lflag T p (IEXTEN T) \<and> \<not> iflag T p (INLCR T) \<and> \<not> iflag T p (IGNCR T) \<and> \<not> iflag T p (ICRNL T)"

text \<open>The bytes on their way to the reader.\<close>

definition in_transit :: "pty \<Rightarrow> u8 list" where
  "in_transit p = concat (py_mosi p) @ py_cooked p"

lemma in_transit_simps [simp]:
  "in_transit (push_line p) = in_transit p" "in_transit (cook b p) = in_transit p @ [b]"
  "in_transit (echo_if T c bs p) = in_transit p" "in_transit (p\<lparr>py_timeout_character := t\<rparr>) = in_transit p"
  by (simp_all add: in_transit_def)

lemma update_in_transit [simp]: "in_transit (pty_update T p) = in_transit p"
  by (simp add: pty_update_def Let_def split: option.splits)

lemma raw_input_byte:
  assumes "raw_mode T p"
  shows "in_transit (input_byte T b p) = in_transit p @ filter (\<lambda>b. b \<noteq> 0) [b]"
proof -
  have "input_literal T (p, b) = (p, b)" "input_translate T p b = b"
    using assms by (simp_all add: input_literal_def consume_def input_translate_def raw_mode_def)
  then show ?thesis using assms by (simp add: input_byte_def raw_mode_def Let_def)
qed

lemma raw_mode_input [simp]: "raw_mode T (input_byte T b p) = raw_mode T p"
  by (simp add: raw_mode_def)

lemma raw_input:
  assumes "raw_mode T p"
  shows "in_transit (pty_input T buf p) = in_transit p @ filter (\<lambda>b. b \<noteq> 0) buf"
proof -
  have "in_transit (fold (input_byte T) buf p) = in_transit p @ filter (\<lambda>b. b \<noteq> 0) buf"
    using assms by (induction buf arbitrary: p) (auto simp: raw_input_byte)
  then show ?thesis by (simp add: pty_input_def)
qed

end
