(* ===== verification/Ptyd_Proofs.thy ===== *)
theory Ptyd_Proofs
  imports Ptyd Pty_Discipline
begin

text \<open>
  The invariant of the terminal scheme: a terminal carries the id of its control handle, and no handle
  and no weak pointer refers to an id that was not given out. Every method and every tick keeps it.
\<close>

section \<open>The invariant\<close>

fun res_ok :: "nat \<Rightarrow> nat \<Rightarrow> resource \<Rightarrow> bool" where
  "res_ok n i (PtyControlTerm p f r w) \<longleftrightarrow> i < n \<and> py_id p = i"
| "res_ok n i res \<longleftrightarrow> i < n \<and> res_pty res < n"

definition pty_inv :: "ptys \<Rightarrow> bool" where
  "pty_inv s \<longleftrightarrow> (\<forall>i res. pt_handles s i = Some res \<longrightarrow> res_ok (pt_next_id s) i res)"

lemma pty_invD: "pty_inv s \<Longrightarrow> pt_handles s i = Some res \<Longrightarrow> res_ok (pt_next_id s) i res"
  by (simp add: pty_inv_def)

lemma res_ok_pty: "res_ok n i res \<Longrightarrow> res_pty res < n"
  by (cases res) auto

lemma set_handle_frame [simp]:
  "pt_handles (set_handle i res s) = (pt_handles s)(i \<mapsto> res)" "pt_next_id (set_handle i res s) = pt_next_id s"
  by (simp_all add: set_handle_def)

lemma set_handle_inv: "pty_inv s \<Longrightarrow> res_ok (pt_next_id s) i res \<Longrightarrow> pty_inv (set_handle i res s)"
  by (simp add: pty_inv_def)

lemma set_pty_frame [simp]: "pt_next_id (set_pty k p s) = pt_next_id s"
  by (simp add: set_pty_def split: option.splits resource.splits)

lemma set_pty_inv:
  assumes "pty_inv s" "upgrade k s = Some p0" "py_id p = py_id p0"
  shows "pty_inv (set_pty k p s)"
proof -
  obtain f r w where h: "pt_handles s k = Some (PtyControlTerm p0 f r w)"
    using assms(2) by (auto simp: upgrade_def split: option.splits resource.splits)
  have "res_ok (pt_next_id s) k (PtyControlTerm p f r w)" using pty_invD [OF assms(1) h] assms(3) by simp
  then show ?thesis using set_handle_inv [OF assms(1)] by (simp add: set_pty_def h)
qed

lemma upgrade_id: "pty_inv s \<Longrightarrow> upgrade k s = Some p \<Longrightarrow> py_id p = k"
  by (auto simp: upgrade_def dest!: pty_invD split: option.splits resource.splits)

section \<open>Every method keeps it\<close>

lemma control_read_keeps:
  assumes "pty_inv s" "pt_handles s i = Some (PtyControlTerm p f r w)" "control_read K i p f w buf s = ((s', b), q)"
  shows "pty_inv s'"
proof -
  obtain p' where "s' = set_handle i (PtyControlTerm p' f False w) s" "py_id p' = py_id p"
    using assms(3) by (auto simp: control_read_def Let_def split: list.splits prod.splits)
  then show ?thesis using set_handle_inv [OF assms(1)] pty_invD [OF assms(1,2)] by simp
qed

lemma sub_read_keeps:
  assumes "pty_inv s" "pt_handles s i = Some (PtySubTerm k f r w)" "sub_read E i k f w buf s = ((s', b), q)"
  shows "pty_inv s'"
proof -
  let ?s = "set_handle i (PtySubTerm k f False w) s"
  have inv: "pty_inv ?s" using set_handle_inv [OF assms(1)] pty_invD [OF assms(1,2)] by simp
  show ?thesis
  proof (cases "upgrade k ?s")
    case (Some p)
    then obtain p' where "s' = set_pty k p' ?s" "py_id p' = py_id p"
      using assms(3) by (auto simp: sub_read_def Let_def split: list.splits prod.splits)
    then show ?thesis using set_pty_inv [OF inv Some] by simp
  qed (use inv assms(3) in \<open>simp add: sub_read_def\<close>)
qed

lemma res_read_keeps:
  assumes "pty_inv s" "pt_handles s i = Some res" "res_read E i res buf s = ((s', b), q)"
  shows "pty_inv s'"
proof (cases res)
  case (PtyControlTerm p f r w)
  then show ?thesis using control_read_keeps assms by simp
next
  case (PtySubTerm k f r w)
  then show ?thesis using sub_read_keeps assms by simp
qed (use assms in \<open>auto simp: res_op_defs split: option.splits if_splits prod.splits\<close>)

lemma res_write_keeps:
  assumes "pty_inv s" "pt_handles s i = Some res" "res_write E i res buf s = (s', q)"
  shows "pty_inv s'"
proof (cases "s' = s")
  case False
  show ?thesis
  proof (cases res)
    case (PtyControlTerm p f r w)
    then show ?thesis
      using assms(3) False set_handle_inv [OF assms(1)] pty_invD [OF assms(1,2)] by (auto simp: control_write_def split: if_splits)
  qed (use assms(3) False set_pty_inv [OF assms(1)] in \<open>auto simp: res_op_defs Let_def split: option.splits if_splits prod.splits\<close>)
qed (use assms(1) in simp)

lemma res_events_ok: "res_events K res s = (res', ev) \<Longrightarrow> res_ok n i res' = res_ok n i res"
  by (cases res) (auto simp: res_op_defs split: prod.splits)

lemma res_fevent_keeps:
  assumes "pty_inv s" "pt_handles s i = Some res" "res_fevent K i res s = (s', q)"
  shows "pty_inv s'"
proof -
  have marked: "pty_inv s'" if "res_fevent K i res s = (let (res', ev) = res_events K res0 s in (set_handle i res' s, Ok ev))"
    "res_ok (pt_next_id s) i res0" for res0
    using that assms(3) set_handle_inv [OF assms(1)] res_events_ok [of K res0 s] by (auto split: prod.splits)
  show ?thesis
  proof (cases res)
    case (PtyControlTerm p f r w)
    then show ?thesis using marked [of "PtyControlTerm p f False False"] pty_invD [OF assms(1,2)] by simp
  next
    case (PtySubTerm k f r w)
    then show ?thesis using marked [of "PtySubTerm k f False False"] pty_invD [OF assms(1,2)] by simp
  qed (use assms in simp_all)
qed

lemma res_fcntl_keeps:
  assumes "pty_inv s" "pt_handles s i = Some res" "res_fcntl K i res cmd arg s = (s', q)"
  shows "pty_inv s'"
proof -
  have "res_ok n i (set_res_flags g res) = res_ok n i res" for n g by (cases res) simp_all
  then show ?thesis
    using assms(3) set_handle_inv [OF assms(1)] pty_invD [OF assms(1,2)] assms(1)
    by (auto simp: res_fcntl_def split: if_splits)
qed

lemma res_sync_keeps:
  assumes "pty_inv s" "res_sync res s = (s', q)"
  shows "pty_inv s'"
  using assms set_pty_inv [OF assms(1)] by (cases res) (auto simp: sub_sync_def split: option.splits)

lemma add_handle_keeps:
  assumes "pty_inv s" "add_handle mk s = (s', q)" "\<And>n. pt_next_id s < n \<Longrightarrow> res_ok n (pt_next_id s) (mk (pt_next_id s))"
  shows "pty_inv s'"
proof (cases "s' = s")
  case False
  then have s': "s' = set_handle (pt_next_id s) (mk (pt_next_id s)) (s\<lparr>pt_next_id := pt_next_id s + 1\<rparr>)"
    using assms(2) by (auto simp: add_handle_def Let_def split: question_splits)
  have "res_ok (n + 1) i res" if "res_ok n i res" for n i res using that by (cases res) auto
  then have "pty_inv (s\<lparr>pt_next_id := pt_next_id s + 1\<rparr>)" using assms(1) by (simp add: pty_inv_def)
  then show ?thesis unfolding s' by (rule set_handle_inv) (use assms(3) in simp)
qed (use assms(1) in simp)

lemma pty_open_keeps: "keeps pty_inv (pty_open E path flags ctx)"
proof (rule keepsI)
  fix s s' r
  assume inv: "pty_inv s" and run: "pty_open E path flags ctx s = (s', r)"
  show "pty_inv s'"
  proof (cases "trim_slashes path = []")
    case True
    then have "add_handle (\<lambda>i. PtyControlTerm (pty_new (pe_tty E) i) flags False False) s = (s', r)"
      using run by (simp add: pty_open_def)
    then show ?thesis by (rule add_handle_keeps [OF inv]) (simp add: pty_new_def)
  next
    case False
    show ?thesis
    proof (cases "s' = s")
      case False
      then obtain k h where "pt_handles s k = Some h"
          and add: "add_handle (\<lambda>i. PtySubTerm (res_pty h) flags False False) s = (s', r)"
        using run \<open>trim_slashes path \<noteq> []\<close> by (auto simp: pty_open_def Let_def split: question_splits)
      then have "res_pty h < pt_next_id s" using res_ok_pty pty_invD [OF inv] by blast
      then show ?thesis by (intro add_handle_keeps [OF inv add]) simp
    qed (use inv in simp)
  qed
qed

lemma pty_dup_keeps: "keeps pty_inv (pty_dup old buf ctx)"
proof (rule keepsI)
  fix s s' r
  assume inv: "pty_inv s" and run: "pty_dup old buf ctx s = (s', r)"
  show "pty_inv s'"
  proof (cases "s' = s")
    case False
    then obtain h mk where h: "pt_handles s old = Some h" and add: "add_handle mk s = (s', r)"
        and mk: "mk = (\<lambda>i. PtyPgrp (res_pty h) (res_flags h)) \<or> mk = (\<lambda>i. PtyTermios (res_pty h) (res_flags h)) \<or>
          mk = (\<lambda>i. PtyWinsize (res_pty h) (res_flags h))"
      using run by (auto simp: pty_dup_def split: question_splits if_splits)
    then have "res_pty h < pt_next_id s" using res_ok_pty pty_invD [OF inv] by blast
    then show ?thesis using mk by (intro add_handle_keeps [OF inv add]) auto
  qed (use inv in simp)
qed

lemma pty_method_keeps:
  "keeps pty_inv (pty_write E i buf off fl ctx)" "keeps pty_inv (pty_fcntl E i cmd arg ctx)"
  "keeps pty_inv (pty_fevent E i fl' ctx)" "keeps pty_inv (pty_fsync i ctx)"
  "keeps_with pty_inv (pty_read E i buf off fl ctx)"
  by (auto simp: keeps_def keeps_with_def pty_write_def pty_fcntl_def pty_fevent_def pty_fsync_def pty_read_def
      split: question_splits intro: res_write_keeps res_fcntl_keeps res_fevent_keeps res_sync_keeps res_read_keeps)

lemma pty_on_close_keeps: "keeps pty_inv (pty_on_close i)"
  by (auto simp: keeps_def pty_on_close_def pty_inv_def)

lemma pty_query_keeps: "keeps_with I (pty_fpath i buf ctx)" "keeps_with I (pty_fstat E i st ctx)"
  by (auto simp: keeps_with_def pty_fpath_def pty_fstat_def split: question_splits prod.splits)

interpretation ptys: scheme_methods "pty_scheme E" pty_inv for E
  by unfold_locales (simp_all add: pty_scheme_def default_scheme_def pty_open_keeps pty_dup_keeps pty_method_keeps
      pty_on_close_keeps pty_query_keeps)

end
