(* ===== verification/Ptyd_Properties.thy ===== *)
theory Ptyd_Properties
  imports Ptyd_Proofs
begin

text \<open>
  Correctness of the terminal daemon: line editing, transport in raw mode, hang-up, and what its event
  loop does on a clock tick; with two defects of the code shown as theorems.
\<close>

section \<open>A sample terminal\<close>

text \<open>Settings of 19 bytes: three bytes of flags, then the control characters.\<close>

definition sample_tty :: tty where
  "sample_tty = \<lparr>c_iflag = (\<lambda>t. ucast (t ! 0)), c_oflag = (\<lambda>t. ucast (t ! 1)), c_lflag = (\<lambda>t. ucast (t ! 2)),
     c_cc = (\<lambda>t i. t ! (3 + i)), INLCR = 1, IGNCR = 2, ICRNL = 4, OPOST = 1, ONLCR = 2, ECHO = 1, ECHOE = 2,
     ECHONL = 4, ICANON = 8, ISIG = 16, IEXTEN = 32, IXON = 64, VEOF = 0, VEOL = 1, VEOL2 = 2, VERASE = 3,
     VWERASE = 4, VKILL = 5, VREPRINT = 6, VINTR = 7, VQUIT = 8, VSUSP = 9, VSTART = 10, VSTOP = 11, VLNEXT = 12,
     VDISCARD = 13, VMIN = 14, VTIME = 15, SIGINT = 2, SIGQUIT = 3, SIGTSTP = 20,
     termios_default = [4, 3, 59, 4, 0, 0, 127, 23, 21, 18, 3, 28, 26, 17, 19, 22, 15, 1, 0],
     winsize_default = [0, 0, 0, 0]\<rparr>"

definition sample_pty_env :: pty_env where
  "sample_pty_env = \<lparr>pe_abi = sample_abi, pe_tty = sample_tty\<rparr>"

text \<open>The settings of raw mode: no flags, reads of at least one byte.\<close>

definition raw_termios :: "u8 list" where
  "raw_termios = [0, 0, 0, 4, 0, 0, 127, 23, 21, 18, 3, 28, 26, 17, 19, 22, 15, 1, 0]"

section \<open>Line editing\<close>

text \<open>
  C7. In canonical mode the terminal is a line editor: for input of newlines, the erase character and
  bytes that are not control characters, the packets queued for the reader and the unfinished line are
  what a line editor makes of the keystrokes.
\<close>

theorem pty_line_editing:
  assumes "lflag T p (ICANON T)" "\<not> iflag T p (INLCR T)" "erase_char T p e"
    and "\<forall>b \<in> set buf. b = 10 \<or> b = e \<or> plain T p b"
  shows "(py_mosi (pty_input T buf p), py_cooked (pty_input T buf p)) = line_editor e buf (py_mosi p, py_cooked p)"
proof -
  have "pty_input T buf p = fold (input_byte T) buf p"
    using assms(1) by (simp add: pty_input_def pty_update_def Let_def)
  then show ?thesis using input_edits [OF assms] by simp
qed

theorem pty_line_editing_witness:
  "py_mosi (pty_input sample_tty [97, 98, 127, 99, 10, 100] (pty_new sample_tty 0)) = [[97, 99, 10]] \<and>
   py_cooked (pty_input sample_tty [97, 98, 127, 99, 10, 100] (pty_new sample_tty 0)) = [100]"
proof -
  let ?p = "pty_new sample_tty 0"
  have "lflag sample_tty ?p (ICANON sample_tty)" "\<not> iflag sample_tty ?p (INLCR sample_tty)"
    by (simp_all add: sample_tty_def pty_new_def)
  moreover have "erase_char sample_tty ?p 127" by (simp add: erase_char_def sample_tty_def pty_new_def)
  moreover have "\<forall>b \<in> set [97, 98, 127, 99, 10, 100]. b = 10 \<or> b = 127 \<or> plain sample_tty ?p b"
    by (simp add: plain_def control_chars_def sample_tty_def pty_new_def)
  ultimately show ?thesis
    using pty_line_editing [of sample_tty ?p 127 "[97, 98, 127, 99, 10, 100]"] by (simp add: pty_new_def)
qed

section \<open>Transport in raw mode\<close>

lemma copy_out_prefix:
  "copy_out buf src = (buf', n) \<Longrightarrow> take n buf' = take n src \<and> n \<le> length src"
  by (auto simp: copy_out_def Let_def copy_into_def)

lemma upgrade_set_pty: "upgrade k s = Some p0 \<Longrightarrow> upgrade k (set_pty k p s) = Some p"
  by (auto simp: upgrade_def set_pty_def split: option.splits resource.splits)

lemma sub_read_front:
  assumes "upgrade k s = Some p" "i \<noteq> k" "sub_read E i k f w buf s = ((s', buf'), Ok m)"
  shows "\<exists>p'. upgrade k s' = Some p' \<and> take m buf' @ in_transit p' = in_transit p"
proof -
  let ?s = "set_handle i (PtySubTerm k f False w) s"
  let ?p = "pty_update (pe_tty E) p"
  have up: "upgrade k ?s = Some p" using assms(1,2) by (simp add: upgrade_def)
  obtain packet rest n where q: "py_mosi ?p = packet # rest" "copy_out buf packet = (buf', m)" and
    s': "s' = set_pty k (?p\<lparr>py_mosi := if m < length packet then drop m packet # rest else rest\<rparr>) ?s"
    using assms(3) up by (auto simp: sub_read_def Let_def split: list.splits prod.splits if_splits)
  have "take m buf' @ in_transit (?p\<lparr>py_mosi := if m < length packet then drop m packet # rest else rest\<rparr>) = in_transit ?p"
    using copy_out_prefix [OF q(2)] q(1) by (auto simp: in_transit_def)
  then show ?thesis using upgrade_set_pty [OF up] s' by auto
qed

text \<open>
  C23. In raw mode bytes reach the reader in order: after a write of \<open>data\<close> to the control handle, what a
  read through a terminal handle returns, followed by what is still on its way, is what was on its way
  before, followed by \<open>data\<close>; only the bytes 0 are missing, which the line discipline drops.
\<close>

theorem pty_raw_transport:
  assumes "pt_handles s i = Some (PtyControlTerm p f r w)" "raw_mode (pe_tty E) p"
    and wr: "pty_write E i data off fl ctx s = (s1, Ok n)"
    and "pt_handles s1 j = Some (PtySubTerm i f' r' w')"
    and rd: "pty_read E j buf off' fl' ctx' s1 = ((s2, buf'), Ok m)"
  shows "\<exists>p2. upgrade i s2 = Some p2 \<and> take m buf' @ in_transit p2 = in_transit p @ filter (\<lambda>b. b \<noteq> 0) data"
proof -
  have s1: "s1 = set_handle i (PtyControlTerm (pty_input (pe_tty E) data p) f r w) s"
    using wr assms(1) by (auto simp: pty_write_def control_write_def split: if_splits)
  then have up: "upgrade i s1 = Some (pty_input (pe_tty E) data p)" by (simp add: upgrade_def)
  have "j \<noteq> i" using assms(4) s1 by auto
  moreover have "sub_read E j i f' w' buf s1 = ((s2, buf'), Ok m)" using rd assms(4) by (simp add: pty_read_def)
  ultimately show ?thesis using sub_read_front [OF up] raw_input [OF assms(2)] by metis
qed

definition raw_ptys :: ptys where
  "raw_ptys = \<lparr>pt_next_id = 2, pt_handles = [0 \<mapsto> PtyControlTerm ((pty_new sample_tty 0)\<lparr>py_termios := raw_termios\<rparr>) 0 False False,
     1 \<mapsto> PtySubTerm 0 0 False False]\<rparr>"

theorem pty_raw_transport_witness:
  "\<exists>s1 s2 buf'. pty_write sample_pty_env 0 [5, 0, 6] 0 0 sample_ctx raw_ptys = (s1, Ok 3) \<and>
     pty_read sample_pty_env 1 [0, 0] 0 0 sample_ctx s1 = ((s2, buf'), Ok 2) \<and>
     (\<exists>p2. upgrade 0 s2 = Some p2 \<and> take 2 buf' @ in_transit p2 = [5, 6])"
proof -
  let ?p = "(pty_new sample_tty 0)\<lparr>py_termios := raw_termios\<rparr>"
  let ?s1 = "fst (pty_write sample_pty_env 0 [5, 0, 6] 0 0 sample_ctx raw_ptys)"
  let ?r = "pty_read sample_pty_env 1 [0, 0] 0 0 sample_ctx ?s1"
  have raw: "raw_mode (pe_tty sample_pty_env) ?p"
    by (simp add: raw_mode_def sample_tty_def raw_termios_def pty_new_def sample_pty_env_def)
  have wr: "pty_write sample_pty_env 0 [5, 0, 6] 0 0 sample_ctx raw_ptys = (?s1, Ok 3)"
    by (simp add: pty_write_def control_write_def raw_ptys_def pty_new_def)
  have sub: "pt_handles ?s1 1 = Some (PtySubTerm 0 0 False False)"
    by (simp add: pty_write_def control_write_def raw_ptys_def pty_new_def set_handle_def)
  have rd: "?r = ((fst (fst ?r), snd (fst ?r)), Ok 2)"
    by (simp add: pty_write_def control_write_def pty_read_def raw_ptys_def sample_pty_env_def pty_input_def input_byte_def input_translate_def
        input_literal_def consume_def is_cc_def echo_if_def cook_def pty_update_def push_line_def sub_read_def upgrade_def
        set_handle_def copy_out_def pty_new_def raw_termios_def sample_tty_def Let_def set_pty_def copy_into_def)
  have control: "pt_handles raw_ptys 0 = Some (PtyControlTerm ?p 0 False False)" by (simp add: raw_ptys_def)
  obtain p2 where "upgrade 0 (fst (fst ?r)) = Some p2"
    "take 2 (snd (fst ?r)) @ in_transit p2 = in_transit ?p @ filter (\<lambda>b. b \<noteq> 0) [5, 0, 6]"
    using pty_raw_transport [OF control raw wr sub rd] by blast
  moreover have "in_transit ?p = []" by (simp add: in_transit_def pty_new_def)
  ultimately show ?thesis using wr rd by (intro exI conjI) (assumption | simp)+
qed

section \<open>Hang-up\<close>

text \<open>The id of a handle that was closed.\<close>

definition gone :: "nat \<Rightarrow> ptys \<Rightarrow> bool" where
  "gone k s \<longleftrightarrow> k < pt_next_id s \<and> pt_handles s k = None"

lemma gone_set_handle: "gone k s \<Longrightarrow> pt_handles s i = Some res \<Longrightarrow> gone k (set_handle i res' s)"
  by (auto simp: gone_def)

lemma gone_set_pty: "gone k s \<Longrightarrow> gone k (set_pty k' p s)"
  by (auto simp: set_pty_def intro: gone_set_handle split: option.splits resource.splits)

lemma gone_add_handle: "gone k s \<Longrightarrow> add_handle mk s = (s', q) \<Longrightarrow> gone k s'"
  by (auto simp: add_handle_def Let_def gone_def split: question_splits)

lemma gone_res_ops:
  assumes "gone k s" "pt_handles s i = Some res"
  shows "res_read E i res buf s = ((s', b), q) \<Longrightarrow> gone k s'" "res_write E i res buf s = (s', q) \<Longrightarrow> gone k s'"
    "res_fcntl K i res cmd arg s = (s', q) \<Longrightarrow> gone k s'" "res_fevent K i res s = (s', q') \<Longrightarrow> gone k s'"
    "res_sync res s = (s', q'') \<Longrightarrow> gone k s'"
proof -
  show "res_read E i res buf s = ((s', b), q) \<Longrightarrow> gone k s'"
    using assms gone_set_handle [OF assms] gone_set_pty
    by (cases res) (auto simp: control_read_def sub_read_def res_op_defs Let_def split: option.splits list.splits prod.splits if_splits)
  show "res_write E i res buf s = (s', q) \<Longrightarrow> gone k s'"
    using assms gone_set_handle [OF assms] gone_set_pty
    by (cases res) (auto simp: res_op_defs Let_def split: option.splits prod.splits if_splits)
  show "res_fevent K i res s = (s', q') \<Longrightarrow> gone k s'"
    using assms gone_set_handle [OF assms] by (cases res) (auto split: prod.splits)
  show "res_sync res s = (s', q'') \<Longrightarrow> gone k s'"
    using assms gone_set_pty by (cases res) (auto simp: sub_sync_def split: option.splits)
qed (use assms gone_set_handle [OF assms] in \<open>auto simp: res_fcntl_def split: if_splits\<close>)

lemma gone_handle_keeps:
  "keeps (gone k) (pty_write E i buf off fl ctx)" "keeps (gone k) (pty_fcntl E i cmd arg ctx)"
  "keeps (gone k) (pty_fevent E i fl' ctx)" "keeps (gone k) (pty_fsync i ctx)"
  "keeps_with (gone k) (pty_read E i buf off fl ctx)"
  by (auto simp: keeps_def keeps_with_def pty_write_def pty_fcntl_def pty_fevent_def pty_fsync_def
      pty_read_def split: question_splits intro: gone_res_ops)

lemma gone_open_keeps: "keeps (gone k) (pty_open E path flags ctx)" "keeps (gone k) (pty_dup i buf ctx)"
  by (auto simp: keeps_def pty_open_def pty_dup_def Let_def split: question_splits if_splits intro: gone_add_handle)

lemma gone_close_keeps: "keeps (gone k) (pty_on_close i)"
  by (auto simp: keeps_def pty_on_close_def gone_def)

interpretation gone: scheme_methods "pty_scheme E" "gone k" for E k
  by unfold_locales (simp_all add: pty_scheme_def default_scheme_def gone_open_keeps gone_handle_keeps
      gone_close_keeps pty_query_keeps)

text \<open>What can happen to the scheme: calls, closing, clock ticks, and marking of events.\<close>

inductive pty_step :: "pty_env \<Rightarrow> ptys \<Rightarrow> ptys \<Rightarrow> bool" for E where
  pty_call: "handle_sync_dont_consume (pe_abi E) (pty_scheme E) ctx oper s = ((s', oper'), r) \<Longrightarrow> \<not> panicked r \<Longrightarrow>
    pty_step E s s'"
| pty_close: "pty_on_close i s = (s', Ok u) \<Longrightarrow> pty_step E s s'"
| pty_tick: "pty_step E s (timeout_handles (pe_tty E) ct s)"
| pty_issue: "issue_list (pe_abi E) is s = (s', out) \<Longrightarrow> pty_step E s s'"

lemma gone_issue:
  assumes "gone k s" "issue_list K is s = (s', out)"
  shows "gone k s'"
  using assms
proof (induction "is" arbitrary: s out)
  case (Cons i "is")
  show ?case
  proof (cases "pt_handles s i")
    case (Some res)
    then obtain res' out' where "issue_list K is (set_handle i res' s) = (s', out')"
      using Cons.prems(2) by (auto split: prod.splits)
    then show ?thesis by (rule Cons.IH [OF gone_set_handle [OF Cons.prems(1) Some]])
  qed (use Cons in simp)
qed simp

lemma gone_step:
  assumes "pty_step E s s'" "gone k s"
  shows "gone k s'"
  using assms
proof (cases rule: pty_step.cases)
  case (pty_call ctx oper oper' r)
  then show ?thesis using gone.handle_keeps assms(2) by blast
next
  case (pty_close i u)
  then show ?thesis using gone_close_keeps [of k i] assms(2) by (auto dest: keepsD)
next
  case (pty_tick ct)
  then show ?thesis using assms(2) by (simp add: gone_def timeout_handles_def)
next
  case (pty_issue "is" out)
  then show ?thesis using gone_issue assms(2) by blast
qed

text \<open>
  C31. Hang-up is final: once a control handle is closed, then whatever calls, closes and clock ticks
  follow, reading a terminal handle that belonged to it gives end of file and writing gives \<open>EPIPE\<close>; it
  is never connected to another terminal.
\<close>

theorem pty_hangup:
  assumes "k < pt_next_id s" "pty_on_close k s = (s0, Ok u)" "(pty_step E)\<^sup>*\<^sup>* s0 s'"
    and "pt_handles s' i = Some (PtySubTerm k f r w)"
  shows "pty_read E i buf off fl ctx s' = ((set_handle i (PtySubTerm k f False w) s', buf), Ok 0) \<and>
    pty_write E i buf off fl ctx s' = (s', Err EPIPE)"
proof -
  have "gone k s0" using assms(1,2) by (auto simp: gone_def pty_on_close_def)
  with assms(3) have "gone k s'" by (induction rule: rtranclp_induct) (auto intro: gone_step)
  then have "upgrade k s' = None" "upgrade k (set_handle i (PtySubTerm k f False w) s') = None"
    using assms(4) by (auto simp: upgrade_def gone_def)
  then show ?thesis using assms(4) by (simp add: pty_read_def pty_write_def sub_read_def sub_write_def)
qed

theorem pty_hangup_witness:
  "\<exists>s'. pty_step sample_pty_env (fst (pty_on_close 0 raw_ptys)) s' \<and>
     pty_write sample_pty_env 1 [7] 0 0 sample_ctx s' = (s', Err EPIPE)"
proof -
  let ?s0 = "fst (pty_on_close 0 raw_ptys)"
  let ?s' = "timeout_handles (pe_tty sample_pty_env) 1 ?s0"
  have step: "pty_step sample_pty_env ?s0 ?s'" by (rule pty_tick)
  have "pty_on_close 0 raw_ptys = (?s0, Ok ())" by (simp add: pty_on_close_def)
  moreover have "0 < pt_next_id raw_ptys" by (simp add: raw_ptys_def)
  moreover have "pt_handles ?s' 1 = Some (PtySubTerm 0 0 False False)"
    by (simp add: timeout_handles_def pty_on_close_def raw_ptys_def)
  ultimately show ?thesis
    using pty_hangup [OF _ _ r_into_rtranclp [of "pty_step sample_pty_env", OF step], of 0 raw_ptys "()" 1 0 False False "[7]"] step
    by blast
qed

section \<open>Reading the control handle\<close>

text \<open>
  Reading the control handle one byte at a time makes no progress: every read of one byte returns the
  kind byte of the first packet, and the part put back gets that kind byte again, so the terminal is as
  it was and the data behind it is never delivered.
\<close>

lemma pty_one_byte_reads_stall:
  assumes "pt_handles s i = Some (PtyControlTerm p f r w)" "py_miso p = (t # d # ds) # rest"
  shows "pty_read E i [b] off fl ctx s = ((set_handle i (PtyControlTerm p f False w) s, [t]), Ok 1)"
proof -
  have same: "p\<lparr>py_miso := (t # d # ds) # rest\<rparr> = p" using assms(2) by (cases p) simp
  show ?thesis using assms by (simp add: pty_read_def control_read_def copy_out_def copy_into_def Let_def same)
qed

section \<open>Clock ticks\<close>

lemma poll_request_appends:
  assumes "poll_request K S i (s, h) = ((s', h'), r)"
  shows "\<exists>new. responses_to_write h' = responses_to_write h @ new"
proof (cases "states h i")
  case (Some e)
  then show ?thesis using assms
    by (cases e) (auto simp: poll_request_def poll_request_inner_def Let_def push_response_def split: if_splits prod.splits)
qed (use assms in \<open>auto simp: poll_request_def poll_request_inner_def\<close>)

lemma poll_list_appends:
  assumes "poll_list K S is (s, h) = ((s', h'), r)"
  shows "\<exists>new. responses_to_write h' = responses_to_write h @ new"
  using assms
proof (induction "is" arbitrary: s h)
  case (Cons i "is")
  obtain s1 h1 q where one: "poll_request K S i (s, h) = ((s1, h1), q)" by (metis surj_pair)
  show ?case
  proof (cases q)
    case (Ok b)
    then show ?thesis using Cons.IH [of s1 h1] Cons.prems one poll_request_appends [OF one] by fastforce
  qed (use Cons.prems one poll_request_appends [OF one] in auto)
qed simp

lemma poll_all_appends:
  assumes "poll_all_requests K S keys (s, h) = ((s', h'), r)"
  shows "\<exists>new. responses_to_write h' = responses_to_write h @ new"
  using poll_list_appends assms by (fastforce simp: poll_all_requests_def poll_ready_requests_def)

lemma issue_list_events: "issue_list K is s = (s', out) \<Longrightarrow> list_all (\<lambda>c. cqe_flags c = SendFevent) out"
proof (induction "is" arbitrary: s out)
  case (Cons i "is")
  show ?case
  proof (cases "pt_handles s i")
    case (Some res)
    then obtain res' ev out' where "issue_list K is (set_handle i res' s) = (s', out')"
      "out = (if ev \<noteq> 0 then [post_fevent_response i ev] else []) @ out'"
      using Cons.prems by (auto split: prod.splits)
    then show ?thesis using Cons.IH by (simp add: post_fevent_response_def)
  qed (use Cons in simp)
qed simp

text \<open>
  A clock tick answers nobody: polling the parked requests on a tick adds the responses of those that
  are now complete to the queue, but the tick writes only event notifications to the socket, so these
  responses wait until the next request arrives.
\<close>

lemma pty_tick_writes_no_response:
  assumes "pty_event_step E M (TimeEvent keys) l = (l', Ok ())"
  shows "\<exists>evs new. pl_socket l' = pl_socket l @ evs \<and> list_all (\<lambda>c. cqe_flags c = SendFevent) evs \<and>
    responses_to_write (pl_handler l') = responses_to_write (pl_handler l) @ new"
proof -
  obtain l1 where tick: "time_event E keys l = (l1, Ok ())" and l': "l' = issue_events (pe_abi E) l1"
    using assms by (auto elim!: then_do_eq_OkE)
  let ?s1 = "timeout_handles (pe_tty E) (pl_timeout_count l + 1) (pl_scheme l)"
  obtain s2 h2 q where poll: "poll_all_requests (pe_abi E) (pty_scheme E) keys (?s1, pl_handler l) = ((s2, h2), q)"
    by (metis surj_pair)
  then have h1: "pl_handler l1 = h2" "pl_socket l1 = pl_socket l"
    using tick by (cases q; auto simp: time_event_def Let_def)+
  obtain s3 out where iss: "issue_list (pe_abi E) [0..<pt_next_id (pl_scheme l1)] (pl_scheme l1) = (s3, out)"
    by (metis surj_pair)
  then have "pl_socket l' = pl_socket l @ out" "pl_handler l' = h2" using l' h1 by (simp_all add: issue_events_def)
  then show ?thesis using issue_list_events [OF iss] poll_all_appends [OF poll] by auto
qed

end
