(* ===== verification/Slice_Search.thy ===== *)
theory Slice_Search
  imports Prelude
begin

text \<open>
  The binary search of the standard library
  (\<open>rust/library/core/src/slice/mod.rs\<close>, \<open>binary_search_by\<close>), which the routing table uses. Its
  unchecked accesses give \<open>Panic\<close> in the model when they are out of bounds, and so do its unchecked
  assertions when they fail.
\<close>

datatype ordering = Less | Equal | Greater

definition cmp_nat :: "nat \<Rightarrow> nat \<Rightarrow> ordering" where
  "cmp_nat a b = (if a < b then Less else if a = b then Equal else Greater)"

text \<open>\<open>Ok(i)\<close> and \<open>Err(i)\<close> of the result.\<close>

datatype search_result = Found nat | Absent nat

definition get_unchecked :: "'a list \<Rightarrow> nat \<Rightarrow> 'a outcome" where
  "get_unchecked xs i = unwrap (get_at xs i)"

function search_loop :: "('a \<Rightarrow> ordering) \<Rightarrow> 'a list \<Rightarrow> nat \<Rightarrow> nat \<Rightarrow> nat outcome" where
  "search_loop f xs base sz =
     (if 1 < sz then
        let half = sz div 2; mid = base + half in
        and_then (get_unchecked xs mid) (\<lambda>x. search_loop f xs (if f x = Greater then base else mid) (sz - half))
      else Ok base)"
  by pat_completeness auto
termination
  by (relation "measure (\<lambda>(f, xs, base, sz). sz)") auto

declare search_loop.simps [simp del]

definition binary_search_by :: "('a \<Rightarrow> ordering) \<Rightarrow> 'a list \<Rightarrow> search_result outcome" where
  "binary_search_by f xs =
     (if xs = [] then Ok (Absent 0)
      else and_then (search_loop f xs 0 (length xs)) (\<lambda>base.
        and_then (get_unchecked xs base) (\<lambda>x.
        if f x = Equal then (if base < length xs then Ok (Found base) else Panic)
        else (let result = base + (if f x = Less then 1 else 0) in
              if result \<le> length xs then Ok (Absent result) else Panic))))"

definition binary_search_by_key :: "nat \<Rightarrow> ('a \<Rightarrow> nat) \<Rightarrow> 'a list \<Rightarrow> search_result outcome" where
  "binary_search_by_key b f xs = binary_search_by (\<lambda>k. cmp_nat (f k) b) xs"

section \<open>Correctness\<close>

text \<open>The comparison splits the slice into smaller, equal and greater elements, in this order.\<close>

definition split_by :: "('a \<Rightarrow> ordering) \<Rightarrow> 'a list \<Rightarrow> bool" where
  "split_by f xs \<longleftrightarrow> sorted_wrt (\<lambda>x y. (f y = Less \<longrightarrow> f x = Less) \<and> (f x = Greater \<longrightarrow> f y = Greater)) xs"

lemma split_byD:
  assumes "split_by f xs" "i \<le> j" "j < length xs"
  shows "f (xs ! j) = Less \<Longrightarrow> f (xs ! i) = Less" "f (xs ! i) = Greater \<Longrightarrow> f (xs ! j) = Greater"
  using assms sorted_wrt_nth_less [OF assms(1) [unfolded split_by_def], of i j] by (cases "i = j"; simp)+

text \<open>
  The invariant of the loop: the window lies inside the slice, everything behind it is greater, and its
  first element is not greater unless the window starts at 0.
\<close>

definition window_ok :: "('a \<Rightarrow> ordering) \<Rightarrow> 'a list \<Rightarrow> nat \<Rightarrow> nat \<Rightarrow> bool" where
  "window_ok f xs base sz \<longleftrightarrow> 0 < sz \<and> base + sz \<le> length xs \<and>
     (\<forall>k. base + sz \<le> k \<longrightarrow> k < length xs \<longrightarrow> f (xs ! k) = Greater) \<and> (base = 0 \<or> f (xs ! base) \<noteq> Greater)"

lemma search_loop_window:
  assumes "split_by f xs" "window_ok f xs base sz"
  shows "\<exists>base'. search_loop f xs base sz = Ok base' \<and> window_ok f xs base' 1"
  using assms
proof (induction f xs base sz rule: search_loop.induct)
  case (1 f xs base sz)
  show ?case
  proof (cases "1 < sz")
    case True
    let ?mid = "base + sz div 2"
    have mid: "?mid < length xs" "base \<le> ?mid" "sz div 2 < sz" "sz div 2 \<le> sz - sz div 2"
      using True "1.prems"(2) by (auto simp: window_ok_def)
    let ?base' = "if f (xs ! ?mid) = Greater then base else ?mid"
    have "window_ok f xs ?base' (sz - sz div 2)"
    proof (cases "f (xs ! ?mid) = Greater")
      case greater: True
      have "f (xs ! k) = Greater" if "base + (sz - sz div 2) \<le> k" "k < length xs" for k
        using split_byD(2) [OF "1.prems"(1) _ that(2) greater] that(1) mid(4) by simp
      then show ?thesis using greater "1.prems"(2) True by (auto simp: window_ok_def)
    next
      case False
      then show ?thesis using "1.prems"(2) mid(3) by (auto simp: window_ok_def)
    qed
    moreover have "search_loop f xs base sz = search_loop f xs ?base' (sz - sz div 2)"
      using True mid(1) by (subst search_loop.simps) (simp add: get_unchecked_def get_at_def Let_def)
    moreover have "get_unchecked xs ?mid = Ok (xs ! ?mid)" using mid(1) by (simp add: get_unchecked_def get_at_def)
    ultimately show ?thesis
      using "1.IH" [OF True refl refl _ "1.prems"(1)] by simp
  next
    case False
    then have "sz = 1" using "1.prems"(2) by (simp add: window_ok_def)
    then show ?thesis using "1.prems"(2) by (auto simp: search_loop.simps)
  qed
qed

lemma binary_search_split:
  assumes "split_by f xs"
  obtains (found) i where "binary_search_by f xs = Ok (Found i)" "i < length xs" "f (xs ! i) = Equal"
  | (absent) i where "binary_search_by f xs = Ok (Absent i)" "i \<le> length xs"
      "\<And>k. k < i \<Longrightarrow> f (xs ! k) = Less" "\<And>k. i \<le> k \<Longrightarrow> k < length xs \<Longrightarrow> f (xs ! k) = Greater"
proof (cases "xs = []")
  case True
  then show thesis using absent [of 0] by (simp add: binary_search_by_def)
next
  case False
  then have "window_ok f xs 0 (length xs)" by (simp add: window_ok_def)
  from search_loop_window [OF assms this] obtain b where
    loop: "search_loop f xs 0 (length xs) = Ok b" and w: "window_ok f xs b 1" by blast
  have b: "b < length xs" "\<And>k. b < k \<Longrightarrow> k < length xs \<Longrightarrow> f (xs ! k) = Greater" "b = 0 \<or> f (xs ! b) \<noteq> Greater"
    using w by (auto simp: window_ok_def)
  have run: "binary_search_by f xs =
      (if f (xs ! b) = Equal then Ok (Found b) else Ok (Absent (b + (if f (xs ! b) = Less then 1 else 0))))"
    using False loop b(1) by (simp add: binary_search_by_def get_unchecked_def get_at_def)
  show thesis
  proof (cases "f (xs ! b)")
    case Equal
    then show thesis using found run b(1) by simp
  next
    case Less
    then have "f (xs ! k) = Less" if "k < b + 1" for k using that split_byD(1) [OF assms _ b(1)] by simp
    then show thesis using absent [of "b + 1"] run b Less by simp
  next
    case Greater
    then have "b = 0" using b(3) by simp
    moreover have "f (xs ! k) = Greater" if "k < length xs" for k
      using that Greater split_byD(2) [OF assms, of b k] \<open>b = 0\<close> by simp
    ultimately show thesis using absent [of 0] run Greater by simp
  qed
qed

text \<open>
  C32. The library's binary search is correct and memory safe: on a slice that the comparison splits into
  smaller, equal and greater elements it always returns, never reads outside the slice, and gives the
  position of an equal element, or, if there is none, the position between the smaller and the greater
  ones.
\<close>

theorem binary_search_correct:
  assumes "split_by f xs"
  shows "(\<exists>i. binary_search_by f xs = Ok (Found i) \<and> i < length xs \<and> f (xs ! i) = Equal) \<or>
    (\<exists>i. binary_search_by f xs = Ok (Absent i) \<and> (\<forall>x \<in> set (take i xs). f x = Less) \<and> (\<forall>x \<in> set (drop i xs). f x = Greater))"
  using assms
proof (cases rule: binary_search_split)
  case (absent i)
  have "\<forall>x \<in> set (take i xs). f x = Less" using absent(2,3) by (auto simp: in_set_conv_nth)
  moreover have "\<forall>x \<in> set (drop i xs). f x = Greater" using absent(4) by (auto simp: in_set_conv_nth)
  ultimately show ?thesis using absent(1) by blast
qed blast

theorem binary_search_correct_witness:
  "split_by (\<lambda>x. cmp_nat x 5) [1, 3, 7 :: nat] \<and>
   ((\<exists>i. binary_search_by (\<lambda>x. cmp_nat x 5) [1, 3, 7 :: nat] = Ok (Found i) \<and> i < 3 \<and> cmp_nat ([1, 3, 7] ! i) 5 = Equal) \<or>
    (\<exists>i. binary_search_by (\<lambda>x. cmp_nat x 5) [1, 3, 7 :: nat] = Ok (Absent i) \<and>
       (\<forall>x \<in> set (take i [1, 3, 7]). cmp_nat x 5 = Less) \<and> (\<forall>x \<in> set (drop i [1, 3, 7]). cmp_nat x 5 = Greater)))"
proof -
  have split: "split_by (\<lambda>x. cmp_nat x 5) [1, 3, 7 :: nat]" by (simp add: split_by_def cmp_nat_def)
  have "length [1, 3, 7 :: nat] = 3" by simp
  with split binary_search_correct [OF split] show ?thesis by metis
qed

end
