(* ===== verification/Netstack.thy ===== *)
theory Netstack
  imports Slice_Search "HOL-Library.Multiset" "HOL-Library.Mapping"
begin

text \<open>
  Two parts of the network stack that do not depend on the protocol library: the routing table with the
  router's dispatch of outgoing packets (\<open>netstack/src/router\<close>) and the set of ports
  (\<open>netstack/src/port_set.rs\<close>). Addresses, address ranges and packets belong to the \<open>smoltcp\<close> crate, which
  is not in the repository: they are type variables, and its functions the record \<open>ip_ops\<close>. What a link
  device does with a packet is not modelled: dispatching gives the list of \<open>send\<close> calls.
\<close>

section \<open>Routing table\<close>

record ('a, 'c, 'p) ip_ops =
  contains_addr :: "'c \<Rightarrow> 'a \<Rightarrow> bool"
  prefix_len :: "'c \<Rightarrow> nat"
  new_checked :: "u8 list \<Rightarrow> 'p option"
  dst_addr :: "'p \<Rightarrow> 'a"
  src_addr :: "'p \<Rightarrow> 'a"
  is_broadcast :: "'a \<Rightarrow> bool"
  set_src_addr :: "'a \<Rightarrow> 'p \<Rightarrow> 'p"
  fill_checksum :: "'p \<Rightarrow> 'p"
  into_inner :: "'p \<Rightarrow> u8 list"

record ('a, 'c) route_rule =
  rr_filter :: 'c
  rr_via :: "'a option"
  rr_dev :: string
  rr_src :: 'a

definition rule_new :: "'c \<Rightarrow> 'a option \<Rightarrow> string \<Rightarrow> 'a \<Rightarrow> ('a, 'c) route_rule" where
  "rule_new flt via dev src = \<lparr>rr_filter = flt, rr_via = via, rr_dev = dev, rr_src = src\<rparr>"

record ('a, 'c) route_table =
  rt_rules :: "('a, 'c) route_rule list"

definition route_table_default :: "('a, 'c) route_table" where
  "route_table_default = \<lparr>rt_rules = []\<rparr>"

definition lookup_rule :: "('a, 'c, 'p) ip_ops \<Rightarrow> 'a \<Rightarrow> ('a, 'c) route_table \<Rightarrow> ('a, 'c) route_rule option" where
  "lookup_rule ip dst t = find (\<lambda>rule. contains_addr ip (rr_filter rule) dst) (rev (rt_rules t))"

definition lookup_src_addr :: "('a, 'c, 'p) ip_ops \<Rightarrow> 'a \<Rightarrow> ('a, 'c) route_table \<Rightarrow> 'a option" where
  "lookup_src_addr ip dst t = map_option rr_src (lookup_rule ip dst t)"

definition lookup_gateway :: "('a, 'c, 'p) ip_ops \<Rightarrow> 'a \<Rightarrow> ('a, 'c) route_table \<Rightarrow> 'a option" where
  "lookup_gateway ip dst t = Option.bind (lookup_rule ip dst t) rr_via"

definition lookup_device :: "('a, 'c, 'p) ip_ops \<Rightarrow> 'a \<Rightarrow> ('a, 'c) route_table \<Rightarrow> string option" where
  "lookup_device ip dst t = map_option rr_dev (lookup_rule ip dst t)"

text \<open>\<open>Vec::insert\<close> panics behind the end.\<close>

definition vec_insert :: "nat \<Rightarrow> 'x \<Rightarrow> 'x list \<Rightarrow> 'x list outcome" where
  "vec_insert i x xs = (if i \<le> length xs then Ok (take i xs @ x # drop i xs) else Panic)"

definition insert_rule ::
  "('a, 'c, 'p) ip_ops \<Rightarrow> ('a, 'c) route_rule \<Rightarrow> ('a, 'c) route_table \<Rightarrow> ('a, 'c) route_table outcome" where
  "insert_rule ip new_rule t =
     and_then (binary_search_by_key (prefix_len ip (rr_filter new_rule)) (\<lambda>rule. prefix_len ip (rr_filter rule)) (rt_rules t)) (\<lambda>r.
     let i = (case r of Found i \<Rightarrow> i | Absent i \<Rightarrow> i) in
     map_outcome (\<lambda>rules. t\<lparr>rt_rules := rules\<rparr>) (vec_insert i new_rule (rt_rules t)))"

definition remove_rule :: "'c \<Rightarrow> ('a, 'c) route_table \<Rightarrow> ('a, 'c) route_table" where
  "remove_rule flt t = t\<lparr>rt_rules := filter (\<lambda>rule. rr_filter rule \<noteq> flt) (rt_rules t)\<rparr>"

definition change_src :: "'a \<Rightarrow> 'a \<Rightarrow> ('a, 'c) route_table \<Rightarrow> ('a, 'c) route_table" where
  "change_src old_src new_src t =
     t\<lparr>rt_rules := map (\<lambda>rule. if rr_src rule = old_src then rule\<lparr>rr_src := new_src\<rparr> else rule) (rt_rules t)\<rparr>"

text \<open>The loop of \<open>Router::dispatch\<close> for one packet of the transmit buffer, with the names of the devices.\<close>

definition dispatch_packet ::
  "('a, 'c, 'p) ip_ops \<Rightarrow> string list \<Rightarrow> ('a, 'c) route_table \<Rightarrow> u8 list \<Rightarrow> (string \<times> 'a \<times> u8 list) list" where
  "dispatch_packet ip devices t buf =
     (case new_checked ip buf of
        None \<Rightarrow> []
      | Some packet \<Rightarrow>
          let dst = dst_addr ip packet in
          if is_broadcast ip dst then map (\<lambda>dev. (dev, dst, into_inner ip packet)) devices
          else (case lookup_rule ip dst t of
              None \<Rightarrow> []
            | Some rule \<Rightarrow>
                let next_hop = (case rr_via rule of Some via \<Rightarrow> via | None \<Rightarrow> dst) in
                (case find (\<lambda>dev. dev = rr_dev rule) devices of
                   None \<Rightarrow> []
                 | Some dev \<Rightarrow>
                     let packet' = (if rr_src rule \<noteq> src_addr ip packet
                                    then fill_checksum ip (set_src_addr ip (rr_src rule) packet) else packet)
                     in [(dev, next_hop, into_inner ip packet')])))"

text \<open>The whole buffer is sent in order and left empty.\<close>

primrec dispatch ::
  "('a, 'c, 'p) ip_ops \<Rightarrow> string list \<Rightarrow> ('a, 'c) route_table \<Rightarrow> u8 list list \<Rightarrow> (string \<times> 'a \<times> u8 list) list" where
  "dispatch ip devices t [] = []"
| "dispatch ip devices t (buf # tx_buffer) = dispatch_packet ip devices t buf @ dispatch ip devices t tx_buffer"

section \<open>Port set\<close>

text \<open>Ports are 16-bit numbers; an overflow panics except in \<open>wrapping_add\<close>.\<close>

abbreviation u16_range :: nat where "u16_range \<equiv> 2 ^ 16"

record port_set =
  ps_from :: nat
  ps_range :: nat
  ps_next :: nat
  ps_ports :: "(nat, nat) mapping"

definition port_set_new :: "nat \<Rightarrow> nat \<Rightarrow> port_set option outcome" where
  "port_set_new from_port to_port =
     (if to_port < from_port then Ok None
      else map_outcome (\<lambda>range. Some \<lparr>ps_from = from_port, ps_range = range, ps_next = 0, ps_ports = Mapping.empty\<rparr>)
             (uint_add 16 (to_port - from_port) 1))"

text \<open>The search for a vacant entry: no result when it never ends.\<close>

partial_function (option) vacant_from :: "(nat, nat) mapping \<Rightarrow> nat \<Rightarrow> nat option" where
  [code]: "vacant_from ports next =
     (if Mapping.lookup ports next = None then Some next else vacant_from ports ((next + 1) mod u16_range))"

definition get_port :: "port_set \<Rightarrow> (port_set \<times> nat option outcome) option" where
  "get_port s =
     (if ps_range s \<le> Mapping.size (ps_ports s) then Some (s, Ok None)
      else map_option (\<lambda>next.
        let s1 = s\<lparr>ps_next := next, ps_ports := Mapping.update next 1 (ps_ports s)\<rparr> in
        question s1 (uint_add 16 (ps_from s) next) (\<lambda>port.
        (s1\<lparr>ps_next := (next + 1) mod u16_range\<rparr>, Ok (Some port))))
        (vacant_from (ps_ports s) (ps_next s)))"

definition claim_port :: "nat \<Rightarrow> port_set \<Rightarrow> port_set \<times> bool" where
  "claim_port port s =
     (case Mapping.lookup (ps_ports s) port of
        None \<Rightarrow> (s\<lparr>ps_ports := Mapping.update port 1 (ps_ports s)\<rparr>, True)
      | Some n \<Rightarrow> (s, False))"

definition acquire_port :: "nat \<Rightarrow> port_set \<Rightarrow> port_set \<times> unit outcome" where
  "acquire_port port s =
     (let n = (case Mapping.lookup (ps_ports s) port of None \<Rightarrow> 0 | Some n \<Rightarrow> n) in
      question (s\<lparr>ps_ports := Mapping.update port n (ps_ports s)\<rparr>) (usize_add n 1) (\<lambda>n'.
      (s\<lparr>ps_ports := Mapping.update port n' (ps_ports s)\<rparr>, Ok ())))"

definition release_port :: "nat \<Rightarrow> port_set \<Rightarrow> port_set \<times> unit outcome" where
  "release_port port s =
     (case Mapping.lookup (ps_ports s) port of
        None \<Rightarrow> (s, Ok ())
      | Some n \<Rightarrow>
          question s (usize_sub n 1) (\<lambda>n'.
          (s\<lparr>ps_ports := (if n' = 0 then Mapping.delete port (ps_ports s) else Mapping.update port n' (ps_ports s))\<rparr>, Ok ())))"

section \<open>Longest prefix match\<close>

text \<open>The abstract table is a multiset of rules without any order.\<close>

datatype ('a, 'c) route_cmd =
    Insert_rule "('a, 'c) route_rule"
  | Remove_rule 'c
  | Change_src 'a 'a

fun run_cmd :: "('a, 'c, 'p) ip_ops \<Rightarrow> ('a, 'c) route_cmd \<Rightarrow> ('a, 'c) route_table \<Rightarrow> ('a, 'c) route_table outcome" where
  "run_cmd ip (Insert_rule r) t = insert_rule ip r t"
| "run_cmd ip (Remove_rule c) t = Ok (remove_rule c t)"
| "run_cmd ip (Change_src a b) t = Ok (change_src a b t)"

primrec run_cmds ::
  "('a, 'c, 'p) ip_ops \<Rightarrow> ('a, 'c) route_cmd list \<Rightarrow> ('a, 'c) route_table \<Rightarrow> ('a, 'c) route_table outcome" where
  "run_cmds ip [] t = Ok t"
| "run_cmds ip (c # cs) t = and_then (run_cmd ip c t) (run_cmds ip cs)"

fun spec_cmd :: "('a, 'c) route_cmd \<Rightarrow> ('a, 'c) route_rule multiset \<Rightarrow> ('a, 'c) route_rule multiset" where
  "spec_cmd (Insert_rule r) R = add_mset r R"
| "spec_cmd (Remove_rule c) R = filter_mset (\<lambda>r. rr_filter r \<noteq> c) R"
| "spec_cmd (Change_src a b) R = image_mset (\<lambda>r. if rr_src r = a then r\<lparr>rr_src := b\<rparr> else r) R"

definition spec_cmds :: "('a, 'c) route_cmd list \<Rightarrow> ('a, 'c) route_rule multiset" where
  "spec_cmds cs = fold spec_cmd cs {#}"

definition best_rule :: "('a, 'c, 'p) ip_ops \<Rightarrow> 'a \<Rightarrow> ('a, 'c) route_rule multiset \<Rightarrow> ('a, 'c) route_rule \<Rightarrow> bool" where
  "best_rule ip dst R r \<longleftrightarrow> r \<in># R \<and> contains_addr ip (rr_filter r) dst \<and>
     (\<forall>r' \<in># R. contains_addr ip (rr_filter r') dst \<longrightarrow> prefix_len ip (rr_filter r') \<le> prefix_len ip (rr_filter r))"

definition rule_len :: "('a, 'c, 'p) ip_ops \<Rightarrow> ('a, 'c) route_rule \<Rightarrow> nat" where
  "rule_len ip r = prefix_len ip (rr_filter r)"

definition by_len :: "('a, 'c, 'p) ip_ops \<Rightarrow> ('a, 'c) route_table \<Rightarrow> bool" where
  "by_len ip t \<longleftrightarrow> sorted (map (rule_len ip) (rt_rules t))"

lemma sorted_split_by: "sorted (map k xs) \<Longrightarrow> split_by (\<lambda>x. cmp_nat (k x) b) xs"
  by (auto simp: split_by_def cmp_nat_def sorted_map elim!: sorted_wrt_mono_rel [rotated])

lemma cmp_nat_simps [simp]:
  "cmp_nat a b = Less \<longleftrightarrow> a < b" "cmp_nat a b = Equal \<longleftrightarrow> a = b" "cmp_nat a b = Greater \<longleftrightarrow> b < a"
  by (auto simp: cmp_nat_def)

lemma sorted_insert_at:
  assumes "sorted (map k xs)" "i \<le> length xs" "\<And>j. j < i \<Longrightarrow> k (xs ! j) \<le> k x"
    "\<And>j. i \<le> j \<Longrightarrow> j < length xs \<Longrightarrow> k x \<le> k (xs ! j)"
  shows "sorted (map k (take i xs @ x # drop i xs))"
proof -
  have split: "sorted (map k (take i xs @ drop i xs))" using assms(1) by simp
  have "\<forall>y \<in> set (take i xs). k y \<le> k x" using assms(2,3) by (auto simp: in_set_conv_nth)
  moreover have "\<forall>y \<in> set (drop i xs). k x \<le> k y" using assms(4) by (auto simp: in_set_conv_nth)
  ultimately show ?thesis using split unfolding map_append sorted_append by auto
qed

lemma insert_position:
  assumes sorted: "sorted (map k xs)"
  obtains res i where "binary_search_by_key b k xs = Ok res" "res = Found i \<or> res = Absent i" "i \<le> length xs"
    "\<And>j. j < i \<Longrightarrow> k (xs ! j) \<le> b" "\<And>j. i \<le> j \<Longrightarrow> j < length xs \<Longrightarrow> b \<le> k (xs ! j)"
  using sorted_split_by [OF sorted, of b]
proof (cases rule: binary_search_split)
  case (found i)
  then have b: "b = k (xs ! i)" by simp
  have mono: "k (xs ! x) \<le> k (xs ! y)" if "x \<le> y" "y < length xs" for x y
    using sorted_nth_mono [OF sorted that(1)] that by simp
  show thesis
    using found(1,2) mono [of _ i] mono [of i] by (intro that [of "Found i" i]) (simp_all add: b binary_search_by_key_def)
next
  case (absent i)
  then show thesis by (intro that [of "Absent i" i]) (auto simp: binary_search_by_key_def less_imp_le)
qed

lemma insert_rule_sorted:
  assumes "by_len ip t"
  shows "\<exists>t'. insert_rule ip r t = Ok t' \<and> by_len ip t' \<and> mset (rt_rules t') = add_mset r (mset (rt_rules t))"
proof -
  let ?k = "rule_len ip" and ?xs = "rt_rules t"
  have sorted: "sorted (map ?k ?xs)" using assms by (simp add: by_len_def)
  from insert_position [OF sorted] obtain res i where
    res: "binary_search_by_key (?k r) ?k ?xs = Ok res" "res = Found i \<or> res = Absent i" "i \<le> length ?xs"
      "\<And>j. j < i \<Longrightarrow> ?k (?xs ! j) \<le> ?k r" "\<And>j. i \<le> j \<Longrightarrow> j < length ?xs \<Longrightarrow> ?k r \<le> ?k (?xs ! j)" by blast
  have "insert_rule ip r t = Ok (t\<lparr>rt_rules := take i ?xs @ r # drop i ?xs\<rparr>)"
    using res(1-3) unfolding insert_rule_def rule_len_def by (auto simp: vec_insert_def)
  moreover have "mset (take i ?xs @ r # drop i ?xs) = add_mset r (mset ?xs)"
    by (metis append_take_drop_id mset.simps(2) mset_append union_mset_add_mset_right)
  ultimately show ?thesis using sorted_insert_at [OF sorted res(3-5)] by (simp add: by_len_def)
qed

lemma run_cmd_refines:
  assumes "by_len ip t"
  shows "\<exists>t'. run_cmd ip c t = Ok t' \<and> by_len ip t' \<and> mset (rt_rules t') = spec_cmd c (mset (rt_rules t))"
proof (cases c)
  case (Insert_rule r)
  then show ?thesis using insert_rule_sorted [OF assms] by simp
next
  case (Remove_rule c)
  then show ?thesis using assms by (simp add: by_len_def remove_rule_def sorted_map sorted_wrt_filter mset_filter)
next
  case (Change_src a b)
  have "map (rule_len ip) (map (\<lambda>r. if rr_src r = a then r\<lparr>rr_src := b\<rparr> else r) rs) = map (rule_len ip) rs" for rs
    by (simp add: rule_len_def)
  with Change_src show ?thesis using assms by (simp add: by_len_def change_src_def del: map_map)
qed

lemma run_cmds_refines:
  assumes "by_len ip t"
  shows "\<exists>t'. run_cmds ip cs t = Ok t' \<and> by_len ip t' \<and> mset (rt_rules t') = fold spec_cmd cs (mset (rt_rules t))"
  using assms
proof (induction cs arbitrary: t)
  case (Cons c cs)
  from run_cmd_refines [OF Cons.prems] obtain t1 where
    "run_cmd ip c t = Ok t1" "by_len ip t1" "mset (rt_rules t1) = spec_cmd c (mset (rt_rules t))" by blast
  with Cons.IH [of t1] show ?case by simp
qed simp

lemma find_rev_longest:
  assumes "sorted (map k xs)"
  shows "case find P (rev xs) of None \<Rightarrow> \<forall>x \<in> set xs. \<not> P x | Some x \<Rightarrow> x \<in> set xs \<and> P x \<and> (\<forall>y \<in> set xs. P y \<longrightarrow> k y \<le> k x)"
  using assms
proof (induction xs rule: rev_induct)
  case (snoc x xs)
  have "sorted (map k xs)" and le: "\<forall>y \<in> set xs. k y \<le> k x" using snoc.prems by (auto simp: sorted_append)
  from snoc.IH [OF this(1)] le show ?case by (cases "P x") (auto split: option.splits)
qed simp

lemma lookup_rule_best:
  assumes "by_len ip t"
  shows "case lookup_rule ip dst t of None \<Rightarrow> \<forall>r \<in># mset (rt_rules t). \<not> contains_addr ip (rr_filter r) dst
    | Some r \<Rightarrow> best_rule ip dst (mset (rt_rules t)) r"
  using find_rev_longest [OF assms [unfolded by_len_def], of "\<lambda>r. contains_addr ip (rr_filter r) dst"]
  unfolding lookup_rule_def best_rule_def rule_len_def by (simp split: option.splits)

text \<open>
  C8. The routing table refines a multiset of rules with longest prefix match. Every sequence of
  insertions, removals and changes of the source address succeeds and leaves exactly the rules that the
  sequence asks for; an outgoing packet to a single host is then sent once, to the device and the next
  hop of a matching rule whose prefix is the longest, or nowhere if no rule matches or the device is gone.
\<close>

theorem route_longest_prefix:
  assumes packet: "new_checked ip buf = Some packet" "\<not> is_broadcast ip (dst_addr ip packet)"
  shows "\<exists>t. run_cmds ip cs route_table_default = Ok t \<and> mset (rt_rules t) = spec_cmds cs \<and>
    ((\<forall>r \<in># spec_cmds cs. \<not> contains_addr ip (rr_filter r) (dst_addr ip packet)) \<and> dispatch ip devices t [buf] = [] \<or>
     (\<exists>r packet'. best_rule ip (dst_addr ip packet) (spec_cmds cs) r \<and>
        packet' = (if rr_src r = src_addr ip packet then packet else fill_checksum ip (set_src_addr ip (rr_src r) packet)) \<and>
        dispatch ip devices t [buf] =
          (if rr_dev r \<in> set devices
           then [(rr_dev r, case rr_via r of Some via \<Rightarrow> via | None \<Rightarrow> dst_addr ip packet, into_inner ip packet')] else [])))"
proof -
  have "by_len ip route_table_default" by (simp add: by_len_def route_table_default_def)
  from run_cmds_refines [OF this, of cs] obtain t where t: "run_cmds ip cs route_table_default = Ok t"
      "by_len ip t" "mset (rt_rules t) = spec_cmds cs"
    by (auto simp: spec_cmds_def route_table_default_def)
  have dev: "find (\<lambda>d. d = n) devices = (if n \<in> set devices then Some n else None)" for n
    by (induction devices) auto
  show ?thesis
  proof (cases "lookup_rule ip (dst_addr ip packet) t")
    case None
    then have "dispatch ip devices t [buf] = []" using packet by (simp add: dispatch_packet_def)
    moreover have "\<forall>r \<in># spec_cmds cs. \<not> contains_addr ip (rr_filter r) (dst_addr ip packet)"
      using lookup_rule_best [OF t(2), of "dst_addr ip packet"] None unfolding t(3) by simp
    ultimately show ?thesis using t by blast
  next
    case (Some r)
    then have "best_rule ip (dst_addr ip packet) (spec_cmds cs) r"
      using lookup_rule_best [OF t(2), of "dst_addr ip packet"] unfolding t(3) by simp
    moreover have "dispatch ip devices t [buf] =
        (if rr_dev r \<in> set devices
         then [(rr_dev r, case rr_via r of Some via \<Rightarrow> via | None \<Rightarrow> dst_addr ip packet, into_inner ip
           (if rr_src r = src_addr ip packet then packet else fill_checksum ip (set_src_addr ip (rr_src r) packet)))] else [])"
      using packet Some by (simp add: dispatch_packet_def dev Let_def)
    ultimately show ?thesis using t by blast
  qed
qed

text \<open>
  A toy address family: addresses are numbers, a range is the list of its leading decimal digits and a
  packet its destination and source.
\<close>

definition sample_ip :: "(nat list, nat list, nat list \<times> nat list) ip_ops" where
  "sample_ip = \<lparr>contains_addr = (\<lambda>c a. take (length c) a = c), prefix_len = length,
     new_checked = (\<lambda>b. case b of [x, y] \<Rightarrow> Some ([unat x, 2], [unat y, 2]) | _ \<Rightarrow> None),
     dst_addr = fst, src_addr = snd, is_broadcast = (\<lambda>a. a = []), set_src_addr = (\<lambda>a p. (fst p, a)),
     fill_checksum = id, into_inner = (\<lambda>p. [of_nat (hd (fst p)), of_nat (hd (snd p))])\<rparr>"

definition sample_cmds :: "(nat list, nat list) route_cmd list" where
  "sample_cmds = [Insert_rule (rule_new [] (Some [9]) ''eth0'' [4]), Insert_rule (rule_new [7] None ''loopback'' [5])]"

theorem route_longest_prefix_witness:
  "\<exists>t. run_cmds sample_ip sample_cmds route_table_default = Ok t \<and> mset (rt_rules t) = spec_cmds sample_cmds \<and>
     dispatch sample_ip [''loopback''] t [[7, 3]] = [(''loopback'', [7, 2], [7, 5])]"
proof -
  have p: "new_checked sample_ip [7, 3] = Some ([7, 2], [3, 2])" "\<not> is_broadcast sample_ip (dst_addr sample_ip ([7, 2], [3, 2]))"
    by (simp_all add: sample_ip_def)
  have spec: "spec_cmds sample_cmds = {#rule_new [7] None ''loopback'' [5], rule_new [] (Some [9]) ''eth0'' [4]#}"
    by (simp add: spec_cmds_def sample_cmds_def)
  have best: "best_rule sample_ip [7, 2] (spec_cmds sample_cmds) r \<longleftrightarrow> r = rule_new [7] None ''loopback'' [5]" for r
    unfolding spec best_rule_def by (auto simp: sample_ip_def rule_new_def)
  have hit: "contains_addr sample_ip (rr_filter (rule_new [7] None ''loopback'' [5])) [7, 2]"
    by (simp add: sample_ip_def rule_new_def)
  have fields: "dst_addr sample_ip ([7, 2], [3, 2]) = [7, 2]" "src_addr sample_ip ([7, 2], [3, 2]) = [3, 2]"
    "into_inner sample_ip (fill_checksum sample_ip (set_src_addr sample_ip [5] ([7, 2], [3, 2]))) = [7, 5]"
    by (simp_all add: sample_ip_def)
  from route_longest_prefix [OF p, of sample_cmds "[''loopback'']"] hit show ?thesis
    unfolding fields best by (auto simp: spec rule_new_def fields)
qed

section \<open>Ephemeral ports are not returned\<close>

text \<open>A socket that is opened on a free port and closed again, as \<open>new_socket\<close> and \<open>close_file\<close> do it.\<close>

definition port_cycle :: "port_set \<Rightarrow> (port_set \<times> nat option outcome) option" where
  "port_cycle s =
     (case get_port s of
        Some (s1, Ok (Some port)) \<Rightarrow> Some (fst (release_port port s1), Ok (Some port))
      | r \<Rightarrow> r)"

primrec port_cycles :: "nat \<Rightarrow> port_set \<Rightarrow> (port_set \<times> nat option outcome list) option" where
  "port_cycles 0 s = Some (s, [])"
| "port_cycles (Suc n) s =
     Option.bind (port_cycles n s) (\<lambda>(s1, rs). map_option (\<lambda>(s2, r). (s2, rs @ [r])) (port_cycle s1))"

definition used_up :: "nat \<Rightarrow> port_set \<Rightarrow> bool" where
  "used_up n s \<longleftrightarrow> Mapping.keys (ps_ports s) = {0..<n} \<and> ps_next s = n"

lemma used_up_lookup: "used_up n s \<Longrightarrow> Mapping.lookup (ps_ports s) i = None \<longleftrightarrow> n \<le> i"
  by (metis atLeastLessThan_iff domIff keys_dom_lookup le0 not_le used_up_def)

lemma used_up_size: "used_up n s \<Longrightarrow> Mapping.size (ps_ports s) = n"
  by (simp add: used_up_def Mapping.size_def)

lemma get_port_used_up:
  assumes "used_up n s" "n < ps_range s" "ps_range s \<le> ps_from s" "ps_from s + ps_range s \<le> u16_range"
  shows "get_port s = Some (s\<lparr>ps_next := Suc n, ps_ports := Mapping.update n 1 (ps_ports s)\<rparr>, Ok (Some (ps_from s + n)))"
proof -
  have "ps_next s = n" using assms(1) by (simp add: used_up_def)
  then have "vacant_from (ps_ports s) (ps_next s) = Some n"
    using used_up_lookup [OF assms(1)] by (subst vacant_from.simps) simp
  then show ?thesis
    using assms used_up_size [OF assms(1)] by (simp add: get_port_def uint_add_def Let_def)
qed

lemma port_cycles_used_up:
  assumes "used_up 0 s" "n \<le> ps_range s" "ps_range s \<le> ps_from s" "ps_from s + ps_range s \<le> u16_range"
  shows "\<exists>s'. port_cycles n s = Some (s', map (\<lambda>i. Ok (Some (ps_from s + i))) [0..<n]) \<and>
    used_up n s' \<and> ps_from s' = ps_from s \<and> ps_range s' = ps_range s"
  using assms(2)
proof (induction n)
  case 0
  then show ?case using assms(1) by simp
next
  case (Suc n)
  then obtain s1 where s1: "port_cycles n s = Some (s1, map (\<lambda>i. Ok (Some (ps_from s + i))) [0..<n])"
    "used_up n s1" "ps_from s1 = ps_from s" "ps_range s1 = ps_range s" by auto
  let ?s2 = "s1\<lparr>ps_next := Suc n, ps_ports := Mapping.update n 1 (ps_ports s1)\<rparr>"
  have get: "get_port s1 = Some (?s2, Ok (Some (ps_from s + n)))"
    using get_port_used_up [OF s1(2)] assms(3,4) Suc.prems s1(3,4) by simp
  have up: "used_up (Suc n) ?s2" using s1(2) by (auto simp: used_up_def)
  have "release_port (ps_from s + n) ?s2 = (?s2, Ok ())"
    using used_up_lookup [OF up, of "ps_from s + n"] assms(3) Suc.prems by (simp add: release_port_def)
  then have "port_cycle s1 = Some (?s2, Ok (Some (ps_from s + n)))" using get by (simp add: port_cycle_def)
  then show ?case using s1 up by simp
qed

text \<open>
  C38. A port that \<open>get_port\<close> handed out is not given back by \<open>release_port\<close>: the first counts the ports
  from the start of the range, the second by their number. Opening and closing one socket after the
  other gives the ports of the range in order, and once the range has been used up there is no port
  left although every socket is closed. The ranges of the TCP and UDP schemes are of this kind.
\<close>

theorem port_set_leaks:
  assumes "from_port \<le> to_port" "to_port < u16_range" "to_port - from_port < from_port"
  shows "\<exists>s0 s. port_set_new from_port to_port = Ok (Some s0) \<and>
    port_cycles (to_port - from_port + 1) s0 = Some (s, map (\<lambda>i. Ok (Some (from_port + i))) [0..<to_port - from_port + 1]) \<and>
    get_port s = Some (s, Ok None)"
proof -
  let ?s0 = "\<lparr>ps_from = from_port, ps_range = to_port - from_port + 1, ps_next = 0, ps_ports = Mapping.empty\<rparr>"
  have new: "port_set_new from_port to_port = Ok (Some ?s0)"
    using assms by (simp add: port_set_new_def uint_add_def)
  have "used_up 0 ?s0" by (simp add: used_up_def)
  from port_cycles_used_up [OF this, of "to_port - from_port + 1"] assms obtain s where
    "port_cycles (to_port - from_port + 1) ?s0 = Some (s, map (\<lambda>i. Ok (Some (from_port + i))) [0..<to_port - from_port + 1])"
    "used_up (to_port - from_port + 1) s" "ps_range s = to_port - from_port + 1" by auto
  with new show ?thesis using used_up_size by (fastforce simp: get_port_def)
qed

theorem port_set_leaks_witness:
  "\<exists>s0 s. port_set_new 49152 65535 = Ok (Some s0) \<and>
     port_cycles 16384 s0 = Some (s, map (\<lambda>i. Ok (Some (49152 + i))) [0..<16384]) \<and> get_port s = Some (s, Ok None)"
  using port_set_leaks [of 49152 65535] by (simp del: upt.simps upt_rec_numeral port_cycles.simps)

end
