(* ===== verification/Initfs.thy ===== *)
theory Initfs
  imports Prelude "HOL-Library.AList"
begin

text \<open>
  The archive format of the initial file system and its reader (\<open>initfs/src/types.rs\<close>,
  \<open>initfs/src/lib.rs\<close>). The structures are packed, so their layout is the concatenation of their fields
  in little-endian order. The reader's \<open>Error\<close> carries nothing: a \<open>Result\<close> is a \<open>res\<close>, with \<open>Ok None\<close> for the
  error. The casts of the \<open>plain\<close> crate are parameters; \<open>plain_ok\<close> states what it documents for types of
  alignment 1.
\<close>

section \<open>Results\<close>

type_synonym 'a res = "'a option outcome"

definition try_do :: "'a res \<Rightarrow> ('a \<Rightarrow> 'b res) \<Rightarrow> 'b res" where
  "try_do m k = and_then m (\<lambda>r. case r of None \<Rightarrow> Ok None | Some x \<Rightarrow> k x)"

lemma try_do_simps [simp]:
  "try_do (Ok (Some x)) k = k x" "try_do (Ok None) k = Ok None" "try_do Panic k = Panic" "try_do (Err e) k = Err e"
  by (simp_all add: try_do_def)

lemma try_do_eq_Some: "try_do m k = Ok (Some y) \<longleftrightarrow> (\<exists>x. m = Ok (Some x) \<and> k x = Ok (Some y))"
  by (auto simp: try_do_def and_then_eq_Ok split: option.splits)

section \<open>Structures\<close>

definition field :: "u8 list \<Rightarrow> nat \<Rightarrow> nat \<Rightarrow> u8 list" where
  "field bs off n = take n (drop off bs)"

definition MAGIC :: "u8 list" where
  "MAGIC = bytes_of ''RedoxFtw''"

record timespec_hdr =
  th_sec :: nat
  th_nsec :: nat

record header =
  hd_magic :: "u8 list"
  hd_inode_table_offset :: nat
  hd_creation_time :: timespec_hdr
  hd_inode_count :: nat
  hd_bootstrap_entry :: nat
  hd_initfs_size :: nat
  hd_page_size :: nat

definition decode_header :: "u8 list \<Rightarrow> header" where
  "decode_header bs = \<lparr>
     hd_magic = field bs 0 8,
     hd_inode_table_offset = from_le (field bs 8 4),
     hd_creation_time = \<lparr>th_sec = from_le (field bs 12 8), th_nsec = from_le (field bs 20 4)\<rparr>,
     hd_inode_count = from_le (field bs 24 2),
     hd_bootstrap_entry = from_le (field bs 26 8),
     hd_initfs_size = from_le (field bs 34 8),
     hd_page_size = from_le (field bs 42 2)\<rparr>"

definition encode_header :: "header \<Rightarrow> u8 list" where
  "encode_header h =
     hd_magic h @ to_le 4 (hd_inode_table_offset h) @ to_le 8 (th_sec (hd_creation_time h)) @
     to_le 4 (th_nsec (hd_creation_time h)) @ to_le 2 (hd_inode_count h) @ to_le 8 (hd_bootstrap_entry h) @
     to_le 8 (hd_initfs_size h) @ to_le 2 (hd_page_size h)"

record inode_header =
  ih_type_and_mode :: u32
  ih_length :: nat
  ih_offset :: nat
  ih_uid :: nat
  ih_gid :: nat

definition decode_inode :: "u8 list \<Rightarrow> inode_header" where
  "decode_inode bs = \<lparr>
     ih_type_and_mode = word_of_nat (from_le (field bs 0 4)),
     ih_length = from_le (field bs 4 4),
     ih_offset = from_le (field bs 8 4),
     ih_uid = from_le (field bs 12 4),
     ih_gid = from_le (field bs 16 4)\<rparr>"

definition encode_inode :: "inode_header \<Rightarrow> u8 list" where
  "encode_inode h = to_le 4 (unat (ih_type_and_mode h)) @ to_le 4 (ih_length h) @ to_le 4 (ih_offset h) @
     to_le 4 (ih_uid h) @ to_le 4 (ih_gid h)"

record initfs_dirent =
  dr_inode :: nat
  dr_name_len :: nat
  dr_name_offset :: nat

definition decode_dir_entry :: "u8 list \<Rightarrow> initfs_dirent" where
  "decode_dir_entry bs = \<lparr>
     dr_inode = from_le (field bs 0 2), dr_name_len = from_le (field bs 2 2), dr_name_offset = from_le (field bs 4 4)\<rparr>"

definition encode_dir_entry :: "initfs_dirent \<Rightarrow> u8 list" where
  "encode_dir_entry d = to_le 2 (dr_inode d) @ to_le 2 (dr_name_len d) @ to_le 4 (dr_name_offset d)"

text \<open>\<open>size_of\<close> of the three structures.\<close>

abbreviation header_size :: nat where "header_size \<equiv> 44"
abbreviation inode_size :: nat where "inode_size \<equiv> 20"
abbreviation dir_entry_size :: nat where "dir_entry_size \<equiv> 8"

definition MODE_MASK :: u32 where "MODE_MASK = 0xFFF"
definition TYPE_SHIFT :: nat where "TYPE_SHIFT = 28"
definition TYPE_MASK :: u32 where "TYPE_MASK = 0xF0000000"

datatype inode_type = RegularFile | DirType | LinkType

fun inode_type_code :: "inode_type \<Rightarrow> u32" where
  "inode_type_code RegularFile = 0"
| "inode_type_code DirType = 1"
| "inode_type_code LinkType = 2"

section \<open>The reader\<close>

text \<open>
  The casts: whether \<open>from_bytes\<close> takes a slice for a structure of a size, and how many elements
  \<open>slice_from_bytes\<close> finds in a slice.
\<close>

record plain_crate =
  from_bytes_ok :: "nat \<Rightarrow> nat \<Rightarrow> bool"
  slice_count :: "nat \<Rightarrow> nat \<Rightarrow> nat option"

definition plain_ok :: "plain_crate \<Rightarrow> bool" where
  "plain_ok P \<longleftrightarrow> (\<forall>len sz. sz \<le> len \<longrightarrow> from_bytes_ok P len sz) \<and> (\<forall>len sz. 0 < sz \<longrightarrow> slice_count P len sz = Some (len div sz))"

definition sample_plain :: plain_crate where
  "sample_plain = \<lparr>from_bytes_ok = (\<lambda>len sz. sz \<le> len), slice_count = (\<lambda>len sz. Some (len div sz))\<rparr>"

record initfs =
  if_base :: "u8 list"

record inode_struct =
  is_initfs :: initfs
  is_inode :: inode_header

datatype inode_kind = KindFile inode_struct | KindDir inode_struct | KindLink inode_struct | KindUnknown

record initfs_entry =
  en_initfs :: initfs
  en_entry :: initfs_dirent

definition get_header_assume_valid :: "plain_crate \<Rightarrow> initfs \<Rightarrow> header outcome" where
  "get_header_assume_valid P fs =
     and_then (unwrap (get_range (if_base fs) 0 header_size)) (\<lambda>bytes.
     if from_bytes_ok P (length bytes) header_size then Ok (decode_header bytes) else Panic)"

definition inode_table_size :: "plain_crate \<Rightarrow> initfs \<Rightarrow> nat outcome" where
  "inode_table_size P fs =
     map_outcome (\<lambda>header. (hd_inode_count header * inode_size) mod 2 ^ 32) (get_header_assume_valid P fs)"

definition base_len_32 :: "initfs \<Rightarrow> nat" where
  "base_len_32 fs = length (if_base fs) mod 2 ^ 32"

definition initfs_new :: "plain_crate \<Rightarrow> u8 list \<Rightarrow> nat option \<Rightarrow> initfs res" where
  "initfs_new P base required_page_size = (let this = \<lparr>if_base = base\<rparr> in
     if length base < header_size then Ok None
     else if \<not> length base < 2 ^ 32 then Ok None
     else
       and_then (get_header_assume_valid P this) (\<lambda>header.
       if hd_magic header \<noteq> MAGIC then Ok None
       else let inode_table_offset = hd_inode_table_offset header in
       if inode_table_offset < header_size then Ok None
       else
         and_then (inode_table_size P this) (\<lambda>inode_table_size.
         let inode_table_end = inode_table_offset + inode_table_size in
         if \<not> inode_table_end < 2 ^ 32 then Ok None
         else if inode_table_end > base_len_32 this then Ok None
         else case required_page_size of
             Some required \<Rightarrow> if hd_page_size header \<noteq> required then Ok None else Ok (Some this)
           | None \<Rightarrow> Ok (Some this))))"

definition image_creation_time :: "plain_crate \<Rightarrow> initfs \<Rightarrow> timespec_hdr outcome" where
  "image_creation_time P fs = map_outcome hd_creation_time (get_header_assume_valid P fs)"

definition inode_table_offset_usize :: "plain_crate \<Rightarrow> initfs \<Rightarrow> nat outcome" where
  "inode_table_offset_usize P fs = map_outcome hd_inode_table_offset (get_header_assume_valid P fs)"

definition inode_table_end_usize :: "plain_crate \<Rightarrow> initfs \<Rightarrow> nat outcome" where
  "inode_table_end_usize P fs =
     and_then (inode_table_offset_usize P fs) (\<lambda>off.
     map_outcome (\<lambda>sz. (off + sz) mod usize_range) (inode_table_size P fs))"

text \<open>A slice of bytes as a slice of structures of a size.\<close>

definition slice_from_bytes :: "plain_crate \<Rightarrow> nat \<Rightarrow> (u8 list \<Rightarrow> 'a) \<Rightarrow> u8 list \<Rightarrow> 'a list option" where
  "slice_from_bytes P sz decode bytes =
     map_option (\<lambda>n. map (\<lambda>i. decode (field bytes (i * sz) sz)) [0..<n]) (slice_count P (length bytes) sz)"

definition inode_table :: "plain_crate \<Rightarrow> initfs \<Rightarrow> inode_header list outcome" where
  "inode_table P fs =
     and_then (inode_table_offset_usize P fs) (\<lambda>start.
     and_then (inode_table_end_usize P fs) (\<lambda>end_off.
     and_then (unwrap (get_range (if_base fs) start end_off)) (\<lambda>bytes.
     unwrap (slice_from_bytes P inode_size decode_inode bytes))))"

definition ROOT_INODE_NUMBER :: nat where "ROOT_INODE_NUMBER = 0"

definition inode_count :: "plain_crate \<Rightarrow> initfs \<Rightarrow> nat outcome" where
  "inode_count P fs = map_outcome hd_inode_count (get_header_assume_valid P fs)"

definition all_inodes :: "plain_crate \<Rightarrow> initfs \<Rightarrow> nat list outcome" where
  "all_inodes P fs = map_outcome (\<lambda>n. [0..<n]) (inode_count P fs)"

definition get_inode :: "plain_crate \<Rightarrow> initfs \<Rightarrow> nat \<Rightarrow> inode_struct res" where
  "get_inode P fs inode =
     map_outcome (\<lambda>table. map_option (\<lambda>h. \<lparr>is_initfs = fs, is_inode = h\<rparr>) (get_at table inode)) (inode_table P fs)"

definition inode_data :: "inode_struct \<Rightarrow> u8 list option" where
  "inode_data n = (let start = ih_offset (is_inode n); len = ih_length (is_inode n) in
     Option.bind (usize_checked_add start len) (\<lambda>end_off. get_range (if_base (is_initfs n)) start end_off))"

definition inode_mode :: "inode_struct \<Rightarrow> u16" where
  "inode_mode n = ucast (ih_type_and_mode (is_inode n) AND MODE_MASK)"

definition inode_uid :: "inode_struct \<Rightarrow> nat" where
  "inode_uid n = ih_uid (is_inode n)"

definition inode_gid :: "inode_struct \<Rightarrow> nat" where
  "inode_gid n = ih_gid (is_inode n)"

definition inode_ty :: "inode_struct \<Rightarrow> inode_type option" where
  "inode_ty n = (let raw = drop_bit TYPE_SHIFT (ih_type_and_mode (is_inode n) AND TYPE_MASK) in
     if raw = inode_type_code DirType then Some DirType
     else if raw = inode_type_code RegularFile then Some RegularFile
     else if raw = inode_type_code LinkType then Some LinkType
     else None)"

definition inode_kind_of :: "inode_struct \<Rightarrow> inode_kind" where
  "inode_kind_of n = (case inode_ty n of
       Some DirType \<Rightarrow> KindDir n
     | Some RegularFile \<Rightarrow> KindFile n
     | Some LinkType \<Rightarrow> KindLink n
     | None \<Rightarrow> KindUnknown)"

definition dir_entries :: "plain_crate \<Rightarrow> inode_struct \<Rightarrow> initfs_dirent list res" where
  "dir_entries P dir = (case inode_data dir of
       None \<Rightarrow> Ok None
     | Some bytes \<Rightarrow> map_outcome Some (unwrap (slice_from_bytes P dir_entry_size decode_dir_entry bytes)))"

definition entry_count :: "plain_crate \<Rightarrow> inode_struct \<Rightarrow> nat res" where
  "entry_count P dir = map_outcome (map_option (\<lambda>entries. length entries mod 2 ^ 32)) (dir_entries P dir)"

definition get_entry :: "plain_crate \<Rightarrow> inode_struct \<Rightarrow> nat \<Rightarrow> initfs_entry option res" where
  "get_entry P dir idx =
     map_outcome (map_option (\<lambda>entries.
       map_option (\<lambda>e. \<lparr>en_initfs = is_initfs dir, en_entry = e\<rparr>) (get_at entries idx))) (dir_entries P dir)"

definition entry_inode :: "initfs_entry \<Rightarrow> nat" where
  "entry_inode e = dr_inode (en_entry e)"

definition entry_name :: "initfs_entry \<Rightarrow> u8 list option" where
  "entry_name e = (let start = dr_name_offset (en_entry e) in
     Option.bind (usize_checked_add start (dr_name_len (en_entry e))) (\<lambda>end_off.
     get_range (if_base (en_initfs e)) start end_off))"

section \<open>Reading a whole tree\<close>

text \<open>
  \<open>build_tree\<close> of \<open>initfs/tests/archive_and_read.rs\<close>. A hash map from names is an association list
  without duplicates. On an image with a cycle of directories the recursion does not end and the
  program dies of its stack; the fuel bounds the depth, and the number of inodes is enough for it in
  an image without cycles.
\<close>

datatype node = NodeLink "u8 list" | NodeFile "u8 list" | NodeDir "(u8 list \<times> node) list" | NodeUnknown

primrec build_entries ::
  "(inode_struct \<Rightarrow> node res) \<Rightarrow> plain_crate \<Rightarrow> initfs \<Rightarrow> inode_struct \<Rightarrow> nat list \<Rightarrow> (u8 list \<times> node) list \<Rightarrow> (u8 list \<times> node) list res" where
  "build_entries build P fs dir [] entries = Ok (Some entries)"
| "build_entries build P fs dir (idx # is) entries =
     try_do (get_entry P dir idx) (\<lambda>entry.
     try_do (Ok entry) (\<lambda>entry.
     try_do (Ok (entry_name entry)) (\<lambda>name.
     try_do (get_inode P fs (entry_inode entry)) (\<lambda>inode.
     try_do (build inode) (\<lambda>entry_node.
     build_entries build P fs dir is (AList.update name entry_node entries))))))"

primrec build_tree :: "nat \<Rightarrow> plain_crate \<Rightarrow> initfs \<Rightarrow> inode_struct \<Rightarrow> node res" where
  "build_tree 0 P fs inode = Panic"
| "build_tree (Suc fuel) P fs inode =
     (case inode_kind_of inode of
        KindFile file \<Rightarrow> Ok (map_option NodeFile (inode_data file))
      | KindLink link \<Rightarrow> Ok (map_option NodeLink (inode_data link))
      | KindDir dir \<Rightarrow>
          try_do (entry_count P dir) (\<lambda>n.
          map_outcome (map_option NodeDir) (build_entries (build_tree fuel P fs) P fs dir [0..<n] []))
      | KindUnknown \<Rightarrow> Ok (Some NodeUnknown))"

definition read_tree :: "plain_crate \<Rightarrow> u8 list \<Rightarrow> nat option \<Rightarrow> node res" where
  "read_tree P bytes required_page_size =
     try_do (initfs_new P bytes required_page_size) (\<lambda>fs.
     try_do (get_inode P fs ROOT_INODE_NUMBER) (\<lambda>inode.
     and_then (inode_count P fs) (\<lambda>count. build_tree count P fs inode)))"

end
