(* ===== verification/Initfs_Scheme.thy ===== *)
theory Initfs_Scheme
  imports Serial_Loop Initfs
begin

text \<open>
  The scheme that serves the initial file system (\<open>bootstrap/src/initfs.rs\<close>). Beside the constants of the
  interface it uses two flags of other crates, \<open>canonicalize_to_standard\<close> of \<open>redox_path\<close> and the address at
  which the image is mapped; they are parameters.
\<close>

section \<open>State\<close>

record initfs_env =
  ne_abi :: abi
  ne_plain :: plain_crate
  ne_symlink :: u64
  ne_prot_write :: u64
  ne_canonicalize :: "string \<Rightarrow> string option"
  ne_base :: nat

record initfs_handle =
  nh_inode :: nat
  nh_filename :: string

record initfs_scheme =
  ns_handles :: "nat \<rightharpoonup> initfs_handle"
  ns_next_id :: nat
  ns_fs :: initfs

definition initfs_scheme_new :: "initfs_env \<Rightarrow> u8 list \<Rightarrow> initfs_scheme outcome" where
  "initfs_scheme_new E bytes =
     (if \<not> PAGE_SIZE (ne_abi E) < 2 ^ 16 then Panic
      else
        and_then (initfs_new (ne_plain E) bytes (Some (PAGE_SIZE (ne_abi E)))) (\<lambda>fs.
        map_outcome (\<lambda>fs. \<lparr>ns_handles = Map.empty, ns_next_id = 0, ns_fs = fs\<rparr>) (unwrap fs)))"

definition scheme_get_inode :: "initfs_env \<Rightarrow> initfs \<Rightarrow> nat \<Rightarrow> inode_struct outcome" where
  "scheme_get_inode E fs inode = and_then (get_inode (ne_plain E) fs inode) (ok_or EIO)"

definition scheme_next_id :: "initfs_scheme \<Rightarrow> initfs_scheme \<times> nat outcome" where
  "scheme_next_id s =
     (if ns_next_id s = usize_range - 1 then (s, Panic)
      else (s\<lparr>ns_next_id := ns_next_id s + 1\<rparr>, Ok (ns_next_id s + 1)))"

section \<open>Iterating over a directory\<close>

text \<open>
  \<open>Iter::next\<close> at an index: what it yields and the next index. An error of the reader is yielded as such,
  again for every index.
\<close>

definition iter_next :: "initfs_env \<Rightarrow> inode_struct \<Rightarrow> nat \<Rightarrow> (initfs_entry outcome option \<times> nat) outcome" where
  "iter_next E dir idx =
     and_then (get_entry (ne_plain E) dir idx) (\<lambda>entry.
     and_then (uint_add 32 idx 1) (\<lambda>idx'.
     Ok (case entry of
           None \<Rightarrow> (Some (Err EIO), idx')
         | Some None \<Rightarrow> (None, idx')
         | Some (Some e) \<Rightarrow> (Some (Ok e), idx'))))"

lemma iter_next_idx: "iter_next E dir idx = Ok (r, idx') \<Longrightarrow> idx' = idx + 1 \<and> idx < 2 ^ 32"
  by (auto simp: iter_next_def and_then_eq_Ok uint_add_def split: if_splits option.splits)

text \<open>The search for a name.\<close>

function find_entry :: "initfs_env \<Rightarrow> inode_struct \<Rightarrow> u8 list \<Rightarrow> nat \<Rightarrow> nat outcome" where
  "find_entry E dir component idx =
     (case iter_next E dir idx of
        Panic \<Rightarrow> Panic
      | Err e \<Rightarrow> Err e
      | Ok (None, _) \<Rightarrow> Err ENOENT
      | Ok (Some entry_res, idx') \<Rightarrow>
          and_then entry_res (\<lambda>entry.
          and_then (ok_or EIO (entry_name entry)) (\<lambda>name.
          if name = component then Ok (entry_inode entry) else find_entry E dir component idx')))"
  by pat_completeness auto
termination
  by (relation "measure (\<lambda>(E, dir, component, idx). 2 ^ 32 - idx)") (auto dest: iter_next_idx)

text \<open>The sum over the names of a directory; an entry that cannot be read counts nothing.\<close>

function names_len :: "initfs_env \<Rightarrow> inode_struct \<Rightarrow> nat \<Rightarrow> nat \<Rightarrow> nat outcome" where
  "names_len E dir idx len =
     (case iter_next E dir idx of
        Panic \<Rightarrow> Panic
      | Err e \<Rightarrow> Err e
      | Ok (None, _) \<Rightarrow> Ok len
      | Ok (Some entry, idx') \<Rightarrow>
          and_then (case and_then entry (\<lambda>e. ok_or EIO (entry_name e)) of
              Ok name \<Rightarrow> usize_add (length name) 1 | Err e \<Rightarrow> Ok 0 | Panic \<Rightarrow> Panic) (\<lambda>n.
          and_then (usize_add len n) (names_len E dir idx')))"
  by pat_completeness auto
termination
  by (relation "measure (\<lambda>(E, dir, idx, len). 2 ^ 32 - idx)") (auto dest: iter_next_idx)

declare find_entry.simps [simp del] names_len.simps [simp del]

definition inode_len :: "initfs_env \<Rightarrow> inode_struct \<Rightarrow> nat outcome" where
  "inode_len E inode = (case inode_kind_of inode of
       KindFile file \<Rightarrow> map_outcome length (ok_or EIO (inode_data file))
     | KindDir dir \<Rightarrow> names_len E dir 0 0
     | KindLink link \<Rightarrow> map_outcome length (ok_or EIO (inode_data link))
     | KindUnknown \<Rightarrow> Err EIO)"

section \<open>The scheme\<close>

definition initfs_components :: "string \<Rightarrow> string list" where
  "initfs_components path = filter (\<lambda>c. c \<noteq> []) (split_at_char (CHR ''/'') (trim_slashes path))"

text \<open>
  The loop over the components, an iterator with two ends: \<open>..\<close> takes a component from the back.
\<close>

function open_walk :: "initfs_env \<Rightarrow> initfs \<Rightarrow> string list \<Rightarrow> nat \<Rightarrow> nat outcome" where
  "open_walk E fs components current_inode =
     (case components of
        [] \<Rightarrow> Ok current_inode
      | component # rest \<Rightarrow>
          if component = ''.'' then open_walk E fs rest current_inode
          else if component = ''..'' then open_walk E fs (butlast rest) current_inode
          else
            and_then (scheme_get_inode E fs current_inode) (\<lambda>current.
            case inode_kind_of current of
              KindDir dir \<Rightarrow> and_then (find_entry E dir (bytes_of component) 0) (open_walk E fs rest)
            | KindLink _ \<Rightarrow> Err EOPNOTSUPP
            | KindFile _ \<Rightarrow> Err ENOENT
            | KindUnknown \<Rightarrow> Err ENOENT))"
  by pat_completeness auto
termination
  by (relation "measure (\<lambda>(E, fs, components, inode). length components)") auto

declare open_walk.simps [simp del]

definition initfs_open ::
  "initfs_env \<Rightarrow> string \<Rightarrow> u64 \<Rightarrow> caller_ctx \<Rightarrow> initfs_scheme \<Rightarrow> initfs_scheme \<times> open_result outcome" where
  "initfs_open E path flags ctx s =
     question s (open_walk E (ns_fs s) (initfs_components path) ROOT_INODE_NUMBER) (\<lambda>current_inode.
     question s (scheme_get_inode E (ns_fs s) current_inode) (\<lambda>inode.
     let is_link = (case inode_kind_of inode of KindLink _ \<Rightarrow> True | _ \<Rightarrow> False);
         o_symlink = (flags AND ne_symlink E \<noteq> 0) in
     if is_link \<and> \<not> o_symlink then (s, Err EXDEV)
     else
       then_do (scheme_next_id s) (\<lambda>s1 i.
       let s2 = s1\<lparr>ns_handles := (ns_handles s1)(i \<mapsto> \<lparr>nh_inode = current_inode, nh_filename = path\<rparr>)\<rparr> in
       if ns_handles s1 i \<noteq> None then (s2, Panic)
       else (s2, Ok (ThisScheme i (POSITIONED (ne_abi E)))))))"

text \<open>A handle's inode, as every other method looks it up.\<close>

definition handle_inode :: "initfs_env \<Rightarrow> initfs_scheme \<Rightarrow> nat \<Rightarrow> inode_struct outcome" where
  "handle_inode E s i =
     and_then (ok_or EBADF (ns_handles s i)) (\<lambda>handle. scheme_get_inode E (ns_fs s) (nh_inode handle))"

text \<open>Copying from an offset of some bytes into a buffer.\<close>

definition copy_from :: "u8 list \<Rightarrow> nat \<Rightarrow> u8 list \<Rightarrow> u8 list \<times> nat" where
  "copy_from bytes offset buffer = (let
       src_buf = drop (min offset (length bytes)) bytes;
       to_copy = min (length src_buf) (length buffer) in
     (copy_into buffer 0 (take to_copy src_buf), to_copy))"

definition initfs_read ::
  "initfs_env \<Rightarrow> nat \<Rightarrow> u8 list \<Rightarrow> nat \<Rightarrow> u32 \<Rightarrow> caller_ctx \<Rightarrow> initfs_scheme \<Rightarrow> (initfs_scheme \<times> u8 list) \<times> nat outcome" where
  "initfs_read E i buffer offset flags ctx s =
     question (s, buffer) (handle_inode E s i) (\<lambda>inode.
     case inode_kind_of inode of
       KindFile file \<Rightarrow>
         question (s, buffer) (ok_or EIO (inode_data file)) (\<lambda>bytes.
         let (buffer', n) = copy_from bytes offset buffer in ((s, buffer'), Ok n))
     | KindDir _ \<Rightarrow> ((s, buffer), Err EISDIR)
     | KindLink link \<Rightarrow>
         question (s, buffer) (ok_or EIO (inode_data link)) (\<lambda>link_data.
         if \<not> utf8_valid link_data then ((s, buffer), Err ENOENT)
         else
           question (s, buffer) (ok_or ENOENT (ne_canonicalize E (string_of link_data))) (\<lambda>canonical.
           let (buffer', n) = copy_from (bytes_of canonical) offset buffer in ((s, buffer'), Ok n)))
     | KindUnknown \<Rightarrow> ((s, buffer), Err EIO))"

text \<open>The entries from an index on; the second number counts them from 0.\<close>

function getdents_from :: "initfs_env \<Rightarrow> inode_struct \<Rightarrow> nat \<Rightarrow> nat \<Rightarrow> dirent_buf \<Rightarrow> dirent_buf \<times> unit outcome" where
  "getdents_from E dir idx index buf =
     (case iter_next E dir idx of
        Panic \<Rightarrow> (buf, Panic)
      | Err e \<Rightarrow> (buf, Err e)
      | Ok (None, _) \<Rightarrow> (buf, Ok ())
      | Ok (Some entry_res, idx') \<Rightarrow>
          question buf entry_res (\<lambda>entry.
          question buf (ok_or EIO (case entry_name entry of
              Some name \<Rightarrow> if utf8_valid name then Some (string_of name) else None | None \<Rightarrow> None)) (\<lambda>name.
          then_do (dirent_entry (ne_abi E) buf \<lparr>de_inode = 0, de_name = name, de_next_opaque_id = index + 1\<rparr>)
            (\<lambda>buf' _. getdents_from E dir idx' (index + 1) buf'))))"
  by pat_completeness auto
termination
  by (relation "measure (\<lambda>(E, dir, idx, index, buf). 2 ^ 32 - idx)") (auto dest: iter_next_idx)

declare getdents_from.simps [simp del]

definition initfs_getdents ::
  "initfs_env \<Rightarrow> nat \<Rightarrow> dirent_buf \<Rightarrow> nat \<Rightarrow> initfs_scheme \<Rightarrow> (initfs_scheme \<times> dirent_buf) \<times> unit outcome" where
  "initfs_getdents E i buf opaque_offset s =
     (if \<not> opaque_offset < 2 ^ 32 then ((s, buf), Ok ())
      else
        question (s, buf) (handle_inode E s i) (\<lambda>inode.
        case inode_kind_of inode of
          KindDir dir \<Rightarrow> (let (buf', r) = getdents_from E dir opaque_offset 0 buf in ((s, buf'), r))
        | _ \<Rightarrow> ((s, buf), Err ENOTDIR)))"

definition initfs_fsize :: "initfs_env \<Rightarrow> nat \<Rightarrow> caller_ctx \<Rightarrow> initfs_scheme \<Rightarrow> initfs_scheme \<times> nat outcome" where
  "initfs_fsize E i ctx s =
     question s (handle_inode E s i) (\<lambda>inode. question s (inode_len E inode) (\<lambda>len. (s, Ok len)))"

definition initfs_fcntl :: "nat \<Rightarrow> u64 \<Rightarrow> u64 \<Rightarrow> caller_ctx \<Rightarrow> initfs_scheme \<Rightarrow> initfs_scheme \<times> nat outcome" where
  "initfs_fcntl i cmd arg ctx s = question s (ok_or EBADF (ns_handles s i)) (\<lambda>handle. (s, Ok 0))"

definition initfs_fpath ::
  "nat \<Rightarrow> u8 list \<Rightarrow> caller_ctx \<Rightarrow> initfs_scheme \<Rightarrow> (initfs_scheme \<times> u8 list) \<times> nat outcome" where
  "initfs_fpath i buf ctx s =
     question (s, buf) (ok_or EBADF (ns_handles s i)) (\<lambda>handle. let
       scheme_path = bytes_of ''/scheme/initfs'';
       scheme_bytes = min (length scheme_path) (length buf);
       buf1 = copy_into buf 0 (take scheme_bytes scheme_path);
       source = bytes_of (nh_filename handle);
       path_bytes = min (length buf - scheme_bytes) (length source) in
     ((s, copy_into buf1 scheme_bytes (take path_bytes source)), Ok (scheme_bytes + path_bytes)))"

definition initfs_fstat ::
  "initfs_env \<Rightarrow> nat \<Rightarrow> stat \<Rightarrow> caller_ctx \<Rightarrow> initfs_scheme \<Rightarrow> (initfs_scheme \<times> stat) \<times> unit outcome" where
  "initfs_fstat E i stat ctx s =
     question (s, stat) (ok_or EBADF (ns_handles s i)) (\<lambda>handle.
     question (s, stat) (image_creation_time (ne_plain E) (ns_fs s)) (\<lambda>t.
     question (s, stat) (scheme_get_inode E (ns_fs s) (nh_inode handle)) (\<lambda>inode. let
       stat1 = stat\<lparr>st_mode := inode_mode inode OR (case inode_kind_of inode of
           KindDir _ \<Rightarrow> MODE_DIR (ne_abi E) | KindFile _ \<Rightarrow> MODE_FILE (ne_abi E) | _ \<Rightarrow> 0),
         st_uid := word_of_nat (inode_uid inode), st_gid := word_of_nat (inode_gid inode)\<rparr> in
     question (s, stat1) (inode_len E inode) (\<lambda>len.
     ((s, stat1\<lparr>st_size := len, st_ctime := int (th_sec t), st_ctime_nsec := int (th_nsec t),
        st_mtime := int (th_sec t), st_mtime_nsec := int (th_nsec t)\<rparr>), Ok ())))))"

definition initfs_fsync :: "nat \<Rightarrow> caller_ctx \<Rightarrow> initfs_scheme \<Rightarrow> initfs_scheme \<times> unit outcome" where
  "initfs_fsync i ctx s = (s, if ns_handles s i = None then Err EBADF else Ok ())"

definition initfs_mmap_prep ::
  "initfs_env \<Rightarrow> nat \<Rightarrow> nat \<Rightarrow> nat \<Rightarrow> u64 \<Rightarrow> caller_ctx \<Rightarrow> initfs_scheme \<Rightarrow> initfs_scheme \<times> nat outcome" where
  "initfs_mmap_prep E i offset sz flags ctx s =
     question s (handle_inode E s i) (\<lambda>inode.
     case inode_kind_of inode of
       KindFile file \<Rightarrow>
         question s (ok_or EIO (inode_data file)) (\<lambda>bytes.
         if flags AND ne_prot_write E = ne_prot_write E then (s, Err EPERM)
         else
           question s (ok_or EINVAL (usize_checked_add offset sz)) (\<lambda>last_addr.
           question s (next_multiple_of (length bytes) (PAGE_SIZE (ne_abi E))) (\<lambda>limit.
           if last_addr > limit then (s, Err EINVAL)
           else question s (usize_add (ne_base E) (ih_offset (is_inode file))) (\<lambda>ptr. (s, Ok ptr)))))
     | KindDir _ \<Rightarrow> (s, Err EISDIR)
     | KindLink _ \<Rightarrow> (s, Err ELOOP)
     | KindUnknown \<Rightarrow> (s, Err EIO))"

text \<open>What the request loop does with a closed handle.\<close>

definition initfs_on_close :: "nat \<Rightarrow> initfs_scheme \<Rightarrow> initfs_scheme \<times> unit outcome" where
  "initfs_on_close i s = (s\<lparr>ns_handles := (ns_handles s)(i := None)\<rparr>, Ok ())"

definition initfs_scheme_of :: "initfs_env \<Rightarrow> initfs_scheme scheme_sync" where
  "initfs_scheme_of E = default_scheme\<lparr>
     sc_open := initfs_open E, sc_read := initfs_read E, sc_getdents := initfs_getdents E,
     sc_fsize := initfs_fsize E, sc_fcntl := initfs_fcntl, sc_fpath := initfs_fpath,
     sc_fstat := initfs_fstat E, sc_fsync := initfs_fsync, sc_mmap_prep := initfs_mmap_prep E,
     sc_on_close := initfs_on_close\<rparr>"

text \<open>The daemon on an image and the requests it is sent.\<close>

definition initfs_run :: "initfs_env \<Rightarrow> memory \<Rightarrow> u8 list \<Rightarrow> sqe list \<Rightarrow> (initfs_scheme \<times> cqe list) outcome" where
  "initfs_run E M bytes qs =
     and_then (initfs_scheme_new E bytes) (\<lambda>s.
     let (s', r) = serve_requests (ne_abi E) M (initfs_scheme_of E) qs s in map_outcome (Pair s') r)"

end
