(* ===== verification/Initfs_Archive.thy ===== *)
theory Initfs_Archive
  imports Initfs
begin

text \<open>
  The program that writes an archive (\<open>initfs/archive-common/src/lib.rs\<close>). The source directory is a tree
  of \<open>host\<close> nodes. What a \<open>read\<close> of a source file returns, whether a write to the image succeeds, the path of
  a link's target relative to the root and the clock are parameters. The image is the list of its
  bytes; a write behind its end fills the gap with zeros, as the operating system does. The messages
  of errors are dropped: an error is \<open>Ok None\<close>.
\<close>

section \<open>The source tree\<close>

datatype host = Host (h_name: "u8 list") (h_mode: u32) (h_type: host_type)
and host_type =
    HSocket
  | HFifo
  | HBlockDevice
  | HCharDevice
  | HFile "u8 list"
  | HDir "host list"
  | HSymlink "u8 list"
  | HUnknown

record archive_env =
  ar_plain :: plain_crate
  ar_read :: "u8 list \<Rightarrow> nat \<Rightarrow> nat \<Rightarrow> u8 list option"
  ar_can_write :: "nat \<Rightarrow> nat \<Rightarrow> bool"
  ar_link :: "u8 list list \<Rightarrow> u8 list \<Rightarrow> u8 list option"
  ar_now :: "(nat \<times> nat) option"

datatype entry = Entry (e_name: "u8 list") (e_mode: u32) (e_kind: entry_kind)
and entry_kind =
    EFile "u8 list"
  | EDir "entry list"
  | ELink "u8 list"

fun read_directory :: "archive_env \<Rightarrow> u8 list list \<Rightarrow> host list \<Rightarrow> nat \<Rightarrow> (entry list \<times> nat) res"
and read_kind :: "archive_env \<Rightarrow> u8 list list \<Rightarrow> host_type \<Rightarrow> nat \<Rightarrow> (entry_kind \<times> nat) res" where
  "read_directory E path [] count = Ok (Some ([], count))"
| "read_directory E path (Host name mode ty # hs) count =
     try_do (read_kind E (path @ [name]) ty count) (\<lambda>(kind, count1).
     if \<not> count1 + 1 < 2 ^ 16 then Ok None
     else try_do (read_directory E path hs (count1 + 1)) (\<lambda>(es, count2).
       Ok (Some (Entry name mode kind # es, count2))))"
| "read_kind E path HSocket count = Ok None"
| "read_kind E path HFifo count = Ok None"
| "read_kind E path HBlockDevice count = Ok None"
| "read_kind E path HCharDevice count = Ok None"
| "read_kind E path (HFile contents) count = Ok (Some (EFile contents, count))"
| "read_kind E path (HDir hs) count =
     try_do (read_directory E path hs count) (\<lambda>(es, count1). Ok (Some (EDir es, count1)))"
| "read_kind E path (HSymlink target) count =
     (case ar_link E path target of None \<Rightarrow> Ok None | Some p \<Rightarrow> Ok (Some (ELink p, count)))"
| "read_kind E path HUnknown count = Ok None"

section \<open>Writing the image\<close>

abbreviation ARCHIVE_PAGE_SIZE :: nat where "ARCHIVE_PAGE_SIZE \<equiv> 4096"
abbreviation BUFFER_SIZE :: nat where "BUFFER_SIZE \<equiv> 8192"

record archive_state =
  as_file :: "u8 list"
  as_offset :: nat
  as_max_size :: nat
  as_inode_count :: nat
  as_buffer :: "u8 list"
  as_inode_table_offset :: nat

definition write_at :: "u8 list \<Rightarrow> nat \<Rightarrow> u8 list \<Rightarrow> u8 list" where
  "write_at buf off f =
     (if buf = [] then f else take off (f @ replicate (off - length f) 0) @ buf @ drop (off + length buf) f)"

definition write_all_at :: "archive_env \<Rightarrow> u8 list \<Rightarrow> nat \<Rightarrow> archive_state \<Rightarrow> archive_state res" where
  "write_all_at E buf off s =
     (if ar_can_write E off (length buf) then Ok (Some (s\<lparr>as_file := write_at buf off (as_file s)\<rparr>)) else Ok None)"

definition bump_alloc :: "nat \<Rightarrow> archive_state \<Rightarrow> (archive_state \<times> nat) res" where
  "bump_alloc sz s =
     and_then (usize_add (as_offset s) sz) (\<lambda>e.
     and_then (next_multiple_of e ARCHIVE_PAGE_SIZE) (\<lambda>end_off.
     if end_off \<le> as_max_size s then Ok (Some (s\<lparr>as_offset := end_off\<rparr>, as_offset s)) else Ok None))"

record write_result =
  wr_size :: nat
  wr_offset :: nat

text \<open>\<open>try_into\<close> a \<open>u32\<close>.\<close>

definition to_u32 :: "nat \<Rightarrow> nat res" where
  "to_u32 n = (if n < 2 ^ 32 then Ok (Some n) else Ok None)"

text \<open>
  The loop that copies a file: the size of the buffer, the size of the file, where it goes, how far it
  got, and the position in the source file. With an empty buffer it would not end.
\<close>

function copy_loop :: "archive_env \<Rightarrow> u8 list \<Rightarrow> nat \<Rightarrow> nat \<Rightarrow> nat \<Rightarrow> nat \<Rightarrow> nat \<Rightarrow> archive_state \<Rightarrow> archive_state res" where
  "copy_loop E contents bs sz off rel pos s =
     (if \<not> rel < sz then Ok (Some s)
      else if bs = 0 then Panic
      else let allowed = min bs (sz - rel) in
        case ar_read E contents pos allowed of
          None \<Rightarrow> Ok None
        | Some got \<Rightarrow>
            let buffer = copy_into (as_buffer s) 0 got in
            and_then (uint_add 32 off rel) (\<lambda>at_off.
            try_do (write_all_at E (take allowed buffer) at_off (s\<lparr>as_buffer := buffer\<rparr>)) (\<lambda>s1.
            if rel + bs < 2 ^ 32 then copy_loop E contents bs sz off (rel + bs) (pos + length got) s1 else Panic)))"
  by pat_completeness auto
termination
  by (relation "measure (\<lambda>(E, contents, bs, sz, off, rel, pos, s). sz - rel)") auto

declare copy_loop.simps [simp del]

definition allocate_and_write_file :: "archive_env \<Rightarrow> u8 list \<Rightarrow> archive_state \<Rightarrow> (archive_state \<times> write_result) res" where
  "allocate_and_write_file E contents s =
     try_do (to_u32 (length contents)) (\<lambda>sz.
     try_do (bump_alloc sz s) (\<lambda>(s1, off).
     try_do (to_u32 off) (\<lambda>off.
     try_do (to_u32 (length (as_buffer s1))) (\<lambda>buffer_size.
     try_do (copy_loop E contents buffer_size sz off 0 0 s1) (\<lambda>s2.
     Ok (Some (s2, \<lparr>wr_size = sz, wr_offset = off\<rparr>)))))))"

definition allocate_and_write_link :: "archive_env \<Rightarrow> u8 list \<Rightarrow> archive_state \<Rightarrow> (archive_state \<times> write_result) res" where
  "allocate_and_write_link E link s =
     (if \<not> length link < 2 ^ 32 then Panic
      else
        try_do (bump_alloc (length link) s) (\<lambda>(s1, off).
        try_do (to_u32 off) (\<lambda>off.
        try_do (write_all_at E link off s1) (\<lambda>s2.
        Ok (Some (s2, \<lparr>wr_size = length link, wr_offset = off\<rparr>))))))"

definition inode_hdr_of :: "inode_type \<Rightarrow> u32 \<Rightarrow> write_result \<Rightarrow> inode_header" where
  "inode_hdr_of ty mode wr = \<lparr>
     ih_type_and_mode = push_bit TYPE_SHIFT (inode_type_code ty) OR (mode AND 0xFFF),
     ih_length = wr_size wr, ih_offset = wr_offset wr, ih_uid = 0, ih_gid = 0\<rparr>"

definition write_inode ::
  "archive_env \<Rightarrow> inode_type \<Rightarrow> u32 \<Rightarrow> write_result \<Rightarrow> nat \<Rightarrow> archive_state \<Rightarrow> archive_state res" where
  "write_inode E ty mode wr inode s =
     (if \<not> from_bytes_ok (ar_plain E) inode_size inode_size then Panic
      else
        and_then (uint_mul 32 inode inode_size) (\<lambda>d.
        and_then (uint_add 32 (as_inode_table_offset s) d) (\<lambda>off.
        write_all_at E (encode_inode (inode_hdr_of ty mode wr)) off s)))"

text \<open>
  Directories: the state carries the number of the last inode. \<open>write_entries\<close> is the loop over the
  entries, with the offset of the table and the index of the next entry.
\<close>

fun allocate_and_write_dir ::
  "archive_env \<Rightarrow> entry list \<Rightarrow> archive_state \<times> nat \<Rightarrow> ((archive_state \<times> nat) \<times> write_result) res"
and write_entries :: "archive_env \<Rightarrow> nat \<Rightarrow> nat \<Rightarrow> entry list \<Rightarrow> archive_state \<times> nat \<Rightarrow> (archive_state \<times> nat) res"
and write_kind ::
  "archive_env \<Rightarrow> entry_kind \<Rightarrow> archive_state \<times> nat \<Rightarrow> ((archive_state \<times> nat) \<times> write_result \<times> inode_type) res" where
  "allocate_and_write_dir E es (s, cur) =
     (if \<not> length es < 2 ^ 16 then Ok None
      else let entry_table_length = length es * dir_entry_size in
        if \<not> entry_table_length < 2 ^ 32 then Ok None
        else
          try_do (bump_alloc entry_table_length s) (\<lambda>(s1, off).
          try_do (to_u32 off) (\<lambda>entry_table_offset.
          try_do (write_entries E entry_table_offset 0 es (s1, cur)) (\<lambda>sc2.
          Ok (Some (sc2, \<lparr>wr_size = entry_table_length, wr_offset = entry_table_offset\<rparr>))))))"
| "write_entries E tab i [] sc = Ok (Some sc)"
| "write_entries E tab i (Entry name mode kind # es) sc =
     try_do (write_kind E kind sc) (\<lambda>((s1, cur1), wr, ty).
     and_then (unwrap (if i < 2 ^ 16 then Some i else None)) (\<lambda>index.
     and_then (uint_add 16 cur1 1) (\<lambda>cur2.
     try_do (write_inode E ty mode wr cur2 s1) (\<lambda>s2.
     if \<not> length name < 2 ^ 16 then Ok None
     else
       try_do (bump_alloc (length name) s2) (\<lambda>(s3, off).
       try_do (to_u32 off) (\<lambda>name_offset.
       try_do (write_all_at E name name_offset s3) (\<lambda>s4.
       if \<not> from_bytes_ok (ar_plain E) dir_entry_size dir_entry_size then Panic
       else
         and_then (uint_mul 32 index dir_entry_size) (\<lambda>d.
         and_then (uint_add 32 tab d) (\<lambda>off.
         try_do (write_all_at E (encode_dir_entry \<lparr>dr_inode = cur2, dr_name_len = length name,
             dr_name_offset = name_offset\<rparr>) off s4) (\<lambda>s5.
         write_entries E tab (Suc i) es (s5, cur2)))))))))))"
| "write_kind E (EDir es) sc =
     try_do (allocate_and_write_dir E es sc) (\<lambda>(sc1, wr). Ok (Some (sc1, wr, DirType)))"
| "write_kind E (EFile contents) (s, cur) =
     try_do (allocate_and_write_file E contents s) (\<lambda>(s1, wr). Ok (Some ((s1, cur), wr, RegularFile)))"
| "write_kind E (ELink path) (s, cur) =
     try_do (allocate_and_write_link E path s) (\<lambda>(s1, wr). Ok (Some ((s1, cur), wr, LinkType)))"

definition allocate_contents_and_write_inodes ::
  "archive_env \<Rightarrow> entry list \<Rightarrow> u32 \<Rightarrow> archive_state \<Rightarrow> archive_state res" where
  "allocate_contents_and_write_inodes E dir root_mode s =
     try_do (allocate_and_write_dir E dir (s, 0)) (\<lambda>((s1, cur), wr). write_inode E DirType root_mode wr 0 s1)"

text \<open>The entry point of an ELF file, in either byte order.\<close>

definition elf_entry :: "u8 list \<Rightarrow> nat outcome" where
  "elf_entry bytes =
     and_then (unwrap (get_range bytes 0 4)) (\<lambda>m.
     if m \<noteq> 0x7F # bytes_of ''ELF'' then Panic
     else
       and_then (unwrap (get_at bytes 4)) (\<lambda>ei_class.
       and_then (unwrap (get_at bytes 5)) (\<lambda>ei_data.
       if ei_class = 1 \<and> ei_data = 1 then map_outcome from_le (unwrap (get_range bytes 0x18 (0x18 + 4)))
       else if ei_class = 1 \<and> ei_data = 2 then map_outcome (\<lambda>b. from_le (rev b)) (unwrap (get_range bytes 0x18 (0x18 + 4)))
       else if ei_class = 2 \<and> ei_data = 1 then map_outcome from_le (unwrap (get_range bytes 0x18 (0x18 + 8)))
       else if ei_class = 2 \<and> ei_data = 2 then map_outcome (\<lambda>b. from_le (rev b)) (unwrap (get_range bytes 0x18 (0x18 + 8)))
       else Panic)))"

text \<open>
  The whole program, from the opened destination file to the image in it: the source tree, the mode of
  its root, the maximal size and the bootstrap code.
\<close>

definition archive ::
  "archive_env \<Rightarrow> host list \<Rightarrow> u32 \<Rightarrow> nat \<Rightarrow> u8 list option \<Rightarrow> u8 list res" where
  "archive E source root_mode max_size bootstrap_code = (let
       s = \<lparr>as_file = [], as_offset = 0, as_max_size = max_size, as_inode_count = 1,
            as_buffer = replicate BUFFER_SIZE 0, as_inode_table_offset = 0\<rparr> in
     try_do (read_directory E [] source 1) (\<lambda>(root, count).
     try_do (bump_alloc 4096 (s\<lparr>as_inode_count := count\<rparr>)) (\<lambda>(s1, header_offset).
     if header_offset \<noteq> 0 then Panic
     else
       try_do (case bootstrap_code of
           None \<Rightarrow> Ok (Some (s1, 2 ^ 64 - 1))
         | Some code \<Rightarrow>
             try_do (allocate_and_write_file E code s1) (\<lambda>(s2, wr).
             map_outcome (\<lambda>entry. Some (s2, entry)) (elf_entry code)))
       (\<lambda>(s2, bootstrap_entry).
       let inode_table_length = inode_size * as_inode_count s2 in
       if \<not> inode_table_length < 2 ^ 64 then Ok None
       else
         try_do (bump_alloc inode_table_length s2) (\<lambda>(s3, off).
         try_do (to_u32 off) (\<lambda>inode_table_offset.
         try_do (allocate_contents_and_write_inodes E root root_mode (s3\<lparr>as_inode_table_offset := inode_table_offset\<rparr>)) (\<lambda>s4.
         case ar_now E of
           None \<Rightarrow> Ok None
         | Some (secs, nanos) \<Rightarrow>
             if \<not> from_bytes_ok (ar_plain E) header_size header_size then Panic
             else
               map_outcome (map_option as_file) (write_all_at E (encode_header \<lparr>
                   hd_magic = MAGIC, hd_inode_table_offset = inode_table_offset,
                   hd_creation_time = \<lparr>th_sec = secs, th_nsec = nanos\<rparr>,
                   hd_inode_count = as_inode_count s4, hd_bootstrap_entry = bootstrap_entry,
                   hd_initfs_size = length (as_file s4), hd_page_size = ARCHIVE_PAGE_SIZE\<rparr>)
                 header_offset s4))))))))"

end
