(* ===== verification/Initfs_Proofs.thy ===== *)
theory Initfs_Proofs
  imports Initfs_Archive
begin

text \<open>
  The archive that is written holds the source tree: a predicate says that the image holds the entries
  of a directory, the writer establishes it whenever the image has room, and the reader gives back
  the entries of an image for which it holds.
\<close>

section \<open>Bytes of the image\<close>

definition at_img :: "u8 list \<Rightarrow> nat \<Rightarrow> u8 list \<Rightarrow> bool" where
  "at_img img off bs \<longleftrightarrow> (\<forall>i < length bs. get_at img (off + i) = Some (bs ! i))"

definition keeps :: "nat set \<Rightarrow> u8 list \<Rightarrow> u8 list \<Rightarrow> bool" where
  "keeps A img img' \<longleftrightarrow> (\<forall>j \<in> A. \<forall>b. get_at img j = Some b \<longrightarrow> get_at img' j = Some b)"

definition sits :: "nat set \<Rightarrow> u8 list \<Rightarrow> nat \<Rightarrow> u8 list \<Rightarrow> bool" where
  "sits A img off bs \<longleftrightarrow> at_img img off bs \<and> {off..<off + length bs} \<subseteq> A"

lemma get_at_write_at:
  "get_at (write_at buf off f) j =
     (if off \<le> j \<and> j < off + length buf then Some (buf ! (j - off))
      else if length f \<le> j \<and> j < off \<and> buf \<noteq> [] then Some 0 else get_at f j)"
  by (cases "off \<le> length f") (auto simp: write_at_def get_at_def nth_append min_def)

lemma length_write_at: "length (write_at buf off f) = (if buf = [] then length f else max (length f) (off + length buf))"
  by (auto simp: write_at_def)

lemma get_at_ext: "(\<And>j. get_at xs j = get_at ys j) \<Longrightarrow> xs = ys"
  by (metis get_at_eq_None get_at_eq_Some linorder_not_le nth_equalityI order_antisym_conv order_refl)

lemma get_range_at_img:
  assumes "at_img img off bs" "off \<le> length img"
  shows "get_range img off (off + length bs) = Some bs"
proof -
  have le: "off + length bs \<le> length img"
  proof (cases "bs = []")
    case False
    then have "get_at img (off + (length bs - 1)) \<noteq> None" using assms(1) by (simp add: at_img_def)
    then show ?thesis using False by (cases bs) (auto simp: get_at_eq_None)
  qed (use assms(2) in simp)
  then have "take (length bs) (drop off img) = bs"
    using assms(1) by (intro nth_equalityI) (auto simp: at_img_def get_at_eq_Some)
  then show ?thesis using le by (simp add: get_range_def)
qed

lemma keeps_refl [simp]: "keeps A img img"
  by (simp add: keeps_def)

lemma keeps_trans: "keeps A x y \<Longrightarrow> keeps B y z \<Longrightarrow> keeps (A \<inter> B) x z"
  by (simp add: keeps_def)

lemma keeps_mono: "keeps A x y \<Longrightarrow> B \<subseteq> A \<Longrightarrow> keeps B x y"
  by (auto simp: keeps_def)

lemma keeps_write: "keeps (- {off..<off + length buf}) f (write_at buf off f)"
  by (auto simp: keeps_def get_at_write_at dest: get_at_eq_Some [THEN iffD1])

lemma sits_keeps:
  assumes "sits A x off bs" "keeps A x y"
  shows "sits A y off bs"
proof -
  have "off + i \<in> A" if "i < length bs" for i using assms(1) that by (auto simp: sits_def)
  then show ?thesis using assms by (simp add: sits_def at_img_def keeps_def)
qed

lemma sits_mono: "sits A x off bs \<Longrightarrow> A \<subseteq> B \<Longrightarrow> sits B x off bs"
  by (auto simp: sits_def)

lemma sits_write: "sits {off..<off + length bs} (write_at bs off f) off bs"
  by (simp add: sits_def at_img_def get_at_write_at)

lemma write_at_append: "write_at ys (off + length xs) (write_at xs off f) = write_at (xs @ ys) off f"
  by (rule get_at_ext) (auto simp: get_at_write_at nth_append length_write_at)

section \<open>An image that holds a tree\<close>

fun type_of :: "entry_kind \<Rightarrow> inode_type" where
  "type_of (EFile c) = RegularFile"
| "type_of (EDir es) = DirType"
| "type_of (ELink p) = LinkType"

text \<open>
  The image, the offset of the inode table, a set of positions the tree is stored in, a bound on the
  inode numbers, and the tree. The name of an entry lies behind the start of its contents.
\<close>

fun stored_kind :: "u8 list \<Rightarrow> nat \<Rightarrow> nat set \<Rightarrow> nat \<Rightarrow> entry_kind \<Rightarrow> write_result \<Rightarrow> bool"
and stored_entries :: "u8 list \<Rightarrow> nat \<Rightarrow> nat set \<Rightarrow> nat \<Rightarrow> nat \<Rightarrow> nat \<Rightarrow> entry list \<Rightarrow> bool" where
  "stored_kind img tab A count (EFile c) wr \<longleftrightarrow> wr_size wr = length c \<and> sits A img (wr_offset wr) c"
| "stored_kind img tab A count (ELink p) wr \<longleftrightarrow> wr_size wr = length p \<and> sits A img (wr_offset wr) p"
| "stored_kind img tab A count (EDir es) wr \<longleftrightarrow>
     wr_size wr = length es * dir_entry_size \<and> stored_entries img tab A count (wr_offset wr) 0 es"
| "stored_entries img tab A count off i [] \<longleftrightarrow> True"
| "stored_entries img tab A count off i (Entry name mode k # es) \<longleftrightarrow>
     (\<exists>n no wr. n < count \<and> wr_size wr < 2 ^ 32 \<and> wr_offset wr \<le> no \<and> no < 2 ^ 32 \<and>
        sits A img (off + i * dir_entry_size) (encode_dir_entry \<lparr>dr_inode = n, dr_name_len = length name, dr_name_offset = no\<rparr>) \<and>
        sits A img no name \<and>
        sits A img (tab + n * inode_size) (encode_inode (inode_hdr_of (type_of k) mode wr)) \<and>
        stored_kind img tab A count k wr) \<and>
     stored_entries img tab A count off (Suc i) es"

lemma stored_keeps:
  "stored_kind img tab A count k wr \<Longrightarrow> keeps A img img' \<Longrightarrow> stored_kind img' tab A count k wr"
  "stored_entries img tab A count off i es \<Longrightarrow> keeps A img img' \<Longrightarrow> stored_entries img' tab A count off i es"
  by (induction img tab A count k wr and img tab A count off i es rule: stored_kind_stored_entries.induct)
    (simp_all, (blast intro: sits_keeps)+)

lemma stored_mono:
  "stored_kind img tab A count k wr \<Longrightarrow> A \<subseteq> B \<Longrightarrow> stored_kind img tab B count k wr"
  "stored_entries img tab A count off i es \<Longrightarrow> A \<subseteq> B \<Longrightarrow> stored_entries img tab B count off i es"
  by (induction img tab A count k wr and img tab A count off i es rule: stored_kind_stored_entries.induct)
    (simp_all, (blast intro: sits_mono)+)

section \<open>Writing\<close>

definition archive_env_ok :: "archive_env \<Rightarrow> bool" where
  "archive_env_ok E \<longleftrightarrow> plain_ok (ar_plain E) \<and> (\<forall>c pos n. ar_read E c pos n = Some (take n (drop pos c))) \<and>
     (\<forall>off n. ar_can_write E off n)"

lemma env_ok_simps:
  assumes "archive_env_ok E"
  shows "ar_read E c pos n = Some (take n (drop pos c))" "ar_can_write E off n" "from_bytes_ok (ar_plain E) n n"
    "write_all_at E buf off s = Ok (Some (s\<lparr>as_file := write_at buf off (as_file s)\<rparr>))"
  using assms by (simp_all add: archive_env_ok_def plain_ok_def write_all_at_def)

definition pages :: "nat \<Rightarrow> nat" where
  "pages n = (n + 4095) div 4096 * 4096"

lemma pages_alt: "pages n = (if n mod 4096 = 0 then n else n + (4096 - n mod 4096))"
proof -
  define q r where "q = n div 4096" and "r = n mod 4096"
  have n: "n = r + 4096 * q" and r: "r < 4096" by (simp_all add: q_def r_def)
  have "pages n = (r + 4095) div 4096 * 4096 + q * 4096"
  proof -
    have "(n + 4095) div 4096 = (r + 4095) div 4096 + q"
      using div_mult_self2 [of 4096 "r + 4095" q] by (simp add: n ac_simps)
    then show ?thesis by (simp add: pages_def add_mult_distrib)
  qed
  moreover have "(r + 4095) div 4096 = (if r = 0 then 0 else 1)" using r by (auto intro: div_nat_eqI)
  ultimately show ?thesis using r by (auto simp: n)
qed

lemma pages_ge: "n \<le> pages n"
  unfolding pages_alt by (cases "n mod 4096 = 0") auto

lemma pages_mod [simp]: "pages n mod 4096 = 0"
  by (simp add: pages_def)

definition st_ok :: "nat \<Rightarrow> nat \<Rightarrow> archive_state \<Rightarrow> bool" where
  "st_ok tab count s \<longleftrightarrow> as_inode_table_offset s = tab \<and> tab + count * inode_size \<le> as_offset s \<and> count < 2 ^ 16 \<and>
     as_offset s mod 4096 = 0 \<and> as_offset s \<le> as_max_size s \<and> as_max_size s + BUFFER_SIZE \<le> 2 ^ 32 \<and>
     length (as_buffer s) = BUFFER_SIZE \<and> length (as_file s) \<le> as_offset s"

definition grown :: "nat \<Rightarrow> nat \<Rightarrow> nat set \<Rightarrow> archive_state \<Rightarrow> archive_state \<Rightarrow> bool" where
  "grown tab count A s s' \<longleftrightarrow> st_ok tab count s' \<and> as_max_size s' = as_max_size s \<and>
     as_inode_count s' = as_inode_count s \<and> keeps (- A) (as_file s) (as_file s')"

lemma round_up:
  assumes "off mod 4096 = 0" "off + pages sz < 2 ^ 64"
  shows "next_multiple_of (off + sz) 4096 = Ok (off + pages sz)"
proof -
  from assms(1) obtain k where k: "off = 4096 * k" by (auto elim: dvdE simp: mod_eq_0_iff_dvd)
  have m: "(off + sz) mod 4096 = sz mod 4096" by (simp add: k)
  have "sz mod 4096 < 4096" by simp
  with m assms(2) show ?thesis
    unfolding next_multiple_of_def pages_alt m usize_add_def by (cases "sz mod 4096 = 0") (auto simp: add.assoc)
qed

lemma bump_alloc_ok:
  assumes "st_ok tab count s" "as_offset s + pages sz \<le> as_max_size s"
  shows "bump_alloc sz s = Ok (Some (s\<lparr>as_offset := as_offset s + pages sz\<rparr>, as_offset s))"
proof -
  have le: "as_offset s + pages sz < 2 ^ 64" using assms by (simp add: st_ok_def)
  then have "as_offset s + sz < 2 ^ 64" using pages_ge [of sz] by simp
  then show ?thesis using round_up [OF _ le] assms by (simp add: bump_alloc_def usize_add_def st_ok_def)
qed

lemma to_u32_ok: "n < 2 ^ 32 \<Longrightarrow> to_u32 n = Ok (Some n)"
  by (simp add: to_u32_def)

lemma copy_loop_ok:
  assumes "archive_env_ok E" "off + length c + BUFFER_SIZE \<le> 2 ^ 32" "length (as_buffer s) = BUFFER_SIZE"
    "as_file s = write_at (take rel c) off f" "pos = rel \<or> length c \<le> rel"
  shows "\<exists>buf. copy_loop E c BUFFER_SIZE (length c) off rel pos s = Ok (Some (s\<lparr>as_file := write_at c off f, as_buffer := buf\<rparr>)) \<and>
    length buf = BUFFER_SIZE"
  using assms(3-5)
proof (induction "length c - rel" arbitrary: rel pos s rule: less_induct)
  case less
  show ?case
  proof (cases "rel < length c")
    case False
    then have "s\<lparr>as_file := write_at c off f, as_buffer := as_buffer s\<rparr> = s" using less.prems(2) by (cases s) simp
    then show ?thesis using False less.prems(1) by (intro exI [of _ "as_buffer s"]) (simp add: copy_loop.simps)
  next
    case True
    let ?n = "min BUFFER_SIZE (length c - rel)" and ?got = "take BUFFER_SIZE (drop rel c)"
    let ?buf = "copy_into (as_buffer s) 0 (take ?n (drop rel c))"
    let ?s1 = "s\<lparr>as_buffer := ?buf, as_file := write_at (take (rel + BUFFER_SIZE) c) off f\<rparr>"
    have pos: "pos = rel" using True less.prems(3) by simp
    have got: "take ?n (drop rel c) = ?got" by (cases "BUFFER_SIZE \<le> length c - rel") (simp_all add: min_def)
    have buf: "length ?buf = BUFFER_SIZE" "take ?n ?buf = ?got"
      using less.prems(1) unfolding got by (simp_all add: copy_into_def got)
    have img: "write_at ?got (off + rel) (as_file s) = write_at (take (rel + BUFFER_SIZE) c) off f"
      using write_at_append [of ?got off "take rel c" f] True less.prems(2) by (simp add: take_add)
    have "copy_loop E c BUFFER_SIZE (length c) off rel pos s =
        copy_loop E c BUFFER_SIZE (length c) off (rel + BUFFER_SIZE) (rel + ?n) ?s1"
      using True pos assms(2) buf(2) img unfolding got
      by (subst copy_loop.simps) (simp add: env_ok_simps [OF assms(1)] uint_add_def Let_def got)
    moreover have "\<exists>buf. copy_loop E c BUFFER_SIZE (length c) off (rel + BUFFER_SIZE) (rel + ?n) ?s1 =
        Ok (Some (?s1\<lparr>as_file := write_at c off f, as_buffer := buf\<rparr>)) \<and> length buf = BUFFER_SIZE"
      using True buf(1) by (intro less.hyps) auto
    ultimately show ?thesis by simp
  qed
qed

lemma write_file_ok:
  assumes E: "archive_env_ok E" and s: "st_ok tab count s" and room: "as_offset s + pages (length c) \<le> as_max_size s"
  shows "\<exists>s'. allocate_and_write_file E c s = Ok (Some (s', \<lparr>wr_size = length c, wr_offset = as_offset s\<rparr>)) \<and>
    grown tab count {as_offset s..<as_offset s + pages (length c)} s s' \<and> as_offset s' = as_offset s + pages (length c) \<and>
    sits {as_offset s..<as_offset s + pages (length c)} (as_file s') (as_offset s) c"
proof -
  let ?s1 = "s\<lparr>as_offset := as_offset s + pages (length c)\<rparr>"
  have bounds: "length c \<le> pages (length c)" "as_max_size s + BUFFER_SIZE \<le> 2 ^ 32" "length (as_buffer s) = BUFFER_SIZE"
    using s pages_ge by (auto simp: st_ok_def)
  from copy_loop_ok [OF E, of "as_offset s" c ?s1 0 "as_file s" 0] bounds room obtain buf where
    loop: "copy_loop E c BUFFER_SIZE (length c) (as_offset s) 0 0 ?s1 =
      Ok (Some (?s1\<lparr>as_file := write_at c (as_offset s) (as_file s), as_buffer := buf\<rparr>))" "length buf = BUFFER_SIZE"
    by (auto simp: write_at_def)
  let ?s2 = "?s1\<lparr>as_file := write_at c (as_offset s) (as_file s), as_buffer := buf\<rparr>"
  have "allocate_and_write_file E c s = Ok (Some (?s2, \<lparr>wr_size = length c, wr_offset = as_offset s\<rparr>))"
    using bounds room loop(1) bump_alloc_ok [OF s room] by (simp add: allocate_and_write_file_def to_u32_ok)
  moreover have "st_ok tab count ?s2" using s room bounds loop(2) by (auto simp: st_ok_def length_write_at)
  moreover have "keeps (- {as_offset s..<as_offset s + pages (length c)}) (as_file s) (as_file ?s2)"
    using keeps_mono [OF keeps_write] bounds(1) by auto
  moreover have "sits {as_offset s..<as_offset s + pages (length c)} (as_file ?s2) (as_offset s) c"
    using sits_mono [OF sits_write] bounds(1) by auto
  ultimately show ?thesis by (auto simp: grown_def)
qed

lemma write_link_ok:
  assumes E: "archive_env_ok E" and s: "st_ok tab count s" and room: "as_offset s + pages (length p) \<le> as_max_size s"
  shows "\<exists>s'. allocate_and_write_link E p s = Ok (Some (s', \<lparr>wr_size = length p, wr_offset = as_offset s\<rparr>)) \<and>
    grown tab count {as_offset s..<as_offset s + pages (length p)} s s' \<and> as_offset s' = as_offset s + pages (length p) \<and>
    sits {as_offset s..<as_offset s + pages (length p)} (as_file s') (as_offset s) p"
proof -
  let ?s2 = "s\<lparr>as_offset := as_offset s + pages (length p), as_file := write_at p (as_offset s) (as_file s)\<rparr>"
  have bounds: "length p \<le> pages (length p)" "as_max_size s + BUFFER_SIZE \<le> 2 ^ 32" using s pages_ge by (auto simp: st_ok_def)
  have "allocate_and_write_link E p s = Ok (Some (?s2, \<lparr>wr_size = length p, wr_offset = as_offset s\<rparr>))"
    using bounds room bump_alloc_ok [OF s room]
    by (simp add: allocate_and_write_link_def to_u32_ok env_ok_simps [OF E])
  moreover have "st_ok tab count ?s2" using s room bounds by (auto simp: st_ok_def length_write_at)
  moreover have "keeps (- {as_offset s..<as_offset s + pages (length p)}) (as_file s) (as_file ?s2)"
    using keeps_mono [OF keeps_write] bounds(1) by auto
  moreover have "sits {as_offset s..<as_offset s + pages (length p)} (as_file ?s2) (as_offset s) p"
    using sits_mono [OF sits_write] bounds(1) by auto
  ultimately show ?thesis by (auto simp: grown_def)
qed

text \<open>The room and the inodes that a tree needs.\<close>

fun space_kind :: "entry_kind \<Rightarrow> nat" and space_entries :: "entry list \<Rightarrow> nat" where
  "space_kind (EFile c) = pages (length c)"
| "space_kind (ELink p) = pages (length p)"
| "space_kind (EDir es) = pages (length es * dir_entry_size) + space_entries es"
| "space_entries [] = 0"
| "space_entries (Entry name mode k # es) = space_kind k + pages (length name) + space_entries es"

fun inodes_kind :: "entry_kind \<Rightarrow> nat" and inodes_entries :: "entry list \<Rightarrow> nat" where
  "inodes_kind (EFile c) = 0"
| "inodes_kind (ELink p) = 0"
| "inodes_kind (EDir es) = inodes_entries es"
| "inodes_entries [] = 0"
| "inodes_entries (Entry name mode k # es) = Suc (inodes_kind k + inodes_entries es)"

fun names_kind :: "(u8 list \<Rightarrow> bool) \<Rightarrow> entry_kind \<Rightarrow> bool" and names_entries :: "(u8 list \<Rightarrow> bool) \<Rightarrow> entry list \<Rightarrow> bool" where
  "names_kind P (EFile c) = True"
| "names_kind P (ELink p) = True"
| "names_kind P (EDir es) = names_entries P es"
| "names_entries P [] = True"
| "names_entries P (Entry name mode k # es) = (P name \<and> names_kind P k \<and> names_entries P es)"

lemma inodes_length: "length es \<le> inodes_entries es"
proof (induction es)
  case (Cons e es)
  then show ?case by (cases e) simp
qed simp

text \<open>The part of the image that a tree takes: new pages, and the inodes behind the last one.\<close>

definition region :: "nat \<Rightarrow> nat \<Rightarrow> nat \<Rightarrow> nat \<Rightarrow> nat \<Rightarrow> nat set" where
  "region tab cur k lo hi = {lo..<hi} \<union> {tab + Suc cur * inode_size..<tab + Suc (cur + k) * inode_size}"

lemma length_encode [simp]:
  "length (encode_inode h) = inode_size" "length (encode_dir_entry d) = dir_entry_size"
  by (simp_all add: encode_inode_def encode_dir_entry_def)

text \<open>One round of the loop over the entries of a directory, behind the contents of the entry.\<close>

definition after_entry :: "nat \<Rightarrow> nat \<Rightarrow> nat \<Rightarrow> u8 list \<Rightarrow> u32 \<Rightarrow> inode_type \<Rightarrow> write_result \<Rightarrow> nat \<Rightarrow> archive_state \<Rightarrow> archive_state" where
  "after_entry tab toff i name mode ty wr n s = s\<lparr>
     as_offset := as_offset s + pages (length name),
     as_file := write_at (encode_dir_entry \<lparr>dr_inode = n, dr_name_len = length name, dr_name_offset = as_offset s\<rparr>) (toff + i * dir_entry_size)
       (write_at name (as_offset s) (write_at (encode_inode (inode_hdr_of ty mode wr)) (tab + n * inode_size) (as_file s)))\<rparr>"

lemma write_entries_step:
  assumes E: "archive_env_ok E" and k: "write_kind E k sc = Ok (Some ((s, cur), wr, ty))"
    and s: "st_ok tab count s" and room: "as_offset s + pages (length name) \<le> as_max_size s"
    and cur: "Suc cur < count" and name: "length name < 2 ^ 16" and i: "i < 2 ^ 16"
    and toff: "toff + Suc i * dir_entry_size \<le> as_offset s"
  shows "write_entries E toff i (Entry name mode k # es) sc =
    write_entries E toff (Suc i) es (after_entry tab toff i name mode ty wr (Suc cur) s, Suc cur)"
proof -
  let ?s2 = "s\<lparr>as_file := write_at (encode_inode (inode_hdr_of ty mode wr)) (tab + Suc cur * inode_size) (as_file s)\<rparr>"
  have max: "as_max_size s + BUFFER_SIZE \<le> 2 ^ 32" "tab + count * inode_size \<le> as_offset s" "count < 2 ^ 16" "as_inode_table_offset s = tab"
    "as_offset s \<le> as_max_size s"
    using s by (simp_all add: st_ok_def)
  have slot: "tab + Suc cur * inode_size < 2 ^ 32" "Suc cur * inode_size < 2 ^ 32" "Suc cur < 2 ^ 16" using max cur by simp_all
  have inode: "write_inode E ty mode wr (Suc cur) s = Ok (Some ?s2)"
    using slot max(4) by (simp add: write_inode_def env_ok_simps [OF E] uint_mul_def uint_add_def)
  have bump: "bump_alloc (length name) ?s2 = Ok (Some (?s2\<lparr>as_offset := as_offset s + pages (length name)\<rparr>, as_offset s))"
    using round_up [of "as_offset s" "length name"] s room max(1) pages_ge [of "length name"]
    by (simp add: bump_alloc_def usize_add_def st_ok_def)
  have "toff + i * dir_entry_size < 2 ^ 32" "i * dir_entry_size < 2 ^ 32" "as_offset s < 2 ^ 32" using toff i max by simp_all
  then show ?thesis
    using k i slot(3) name inode bump
    by (simp add: env_ok_simps [OF E] uint_mul_def uint_add_def to_u32_ok after_entry_def)
qed

lemma after_entry_ok:
  fixes mode ty wr
  assumes s: "st_ok tab count s" and room: "as_offset s + pages (length name) \<le> as_max_size s"
    and n: "n < count" and toff: "tab + count * inode_size \<le> toff" "toff + Suc i * dir_entry_size \<le> as_offset s"
  defines "s' \<equiv> after_entry tab toff i name mode ty wr n s"
    and "D \<equiv> {toff + i * dir_entry_size..<toff + Suc i * dir_entry_size}"
    and "N \<equiv> {as_offset s..<as_offset s + pages (length name)}"
    and "S \<equiv> {tab + n * inode_size..<tab + Suc n * inode_size}"
  shows "grown tab count (D \<union> N \<union> S) s s'" "as_offset s' = as_offset s + pages (length name)"
    "sits D (as_file s') (toff + i * dir_entry_size) (encode_dir_entry \<lparr>dr_inode = n, dr_name_len = length name, dr_name_offset = as_offset s\<rparr>)"
    "sits N (as_file s') (as_offset s) name"
    "sits S (as_file s') (tab + n * inode_size) (encode_inode (inode_hdr_of ty mode wr))"
proof -
  let ?f1 = "write_at (encode_inode (inode_hdr_of ty mode wr)) (tab + n * inode_size) (as_file s)"
  let ?f2 = "write_at name (as_offset s) ?f1"
  let ?d = "encode_dir_entry \<lparr>dr_inode = n, dr_name_len = length name, dr_name_offset = as_offset s\<rparr>"
  have f: "as_file s' = write_at ?d (toff + i * dir_entry_size) ?f2" by (simp add: s'_def after_entry_def)
  have slot: "Suc n * inode_size \<le> count * inode_size" using n by simp
  have sub: "{as_offset s..<as_offset s + length name} \<subseteq> N" using pages_ge [of "length name"] by (auto simp: N_def)
  have k1: "keeps (- S) (as_file s) ?f1" and k2: "keeps (- N) ?f1 ?f2" and k3: "keeps (- D) ?f2 (as_file s')"
    using keeps_write [of "tab + n * inode_size" "encode_inode (inode_hdr_of ty mode wr)" "as_file s"]
      keeps_mono [OF keeps_write [of "as_offset s" name ?f1], of "- N"] sub
      keeps_write [of "toff + i * dir_entry_size" ?d ?f2]
    by (auto simp: S_def D_def f ac_simps)
  have k: "keeps (- (D \<union> N \<union> S)) (as_file s) (as_file s')"
    using keeps_mono [OF keeps_trans [OF keeps_trans [OF k1 k2] k3], of "- (D \<union> N \<union> S)"] by blast
  have st: "st_ok tab count s'"
    using s room slot toff pages_ge [of "length name"]
    by (auto simp: st_ok_def s'_def after_entry_def length_write_at mod_add_eq [symmetric])
  show "grown tab count (D \<union> N \<union> S) s s'" using k st by (simp add: grown_def s'_def after_entry_def)
  show "as_offset s' = as_offset s + pages (length name)" by (simp add: s'_def after_entry_def)
  show "sits D (as_file s') (toff + i * dir_entry_size) ?d" using sits_write [of "toff + i * dir_entry_size" ?d ?f2] by (simp add: f D_def ac_simps)
  have "N \<subseteq> - D" using toff by (auto simp: N_def D_def)
  then show "sits N (as_file s') (as_offset s) name"
    using sits_keeps [OF sits_mono [OF sits_write sub] keeps_mono [OF k3]] by blast
  have "S \<subseteq> - N" "S \<subseteq> - D" using toff slot by (auto simp: S_def N_def D_def)
  then have "keeps S ?f1 (as_file s')" using keeps_mono [OF keeps_trans [OF k2 k3]] by blast
  moreover have "sits S ?f1 (tab + n * inode_size) (encode_inode (inode_hdr_of ty mode wr))"
    using sits_write [of "tab + n * inode_size" "encode_inode (inode_hdr_of ty mode wr)"] by (simp add: S_def ac_simps)
  ultimately show "sits S (as_file s') (tab + n * inode_size) (encode_inode (inode_hdr_of ty mode wr))" by (rule sits_keeps [rotated])
qed

lemma grown_trans:
  assumes "grown tab count A s1 s2" "grown tab count B s2 s3" "A \<union> B \<subseteq> C"
  shows "grown tab count C s1 s3"
  using assms keeps_mono [OF keeps_trans [of "- A" "as_file s1" "as_file s2" "- B" "as_file s3"], of "- C"]
  by (auto simp: grown_def)

lemma grown_kept: "grown tab count A s s' \<Longrightarrow> B \<inter> A = {} \<Longrightarrow> keeps B (as_file s) (as_file s')"
  unfolding grown_def by (blast intro: keeps_mono)

text \<open>What writing an entry's contents, and writing the entries of a directory, achieve.\<close>

definition kind_written :: "archive_env \<Rightarrow> nat \<Rightarrow> nat \<Rightarrow> entry_kind \<Rightarrow> archive_state \<Rightarrow> nat \<Rightarrow> bool" where
  "kind_written E tab count k s cur \<longleftrightarrow> (\<exists>s' wr. write_kind E k (s, cur) = Ok (Some ((s', cur + inodes_kind k), wr, type_of k)) \<and>
     as_offset s' = as_offset s + space_kind k \<and> wr_offset wr = as_offset s \<and> wr_size wr < 2 ^ 32 \<and>
     grown tab count (region tab cur (inodes_kind k) (as_offset s) (as_offset s')) s s' \<and>
     stored_kind (as_file s') tab (region tab cur (inodes_kind k) (as_offset s) (as_offset s')) count k wr)"

definition entries_written :: "archive_env \<Rightarrow> nat \<Rightarrow> nat \<Rightarrow> entry list \<Rightarrow> nat \<Rightarrow> nat \<Rightarrow> archive_state \<Rightarrow> nat \<Rightarrow> bool" where
  "entries_written E tab count es toff i s cur \<longleftrightarrow> (\<exists>s'. write_entries E toff i es (s, cur) = Ok (Some (s', cur + inodes_entries es)) \<and>
     as_offset s' = as_offset s + space_entries es \<and>
     grown tab count (region tab cur (inodes_entries es) (as_offset s) (as_offset s') \<union>
       {toff + i * dir_entry_size..<toff + (i + length es) * dir_entry_size}) s s' \<and>
     stored_entries (as_file s') tab (region tab cur (inodes_entries es) (as_offset s) (as_offset s') \<union>
       {toff + i * dir_entry_size..<toff + (i + length es) * dir_entry_size}) count toff i es)"

lemma dir_written:
  assumes s: "st_ok tab count s" and room: "as_offset s + space_kind (EDir es) \<le> as_max_size s"
    and cur: "cur + inodes_entries es < count"
    and es: "entries_written E tab count es (as_offset s) 0 (s\<lparr>as_offset := as_offset s + pages (length es * dir_entry_size)\<rparr>) cur"
  shows "\<exists>s'. allocate_and_write_dir E es (s, cur) =
      Ok (Some ((s', cur + inodes_entries es), \<lparr>wr_size = length es * dir_entry_size, wr_offset = as_offset s\<rparr>)) \<and>
    as_offset s' = as_offset s + space_kind (EDir es) \<and>
    grown tab count (region tab cur (inodes_entries es) (as_offset s) (as_offset s')) s s' \<and>
    stored_entries (as_file s') tab (region tab cur (inodes_entries es) (as_offset s) (as_offset s')) count (as_offset s) 0 es"
proof -
  let ?s1 = "s\<lparr>as_offset := as_offset s + pages (length es * dir_entry_size)\<rparr>"
  from es obtain s' where s': "write_entries E (as_offset s) 0 es (?s1, cur) = Ok (Some (s', cur + inodes_entries es))"
      "as_offset s' = as_offset s + space_kind (EDir es)"
      "grown tab count (region tab cur (inodes_entries es) (as_offset ?s1) (as_offset s') \<union>
         {as_offset s..<as_offset s + length es * dir_entry_size}) ?s1 s'"
      "stored_entries (as_file s') tab (region tab cur (inodes_entries es) (as_offset ?s1) (as_offset s') \<union>
         {as_offset s..<as_offset s + length es * dir_entry_size}) count (as_offset s) 0 es"
    by (auto simp: entries_written_def add.assoc)
  have sub: "region tab cur (inodes_entries es) (as_offset ?s1) (as_offset s') \<union> {as_offset s..<as_offset s + length es * dir_entry_size}
      \<subseteq> region tab cur (inodes_entries es) (as_offset s) (as_offset s')"
    using s'(2) pages_ge [of "length es * dir_entry_size"] by (auto simp: region_def)
  have "length es < 2 ^ 16" using inodes_length [of es] cur s by (simp add: st_ok_def)
  moreover have "bump_alloc (length es * dir_entry_size) s = Ok (Some (?s1, as_offset s))"
    using bump_alloc_ok [OF s] room by simp
  moreover have "as_offset s < 2 ^ 32" using s by (simp add: st_ok_def)
  ultimately have "allocate_and_write_dir E es (s, cur) =
      Ok (Some ((s', cur + inodes_entries es), \<lparr>wr_size = length es * dir_entry_size, wr_offset = as_offset s\<rparr>))"
    using s'(1) by (simp add: to_u32_ok)
  moreover have "grown tab count (region tab cur (inodes_entries es) (as_offset s) (as_offset s')) s s'"
    using grown_trans [OF _ s'(3), of "{}" s] sub s'(3) by (simp add: grown_def)
      (use keeps_mono [of "- (region tab cur (inodes_entries es) (as_offset ?s1) (as_offset s') \<union> {as_offset s..<as_offset s + length es * dir_entry_size})"] in auto)
  ultimately show ?thesis using s'(2) stored_mono(2) [OF s'(4) sub] by blast
qed

lemma entries_written_Cons:
  assumes E: "archive_env_ok E" and k: "kind_written E tab count k s cur" and s: "st_ok tab count s" and name: "length name < 2 ^ 16"
    and room: "as_offset s + space_entries (Entry name mode k # es) \<le> as_max_size s"
    and cur: "cur + inodes_entries (Entry name mode k # es) < count" and i: "i < 2 ^ 16"
    and toff: "tab + count * inode_size \<le> toff" "toff + (i + length (Entry name mode k # es)) * dir_entry_size \<le> as_offset s"
    and rest: "\<And>s5. st_ok tab count s5 \<Longrightarrow> as_max_size s5 = as_max_size s \<Longrightarrow>
      as_offset s5 = as_offset s + space_kind k + pages (length name) \<Longrightarrow>
      entries_written E tab count es toff (Suc i) s5 (Suc (cur + inodes_kind k))"
  shows "entries_written E tab count (Entry name mode k # es) toff i s cur"
proof -
  define n where "n = Suc (cur + inodes_kind k)"
  from k obtain s1 wr where s1: "write_kind E k (s, cur) = Ok (Some ((s1, cur + inodes_kind k), wr, type_of k))"
      "as_offset s1 = as_offset s + space_kind k" "wr_offset wr = as_offset s" "wr_size wr < 2 ^ 32"
      "grown tab count (region tab cur (inodes_kind k) (as_offset s) (as_offset s1)) s s1"
      "stored_kind (as_file s1) tab (region tab cur (inodes_kind k) (as_offset s) (as_offset s1)) count k wr"
    by (auto simp: kind_written_def)
  define s5 where "s5 = after_entry tab toff i name mode (type_of k) wr n s1"
  have st1: "st_ok tab count s1" and max1: "as_max_size s1 = as_max_size s" using s1(5) by (simp_all add: grown_def)
  have room1: "as_offset s1 + pages (length name) \<le> as_max_size s1" using room s1(2) max1 by simp
  have n: "n < count" using cur by (simp add: n_def)
  have toff1: "toff + Suc i * dir_entry_size \<le> as_offset s1" using toff(2) s1(2) by simp
  note entry = after_entry_ok [OF st1 room1 n toff(1) toff1, of mode "type_of k" wr, folded s5_def]
  have step: "write_entries E toff i (Entry name mode k # es) (s, cur) = write_entries E toff (Suc i) es (s5, n)"
    using write_entries_step [OF E s1(1) st1 room1 _ name i toff1] n unfolding n_def s5_def by simp
  have "entries_written E tab count es toff (Suc i) s5 n"
    using rest [of s5] entry(1,2) max1 s1(2) by (simp add: grown_def n_def)
  then obtain s' where s': "write_entries E toff (Suc i) es (s5, n) = Ok (Some (s', n + inodes_entries es))"
      "as_offset s' = as_offset s5 + space_entries es"
      "grown tab count (region tab n (inodes_entries es) (as_offset s5) (as_offset s') \<union>
         {toff + Suc i * dir_entry_size..<toff + (Suc i + length es) * dir_entry_size}) s5 s'"
      "stored_entries (as_file s') tab (region tab n (inodes_entries es) (as_offset s5) (as_offset s') \<union>
         {toff + Suc i * dir_entry_size..<toff + (Suc i + length es) * dir_entry_size}) count toff (Suc i) es"
    by (auto simp: entries_written_def)
  define R1 where "R1 = region tab cur (inodes_kind k) (as_offset s) (as_offset s1)"
  define D where "D = {toff + i * dir_entry_size..<toff + Suc i * dir_entry_size}"
  define N where "N = {as_offset s1..<as_offset s1 + pages (length name)}"
  define S where "S = {tab + n * inode_size..<tab + Suc n * inode_size}"
  define R2 where "R2 = region tab n (inodes_entries es) (as_offset s5) (as_offset s') \<union>
    {toff + Suc i * dir_entry_size..<toff + (Suc i + length es) * dir_entry_size}"
  define C where "C = region tab cur (inodes_entries (Entry name mode k # es)) (as_offset s) (as_offset s') \<union>
    {toff + i * dir_entry_size..<toff + (i + length (Entry name mode k # es)) * dir_entry_size}"
  note defs = R1_def D_def N_def S_def R2_def C_def region_def n_def
  have off: "as_offset s5 = as_offset s1 + pages (length name)" by (rule entry(2))
  have slots: "Suc (cur + inodes_entries (Entry name mode k # es)) * inode_size \<le> count * inode_size" using cur by simp
  have sub: "R1 \<subseteq> C" "D \<subseteq> C" "N \<subseteq> C" "S \<subseteq> C" "R2 \<subseteq> C" using s1(2) s'(2) off by (auto simp: defs)
  have dis: "R1 \<inter> (D \<union> N \<union> S) = {}" "(D \<union> N \<union> S) \<inter> R2 = {}" "R1 \<inter> R2 = {}"
    using s1(2) s'(2) off toff slots by (auto simp: defs)
  have g: "grown tab count R1 s s1" "grown tab count (D \<union> N \<union> S) s1 s5" "grown tab count R2 s5 s'"
    unfolding R1_def D_def N_def S_def R2_def by (rule s1(5) entry(1) s'(3))+
  have all: "grown tab count C s s'"
    by (rule grown_trans [OF grown_trans [OF g(1,2) subset_refl] g(3)]) (intro Un_least sub)
  have kept: "keeps R1 (as_file s1) (as_file s')" "keeps (D \<union> N \<union> S) (as_file s5) (as_file s')"
    using keeps_mono [OF keeps_trans [OF grown_kept [OF g(2) dis(1)] grown_kept [OF g(3) dis(3)]], of R1] grown_kept [OF g(3) dis(2)]
    by simp_all
  have "sits C (as_file s') (toff + i * dir_entry_size)
      (encode_dir_entry \<lparr>dr_inode = n, dr_name_len = length name, dr_name_offset = as_offset s1\<rparr>)"
    "sits C (as_file s') (as_offset s1) name"
    "sits C (as_file s') (tab + n * inode_size) (encode_inode (inode_hdr_of (type_of k) mode wr))"
    using sub sits_keeps [OF sits_mono [OF entry(3) [folded D_def]] kept(2)] sits_keeps [OF sits_mono [OF entry(4) [folded N_def]] kept(2)]
      sits_keeps [OF sits_mono [OF entry(5) [folded S_def]] kept(2)]
    by (blast intro: sits_mono)+
  moreover have "stored_kind (as_file s') tab C count k wr"
    using stored_mono(1) [OF stored_keeps(1) [OF s1(6) [folded R1_def] kept(1)] sub(1)] .
  moreover have "stored_entries (as_file s') tab C count toff (Suc i) es"
    using stored_mono(2) [OF s'(4) [folded R2_def] sub(5)] .
  moreover have "as_offset s1 < 2 ^ 32" "wr_offset wr \<le> as_offset s1" using st1 s1(2,3) by (simp_all add: st_ok_def)
  ultimately have "stored_entries (as_file s') tab C count toff i (Entry name mode k # es)"
    using n s1(4) by auto
  then show ?thesis using step s'(1,2) off s1(2) all unfolding C_def entries_written_def by (auto simp: n_def ac_simps)
qed

lemma tree_written:
  assumes E: "archive_env_ok E"
  shows "st_ok tab count s \<Longrightarrow> names_kind (\<lambda>n. length n < 2 ^ 16) k \<Longrightarrow> as_offset s + space_kind k \<le> as_max_size s \<Longrightarrow>
      cur + inodes_kind k < count \<Longrightarrow> kind_written E tab count k s cur"
    and "st_ok tab count s \<Longrightarrow> names_entries (\<lambda>n. length n < 2 ^ 16) es \<Longrightarrow> as_offset s + space_entries es \<le> as_max_size s \<Longrightarrow>
      cur + inodes_entries es < count \<Longrightarrow> i + length es \<le> 2 ^ 16 \<Longrightarrow> tab + count * inode_size \<le> toff \<Longrightarrow>
      toff + (i + length es) * dir_entry_size \<le> as_offset s \<Longrightarrow> entries_written E tab count es toff i s cur"
proof (induction k and es arbitrary: s cur and s cur toff i rule: space_kind_space_entries.induct)
  case (1 c)
  from write_file_ok [OF E "1.prems"(1)] "1.prems"(3) obtain s' where
    "allocate_and_write_file E c s = Ok (Some (s', \<lparr>wr_size = length c, wr_offset = as_offset s\<rparr>))"
    "grown tab count {as_offset s..<as_offset s + pages (length c)} s s'" "as_offset s' = as_offset s + pages (length c)"
    "sits {as_offset s..<as_offset s + pages (length c)} (as_file s') (as_offset s) c" by auto
  then show ?case using "1.prems"(1,3) pages_ge [of "length c"] by (auto simp: kind_written_def region_def st_ok_def)
next
  case (2 p)
  from write_link_ok [OF E "2.prems"(1)] "2.prems"(3) obtain s' where
    "allocate_and_write_link E p s = Ok (Some (s', \<lparr>wr_size = length p, wr_offset = as_offset s\<rparr>))"
    "grown tab count {as_offset s..<as_offset s + pages (length p)} s s'" "as_offset s' = as_offset s + pages (length p)"
    "sits {as_offset s..<as_offset s + pages (length p)} (as_file s') (as_offset s) p" by auto
  then show ?case using "2.prems"(1,3) pages_ge [of "length p"] by (auto simp: kind_written_def region_def st_ok_def)
next
  case (3 es)
  let ?s1 = "s\<lparr>as_offset := as_offset s + pages (length es * dir_entry_size)\<rparr>"
  have len: "length es < 2 ^ 16" using inodes_length [of es] "3.prems" by (simp add: st_ok_def)
  have s1: "st_ok tab count ?s1" using "3.prems"(1,3) by (auto simp: st_ok_def mod_add_eq [symmetric])
  have "entries_written E tab count es (as_offset s) 0 ?s1 cur"
    using "3.prems" len pages_ge [of "length es * dir_entry_size"] by (intro "3.IH" [OF s1]) (auto simp: st_ok_def)
  from dir_written [OF "3.prems"(1,3) _ this] "3.prems"(4) len show ?case by (auto simp: kind_written_def)
next
  case 4
  then show ?case by (simp add: entries_written_def grown_def)
next
  case (5 name mode k es)
  have k: "kind_written E tab count k s cur" using "5.prems" by (intro "5.IH"(1)) auto
  show ?case
  proof (rule entries_written_Cons [OF E k "5.prems"(1)])
    fix s5 assume "st_ok tab count s5" "as_max_size s5 = as_max_size s" "as_offset s5 = as_offset s + space_kind k + pages (length name)"
    then show "entries_written E tab count es toff (Suc i) s5 (Suc (cur + inodes_kind k))"
      using "5.prems" by (intro "5.IH"(2)) auto
  qed (use "5.prems" in auto)
qed

end
