(* ===== verification/Initfs_Read.thy ===== *)
theory Initfs_Read
  imports Initfs_Proofs
begin

text \<open>
  The reader on an image: on any bytes it accepts it neither panics nor reads outside of them, and on
  the image that the writer makes it gives back the source tree.
\<close>

section \<open>Fields\<close>

lemma decode_encode_dir_entry:
  assumes "dr_inode d < 2 ^ 16" "dr_name_len d < 2 ^ 16" "dr_name_offset d < 2 ^ 32"
  shows "decode_dir_entry (encode_dir_entry d) = d"
  using assms by (cases d) (simp add: decode_dir_entry_def encode_dir_entry_def field_def from_le_to_le)

lemma decode_encode_inode:
  assumes "ih_length h < 2 ^ 32" "ih_offset h < 2 ^ 32" "ih_uid h < 2 ^ 32" "ih_gid h < 2 ^ 32"
  shows "decode_inode (encode_inode h) = h"
proof -
  have "unat (ih_type_and_mode h) < 2 ^ 32" using unsigned_less [of "ih_type_and_mode h"] by simp
  with assms show ?thesis by (cases h) (simp add: decode_inode_def encode_inode_def field_def from_le_to_le)
qed

lemma decode_encode_header:
  assumes "length (hd_magic h) = 8" "hd_inode_table_offset h < 2 ^ 32" "th_sec (hd_creation_time h) < 2 ^ 64"
    "th_nsec (hd_creation_time h) < 2 ^ 32" "hd_inode_count h < 2 ^ 16" "hd_bootstrap_entry h < 2 ^ 64"
    "hd_initfs_size h < 2 ^ 64" "hd_page_size h < 2 ^ 16"
  shows "decode_header (encode_header h) = h"
  using assms by (cases h; cases "hd_creation_time h") (simp add: decode_header_def encode_header_def field_def from_le_to_le)

lemma length_encode_header: "length (hd_magic h) = 8 \<Longrightarrow> length (encode_header h) = header_size"
  by (simp add: encode_header_def)

lemma inode_kind_of_hdr:
  "inode_kind_of \<lparr>is_initfs = fs, is_inode = inode_hdr_of ty mode wr\<rparr> = (let n = \<lparr>is_initfs = fs, is_inode = inode_hdr_of ty mode wr\<rparr> in
     case ty of RegularFile \<Rightarrow> KindFile n | DirType \<Rightarrow> KindDir n | LinkType \<Rightarrow> KindLink n)"
proof -
  have "(mode AND 0xFFF) AND 0xF0000000 = (0 :: u32)" by (simp add: and.assoc)
  then have "(push_bit TYPE_SHIFT (inode_type_code ty) OR (mode AND 0xFFF)) AND TYPE_MASK = push_bit TYPE_SHIFT (inode_type_code ty)"
    by (cases ty) (simp_all add: TYPE_MASK_def TYPE_SHIFT_def bit.conj_disj_distrib2 push_bit_eq_mult)
  then have "inode_ty \<lparr>is_initfs = fs, is_inode = inode_hdr_of ty mode wr\<rparr> = Some ty"
    by (cases ty) (simp_all add: inode_ty_def inode_hdr_of_def TYPE_SHIFT_def push_bit_eq_mult drop_bit_eq_div)
  then show ?thesis by (cases ty) (simp_all add: inode_kind_of_def)
qed

section \<open>Images that the reader accepts\<close>

definition image_header :: "u8 list \<Rightarrow> header" where
  "image_header img = decode_header (take header_size img)"

definition good_image :: "u8 list \<Rightarrow> bool" where
  "good_image img \<longleftrightarrow> header_size \<le> length img \<and> length img < 2 ^ 32 \<and>
     hd_inode_table_offset (image_header img) + hd_inode_count (image_header img) * inode_size \<le> length img"

lemma header_fields:
  "hd_inode_count (decode_header bs) < 2 ^ 16" "hd_inode_table_offset (decode_header bs) < 2 ^ 32"
proof -
  have "from_le (field bs off k) < 256 ^ k" for off k
  proof -
    have "length (field bs off k) \<le> k" by (simp add: field_def)
    then have "(256 :: nat) ^ length (field bs off k) \<le> 256 ^ k" by (rule power_increasing) simp
    then show ?thesis using from_le_less [of "field bs off k"] by linarith
  qed
  from this [of 24 2] this [of 8 4] show "hd_inode_count (decode_header bs) < 2 ^ 16" "hd_inode_table_offset (decode_header bs) < 2 ^ 32"
    by (simp_all add: decode_header_def)
qed

lemma plain_facts:
  assumes "plain_ok P"
  shows "sz \<le> len \<Longrightarrow> from_bytes_ok P len sz" "0 < sz \<Longrightarrow> slice_count P len sz = Some (len div sz)"
  using assms by (simp_all add: plain_ok_def)

lemma get_header_ok:
  assumes "plain_ok P" "header_size \<le> length img"
  shows "get_header_assume_valid P \<lparr>if_base = img\<rparr> = Ok (image_header img)"
  using assms by (simp add: get_header_assume_valid_def get_range_def image_header_def plain_facts)

lemma initfs_new_eq:
  assumes "plain_ok P"
  shows "initfs_new P img r = Ok (if good_image img \<and> hd_magic (image_header img) = MAGIC \<and>
      header_size \<le> hd_inode_table_offset (image_header img) \<and> (\<forall>n. r = Some n \<longrightarrow> hd_page_size (image_header img) = n)
    then Some \<lparr>if_base = img\<rparr> else None)"
proof (cases "header_size \<le> length img \<and> length img < 2 ^ 32")
  case True
  have "hd_inode_count (image_header img) * inode_size < 2 ^ 32" using header_fields(1) [of "take header_size img"]
    by (simp add: image_header_def)
  then have sz: "inode_table_size P \<lparr>if_base = img\<rparr> = Ok (hd_inode_count (image_header img) * inode_size)"
    using True by (simp add: inode_table_size_def get_header_ok [OF assms])
  have base: "base_len_32 \<lparr>if_base = img\<rparr> = length img" using True by (simp add: base_len_32_def)
  have "initfs_new P img r = (let h = image_header img; e = hd_inode_table_offset h + hd_inode_count h * inode_size in
      if hd_magic h \<noteq> MAGIC \<or> hd_inode_table_offset h < header_size \<or> \<not> e < 2 ^ 32 \<or> length img < e then Ok None
      else case r of Some n \<Rightarrow> if hd_page_size h \<noteq> n then Ok None else Ok (Some \<lparr>if_base = img\<rparr>) | None \<Rightarrow> Ok (Some \<lparr>if_base = img\<rparr>))"
    using True unfolding initfs_new_def Let_def by (simp add: get_header_ok [OF assms] sz base)
  then show ?thesis using True unfolding good_image_def Let_def by (cases r) auto
next
  case False
  then show ?thesis unfolding initfs_new_def good_image_def Let_def by (cases "length img < header_size") auto
qed

lemma field_of_slice: "off + k \<le> n \<Longrightarrow> field (take n (drop base xs)) off k = field xs (base + off) k"
  by (simp add: field_def drop_take min_def add.commute)

lemma inode_table_ok:
  assumes P: "plain_ok P" and img: "good_image img"
  shows "inode_table P \<lparr>if_base = img\<rparr> = Ok (map (\<lambda>i. decode_inode (field img (hd_inode_table_offset (image_header img) + i * inode_size) inode_size))
    [0..<hd_inode_count (image_header img)])"
proof -
  let ?h = "image_header img"
  have c: "hd_inode_count ?h < 2 ^ 16" "hd_inode_table_offset ?h < 2 ^ 32" using header_fields by (simp_all add: image_header_def)
  have le: "hd_inode_table_offset ?h + hd_inode_count ?h * inode_size \<le> length img" "header_size \<le> length img"
    using img by (simp_all add: good_image_def)
  have "field (take (hd_inode_count ?h * inode_size) (drop (hd_inode_table_offset ?h) img)) (i * inode_size) inode_size =
      field img (hd_inode_table_offset ?h + i * inode_size) inode_size" if "i < hd_inode_count ?h" for i
    using that by (intro field_of_slice) simp
  then show ?thesis
    using c le by (simp add: inode_table_def inode_table_offset_usize_def inode_table_end_usize_def inode_table_size_def
        get_header_ok [OF P] get_range_def slice_from_bytes_def plain_facts [OF P])
qed

lemma get_inode_ok:
  assumes "plain_ok P" "good_image img"
  shows "get_inode P \<lparr>if_base = img\<rparr> n = Ok (if n < hd_inode_count (image_header img)
    then Some \<lparr>is_initfs = \<lparr>if_base = img\<rparr>, is_inode =
      decode_inode (field img (hd_inode_table_offset (image_header img) + n * inode_size) inode_size)\<rparr> else None)"
  using assms by (simp add: get_inode_def inode_table_ok get_at_def)

section \<open>Reading back a tree\<close>

fun node_of :: "entry_kind \<Rightarrow> node" and nodes_of :: "entry list \<Rightarrow> (u8 list \<times> node) list" where
  "node_of (EFile c) = NodeFile c"
| "node_of (ELink p) = NodeLink p"
| "node_of (EDir es) = NodeDir (nodes_of es)"
| "nodes_of [] = []"
| "nodes_of (Entry name mode k # es) = (name, node_of k) # nodes_of es"

fun unique_kind :: "entry_kind \<Rightarrow> bool" and unique_entries :: "entry list \<Rightarrow> bool" where
  "unique_kind (EFile c) = True"
| "unique_kind (ELink p) = True"
| "unique_kind (EDir es) = unique_entries es"
| "unique_entries [] = True"
| "unique_entries (Entry name mode k # es) = (name \<notin> fst ` set (nodes_of es) \<and> unique_kind k \<and> unique_entries es)"

abbreviation name_ok :: "u8 list \<Rightarrow> bool" where
  "name_ok name \<equiv> name \<noteq> [] \<and> length name < 2 ^ 16"

lemma update_fresh: "k \<notin> fst ` set al \<Longrightarrow> AList.update k v al = al @ [(k, v)]"
  by (induction al) auto

lemma at_img_end: "at_img img off bs \<Longrightarrow> bs \<noteq> [] \<Longrightarrow> off + length bs \<le> length img"
proof -
  assume "at_img img off bs" "bs \<noteq> []"
  then have "get_at img (off + (length bs - 1)) \<noteq> None" by (simp add: at_img_def)
  with \<open>bs \<noteq> []\<close> show ?thesis by (cases bs) (auto simp: get_at_eq_None)
qed

lemma field_at_img:
  assumes "at_img img off bs" "bs \<noteq> []"
  shows "field img off (length bs) = bs"
  using get_range_at_img [OF assms(1)] at_img_end [OF assms] by (simp add: get_range_def field_def)

lemma stored_entries_end:
  "stored_entries img tab A count off i es \<Longrightarrow> es \<noteq> [] \<Longrightarrow> off + (i + length es) * dir_entry_size \<le> length img"
proof (induction es arbitrary: i)
  case (Cons e es)
  obtain name mode k where e: "e = Entry name mode k" by (cases e)
  show ?case
  proof (cases "es = []")
    case True
    from Cons.prems(1) e obtain d where "at_img img (off + i * dir_entry_size) (encode_dir_entry d)" by (auto simp: sits_def)
    from at_img_end [OF this] have "off + i * dir_entry_size + dir_entry_size \<le> length img"
      using length_encode(2) [of d] by (metis length_0_conv zero_neq_numeral)
    then show ?thesis using True by simp
  next
    case False
    then show ?thesis using Cons.IH [of "Suc i"] Cons.prems(1) e by auto
  qed
qed simp

text \<open>The reader of an image with a given header.\<close>

lemma get_inode_stored:
  assumes P: "plain_ok P" and img: "good_image img" and n: "n < hd_inode_count (image_header img)"
    and at: "sits A img (hd_inode_table_offset (image_header img) + n * inode_size) (encode_inode (inode_hdr_of ty mode wr))"
    and wr: "wr_size wr < 2 ^ 32" "wr_offset wr < 2 ^ 32"
  shows "get_inode P \<lparr>if_base = img\<rparr> n = Ok (Some \<lparr>is_initfs = \<lparr>if_base = img\<rparr>, is_inode = inode_hdr_of ty mode wr\<rparr>)"
proof -
  have "encode_inode (inode_hdr_of ty mode wr) \<noteq> []" using length_encode(1) by (metis length_0_conv zero_neq_numeral)
  then have "field img (hd_inode_table_offset (image_header img) + n * inode_size) inode_size = encode_inode (inode_hdr_of ty mode wr)"
    using field_at_img [of img _ "encode_inode (inode_hdr_of ty mode wr)"] at by (simp add: sits_def)
  moreover have "decode_inode (encode_inode (inode_hdr_of ty mode wr)) = inode_hdr_of ty mode wr"
    using wr by (intro decode_encode_inode) (simp_all add: inode_hdr_of_def)
  ultimately show ?thesis using get_inode_ok [OF P img, of n] n by simp
qed

lemma inode_data_stored:
  assumes "wr_size wr = length bs" "at_img img (wr_offset wr) bs" "wr_offset wr \<le> length img" "length img < 2 ^ 32"
  shows "inode_data \<lparr>is_initfs = \<lparr>if_base = img\<rparr>, is_inode = inode_hdr_of ty mode wr\<rparr> = Some bs"
proof -
  note r = get_range_at_img [OF assms(2,3)]
  then have "wr_offset wr + length bs \<le> length img" by (simp add: get_range_def split: if_splits)
  then show ?thesis using r assms(1,4) by (simp add: inode_data_def inode_hdr_of_def usize_checked_add_def)
qed

lemma dir_entries_ok:
  assumes P: "plain_ok P" and data: "inode_data dir = Some (take (n * dir_entry_size) (drop off img))"
    and le: "off + n * dir_entry_size \<le> length img"
  shows "dir_entries P dir = Ok (Some (map (\<lambda>j. decode_dir_entry (field img (off + j * dir_entry_size) dir_entry_size)) [0..<n]))"
proof -
  have "field (take (n * dir_entry_size) (drop off img)) (j * dir_entry_size) dir_entry_size =
      field img (off + j * dir_entry_size) dir_entry_size" if "j < n" for j
    using that by (intro field_of_slice) simp
  then show ?thesis using data le by (simp add: dir_entries_def slice_from_bytes_def plain_facts [OF P])
qed

text \<open>What the reader finds for an entry: its position in the table, its name, and its inode.\<close>

definition entry_found :: "plain_crate \<Rightarrow> u8 list \<Rightarrow> nat set \<Rightarrow> initfs_dirent \<Rightarrow> entry \<Rightarrow> bool" where
  "entry_found P img A d e \<longleftrightarrow> entry_name \<lparr>en_initfs = \<lparr>if_base = img\<rparr>, en_entry = d\<rparr> = Some (e_name e) \<and>
     (\<exists>wr. get_inode P \<lparr>if_base = img\<rparr> (dr_inode d) =
        Ok (Some \<lparr>is_initfs = \<lparr>if_base = img\<rparr>, is_inode = inode_hdr_of (type_of (e_kind e)) (e_mode e) wr\<rparr>) \<and>
      stored_kind img (hd_inode_table_offset (image_header img)) A (hd_inode_count (image_header img)) (e_kind e) wr \<and>
      wr_offset wr \<le> length img \<and> wr_size wr < 2 ^ 32)"

lemma stored_head:
  assumes P: "plain_ok P" and img: "good_image img"
    and es: "stored_entries img (hd_inode_table_offset (image_header img)) A (hd_inode_count (image_header img)) off i (e # es)"
    and name: "name_ok (e_name e)"
  shows "entry_found P img A (decode_dir_entry (field img (off + i * dir_entry_size) dir_entry_size)) e"
proof -
  obtain nm mode k where e: "e = Entry nm mode k" by (cases e)
  let ?tab = "hd_inode_table_offset (image_header img)" and ?count = "hd_inode_count (image_header img)"
  from es e obtain n no wr where n: "n < ?count" "wr_size wr < 2 ^ 32" "wr_offset wr \<le> no" "no < 2 ^ 32"
      "sits A img (off + i * dir_entry_size) (encode_dir_entry \<lparr>dr_inode = n, dr_name_len = length nm, dr_name_offset = no\<rparr>)"
      "sits A img no nm" "sits A img (?tab + n * inode_size) (encode_inode (inode_hdr_of (type_of k) mode wr))"
      "stored_kind img ?tab A ?count k wr" by auto
  let ?d = "\<lparr>dr_inode = n, dr_name_len = length nm, dr_name_offset = no\<rparr>"
  have "encode_dir_entry ?d \<noteq> []" using length_encode(2) by (metis length_0_conv zero_neq_numeral)
  then have "field img (off + i * dir_entry_size) dir_entry_size = encode_dir_entry ?d"
    using field_at_img [of img _ "encode_dir_entry ?d"] n(5) by (simp add: sits_def)
  moreover have "?count < 2 ^ 16" using header_fields(1) by (simp add: image_header_def)
  then have "decode_dir_entry (encode_dir_entry ?d) = ?d" using n(1,4) name e by (intro decode_encode_dir_entry) simp_all
  ultimately have d: "decode_dir_entry (field img (off + i * dir_entry_size) dir_entry_size) = ?d" by simp
  have no: "no + length nm \<le> length img" using at_img_end [of img no nm] n(6) name e by (simp add: sits_def)
  have len: "length img < 2 ^ 32" using img by (simp add: good_image_def)
  have "get_range img no (no + length nm) = Some nm" using get_range_at_img [of img no nm] n(6) no by (simp add: sits_def)
  then have "entry_name \<lparr>en_initfs = \<lparr>if_base = img\<rparr>, en_entry = ?d\<rparr> = Some nm"
    using no len by (simp add: entry_name_def usize_checked_add_def)
  moreover have "get_inode P \<lparr>if_base = img\<rparr> n = Ok (Some \<lparr>is_initfs = \<lparr>if_base = img\<rparr>, is_inode = inode_hdr_of (type_of k) mode wr\<rparr>)"
    using get_inode_stored [OF P img n(1,7,2)] n(3,4) by simp
  ultimately show ?thesis using n no unfolding d entry_found_def by (auto simp: e)
qed

lemma stored_nth:
  assumes "plain_ok P" "good_image img"
    "stored_entries img (hd_inode_table_offset (image_header img)) A (hd_inode_count (image_header img)) off i es"
    "names_entries name_ok es" "j < length es"
  shows "entry_found P img A (decode_dir_entry (field img (off + (i + j) * dir_entry_size) dir_entry_size)) (es ! j)"
  using assms(3-5)
proof (induction es arbitrary: i j)
  case (Cons e es)
  obtain nm mode k where e: "e = Entry nm mode k" by (cases e)
  show ?case
  proof (cases j)
    case 0
    then show ?thesis using stored_head [OF assms(1,2) Cons.prems(1)] Cons.prems(2) e by simp
  next
    case (Suc j')
    then show ?thesis using Cons.IH [of "Suc i" j'] Cons.prems e by (auto simp: algebra_simps)
  qed
qed simp

text \<open>The entries of a stored directory.\<close>

definition dir_found :: "plain_crate \<Rightarrow> u8 list \<Rightarrow> nat set \<Rightarrow> inode_struct \<Rightarrow> entry list \<Rightarrow> bool" where
  "dir_found P img A dir es \<longleftrightarrow> is_initfs dir = \<lparr>if_base = img\<rparr> \<and>
     (\<exists>ds. dir_entries P dir = Ok (Some ds) \<and> list_all2 (entry_found P img A) ds es)"

lemma stored_dir_found:
  assumes P: "plain_ok P" and img: "good_image img"
    and stored: "stored_kind img (hd_inode_table_offset (image_header img)) A (hd_inode_count (image_header img)) (EDir es) wr"
    and wr: "wr_offset wr \<le> length img" and names: "names_entries name_ok es"
  shows "dir_found P img A \<lparr>is_initfs = \<lparr>if_base = img\<rparr>, is_inode = inode_hdr_of ty mode wr\<rparr> es"
proof -
  let ?off = "wr_offset wr" and ?dir = "\<lparr>is_initfs = \<lparr>if_base = img\<rparr>, is_inode = inode_hdr_of ty mode wr\<rparr>"
  have es: "stored_entries img (hd_inode_table_offset (image_header img)) A (hd_inode_count (image_header img)) ?off 0 es"
    and sz: "wr_size wr = length es * dir_entry_size" using stored by simp_all
  have le: "?off + length es * dir_entry_size \<le> length img" using stored_entries_end [OF es] wr by (cases "es = []") simp_all
  have "length img < 2 ^ 32" using img by (simp add: good_image_def)
  then have "inode_data ?dir = Some (take (length es * dir_entry_size) (drop ?off img))"
    using le sz by (simp add: inode_data_def inode_hdr_of_def usize_checked_add_def get_range_def)
  from dir_entries_ok [OF P this le] stored_nth [OF P img es names] show ?thesis
    by (auto simp: dir_found_def list_all2_conv_all_nth)
qed

lemma dir_found_entries:
  assumes "dir_found P img A dir es"
  obtains ds where "length ds = length es" "dir_entries P dir = Ok (Some ds)"
    "\<And>j. get_entry P dir j = Ok (Some (if j < length es then Some \<lparr>en_initfs = \<lparr>if_base = img\<rparr>, en_entry = ds ! j\<rparr> else None))"
    "\<And>j. j < length es \<Longrightarrow> entry_found P img A (ds ! j) (es ! j)"
proof -
  from assms obtain ds where ds: "dir_entries P dir = Ok (Some ds)" "list_all2 (entry_found P img A) ds es" "is_initfs dir = \<lparr>if_base = img\<rparr>"
    by (auto simp: dir_found_def)
  then have "length ds = length es" "\<And>j. j < length es \<Longrightarrow> entry_found P img A (ds ! j) (es ! j)"
    by (auto simp: list_all2_conv_all_nth)
  then show thesis using ds by (intro that [of ds]) (simp_all add: get_entry_def get_at_def)
qed

lemma member_facts:
  "e \<in> set es \<Longrightarrow> inodes_kind (e_kind e) < inodes_entries es"
  "e \<in> set es \<Longrightarrow> names_entries Q es \<Longrightarrow> Q (e_name e) \<and> names_kind Q (e_kind e)"
  "e \<in> set es \<Longrightarrow> unique_entries es \<Longrightarrow> unique_kind (e_kind e)"
proof (induction es)
  case (Cons e' es)
  {
    case 1
    then show ?case using Cons.IH(1) by (cases e') auto
  next
    case 2
    then show ?case using Cons.IH(2) by (cases e') auto
  next
    case 3
    then show ?case using Cons.IH(3) by (cases e') auto
  }
qed simp_all

lemma build_entries_found:
  assumes ds: "\<And>j. get_entry P dir j = Ok (Some (if j < length es then Some \<lparr>en_initfs = \<lparr>if_base = img\<rparr>, en_entry = ds ! j\<rparr> else None))"
    "\<And>j. j < length es \<Longrightarrow> entry_found P img A (ds ! j) (es ! j)"
    and build: "\<And>j inode. j < length es \<Longrightarrow> get_inode P \<lparr>if_base = img\<rparr> (dr_inode (ds ! j)) = Ok (Some inode) \<Longrightarrow>
      build inode = Ok (Some (node_of (e_kind (es ! j))))"
    and "unique_entries (drop i es)" "i \<le> length es" "fst ` set acc \<inter> fst ` set (nodes_of (drop i es)) = {}"
  shows "build_entries build P \<lparr>if_base = img\<rparr> dir [i..<length es] acc = Ok (Some (acc @ nodes_of (drop i es)))"
  using assms(4-6)
proof (induction "length es - i" arbitrary: i acc)
  case 0
  then show ?case by simp
next
  case (Suc x)
  then have i: "i < length es" by simp
  let ?e = "es ! i"
  obtain name mode k where e: "?e = Entry name mode k" by (cases ?e)
  have drop: "drop i es = Entry name mode k # drop (Suc i) es" using i e by (simp add: Cons_nth_drop_Suc [symmetric])
  from ds(2) [OF i] obtain inode where f: "entry_name \<lparr>en_initfs = \<lparr>if_base = img\<rparr>, en_entry = ds ! i\<rparr> = Some name"
      "get_inode P \<lparr>if_base = img\<rparr> (dr_inode (ds ! i)) = Ok (Some inode)" by (auto simp: entry_found_def e)
  have "AList.update name (node_of k) acc = acc @ [(name, node_of k)]" using Suc.prems(3) by (intro update_fresh) (auto simp: drop)
  moreover have "[i..<length es] = i # [Suc i..<length es]" using i by (simp add: upt_conv_Cons)
  ultimately have "build_entries build P \<lparr>if_base = img\<rparr> dir [i..<length es] acc =
      build_entries build P \<lparr>if_base = img\<rparr> dir [Suc i..<length es] (acc @ [(name, node_of k)])"
    using i f ds(1) [of i] build [OF i f(2)] by (simp add: e entry_inode_def)
  also have "\<dots> = Ok (Some ((acc @ [(name, node_of k)]) @ nodes_of (drop (Suc i) es)))"
    using Suc.hyps(2) Suc.prems i by (intro Suc.hyps(1)) (auto simp: drop)
  finally show ?case by (simp add: drop)
qed

lemma build_tree_stored:
  assumes P: "plain_ok P" and img: "good_image img"
  shows "stored_kind img (hd_inode_table_offset (image_header img)) A (hd_inode_count (image_header img)) k wr \<Longrightarrow>
    wr_offset wr \<le> length img \<Longrightarrow> names_kind name_ok k \<Longrightarrow> unique_kind k \<Longrightarrow> inodes_kind k < fuel \<Longrightarrow>
    build_tree fuel P \<lparr>if_base = img\<rparr> \<lparr>is_initfs = \<lparr>if_base = img\<rparr>, is_inode = inode_hdr_of (type_of k) mode wr\<rparr> = Ok (Some (node_of k))"
proof (induction fuel arbitrary: k wr mode)
  case (Suc fuel)
  have len: "length img < 2 ^ 32" using img by (simp add: good_image_def)
  show ?case
  proof (cases k)
    case (EFile c)
    then show ?thesis using Suc.prems inode_data_stored [of wr c img RegularFile mode] len
      by (simp add: inode_kind_of_hdr sits_def)
  next
    case (ELink p)
    then show ?thesis using Suc.prems inode_data_stored [of wr p img LinkType mode] len
      by (simp add: inode_kind_of_hdr sits_def)
  next
    case (EDir es)
    let ?dir = "\<lparr>is_initfs = \<lparr>if_base = img\<rparr>, is_inode = inode_hdr_of DirType mode wr\<rparr>"
    have "dir_found P img A ?dir es" using stored_dir_found [OF P img] Suc.prems EDir by simp
    then obtain ds where ds: "length ds = length es" "dir_entries P ?dir = Ok (Some ds)"
      "\<And>j. get_entry P ?dir j = Ok (Some (if j < length es then Some \<lparr>en_initfs = \<lparr>if_base = img\<rparr>, en_entry = ds ! j\<rparr> else None))"
      "\<And>j. j < length es \<Longrightarrow> entry_found P img A (ds ! j) (es ! j)" using dir_found_entries by blast
    have child: "build_tree fuel P \<lparr>if_base = img\<rparr> inode = Ok (Some (node_of (e_kind (es ! j))))"
      if "j < length es" "get_inode P \<lparr>if_base = img\<rparr> (dr_inode (ds ! j)) = Ok (Some inode)" for j inode
    proof -
      have "es ! j \<in> set es" using that(1) by simp
      then show ?thesis
        using ds(4) [OF that(1)] that(2) Suc.IH [of "e_kind (es ! j)"] Suc.prems(3-5) EDir member_facts [of "es ! j" es]
        by (fastforce simp: entry_found_def)
    qed
    have "length es * dir_entry_size < 2 ^ 32"
      using stored_entries_end [of img _ A _ "wr_offset wr" 0 es] Suc.prems(1) EDir len by (cases "es = []") fastforce+
    then have "entry_count P ?dir = Ok (Some (length es))" using ds(1,2) by (simp add: entry_count_def)
    moreover have "build_entries (build_tree fuel P \<lparr>if_base = img\<rparr>) P \<lparr>if_base = img\<rparr> ?dir [0..<length es] [] = Ok (Some (nodes_of es))"
      using build_entries_found [OF ds(3,4) child, where i = 0 and acc = "[]"] Suc.prems(4) EDir by simp
    ultimately show ?thesis using EDir by (simp add: inode_kind_of_hdr)
  qed
qed simp

end
