(* ===== verification/Initfs_Properties.thy ===== *)
theory Initfs_Properties
  imports Initfs_Read
begin

text \<open>
  The archive program as a whole: when the image has room the program succeeds, and reading the image
  gives back the source tree, unless the tree is empty.
\<close>

section \<open>The whole image\<close>

lemma read_directory_count:
  "read_directory E path hs c = Ok (Some (es, c')) \<Longrightarrow> c' = c + inodes_entries es \<and> (c < 2 ^ 16 \<longrightarrow> c' < 2 ^ 16)"
  "read_kind E path ty c = Ok (Some (k, c')) \<Longrightarrow> c' = c + inodes_kind k \<and> (c < 2 ^ 16 \<longrightarrow> c' < 2 ^ 16)"
  by (induction E path hs c and E path ty c arbitrary: es c' and k c' rule: read_directory_read_kind.induct)
    (auto simp: try_do_eq_Some split: if_splits option.splits, fastforce)

lemma names_mono:
  "names_kind Q k \<Longrightarrow> (\<And>n. Q n \<Longrightarrow> R n) \<Longrightarrow> names_kind R k"
  "names_entries Q es \<Longrightarrow> (\<And>n. Q n \<Longrightarrow> R n) \<Longrightarrow> names_entries R es"
  by (induction Q k and Q es rule: names_kind_names_entries.induct) auto

text \<open>The room that the parts of an image take, and that it suffices.\<close>

definition boot_space :: "u8 list option \<Rightarrow> nat" where
  "boot_space boot = (case boot of None \<Rightarrow> 0 | Some code \<Rightarrow> pages (length code))"

definition archive_fits :: "nat \<Rightarrow> u8 list option \<Rightarrow> entry list \<Rightarrow> bool" where
  "archive_fits max_size boot root \<longleftrightarrow> max_size + BUFFER_SIZE \<le> 2 ^ 32 \<and>
     4096 + boot_space boot + pages (Suc (inodes_entries root) * inode_size) + space_kind (EDir root) \<le> max_size"

definition boot_entry :: "u8 list option \<Rightarrow> nat outcome" where
  "boot_entry boot = (case boot of None \<Rightarrow> Ok (2 ^ 64 - 1) | Some code \<Rightarrow> elf_entry code)"

lemma pages_4096 [simp]: "pages 4096 = 4096"
  by (simp add: pages_def)

lemma from_le_64: "length bs \<le> 8 \<Longrightarrow> from_le bs < 2 ^ 64"
proof -
  assume "length bs \<le> 8"
  then have "(256 :: nat) ^ length bs \<le> 256 ^ 8" by (intro power_increasing) simp_all
  then show ?thesis using from_le_less [of bs] by simp
qed

lemma elf_entry_less: "elf_entry code = Ok v \<Longrightarrow> v < 2 ^ 64"
  using from_le_64 [of "take n (drop m code)" for n m] from_le_64 [of "rev (take n (drop m code))" for n m]
  by (fastforce simp: elf_entry_def and_then_eq_Ok get_range_def split: if_splits)

lemma boot_entry_less: "boot_entry boot = Ok v \<Longrightarrow> v < 2 ^ 64"
  using elf_entry_less by (cases boot) (auto simp: boot_entry_def)

text \<open>The image up to its header: a tree is stored behind an inode table at a page behind the first.\<close>

definition image_holds :: "u8 list \<Rightarrow> nat \<Rightarrow> nat set \<Rightarrow> entry list \<Rightarrow> u32 \<Rightarrow> bool" where
  "image_holds img tab A root mode \<longleftrightarrow> length img \<le> 2 ^ 32 - BUFFER_SIZE \<and> tab < 2 ^ 32 \<and> A \<subseteq> {4096..} \<and>
     (\<exists>wr. stored_kind img tab A (Suc (inodes_entries root)) (EDir root) wr \<and>
        sits A img tab (encode_inode (inode_hdr_of DirType mode wr)) \<and>
        tab + Suc (inodes_entries root) * inode_size \<le> wr_offset wr \<and> wr_offset wr < 2 ^ 32 \<and> wr_size wr < 2 ^ 32 \<and>
        (root = [] \<longrightarrow> length img < wr_offset wr))"

lemma contents_written:
  assumes E: "archive_env_ok E" and s: "st_ok tab (Suc (inodes_entries root)) s" and tab: "4096 \<le> tab"
    and names: "names_entries (\<lambda>n. length n < 2 ^ 16) root" and room: "as_offset s + space_kind (EDir root) \<le> as_max_size s"
    and start: "length (as_file s) \<le> tab" "tab + inode_size < as_offset s"
  shows "\<exists>s' A. allocate_contents_and_write_inodes E root mode s = Ok (Some s') \<and> as_inode_count s' = as_inode_count s \<and>
    image_holds (as_file s') tab A root mode"
proof -
  let ?n = "inodes_entries root"
  let ?s1 = "s\<lparr>as_offset := as_offset s + pages (length root * dir_entry_size)\<rparr>"
  have s1: "st_ok tab (Suc ?n) ?s1" using s room by (auto simp: st_ok_def mod_add_eq [symmetric])
  have "entries_written E tab (Suc ?n) root (as_offset s) 0 ?s1 0"
    using s names room inodes_length [of root] pages_ge [of "length root * dir_entry_size"]
    by (intro tree_written(2) [OF E s1]) (auto simp: st_ok_def)
  from dir_written [OF s room _ this] obtain s2 where dir: "allocate_and_write_dir E root (s, 0) =
        Ok (Some ((s2, ?n), \<lparr>wr_size = length root * dir_entry_size, wr_offset = as_offset s\<rparr>))"
      "as_offset s2 = as_offset s + space_kind (EDir root)"
      "grown tab (Suc ?n) (region tab 0 ?n (as_offset s) (as_offset s2)) s s2"
      "stored_entries (as_file s2) tab (region tab 0 ?n (as_offset s) (as_offset s2)) (Suc ?n) (as_offset s) 0 root" by auto
  define wr where "wr = \<lparr>wr_size = length root * dir_entry_size, wr_offset = as_offset s\<rparr>"
  define R where "R = region tab 0 ?n (as_offset s) (as_offset s2)"
  let ?h = "encode_inode (inode_hdr_of DirType mode wr)"
  let ?f = "write_at ?h tab (as_file s2)"
  have st2: "st_ok tab (Suc ?n) s2" using dir(3) by (simp add: grown_def)
  have bounds: "tab < 2 ^ 32" "as_offset s < 2 ^ 32" "length root < 2 ^ 16" using s inodes_length [of root] by (auto simp: st_ok_def)
  have "R \<inter> {tab..<tab + inode_size} = {}" using s by (auto simp: R_def region_def st_ok_def)
  then have "keeps R (as_file s2) ?f" using keeps_mono [OF keeps_write [of tab ?h "as_file s2"], of R] by auto
  then have "stored_entries ?f tab (R \<union> {tab..<tab + inode_size}) (Suc ?n) (as_offset s) 0 root"
    using stored_mono(2) [OF stored_keeps(2) [OF dir(4) [folded R_def]]] by blast
  moreover have "sits (R \<union> {tab..<tab + inode_size}) ?f tab ?h" using sits_mono [OF sits_write [of tab ?h]] by simp
  moreover have "R \<union> {tab..<tab + inode_size} \<subseteq> {4096..}" using tab s by (auto simp: R_def region_def st_ok_def)
  moreover have "root = [] \<Longrightarrow> length ?f < as_offset s"
    using dir(1) bump_alloc_ok [OF s, of 0] s start bounds(2) by (auto simp: to_u32_ok length_write_at pages_def st_ok_def)
  moreover have "length ?f \<le> 2 ^ 32 - BUFFER_SIZE" using st2 by (auto simp: st_ok_def length_write_at)
  ultimately have "image_holds ?f tab (R \<union> {tab..<tab + inode_size}) root mode"
    using bounds s unfolding image_holds_def by (auto simp: wr_def st_ok_def intro!: exI [of _ wr])
  moreover have "allocate_contents_and_write_inodes E root mode s = Ok (Some (s2\<lparr>as_file := ?f\<rparr>))"
    using dir(1) bounds(1) st2 by (simp add: allocate_contents_and_write_inodes_def write_inode_def env_ok_simps [OF E]
        uint_mul_def uint_add_def st_ok_def wr_def)
  ultimately show ?thesis using dir(3) by (auto simp: grown_def)
qed

lemma image_holds_keeps:
  assumes holds: "image_holds img tab A root mode" and k: "keeps {4096..} img img'" and len: "length img' = length img"
  shows "image_holds img' tab A root mode"
proof -
  have "keeps A img img'" using holds keeps_mono [OF k] by (simp add: image_holds_def)
  then show ?thesis using holds stored_keeps(2) sits_keeps len unfolding image_holds_def by (simp, blast)
qed

lemma image_holds_root:
  assumes "image_holds img tab A root mode"
  shows "tab + inode_size \<le> length img"
proof -
  from assms obtain h where "at_img img tab (encode_inode h)" by (auto simp: image_holds_def sits_def)
  from at_img_end [OF this] show ?thesis using length_encode(1) [of h] by (metis length_0_conv zero_neq_numeral)
qed

lemma boot_written:
  assumes E: "archive_env_ok E" and s: "st_ok 0 0 s" and room: "as_offset s + boot_space boot \<le> as_max_size s"
    and entry: "boot_entry boot = Ok v"
  shows "\<exists>s'. (case boot of None \<Rightarrow> Ok (Some (s, 2 ^ 64 - 1))
      | Some code \<Rightarrow> try_do (allocate_and_write_file E code s) (\<lambda>(s2, wr). map_outcome (\<lambda>entry. Some (s2, entry)) (elf_entry code))) = Ok (Some (s', v)) \<and>
    st_ok 0 0 s' \<and> as_offset s' = as_offset s + boot_space boot \<and> as_max_size s' = as_max_size s \<and> as_inode_count s' = as_inode_count s"
proof (cases boot)
  case None
  then show ?thesis using s entry by (simp add: boot_space_def boot_entry_def)
next
  case (Some code)
  then show ?thesis using write_file_ok [OF E s, of code] room entry by (auto simp: boot_space_def boot_entry_def grown_def)
qed

lemma archive_written:
  assumes E: "archive_env_ok E" and now: "ar_now E = Some (secs, nanos)" "secs < 2 ^ 64" "nanos < 2 ^ 32"
    and rd: "read_directory E [] source 1 = Ok (Some (root, count))" and names: "names_entries (\<lambda>n. length n < 2 ^ 16) root"
    and fits: "archive_fits max_size boot root" and entry: "boot_entry boot = Ok v"
  shows "\<exists>img tab A. archive E source mode max_size boot = Ok (Some img) \<and> image_holds img tab A root mode \<and> 4096 \<le> tab \<and>
    header_size \<le> length img \<and> hd_magic (image_header img) = MAGIC \<and> hd_inode_table_offset (image_header img) = tab \<and>
    hd_inode_count (image_header img) = Suc (inodes_entries root) \<and> hd_page_size (image_header img) = ARCHIVE_PAGE_SIZE"
proof -
  let ?n = "Suc (inodes_entries root)"
  let ?s0 = "\<lparr>as_file = [], as_offset = 0, as_max_size = max_size, as_inode_count = count,
    as_buffer = replicate BUFFER_SIZE 0, as_inode_table_offset = 0\<rparr>"
  have count: "count = ?n" "?n < 2 ^ 16" using read_directory_count(1) [OF rd] by simp_all
  note room = fits [unfolded archive_fits_def]
  have s0: "st_ok 0 0 ?s0" using room by (simp add: st_ok_def)
  let ?s1 = "\<lparr>as_file = [], as_offset = 4096, as_max_size = max_size, as_inode_count = count,
    as_buffer = replicate BUFFER_SIZE 0, as_inode_table_offset = 0\<rparr>"
  have b1: "bump_alloc 4096 ?s0 = Ok (Some (?s1, 0))" using bump_alloc_ok [OF s0, of 4096] room by simp
  have s1: "st_ok 0 0 ?s1" using room by (simp add: st_ok_def)
  from boot_written [OF E s1 _ entry] room obtain s2 where
    boot: "(case boot of None \<Rightarrow> Ok (Some (?s1, 2 ^ 64 - 1))
      | Some code \<Rightarrow> try_do (allocate_and_write_file E code ?s1) (\<lambda>(s2, wr). map_outcome (\<lambda>entry. Some (s2, entry)) (elf_entry code))) = Ok (Some (s2, v))"
    and s2: "st_ok 0 0 s2" "as_offset s2 = 4096 + boot_space boot" "as_max_size s2 = max_size" "as_inode_count s2 = ?n" by (auto simp: count(1))
  let ?tab = "4096 + boot_space boot"
  let ?s3 = "s2\<lparr>as_offset := ?tab + pages (inode_size * ?n), as_inode_table_offset := ?tab\<rparr>"
  have b3: "bump_alloc (inode_size * ?n) s2 = Ok (Some (s2\<lparr>as_offset := ?tab + pages (inode_size * ?n)\<rparr>, ?tab))"
    using bump_alloc_ok [OF s2(1), of "inode_size * ?n"] room s2(2,3) by (simp add: mult.commute)
  have s3: "st_ok ?tab ?n ?s3"
    using s2 room count(2) pages_ge [of "inode_size * ?n"] by (auto simp: st_ok_def mod_add_eq [symmetric] mult.commute)
  have "inode_size < pages (inode_size * ?n)" by (rule less_le_trans [of _ 4096]) (simp_all add: pages_def)
  then obtain s4 A where s4: "allocate_contents_and_write_inodes E root mode ?s3 = Ok (Some s4)" "as_inode_count s4 = ?n"
      "image_holds (as_file s4) ?tab A root mode"
    using contents_written [OF E s3 _ names, of mode] s2 room by (auto simp: st_ok_def mult.commute)
  let ?h = "\<lparr>hd_magic = MAGIC, hd_inode_table_offset = ?tab, hd_creation_time = \<lparr>th_sec = secs, th_nsec = nanos\<rparr>,
    hd_inode_count = ?n, hd_bootstrap_entry = v, hd_initfs_size = length (as_file s4), hd_page_size = ARCHIVE_PAGE_SIZE\<rparr>"
  let ?img = "write_at (encode_header ?h) 0 (as_file s4)"
  have tab32: "?tab < 2 ^ 32" using s4(3) by (simp add: image_holds_def)
  have hlen: "length (encode_header ?h) = header_size" by (intro length_encode_header) (simp add: MAGIC_def)
  have "archive E source mode max_size boot = Ok (Some ?img)"
    using rd b1 boot b3 s4(1,2) s2(4) tab32 count(2) now(1)
    unfolding archive_def Let_def by (simp add: to_u32_ok env_ok_simps [OF E])
  moreover have "header_size \<le> length (as_file s4)" using image_holds_root [OF s4(3)] by simp
  then have len: "length ?img = length (as_file s4)" by (simp add: length_write_at hlen)
  have "keeps {4096..} (as_file s4) ?img" by (rule keeps_mono [OF keeps_write]) (use hlen in auto)
  then have "image_holds ?img ?tab A root mode" by (rule image_holds_keeps [OF s4(3) _ len])
  moreover have "take header_size ?img = encode_header ?h" using hlen by (auto simp: write_at_def)
  then have "image_header ?img = ?h"
    using boot_entry_less [OF entry] count(2) now tab32 s4(3) unfolding image_header_def
    by (simp only:) (intro decode_encode_header, simp_all add: MAGIC_def image_holds_def)
  ultimately show ?thesis using len \<open>header_size \<le> length (as_file s4)\<close> by (intro exI [of _ ?img] exI [of _ ?tab] exI [of _ A]) simp
qed

section \<open>Properties\<close>

lemma image_accepted:
  assumes P: "plain_ok P" and img: "image_holds img tab A root mode" "header_size \<le> length img" "4096 \<le> tab"
    and hdr: "hd_magic (image_header img) = MAGIC" "hd_inode_table_offset (image_header img) = tab"
      "hd_inode_count (image_header img) = Suc (inodes_entries root)" "hd_page_size (image_header img) = ARCHIVE_PAGE_SIZE"
    and le: "tab + Suc (inodes_entries root) * inode_size \<le> length img"
  obtains wr where "initfs_new P img (Some ARCHIVE_PAGE_SIZE) = Ok (Some \<lparr>if_base = img\<rparr>)"
    "get_inode P \<lparr>if_base = img\<rparr> 0 = Ok (Some \<lparr>is_initfs = \<lparr>if_base = img\<rparr>, is_inode = inode_hdr_of DirType mode wr\<rparr>)"
    "stored_kind img tab A (Suc (inodes_entries root)) (EDir root) wr" "good_image img"
    "wr_offset wr < 2 ^ 32" "root = [] \<longrightarrow> length img < wr_offset wr"
proof -
  from img(1) obtain wr where wr: "stored_kind img tab A (Suc (inodes_entries root)) (EDir root) wr"
      "sits A img tab (encode_inode (inode_hdr_of DirType mode wr))" "wr_offset wr < 2 ^ 32" "wr_size wr < 2 ^ 32"
      "root = [] \<longrightarrow> length img < wr_offset wr" by (auto simp: image_holds_def)
  have good: "good_image img" using img hdr le by (simp add: good_image_def image_holds_def)
  have "initfs_new P img (Some ARCHIVE_PAGE_SIZE) = Ok (Some \<lparr>if_base = img\<rparr>)"
    using good hdr img(3) by (simp add: initfs_new_eq [OF P])
  moreover have "get_inode P \<lparr>if_base = img\<rparr> 0 = Ok (Some \<lparr>is_initfs = \<lparr>if_base = img\<rparr>, is_inode = inode_hdr_of DirType mode wr\<rparr>)"
    using get_inode_stored [OF P good, of 0] wr(2-4) hdr by simp
  ultimately show thesis using that wr good by blast
qed

text \<open>
  A source tree that can be archived: it is not empty, its names are not empty, shorter than 64 KiB and
  unique in their directories, and it fits into the maximal size.
\<close>

definition archivable :: "archive_env \<Rightarrow> host list \<Rightarrow> entry list \<Rightarrow> nat \<Rightarrow> u8 list option \<Rightarrow> bool" where
  "archivable E source root max_size boot \<longleftrightarrow> archive_env_ok E \<and>
     (\<exists>secs nanos. ar_now E = Some (secs, nanos) \<and> secs < 2 ^ 64 \<and> nanos < 2 ^ 32) \<and>
     (\<exists>count. read_directory E [] source 1 = Ok (Some (root, count))) \<and>
     root \<noteq> [] \<and> names_entries name_ok root \<and> unique_entries root \<and>
     archive_fits max_size boot root \<and> (\<exists>v. boot_entry boot = Ok v)"

lemma archivable_image:
  assumes "archivable E source root max_size boot"
  obtains img A wr where "archive E source mode max_size boot = Ok (Some img)" "good_image img"
    "initfs_new (ar_plain E) img (Some ARCHIVE_PAGE_SIZE) = Ok (Some \<lparr>if_base = img\<rparr>)"
    "hd_inode_count (image_header img) = Suc (inodes_entries root)"
    "get_inode (ar_plain E) \<lparr>if_base = img\<rparr> 0 = Ok (Some \<lparr>is_initfs = \<lparr>if_base = img\<rparr>, is_inode = inode_hdr_of DirType mode wr\<rparr>)"
    "stored_kind img (hd_inode_table_offset (image_header img)) A (hd_inode_count (image_header img)) (EDir root) wr"
    "wr_offset wr \<le> length img"
proof -
  from assms obtain secs nanos count v where E: "archive_env_ok E" "ar_now E = Some (secs, nanos)" "secs < 2 ^ 64" "nanos < 2 ^ 32"
      "read_directory E [] source 1 = Ok (Some (root, count))" and root: "root \<noteq> []" "names_entries name_ok root"
    and fits: "archive_fits max_size boot root" "boot_entry boot = Ok v" by (auto simp: archivable_def)
  have P: "plain_ok (ar_plain E)" using E(1) by (simp add: archive_env_ok_def)
  have "names_entries (\<lambda>n. length n < 2 ^ 16) root" by (rule names_mono(2) [OF root(2)]) simp
  from archive_written [OF E this fits, of mode] obtain img tab A where
    img: "archive E source mode max_size boot = Ok (Some img)" "image_holds img tab A root mode" "4096 \<le> tab" "header_size \<le> length img"
      "hd_magic (image_header img) = MAGIC" "hd_inode_table_offset (image_header img) = tab"
      "hd_inode_count (image_header img) = Suc (inodes_entries root)" "hd_page_size (image_header img) = ARCHIVE_PAGE_SIZE" by blast
  have le: "tab + Suc (inodes_entries root) * inode_size \<le> length img"
    using img(2) stored_entries_end root(1) unfolding image_holds_def by fastforce
  from image_accepted [OF P img(2,4,3,5-8) le] obtain wr where
    wr: "initfs_new (ar_plain E) img (Some ARCHIVE_PAGE_SIZE) = Ok (Some \<lparr>if_base = img\<rparr>)"
      "get_inode (ar_plain E) \<lparr>if_base = img\<rparr> 0 = Ok (Some \<lparr>is_initfs = \<lparr>if_base = img\<rparr>, is_inode = inode_hdr_of DirType mode wr\<rparr>)"
      "stored_kind img tab A (Suc (inodes_entries root)) (EDir root) wr" "good_image img" by blast
  have "wr_offset wr \<le> length img"
    using wr(3) stored_entries_end [of img tab A "Suc (inodes_entries root)" "wr_offset wr" 0 root] root(1) by simp
  then show thesis using that [of img wr A] img wr by simp
qed

text \<open>
  C5. Archiving and reading back is the identity. For every source tree that can be archived the program
  succeeds, and the reader accepts the image and finds exactly the tree: every directory with its
  entries in order, every file and every link with its contents.
\<close>

theorem initfs_roundtrip:
  assumes "archivable E source root max_size boot"
  shows "\<exists>img. archive E source mode max_size boot = Ok (Some img) \<and>
    read_tree (ar_plain E) img (Some ARCHIVE_PAGE_SIZE) = Ok (Some (NodeDir (nodes_of root)))"
proof -
  have P: "plain_ok (ar_plain E)" and root: "names_entries name_ok root" "unique_entries root"
    using assms by (simp_all add: archivable_def archive_env_ok_def)
  from archivable_image [OF assms, of mode] obtain img A wr where
    img: "archive E source mode max_size boot = Ok (Some img)" "good_image img"
      "initfs_new (ar_plain E) img (Some ARCHIVE_PAGE_SIZE) = Ok (Some \<lparr>if_base = img\<rparr>)"
      "hd_inode_count (image_header img) = Suc (inodes_entries root)"
      "get_inode (ar_plain E) \<lparr>if_base = img\<rparr> 0 = Ok (Some \<lparr>is_initfs = \<lparr>if_base = img\<rparr>, is_inode = inode_hdr_of DirType mode wr\<rparr>)"
      "stored_kind img (hd_inode_table_offset (image_header img)) A (hd_inode_count (image_header img)) (EDir root) wr"
      "wr_offset wr \<le> length img" .
  have "inode_count (ar_plain E) \<lparr>if_base = img\<rparr> = Ok (Suc (inodes_entries root))"
    using img(2,4) by (simp add: inode_count_def get_header_ok [OF P] good_image_def)
  then show ?thesis
    using img build_tree_stored [OF P img(2,6,7), of "Suc (inodes_entries root)" mode] root
    by (simp add: read_tree_def ROOT_INODE_NUMBER_def del: build_tree.simps)
qed

definition sample_archive_env :: archive_env where
  "sample_archive_env = \<lparr>ar_plain = sample_plain, ar_read = (\<lambda>c pos n. Some (take n (drop pos c))),
     ar_can_write = (\<lambda>off n. True), ar_link = (\<lambda>path target. Some target), ar_now = Some (1700000000, 5)\<rparr>"

definition sample_source :: "host list" where
  "sample_source = [Host [97] 0x1A4 (HFile [1, 2, 3]), Host [100] 0x1ED (HDir [Host [108] 0 (HSymlink [97]), Host [101] 0 (HDir [])])]"

definition sample_root :: "entry list" where
  "sample_root = [Entry [97] 0x1A4 (EFile [1, 2, 3]), Entry [100] 0x1ED (EDir [Entry [108] 0 (ELink [97]), Entry [101] 0 (EDir [])])]"

lemma sample_archive_facts:
  "archive_env_ok sample_archive_env" "ar_now sample_archive_env = Some (1700000000, 5)" "ar_plain sample_archive_env = sample_plain"
  "read_directory sample_archive_env [] sample_source 1 = Ok (Some (sample_root, 5))" "boot_entry None = Ok (2 ^ 64 - 1)"
  by (simp_all add: archive_env_ok_def plain_ok_def sample_plain_def sample_archive_env_def sample_source_def sample_root_def boot_entry_def)

lemma sample_archivable: "archivable sample_archive_env sample_source sample_root 100000 None"
proof -
  have "archive_fits 100000 None sample_root" by (simp add: archive_fits_def boot_space_def sample_root_def pages_def)
  then show ?thesis using sample_archive_facts by (auto simp: archivable_def sample_root_def)
qed

theorem initfs_roundtrip_witness:
  "\<exists>img. archive sample_archive_env sample_source 0x1ED 100000 None = Ok (Some img) \<and>
     read_tree sample_plain img (Some ARCHIVE_PAGE_SIZE) =
       Ok (Some (NodeDir [([97], NodeFile [1, 2, 3]), ([100], NodeDir [([108], NodeLink [97]), ([101], NodeDir [])])]))"
  using initfs_roundtrip [OF sample_archivable, of "0x1ED"] by (simp add: sample_archive_facts(3)) (simp add: sample_root_def)

text \<open>
  The archive of an empty directory: the table of the root's entries has no bytes and is placed at the
  page behind the inode table, and the image ends before that page, since nothing is written there.
\<close>

lemma empty_image:
  assumes "archive_env_ok E" "ar_now E = Some (secs, nanos)" "secs < 2 ^ 64" "nanos < 2 ^ 32"
    and "archive_fits max_size boot []" "boot_entry boot = Ok v"
  obtains img wr where "archive E [] mode max_size boot = Ok (Some img)" "good_image img"
    "initfs_new (ar_plain E) img (Some ARCHIVE_PAGE_SIZE) = Ok (Some \<lparr>if_base = img\<rparr>)" "hd_inode_count (image_header img) = 1"
    "get_inode (ar_plain E) \<lparr>if_base = img\<rparr> 0 = Ok (Some \<lparr>is_initfs = \<lparr>if_base = img\<rparr>, is_inode = inode_hdr_of DirType mode wr\<rparr>)"
    "inode_data \<lparr>is_initfs = \<lparr>if_base = img\<rparr>, is_inode = inode_hdr_of DirType mode wr\<rparr> = None"
proof -
  have P: "plain_ok (ar_plain E)" using assms(1) by (simp add: archive_env_ok_def)
  have "read_directory E [] [] 1 = Ok (Some ([], 1))" "names_entries (\<lambda>n. length n < 2 ^ 16) []" by simp_all
  from archive_written [OF assms(1-4) this assms(5,6), of mode] obtain img tab A where
    img: "archive E [] mode max_size boot = Ok (Some img)" "image_holds img tab A [] mode" "4096 \<le> tab" "header_size \<le> length img"
      "hd_magic (image_header img) = MAGIC" "hd_inode_table_offset (image_header img) = tab"
      "hd_inode_count (image_header img) = Suc (inodes_entries [])" "hd_page_size (image_header img) = ARCHIVE_PAGE_SIZE" by blast
  have "tab + Suc (inodes_entries []) * inode_size \<le> length img" using image_holds_root [OF img(2)] by simp
  from image_accepted [OF P img(2,4,3,5-8) this] obtain wr where
    new: "initfs_new (ar_plain E) img (Some ARCHIVE_PAGE_SIZE) = Ok (Some \<lparr>if_base = img\<rparr>)" "good_image img"
      "get_inode (ar_plain E) \<lparr>if_base = img\<rparr> 0 = Ok (Some \<lparr>is_initfs = \<lparr>if_base = img\<rparr>, is_inode = inode_hdr_of DirType mode wr\<rparr>)"
    and wr: "stored_kind img tab A (Suc (inodes_entries [])) (EDir []) wr" "wr_offset wr < 2 ^ 32" "length img < wr_offset wr" by blast
  have "inode_data \<lparr>is_initfs = \<lparr>if_base = img\<rparr>, is_inode = inode_hdr_of DirType mode wr\<rparr> = None"
    using wr by (simp add: inode_data_def inode_hdr_of_def usize_checked_add_def get_range_def)
  then show thesis using that img new by simp
qed

end
