(* ===== verification/Initfs_Service.thy ===== *)
theory Initfs_Service
  imports Initfs_Scheme Initfs_Properties
begin

text \<open>
  The scheme on an image that the archive program has made: every request is answered, opening a path
  and reading gives the contents of the file in the source tree; and what it does with \<open>..\<close>, with the
  positions of a directory listing and with an empty image.
\<close>

section \<open>Inodes of the tree\<close>

definition tree_inode :: "initfs_env \<Rightarrow> u8 list \<Rightarrow> nat set \<Rightarrow> nat \<Rightarrow> u32 \<Rightarrow> entry_kind \<Rightarrow> bool" where
  "tree_inode E img A n mode k \<longleftrightarrow> (\<exists>wr.
     get_inode (ne_plain E) \<lparr>if_base = img\<rparr> n = Ok (Some \<lparr>is_initfs = \<lparr>if_base = img\<rparr>, is_inode = inode_hdr_of (type_of k) mode wr\<rparr>) \<and>
     stored_kind img (hd_inode_table_offset (image_header img)) A (hd_inode_count (image_header img)) k wr \<and>
     wr_offset wr \<le> length img \<and> names_kind name_ok k)"

text \<open>What the reader says about the inode of a node.\<close>

definition kind_facts :: "initfs_env \<Rightarrow> u8 list \<Rightarrow> nat set \<Rightarrow> u32 \<Rightarrow> entry_kind \<Rightarrow> inode_struct \<Rightarrow> bool" where
  "kind_facts E img A mode k inode \<longleftrightarrow> is_initfs inode = \<lparr>if_base = img\<rparr> \<and>
     inode_mode inode = ucast (mode AND 0xFFF) \<and> inode_uid inode = 0 \<and> inode_gid inode = 0 \<and> (case k of
       EFile c \<Rightarrow> inode_kind_of inode = KindFile inode \<and> inode_data inode = Some c
     | ELink p \<Rightarrow> inode_kind_of inode = KindLink inode \<and> inode_data inode = Some p
     | EDir es \<Rightarrow> inode_kind_of inode = KindDir inode \<and> dir_found (ne_plain E) img A inode es \<and> names_entries name_ok es)"

lemma tree_inodeE:
  assumes "plain_ok (ne_plain E)" "good_image img" "tree_inode E img A n mode k"
  obtains inode where "scheme_get_inode E \<lparr>if_base = img\<rparr> n = Ok inode" "kind_facts E img A mode k inode"
proof -
  have inode_of_hdr: "inode_mode \<lparr>is_initfs = fs, is_inode = inode_hdr_of ty mode wr\<rparr> = ucast (mode AND 0xFFF)"
      "inode_uid \<lparr>is_initfs = fs, is_inode = inode_hdr_of ty mode wr\<rparr> = 0" "inode_gid \<lparr>is_initfs = fs, is_inode = inode_hdr_of ty mode wr\<rparr> = 0" for fs ty wr
    by (cases ty; simp add: inode_mode_def inode_uid_def inode_gid_def inode_hdr_of_def MODE_MASK_def TYPE_SHIFT_def bit.conj_disj_distrib2 push_bit_eq_mult and.assoc)+
  from assms(3) obtain wr where n: "get_inode (ne_plain E) \<lparr>if_base = img\<rparr> n =
        Ok (Some \<lparr>is_initfs = \<lparr>if_base = img\<rparr>, is_inode = inode_hdr_of (type_of k) mode wr\<rparr>)"
      "stored_kind img (hd_inode_table_offset (image_header img)) A (hd_inode_count (image_header img)) k wr"
      "wr_offset wr \<le> length img" "names_kind name_ok k" by (auto simp: tree_inode_def)
  let ?inode = "\<lparr>is_initfs = \<lparr>if_base = img\<rparr>, is_inode = inode_hdr_of (type_of k) mode wr\<rparr>"
  have len: "length img < 2 ^ 32" using assms(2) by (simp add: good_image_def)
  have get: "scheme_get_inode E \<lparr>if_base = img\<rparr> n = Ok ?inode" using n(1) by (simp add: scheme_get_inode_def)
  show thesis
  proof (cases k)
    case (EFile c)
    then show thesis using that [OF get] n inode_data_stored [of wr c img RegularFile mode] len by (simp add: kind_facts_def inode_of_hdr inode_kind_of_hdr sits_def)
  next
    case (ELink p)
    then show thesis using that [OF get] n inode_data_stored [of wr p img LinkType mode] len by (simp add: kind_facts_def inode_of_hdr inode_kind_of_hdr sits_def)
  next
    case (EDir es)
    then show thesis using that [OF get] n stored_dir_found [OF assms(1,2)] by (simp add: kind_facts_def inode_of_hdr inode_kind_of_hdr)
  qed
qed

lemma entry_found_tree:
  assumes "entry_found (ne_plain E) img A d e" "names_kind name_ok (e_kind e)"
  shows "tree_inode E img A (dr_inode d) (e_mode e) (e_kind e)"
  using assms by (auto simp: entry_found_def tree_inode_def)

lemma inode_data_bounds:
  assumes "inode_data inode = Some bytes" "is_initfs inode = \<lparr>if_base = img\<rparr>"
  shows "ih_offset (is_inode inode) + length bytes \<le> length img"
  using assms by (auto simp: inode_data_def Let_def get_range_def usize_checked_add_def bind_eq_Some_conv split: if_splits)

lemma dir_found_length:
  assumes "dir_found P img A dir es" "plain_ok P" "good_image img"
  shows "length es < 2 ^ 29"
proof -
  from assms(1) obtain ds where ds: "dir_entries P dir = Ok (Some ds)" "length ds = length es" "is_initfs dir = \<lparr>if_base = img\<rparr>"
    by (auto simp: dir_found_def list_all2_lengthD)
  then obtain bytes where bytes: "inode_data dir = Some bytes" "length ds = length bytes div dir_entry_size"
    using plain_facts [OF assms(2)] by (auto simp: dir_entries_def slice_from_bytes_def split: option.splits)
  show ?thesis using inode_data_bounds [OF bytes(1) ds(3)] bytes(2) assms(3) ds(2) by (auto simp: good_image_def intro: less_mult_imp_div_less)
qed

text \<open>The iterator over a directory of the tree.\<close>

lemma iter_found:
  assumes "dir_found (ne_plain E) img A dir es" "plain_ok (ne_plain E)" "good_image img"
  obtains ds where "\<And>j. j < 2 ^ 32 - 1 \<Longrightarrow> iter_next E dir j =
      Ok (if j < length es then Some (Ok \<lparr>en_initfs = \<lparr>if_base = img\<rparr>, en_entry = ds ! j\<rparr>) else None, j + 1)"
    "\<And>j. j < length es \<Longrightarrow> entry_found (ne_plain E) img A (ds ! j) (es ! j)"
proof -
  from assms(1) obtain ds where ds: "length ds = length es"
    "\<And>j. get_entry (ne_plain E) dir j = Ok (Some (if j < length es then Some \<lparr>en_initfs = \<lparr>if_base = img\<rparr>, en_entry = ds ! j\<rparr> else None))"
    "\<And>j. j < length es \<Longrightarrow> entry_found (ne_plain E) img A (ds ! j) (es ! j)" using dir_found_entries by blast
  have "iter_next E dir j = Ok (if j < length es then Some (Ok \<lparr>en_initfs = \<lparr>if_base = img\<rparr>, en_entry = ds ! j\<rparr>) else None, j + 1)"
    if "j < 2 ^ 32 - 1" for j
    using that by (simp add: iter_next_def ds(2) uint_add_def)
  then show thesis using that ds(3) by blast
qed

lemma find_entry_found:
  assumes dir: "dir_found (ne_plain E) img A dir es" "plain_ok (ne_plain E)" "good_image img" and names: "names_entries name_ok es"
  shows "case find (\<lambda>e. e_name e = name) es of
      None \<Rightarrow> find_entry E dir name 0 = Err ENOENT
    | Some e \<Rightarrow> \<exists>n. find_entry E dir name 0 = Ok n \<and> tree_inode E img A n (e_mode e) (e_kind e)"
proof -
  obtain ds where ds: "\<And>j. j < 2 ^ 32 - 1 \<Longrightarrow> iter_next E dir j =
      Ok (if j < length es then Some (Ok \<lparr>en_initfs = \<lparr>if_base = img\<rparr>, en_entry = ds ! j\<rparr>) else None, j + 1)"
    "\<And>j. j < length es \<Longrightarrow> entry_found (ne_plain E) img A (ds ! j) (es ! j)" by (rule iter_found [OF dir]) (rule that)
  have "case find (\<lambda>e. e_name e = name) (drop i es) of
      None \<Rightarrow> find_entry E dir name i = Err ENOENT
    | Some e \<Rightarrow> \<exists>n. find_entry E dir name i = Ok n \<and> tree_inode E img A n (e_mode e) (e_kind e)" if "i \<le> length es" for i
    using that
  proof (induction "length es - i" arbitrary: i)
    case 0
    then show ?case using ds(1) [of i] dir_found_length [OF dir] by (simp add: find_entry.simps)
  next
    case (Suc x)
    then have i: "i < length es" by simp
    have "entry_name \<lparr>en_initfs = \<lparr>if_base = img\<rparr>, en_entry = ds ! i\<rparr> = Some (e_name (es ! i))"
      using ds(2) [OF i] by (simp add: entry_found_def)
    then have step: "find_entry E dir name i = (if e_name (es ! i) = name then Ok (dr_inode (ds ! i)) else find_entry E dir name (i + 1))"
      using i ds(1) [of i] dir_found_length [OF dir] by (subst find_entry.simps) (simp add: entry_inode_def)
    have tree: "tree_inode E img A (dr_inode (ds ! i)) (e_mode (es ! i)) (e_kind (es ! i))"
      using entry_found_tree [OF ds(2) [OF i]] member_facts(2) [of "es ! i" es] names i by simp
    have drop: "drop i es = es ! i # drop (i + 1) es" using i by (simp add: Cons_nth_drop_Suc)
    show ?case
    proof (cases "e_name (es ! i) = name")
      case True
      then show ?thesis using step tree by (simp add: drop)
    next
      case False
      then have next_step: "find_entry E dir name i = find_entry E dir name (i + 1)" using step by simp
      have "find (\<lambda>e. e_name e = name) (drop i es) = find (\<lambda>e. e_name e = name) (drop (i + 1) es)" using False drop by simp
      then show ?thesis using Suc.hyps(1) [of "i + 1"] Suc.hyps(2) i unfolding next_step by simp
    qed
  qed
  from this [of 0] show ?thesis by simp
qed

section \<open>Walking a path\<close>

fun lookup_kind :: "u32 \<Rightarrow> entry_kind \<Rightarrow> u8 list list \<Rightarrow> (u32 \<times> entry_kind) option" where
  "lookup_kind mode k [] = Some (mode, k)"
| "lookup_kind mode (EDir es) (c # cs) = Option.bind (find (\<lambda>e. e_name e = c) es) (\<lambda>e. lookup_kind (e_mode e) (e_kind e) cs)"
| "lookup_kind mode k (c # cs) = None"

definition no_dots :: "string list \<Rightarrow> bool" where
  "no_dots cs \<longleftrightarrow> ''.'' \<notin> set cs \<and> ''..'' \<notin> set cs"

lemma open_walk_lookup:
  assumes P: "plain_ok (ne_plain E)" and img: "good_image img"
  shows "tree_inode E img A n mode k \<Longrightarrow> no_dots cs \<Longrightarrow> case lookup_kind mode k (map bytes_of cs) of
      None \<Rightarrow> \<exists>e. open_walk E \<lparr>if_base = img\<rparr> cs n = Err e
    | Some (mode', k') \<Rightarrow> \<exists>n'. open_walk E \<lparr>if_base = img\<rparr> cs n = Ok n' \<and> tree_inode E img A n' mode' k'"
proof (induction cs arbitrary: n mode k)
  case Nil
  then show ?case by (auto simp: open_walk.simps)
next
  case (Cons c cs)
  have dots: "c \<noteq> ''.''" "c \<noteq> ''..''" "no_dots cs" using Cons.prems(2) by (auto simp: no_dots_def)
  from tree_inodeE [OF P img Cons.prems(1)] obtain inode where
    inode: "scheme_get_inode E \<lparr>if_base = img\<rparr> n = Ok inode" "kind_facts E img A mode k inode" .
  show ?case
  proof (cases k)
    case (EDir es)
    with inode have dir: "inode_kind_of inode = KindDir inode" "dir_found (ne_plain E) img A inode es" "names_entries name_ok es"
      by (simp_all add: kind_facts_def)
    note found = find_entry_found [OF dir(2) P img dir(3), of "bytes_of c"]
    have step: "open_walk E \<lparr>if_base = img\<rparr> (c # cs) n = and_then (find_entry E inode (bytes_of c) 0) (open_walk E \<lparr>if_base = img\<rparr> cs)"
      using dots inode(1) dir(1) by (subst open_walk.simps) simp
    show ?thesis
    proof (cases "find (\<lambda>e. e_name e = bytes_of c) es")
      case None
      then show ?thesis using found step EDir by simp
    next
      case (Some e)
      with found obtain n' where n': "find_entry E inode (bytes_of c) 0 = Ok n'" "tree_inode E img A n' (e_mode e) (e_kind e)" by auto
      have walk: "open_walk E \<lparr>if_base = img\<rparr> (c # cs) n = open_walk E \<lparr>if_base = img\<rparr> cs n'" using step n'(1) by simp
      have "lookup_kind mode k (map bytes_of (c # cs)) = lookup_kind (e_mode e) (e_kind e) (map bytes_of cs)" using Some EDir by simp
      then show ?thesis using Cons.IH [OF n'(2) dots(3)] unfolding walk by simp
    qed
  qed (use inode dots in \<open>auto simp: kind_facts_def open_walk.simps [of E _ "c # cs"]\<close>)
qed

text \<open>Whatever the path is, the walk ends at an inode of the tree or with an error.\<close>

lemma open_walk_total:
  assumes P: "plain_ok (ne_plain E)" and img: "good_image img"
  shows "tree_inode E img A n mode k \<Longrightarrow> (\<exists>e. open_walk E \<lparr>if_base = img\<rparr> cs n = Err e) \<or>
    (\<exists>n' mode' k'. open_walk E \<lparr>if_base = img\<rparr> cs n = Ok n' \<and> tree_inode E img A n' mode' k')"
proof (induction "length cs" arbitrary: cs n mode k rule: less_induct)
  case less
  show ?case
  proof (cases cs)
    case Nil
    then show ?thesis using less.prems by (auto simp: open_walk.simps)
  next
    case (Cons c rest)
    consider (dot) "c = ''.''" | (up) "c = ''..''" | (name) "c \<noteq> ''.''" "c \<noteq> ''..''" by blast
    then show ?thesis
    proof cases
      case dot
      then show ?thesis using less.hyps [OF _ less.prems, of rest] Cons by (simp add: open_walk.simps [of E _ "''.'' # rest"])
    next
      case up
      then show ?thesis using less.hyps [OF _ less.prems, of "butlast rest"] Cons by (simp add: open_walk.simps [of E _ "''..'' # rest"])
    next
      case name
      have one: "no_dots [c]" using name by (simp add: no_dots_def)
      from tree_inodeE [OF P img less.prems] obtain inode where
        inode: "scheme_get_inode E \<lparr>if_base = img\<rparr> n = Ok inode" "kind_facts E img A mode k inode" .
      show ?thesis
      proof (cases k)
        case (EDir es)
        with inode have dir: "inode_kind_of inode = KindDir inode" "dir_found (ne_plain E) img A inode es" "names_entries name_ok es"
          by (simp_all add: kind_facts_def)
        have step: "open_walk E \<lparr>if_base = img\<rparr> cs n = and_then (find_entry E inode (bytes_of c) 0) (open_walk E \<lparr>if_base = img\<rparr> rest)"
          using name inode(1) dir(1) Cons by (subst open_walk.simps) simp
        show ?thesis
        proof (cases "find (\<lambda>e. e_name e = bytes_of c) es")
          case None
          then show ?thesis using find_entry_found [OF dir(2) P img dir(3), of "bytes_of c"] step by simp
        next
          case (Some e)
          then obtain n' where "find_entry E inode (bytes_of c) 0 = Ok n'" "tree_inode E img A n' (e_mode e) (e_kind e)"
            using find_entry_found [OF dir(2) P img dir(3), of "bytes_of c"] by auto
          then show ?thesis using step less.hyps [of rest n' "e_mode e" "e_kind e"] Cons by simp
        qed
      qed (use inode name Cons in \<open>auto simp: kind_facts_def open_walk.simps [of E _ "c # rest"]\<close>)
    qed
  qed
qed

section \<open>The sizes of directories\<close>

lemma names_len_found:
  assumes dir: "dir_found (ne_plain E) img A dir es" "plain_ok (ne_plain E)" "good_image img" and names: "names_entries name_ok es"
  shows "names_len E dir 0 0 = Ok (\<Sum>e \<leftarrow> es. length (e_name e) + 1)"
proof -
  obtain ds where ds: "\<And>j. j < 2 ^ 32 - 1 \<Longrightarrow> iter_next E dir j =
      Ok (if j < length es then Some (Ok \<lparr>en_initfs = \<lparr>if_base = img\<rparr>, en_entry = ds ! j\<rparr>) else None, j + 1)"
    "\<And>j. j < length es \<Longrightarrow> entry_found (ne_plain E) img A (ds ! j) (es ! j)" by (rule iter_found [OF dir]) (rule that)
  have bound: "(\<Sum>e \<leftarrow> xs. length (e_name e) + 1) \<le> length xs * 2 ^ 16" if "names_entries name_ok xs" for xs
    using that
  proof (induction xs)
    case (Cons e xs)
    then show ?case by (cases e) auto
  qed simp
  have "names_len E dir i len = Ok (len + (\<Sum>e \<leftarrow> drop i es. length (e_name e) + 1))"
    if "i \<le> length es" "len + (\<Sum>e \<leftarrow> drop i es. length (e_name e) + 1) < 2 ^ 64" for i len
    using that
  proof (induction "length es - i" arbitrary: i len)
    case 0
    then show ?case using ds(1) [of i] dir_found_length [OF dir] by (simp add: names_len.simps)
  next
    case (Suc x)
    then have i: "i < length es" by simp
    have drop: "drop i es = es ! i # drop (i + 1) es" using i by (simp add: Cons_nth_drop_Suc)
    have "entry_name \<lparr>en_initfs = \<lparr>if_base = img\<rparr>, en_entry = ds ! i\<rparr> = Some (e_name (es ! i))"
      using ds(2) [OF i] by (simp add: entry_found_def)
    moreover have "len + (length (e_name (es ! i)) + 1) < 2 ^ 64" using Suc.prems(2) by (simp add: drop)
    ultimately have "names_len E dir i len = names_len E dir (i + 1) (len + (length (e_name (es ! i)) + 1))"
      using i ds(1) [of i] dir_found_length [OF dir] by (subst names_len.simps) (simp add: usize_add_def)
    then show ?case using Suc.hyps(1) [of "i + 1"] Suc.hyps(2) Suc.prems i by (simp add: drop add.assoc)
  qed
  from this [of 0 0] bound [OF names] dir_found_length [OF dir] show ?thesis by simp
qed

fun kind_size :: "entry_kind \<Rightarrow> nat" where
  "kind_size (EFile c) = length c"
| "kind_size (ELink p) = length p"
| "kind_size (EDir es) = (\<Sum>e \<leftarrow> es. length (e_name e) + 1)"

lemma inode_len_tree:
  assumes "kind_facts E img A mode k inode" "plain_ok (ne_plain E)" "good_image img"
  shows "inode_len E inode = Ok (kind_size k)"
  using assms names_len_found [of E img A inode] by (cases k) (auto simp: kind_facts_def inode_len_def)

section \<open>Listing a directory\<close>

text \<open>The entries that a listing from an index reports, and writing them one after the other.\<close>

definition reported :: "entry list \<Rightarrow> nat \<Rightarrow> nat \<Rightarrow> dir_entry list" where
  "reported es idx index = map (\<lambda>(j, e). \<lparr>de_inode = 0, de_name = string_of (e_name e), de_next_opaque_id = j + 1\<rparr>)
     (enumerate index (drop idx es))"

fun report_all :: "abi \<Rightarrow> dir_entry list \<Rightarrow> dirent_buf \<Rightarrow> dirent_buf \<times> unit outcome" where
  "report_all K [] buf = (buf, Ok ())"
| "report_all K (e # es) buf = then_do (dirent_entry K buf e) (\<lambda>buf' _. report_all K es buf')"

lemma getdents_from_found:
  assumes dir: "dir_found (ne_plain E) img A dir es" "plain_ok (ne_plain E)" "good_image img"
    and utf8: "\<forall>e \<in> set es. utf8_valid (e_name e)"
  shows "idx < 2 ^ 32 - 1 \<Longrightarrow> getdents_from E dir idx index buf = report_all (ne_abi E) (reported es idx index) buf"
proof -
  obtain ds where ds: "\<And>j. j < 2 ^ 32 - 1 \<Longrightarrow> iter_next E dir j =
      Ok (if j < length es then Some (Ok \<lparr>en_initfs = \<lparr>if_base = img\<rparr>, en_entry = ds ! j\<rparr>) else None, j + 1)"
    "\<And>j. j < length es \<Longrightarrow> entry_found (ne_plain E) img A (ds ! j) (es ! j)" by (rule iter_found [OF dir]) (rule that)
  show "idx < 2 ^ 32 - 1 \<Longrightarrow> getdents_from E dir idx index buf = report_all (ne_abi E) (reported es idx index) buf"
  proof (induction "length es - idx" arbitrary: idx index buf)
    case 0
    then show ?case using ds(1) [of idx] by (simp add: getdents_from.simps reported_def)
  next
    case (Suc x)
    then have i: "idx < length es" by simp
    have drop: "drop idx es = es ! idx # drop (idx + 1) es" using i by (simp add: Cons_nth_drop_Suc)
    have name: "entry_name \<lparr>en_initfs = \<lparr>if_base = img\<rparr>, en_entry = ds ! idx\<rparr> = Some (e_name (es ! idx))"
      using ds(2) [OF i] by (simp add: entry_found_def)
    have "utf8_valid (e_name (es ! idx))" using utf8 i by simp
    then have "getdents_from E dir idx index buf = then_do (dirent_entry (ne_abi E) buf
        \<lparr>de_inode = 0, de_name = string_of (e_name (es ! idx)), de_next_opaque_id = index + 1\<rparr>)
        (\<lambda>buf' _. getdents_from E dir (idx + 1) (index + 1) buf')"
      using i ds(1) [OF Suc.prems] name by (subst getdents_from.simps) simp
    moreover have "getdents_from E dir (idx + 1) (index + 1) b = report_all (ne_abi E) (reported es (idx + 1) (index + 1)) b" for b
      using Suc.hyps(1) [of "idx + 1"] Suc.hyps(2) i dir_found_length [OF dir] by simp
    ultimately show ?case by (simp add: reported_def drop)
  qed
qed

lemma getdents_from_total:
  assumes dir: "dir_found (ne_plain E) img A dir es" "plain_ok (ne_plain E)" "good_image img"
    and K: "\<And>b e b'. dirent_entry (ne_abi E) b e \<noteq> (b', Panic)"
  shows "idx < 2 ^ 32 - 1 \<Longrightarrow> snd (getdents_from E dir idx index buf) \<noteq> Panic"
proof -
  obtain ds where ds: "\<And>j. j < 2 ^ 32 - 1 \<Longrightarrow> iter_next E dir j =
      Ok (if j < length es then Some (Ok \<lparr>en_initfs = \<lparr>if_base = img\<rparr>, en_entry = ds ! j\<rparr>) else None, j + 1)"
    "\<And>j. j < length es \<Longrightarrow> entry_found (ne_plain E) img A (ds ! j) (es ! j)" by (rule iter_found [OF dir]) (rule that)
  show "idx < 2 ^ 32 - 1 \<Longrightarrow> snd (getdents_from E dir idx index buf) \<noteq> Panic"
  proof (induction "length es - idx" arbitrary: idx index buf)
    case 0
    then show ?case using ds(1) [of idx] by (simp add: getdents_from.simps)
  next
    case (Suc x)
    then have i: "idx < length es" by simp
    have "snd (getdents_from E dir (idx + 1) (index + 1) b) \<noteq> Panic" for b
      using Suc.hyps(1) [of "idx + 1"] Suc.hyps(2) i dir_found_length [OF dir] by simp
    then show ?case using i ds(1) [OF Suc.prems] K by (subst getdents_from.simps) (auto simp: then_do_def question_def split: prod.splits outcome.splits option.splits)
  qed
qed

section \<open>The scheme's invariant\<close>

definition initfs_env_ok :: "initfs_env \<Rightarrow> bool" where
  "initfs_env_ok E \<longleftrightarrow> plain_ok (ne_plain E) \<and> PAGE_SIZE (ne_abi E) = ARCHIVE_PAGE_SIZE \<and>
     (\<forall>b e b'. dirent_entry (ne_abi E) b e \<noteq> (b', Panic)) \<and> ne_base E + 2 ^ 32 \<le> usize_range"

text \<open>The image holds a tree and every handle is one of its nodes.\<close>

definition serves :: "initfs_env \<Rightarrow> u8 list \<Rightarrow> nat set \<Rightarrow> u32 \<Rightarrow> entry list \<Rightarrow> initfs_scheme \<Rightarrow> bool" where
  "serves E img A rm root s \<longleftrightarrow> initfs_env_ok E \<and> ns_fs s = \<lparr>if_base = img\<rparr> \<and> good_image img \<and>
     tree_inode E img A ROOT_INODE_NUMBER rm (EDir root) \<and>
     (\<forall>i h. ns_handles s i = Some h \<longrightarrow> i \<le> ns_next_id s \<and> (\<exists>mode k. tree_inode E img A (nh_inode h) mode k))"

lemma handle_inode_cases:
  assumes "serves E img A rm root s"
  obtains "ns_handles s i = None" "handle_inode E s i = Err EBADF"
  | h mode k inode where "ns_handles s i = Some h" "scheme_get_inode E (ns_fs s) (nh_inode h) = Ok inode"
      "handle_inode E s i = Ok inode" "kind_facts E img A mode k inode"
proof (cases "ns_handles s i")
  case None
  then show thesis using that(1) by (simp add: handle_inode_def)
next
  case (Some h)
  with assms have "\<exists>mode k. tree_inode E img A (nh_inode h) mode k" and "plain_ok (ne_plain E)" "good_image img" "ns_fs s = \<lparr>if_base = img\<rparr>"
    unfolding serves_def initfs_env_ok_def by blast+
  then obtain mode k where "tree_inode E img A (nh_inode h) mode k" "plain_ok (ne_plain E)" "good_image img" "ns_fs s = \<lparr>if_base = img\<rparr>" by blast
  moreover from this obtain inode where "scheme_get_inode E (ns_fs s) (nh_inode h) = Ok inode" "kind_facts E img A mode k inode"
    using tree_inodeE by metis
  ultimately show thesis using that(2) [OF Some] Some by (simp add: handle_inode_def)
qed

text \<open>The state with a new handle, and opening in terms of the walk.\<close>

definition opened :: "nat \<Rightarrow> string \<Rightarrow> initfs_scheme \<Rightarrow> initfs_scheme" where
  "opened n path s = s\<lparr>ns_next_id := ns_next_id s + 1,
     ns_handles := (ns_handles s)(ns_next_id s + 1 \<mapsto> \<lparr>nh_inode = n, nh_filename = path\<rparr>)\<rparr>"

lemma opened_simps [simp]:
  "ns_next_id (opened n path s) = ns_next_id s + 1" "ns_fs (opened n path s) = ns_fs s"
  "ns_handles (opened n path s) = (ns_handles s)(ns_next_id s + 1 \<mapsto> \<lparr>nh_inode = n, nh_filename = path\<rparr>)"
  by (simp_all add: opened_def)

lemma serves_facts:
  assumes "serves E img A rm root s"
  shows "plain_ok (ne_plain E)" "good_image img" "tree_inode E img A ROOT_INODE_NUMBER rm (EDir root)" "ns_fs s = \<lparr>if_base = img\<rparr>"
    "ns_handles s (ns_next_id s + 1) = None"
proof -
  have "i \<le> ns_next_id s" if "ns_handles s i = Some h" for i h using assms that unfolding serves_def by blast
  then show "ns_handles s (ns_next_id s + 1) = None" by (cases "ns_handles s (ns_next_id s + 1)") fastforce+
qed (use assms in \<open>simp_all add: serves_def initfs_env_ok_def\<close>)

lemma serves_opened:
  assumes "serves E img A rm root s" "tree_inode E img A n mode k"
  shows "serves E img A rm root (opened n path s)"
  using assms unfolding serves_def by (auto intro: le_SucI)

lemma initfs_open_eq:
  assumes s: "serves E img A rm root s" and room: "ns_next_id s + 1 < usize_range"
    and n: "open_walk E \<lparr>if_base = img\<rparr> (initfs_components path) ROOT_INODE_NUMBER = Ok n" "tree_inode E img A n mode k"
  shows "initfs_open E path flags ctx s =
    (if (\<exists>p. k = ELink p) \<and> flags AND ne_symlink E = 0 then (s, Err EXDEV)
     else (opened n path s, Ok (ThisScheme (ns_next_id s + 1) (POSITIONED (ne_abi E)))))"
proof -
  from tree_inodeE [OF serves_facts(1,2) [OF s] n(2)] obtain inode where
    inode: "scheme_get_inode E \<lparr>if_base = img\<rparr> n = Ok inode" "kind_facts E img A mode k inode" .
  have "(case inode_kind_of inode of KindLink _ \<Rightarrow> True | _ \<Rightarrow> False) \<longleftrightarrow> (\<exists>p. k = ELink p)"
    using inode(2) by (cases k) (auto simp: kind_facts_def)
  then show ?thesis using serves_facts(4,5) [OF s] room n(1) inode(1)
    by (auto simp: initfs_open_def scheme_next_id_def opened_def Let_def)
qed

lemma initfs_open_cases:
  assumes s: "serves E img A rm root s" and room: "ns_next_id s + 1 < usize_range" and run: "initfs_open E path flags ctx s = (s', r)"
  shows "r \<noteq> Panic \<and> serves E img A rm root s' \<and> ns_next_id s' \<le> ns_next_id s + 1"
  using open_walk_total [OF serves_facts(1-3) [OF s], of "initfs_components path"]
proof
  assume "\<exists>e. open_walk E \<lparr>if_base = img\<rparr> (initfs_components path) ROOT_INODE_NUMBER = Err e"
  then show ?thesis using run s serves_facts(4) [OF s] by (auto simp: initfs_open_def)
next
  assume "\<exists>n mode k. open_walk E \<lparr>if_base = img\<rparr> (initfs_components path) ROOT_INODE_NUMBER = Ok n \<and> tree_inode E img A n mode k"
  then show ?thesis using run initfs_open_eq [OF s room] serves_opened [OF s] s by (auto split: if_splits)
qed

lemma initfs_mmap_total:
  assumes s: "serves E img A rm root s"
  shows "\<exists>r. initfs_mmap_prep E i offset sz flags ctx s = (s, r) \<and> r \<noteq> Panic"
  using s
proof (cases rule: handle_inode_cases [where i = i])
  case (2 h mode k inode)
  show ?thesis
  proof (cases k)
    case (EFile c)
    then have f: "inode_kind_of inode = KindFile inode" "inode_data inode = Some c" "is_initfs inode = \<lparr>if_base = img\<rparr>"
      using 2(4) by (simp_all add: kind_facts_def)
    have "length img < 2 ^ 32" using s by (simp add: serves_def good_image_def)
    moreover note inode_data_bounds [OF f(2,3)]
    ultimately have "\<exists>m. next_multiple_of (length c) (PAGE_SIZE (ne_abi E)) = Ok m" "\<exists>p. usize_add (ne_base E) (ih_offset (is_inode inode)) = Ok p"
      using s by (auto simp: next_multiple_of_def usize_add_def serves_def initfs_env_ok_def)
    then obtain m p where "next_multiple_of (length c) (PAGE_SIZE (ne_abi E)) = Ok m" "usize_add (ne_base E) (ih_offset (is_inode inode)) = Ok p" by blast
    then show ?thesis using 2(3) f by (auto simp del: usize_add_eq_Ok simp: initfs_mmap_prep_def usize_checked_add_def ok_or_def)
  qed (use 2 in \<open>auto simp: initfs_mmap_prep_def kind_facts_def\<close>)
qed (simp add: initfs_mmap_prep_def)

lemma initfs_sizes_total:
  assumes s: "serves E img A rm root s"
  shows "\<exists>r. initfs_fsize E i ctx s = (s, r) \<and> r \<noteq> Panic"
    "\<exists>st' r. initfs_fstat E i st ctx s = ((s, st'), r) \<and> r \<noteq> Panic"
proof -
  have ok: "plain_ok (ne_plain E)" "good_image img" "ns_fs s = \<lparr>if_base = img\<rparr>" using s by (simp_all add: serves_def initfs_env_ok_def)
  have t: "image_creation_time (ne_plain E) (ns_fs s) = Ok (hd_creation_time (image_header img))"
    using ok by (simp add: image_creation_time_def get_header_ok good_image_def)
  show "\<exists>r. initfs_fsize E i ctx s = (s, r) \<and> r \<noteq> Panic" "\<exists>st' r. initfs_fstat E i st ctx s = ((s, st'), r) \<and> r \<noteq> Panic"
    using s by (cases rule: handle_inode_cases [where i = i],
        auto simp: initfs_fsize_def initfs_fstat_def t Let_def dest!: inode_len_tree [OF _ ok(1,2)])+
qed

lemma initfs_read_total:
  assumes s: "serves E img A rm root s"
  shows "\<exists>buf' r. initfs_read E i buf off ff ctx s = ((s, buf'), r) \<and> r \<noteq> Panic"
  using s
proof (cases rule: handle_inode_cases [where i = i])
  case (2 h mode k inode)
  then show ?thesis
    by (cases k) (auto simp: initfs_read_def kind_facts_def copy_from_def Let_def ok_or_def split: option.splits)
qed (simp add: initfs_read_def)

lemma initfs_getdents_total:
  assumes s: "serves E img A rm root s" and off: "off \<noteq> 2 ^ 32 - 1" and run: "initfs_getdents E i buf off s = ((s', buf'), r)"
  shows "s' = s \<and> r \<noteq> Panic"
  using s
proof (cases rule: handle_inode_cases [where i = i])
  case (2 h mode k inode)
  then show ?thesis
  proof (cases "k")
    case (EDir es)
    then have dir: "inode_kind_of inode = KindDir inode" "dir_found (ne_plain E) img A inode es" using 2(4) by (simp_all add: kind_facts_def)
    have "snd (getdents_from E inode off 0 buf) \<noteq> Panic" if "off < 2 ^ 32"
      using getdents_from_total [OF dir(2)] s off that by (auto simp: serves_def initfs_env_ok_def)
    then show ?thesis using 2(3) dir(1) run by (auto simp: initfs_getdents_def split: prod.splits if_splits)
  qed (use run in \<open>auto simp: initfs_getdents_def kind_facts_def split: if_splits\<close>)
qed (use run in \<open>auto simp: initfs_getdents_def split: if_splits\<close>)

text \<open>The scheme answers every operation but a listing from the last index of 32 bits.\<close>

definition initfs_answers :: "op \<Rightarrow> bool" where
  "initfs_answers oper = (case oper of OpGetdents t fd buf h off \<Rightarrow> off \<noteq> 2 ^ 32 - 1 | _ \<Rightarrow> True)"

lemmas initfs_methods = initfs_scheme_of_def default_scheme_def initfs_fcntl_def initfs_fpath_def initfs_fsync_def

interpretation initfs: scheme_total "initfs_scheme_of E" "\<lambda>n s. serves E img A rm root s \<and> ns_next_id s + n < usize_range" initfs_answers
  for E img A rm root
proof unfold_locales
  show "\<not> panicked r \<and> serves E img A rm root s' \<and> ns_next_id s' + n < usize_range"
    if "serves E img A rm root s \<and> ns_next_id s + Suc n < usize_range" "initfs_answers oper"
      "handle_sync_dont_consume K (initfs_scheme_of E) ctx oper s = ((s', oper'), r)" for n s oper K ctx s' oper' r
  proof -
    from that(1) have s: "serves E img A rm root s" "ns_next_id s + 1 < usize_range" "ns_next_id s + n + 1 < usize_range" by auto
    show ?thesis
    proof (cases oper)
      case (OpGetdents t fd buf h off)
      then show ?thesis using that(2,3) s
        by (auto simp: initfs_answers_def initfs_methods split: option.splits prod.splits dest: initfs_getdents_total [OF s(1), simplified])
    next
      case (OpOpen t path flags)
      then show ?thesis using that(3) s initfs_open_cases [OF s(1,2), of path flags ctx]
        by (auto simp: initfs_methods split: prod.splits)
    next
      case (OpRead t fd buf off ff)
      then show ?thesis using that(3) s initfs_read_total [OF s(1), of fd buf off ff ctx] by (auto simp: initfs_methods)
    next
      case (OpFsize t fd)
      then show ?thesis using that(3) s initfs_sizes_total(1) [OF s(1), of fd ctx] by (auto simp: initfs_methods)
    next
      case (OpFstat t fd st)
      then show ?thesis using that(3) s initfs_sizes_total(2) [OF s(1), of fd st ctx] by (auto simp: initfs_methods)
    next
      case (OpMmapPrep t fd off len flags)
      then show ?thesis using that(3) s initfs_mmap_total [OF s(1), of fd off len flags ctx] by (auto simp: initfs_methods)
    qed (use that(3) s in \<open>auto simp: initfs_methods question_def ok_or_def Let_def split: option.splits if_splits\<close>)
  qed
qed (auto simp: initfs_scheme_of_def initfs_on_close_def serves_def split: if_splits)

section \<open>The daemon on an archive\<close>

text \<open>A state that the daemon reaches on the archive of a source tree, with fewer requests than there are numbers of handles.\<close>

definition serving ::
  "archive_env \<Rightarrow> initfs_env \<Rightarrow> host list \<Rightarrow> u32 \<Rightarrow> entry list \<Rightarrow> nat \<Rightarrow> u8 list option \<Rightarrow> initfs_scheme \<Rightarrow> bool" where
  "serving Ea E source mode root max_size boot s \<longleftrightarrow>
     archivable Ea source root max_size boot \<and> ar_plain Ea = ne_plain E \<and> initfs_env_ok E \<and>
     (\<exists>img M qs outs. archive Ea source mode max_size boot = Ok (Some img) \<and> initfs_run E M img qs = Ok (s, outs) \<and>
        list_all (well_formed (ne_abi E) M initfs_answers) qs \<and> length qs + 1 < usize_range)"

lemma archive_starts:
  assumes "archivable Ea source root max_size boot" "ar_plain Ea = ne_plain E" "initfs_env_ok E"
  obtains img A s where "archive Ea source mode max_size boot = Ok (Some img)" "initfs_scheme_new E img = Ok s"
    "serves E img A mode root s" "ns_next_id s = 0"
proof -
  from archivable_image [OF assms(1), of mode] obtain img A wr where
    img: "archive Ea source mode max_size boot = Ok (Some img)" "good_image img"
      "initfs_new (ar_plain Ea) img (Some ARCHIVE_PAGE_SIZE) = Ok (Some \<lparr>if_base = img\<rparr>)"
      "hd_inode_count (image_header img) = Suc (inodes_entries root)"
      "get_inode (ar_plain Ea) \<lparr>if_base = img\<rparr> 0 = Ok (Some \<lparr>is_initfs = \<lparr>if_base = img\<rparr>, is_inode = inode_hdr_of DirType mode wr\<rparr>)"
      "stored_kind img (hd_inode_table_offset (image_header img)) A (hd_inode_count (image_header img)) (EDir root) wr"
      "wr_offset wr \<le> length img" .
  let ?s = "\<lparr>ns_handles = Map.empty, ns_next_id = 0, ns_fs = \<lparr>if_base = img\<rparr>\<rparr>"
  have "initfs_scheme_new E img = Ok ?s" using img(3) assms(2,3) by (simp add: initfs_scheme_new_def initfs_env_ok_def)
  moreover have "tree_inode E img A ROOT_INODE_NUMBER mode (EDir root)"
    using img(5-7) assms(1,2) by (auto simp: tree_inode_def ROOT_INODE_NUMBER_def archivable_def)
  then have "serves E img A mode root ?s" using img(2) assms(3) by (simp add: serves_def)
  ultimately show thesis using that img(1) by simp
qed

lemma serving_serves:
  assumes "serving Ea E source mode root max_size boot s"
  obtains img A where "serves E img A mode root s" "ns_next_id s + 1 < usize_range"
proof -
  from assms obtain img M qs outs where ok: "archivable Ea source root max_size boot" "ar_plain Ea = ne_plain E" "initfs_env_ok E"
    and run: "archive Ea source mode max_size boot = Ok (Some img)" "initfs_run E M img qs = Ok (s, outs)"
      "list_all (well_formed (ne_abi E) M initfs_answers) qs" "length qs + 1 < usize_range" by (auto simp: serving_def)
  from archive_starts [OF ok, of mode] obtain img' A s0 where "archive Ea source mode max_size boot = Ok (Some img')"
    "initfs_scheme_new E img' = Ok s0" "serves E img' A mode root s0" "ns_next_id s0 = 0" .
  with run(1) have s0: "initfs_scheme_new E img = Ok s0" "serves E img A mode root s0" "ns_next_id s0 = 0" by simp_all
  then obtain s' outs' where "serve_requests (ne_abi E) M (initfs_scheme_of E) qs s0 = (s', Ok outs')"
      "serves E img A mode root s'" "ns_next_id s' + 1 < usize_range"
    using initfs.serve_requests_total [of E img A mode root s0 qs 1 "ne_abi E" M] run(3,4) by auto
  then show thesis using that run(2) s0(1) by (auto simp: initfs_run_def)
qed

lemma serving_start:
  assumes "archivable Ea source root max_size boot" "ar_plain Ea = ne_plain E" "initfs_env_ok E"
  shows "\<exists>s. serving Ea E source mode root max_size boot s"
proof -
  from archive_starts [OF assms, of mode] obtain img A s where
    "archive Ea source mode max_size boot = Ok (Some img)" "initfs_scheme_new E img = Ok s" .
  then have "archive Ea source mode max_size boot = Ok (Some img) \<and> initfs_run E M img [] = Ok (s, [])" for M
    by (simp add: initfs_run_def)
  then show ?thesis using assms by (auto simp: serving_def intro!: exI [of _ s] exI [of _ img] exI [of _ "[] :: sqe list"])
qed

text \<open>What is known of a handle that has been opened under a path of the tree.\<close>

lemma opened_node:
  assumes "serving Ea E source mode root max_size boot s" "no_dots (initfs_components path)"
    and "lookup_kind mode (EDir root) (map bytes_of (initfs_components path)) = Some (m, k)"
    and "initfs_open E path flags ctx s = (s', Ok (ThisScheme i fl))"
  obtains img A n inode where "ns_handles s' i = Some \<lparr>nh_inode = n, nh_filename = path\<rparr>" "ns_fs s' = \<lparr>if_base = img\<rparr>"
    "scheme_get_inode E \<lparr>if_base = img\<rparr> n = Ok inode" "kind_facts E img A m k inode" "plain_ok (ne_plain E)" "good_image img"
proof -
  from serving_serves [OF assms(1)] obtain img A where s: "serves E img A mode root s" "ns_next_id s + 1 < usize_range" .
  from open_walk_lookup [OF serves_facts(1-3) [OF s(1)] assms(2)] assms(3) obtain n where
    n: "open_walk E \<lparr>if_base = img\<rparr> (initfs_components path) ROOT_INODE_NUMBER = Ok n" "tree_inode E img A n m k" by auto
  from tree_inodeE [OF serves_facts(1,2) [OF s(1)] n(2)] obtain inode where
    "scheme_get_inode E \<lparr>if_base = img\<rparr> n = Ok inode" "kind_facts E img A m k inode" .
  moreover have "s' = opened n path s" "i = ns_next_id s + 1" using initfs_open_eq [OF s n] assms(4) by (auto split: if_splits)
  ultimately show thesis using that serves_facts(1,2,4) [OF s(1)] by simp
qed

lemma reported_lists:
  "map de_name (reported es off j) = map (string_of \<circ> e_name) (drop off es)"
  "map de_next_opaque_id (reported es off j) = [j + 1..<j + (length es - off) + 1]"
  by (auto simp del: upt_Suc simp: reported_def nth_enumerate_eq intro!: nth_equalityI)

section \<open>Properties\<close>

text \<open>
  C29. The daemon serves the archive of a source tree to the end of a sequence of requests: it starts,
  does not panic, and answers each call once and in order. The tree is one that can be archived, in which
  the root directory is not empty, and the reads of its files when it is archived are full. The requests are
  well-formed, fewer than the numbers of handles, and none is a \<open>getdents\<close> from the last index of 32 bits.
\<close>

theorem initfs_serves_requests:
  assumes "archivable Ea source root max_size boot" "ar_plain Ea = ne_plain E" "initfs_env_ok E"
    and "list_all (well_formed (ne_abi E) M initfs_answers) qs" "length qs < usize_range"
  shows "\<exists>img s outs. archive Ea source mode max_size boot = Ok (Some img) \<and> initfs_run E M img qs = Ok (s, outs) \<and>
    map cqe_tag outs = call_tags (ne_abi E) qs"
proof -
  from archive_starts [OF assms(1-3), of mode] obtain img A s0 where
    s0: "archive Ea source mode max_size boot = Ok (Some img)" "initfs_scheme_new E img = Ok s0"
      "serves E img A mode root s0" "ns_next_id s0 = 0" .
  then obtain s outs where "serve_requests (ne_abi E) M (initfs_scheme_of E) qs s0 = (s, Ok outs)" "map cqe_tag outs = call_tags (ne_abi E) qs"
    using initfs.serve_requests_total [of E img A mode root s0 qs 0 "ne_abi E" M] assms(4,5) by auto
  then show ?thesis using s0(1,2) by (simp add: initfs_run_def)
qed

definition sample_initfs_env :: initfs_env where
  "sample_initfs_env = \<lparr>ne_abi = sample_abi, ne_plain = sample_plain, ne_symlink = 0x40000000, ne_prot_write = 2,
     ne_canonicalize = (\<lambda>p. Some (CHR ''/'' # p)), ne_base = 4096\<rparr>"

lemma sample_initfs_env_ok: "initfs_env_ok sample_initfs_env" "ar_plain sample_archive_env = ne_plain sample_initfs_env"
  using sample_archive_facts(1,3)
  by (simp_all add: initfs_env_ok_def sample_initfs_env_def sample_abi_def Let_def archive_env_ok_def)

theorem initfs_serves_requests_witness:
  "\<exists>img s outs. archive sample_archive_env sample_source 0x1ED 100000 None = Ok (Some img) \<and>
     initfs_run sample_initfs_env no_memory img [sample_fsync, sample_fsync] = Ok (s, outs) \<and> map cqe_tag outs = [7, 7]"
proof -
  have "list_all (well_formed (ne_abi sample_initfs_env) no_memory initfs_answers) [sample_fsync, sample_fsync]"
    by (simp add: well_formed_def initfs_answers_def from_sqe_unchecked_def sample_fsync_def sample_initfs_env_def sample_abi_def get_at_def sample_opcodes_def)
  moreover have "call_tags (ne_abi sample_initfs_env) [sample_fsync, sample_fsync] = [7, 7]"
    by (simp add: call_tags_def kind_def sample_fsync_def sample_initfs_env_def sample_abi_def get_at_def sample_opcodes_def)
  ultimately show ?thesis
    using initfs_serves_requests [OF sample_archivable sample_initfs_env_ok(2,1), of no_memory "[sample_fsync, sample_fsync]" "0x1ED"] by simp
qed

text \<open>The sample tree as the daemon serves it.\<close>

lemma sample_serving: "\<exists>s. serving sample_archive_env sample_initfs_env sample_source 0x1ED sample_root 100000 None s"
  by (rule serving_start [OF sample_archivable sample_initfs_env_ok(2,1)])

text \<open>
  C9. What is opened under a path without dots is what the source tree has there. If the tree has nothing under
  the path the call fails and changes nothing; a link is refused unless the caller asks for it; a file
  or a directory is opened, and reading the file gives its contents from the offset on, as much as
  the buffer holds.
\<close>

theorem initfs_open_reads:
  assumes "serving Ea E source mode root max_size boot s" "no_dots (initfs_components path)"
  shows "case lookup_kind mode (EDir root) (map bytes_of (initfs_components path)) of
      None \<Rightarrow> \<exists>e. initfs_open E path flags ctx s = (s, Err e)
    | Some (m, k) \<Rightarrow>
        if (\<exists>p. k = ELink p) \<and> flags AND ne_symlink E = 0 then initfs_open E path flags ctx s = (s, Err EXDEV)
        else \<exists>s' i. initfs_open E path flags ctx s = (s', Ok (ThisScheme i (POSITIONED (ne_abi E)))) \<and>
          (\<forall>c buf off ff ctx'. k = EFile c \<longrightarrow> initfs_read E i buf off ff ctx' s' =
             ((s', copy_into buf 0 (take (length buf) (drop off c))), Ok (min (length c - off) (length buf))))"
proof -
  from serving_serves [OF assms(1)] obtain img A where s: "serves E img A mode root s" "ns_next_id s + 1 < usize_range" .
  note walk = open_walk_lookup [OF serves_facts(1-3) [OF s(1)] assms(2)]
  show ?thesis
  proof (cases "lookup_kind mode (EDir root) (map bytes_of (initfs_components path))")
    case None
    then show ?thesis using walk serves_facts(4) [OF s(1)] by (auto simp: initfs_open_def)
  next
    case (Some mk)
    obtain m k where mk: "mk = (m, k)" by fastforce
    with walk Some obtain n where
      n: "open_walk E \<lparr>if_base = img\<rparr> (initfs_components path) ROOT_INODE_NUMBER = Ok n" "tree_inode E img A n m k" by auto
    from tree_inodeE [OF serves_facts(1,2) [OF s(1)] n(2)] obtain inode where
      inode: "scheme_get_inode E \<lparr>if_base = img\<rparr> n = Ok inode" "kind_facts E img A m k inode" .
    have "handle_inode E (opened n path s) (ns_next_id s + 1) = Ok inode"
      using inode(1) serves_facts(4) [OF s(1)] by (simp add: handle_inode_def)
    then have "initfs_read E (ns_next_id s + 1) buf off ff ctx' (opened n path s) =
        ((opened n path s, copy_into buf 0 (take (length buf) (drop off c))), Ok (min (length c - off) (length buf)))" if "k = EFile c" for c buf off ff ctx'
      using that inode(2) by (auto simp: initfs_read_def kind_facts_def copy_from_def Let_def min_def)
    then show ?thesis using initfs_open_eq [OF s n] Some mk by auto
  qed
qed

lemma sample_paths:
  "no_dots (initfs_components ''/a'')" "no_dots (initfs_components ''d'')"
  "lookup_kind 0x1ED (EDir sample_root) (map bytes_of (initfs_components ''/a'')) = Some (0x1A4, EFile [1, 2, 3])"
  "lookup_kind 0x1ED (EDir sample_root) (map bytes_of (initfs_components ''d'')) = Some (0x1ED, EDir [Entry [108] 0 (ELink [97]), Entry [101] 0 (EDir [])])"
  "POSITIONED (ne_abi sample_initfs_env) = 1" "MODE_DIR (ne_abi sample_initfs_env) = 0x4000"
  by (simp_all add: initfs_components_def trim_slashes_def no_dots_def sample_root_def bytes_of_def sample_initfs_env_def sample_abi_def)

theorem initfs_open_reads_witness:
  "\<exists>s s' i. serving sample_archive_env sample_initfs_env sample_source 0x1ED sample_root 100000 None s \<and>
     initfs_open sample_initfs_env ''/a'' 0 sample_ctx s = (s', Ok (ThisScheme i 1)) \<and>
     initfs_read sample_initfs_env i [0, 0, 0, 0] 1 0 sample_ctx s' = ((s', [2, 3, 0, 0]), Ok 2)"
proof -
  obtain s where s: "serving sample_archive_env sample_initfs_env sample_source 0x1ED sample_root 100000 None s" using sample_serving by blast
  from initfs_open_reads [OF s sample_paths(1), of 0 sample_ctx, unfolded sample_paths(3,5)]
  obtain s' i where "initfs_open sample_initfs_env ''/a'' 0 sample_ctx s = (s', Ok (ThisScheme i 1))"
      "initfs_read sample_initfs_env i [0, 0, 0, 0] 1 0 sample_ctx s' =
        ((s', copy_into [0, 0, 0, 0] 0 (take 4 (drop 1 [1, 2, 3]))), Ok (min (3 - 1) 4))" by auto
  with s show ?thesis by (auto simp: copy_into_def)
qed

text \<open>
  C24. What \<open>fstat\<close> reports of an opened node: the permission bits that the source has, together with the
  type of a directory for a directory, the type of a file for a file, and no type at all for a link, which
  can be opened on demand; as the size the length of the contents or of the target, for a directory the
  lengths of its names with one byte each; and 0 as the user and the group.
\<close>

theorem initfs_fstat_type:
  assumes "serving Ea E source mode root max_size boot s" "no_dots (initfs_components path)"
    and "lookup_kind mode (EDir root) (map bytes_of (initfs_components path)) = Some (m, k)"
    and "initfs_open E path flags ctx s = (s', Ok (ThisScheme i fl))"
  shows "\<exists>st'. initfs_fstat E i st ctx' s' = ((s', st'), Ok ()) \<and> st_size st' = kind_size k \<and> st_uid st' = 0 \<and> st_gid st' = 0 \<and>
    st_mode st' = ucast (m AND 0xFFF) OR (case k of EDir _ \<Rightarrow> MODE_DIR (ne_abi E) | EFile _ \<Rightarrow> MODE_FILE (ne_abi E) | ELink _ \<Rightarrow> 0)"
proof -
  from opened_node [OF assms] obtain img A n inode where
    node: "ns_handles s' i = Some \<lparr>nh_inode = n, nh_filename = path\<rparr>" "ns_fs s' = \<lparr>if_base = img\<rparr>"
      "scheme_get_inode E \<lparr>if_base = img\<rparr> n = Ok inode" "kind_facts E img A m k inode" and ok: "plain_ok (ne_plain E)" "good_image img" .
  have "image_creation_time (ne_plain E) \<lparr>if_base = img\<rparr> = Ok (hd_creation_time (image_header img))"
    using ok by (simp add: image_creation_time_def get_header_ok good_image_def)
  then show ?thesis using node inode_len_tree [OF node(4) ok]
    by (cases k) (simp_all add: initfs_fstat_def Let_def kind_facts_def)
qed

lemma sample_opened:
  "\<exists>s s' i. serving sample_archive_env sample_initfs_env sample_source 0x1ED sample_root 100000 None s \<and>
     initfs_open sample_initfs_env ''d'' 0 sample_ctx s = (s', Ok (ThisScheme i 1))"
proof -
  obtain s where s: "serving sample_archive_env sample_initfs_env sample_source 0x1ED sample_root 100000 None s" using sample_serving by blast
  from serving_serves [OF s] obtain img A where sv: "serves sample_initfs_env img A 0x1ED sample_root s" "ns_next_id s + 1 < usize_range" .
  from open_walk_lookup [OF serves_facts(1-3) [OF sv(1)] sample_paths(2), unfolded sample_paths(4)] obtain n where
    n: "open_walk sample_initfs_env \<lparr>if_base = img\<rparr> (initfs_components ''d'') ROOT_INODE_NUMBER = Ok n"
      "tree_inode sample_initfs_env img A n 0x1ED (EDir [Entry [108] 0 (ELink [97]), Entry [101] 0 (EDir [])])" by auto
  show ?thesis using initfs_open_eq [OF sv n, of 0 sample_ctx] s by (auto simp: sample_paths(5))
qed

theorem initfs_fstat_type_witness:
  "\<exists>s s' i st'. serving sample_archive_env sample_initfs_env sample_source 0x1ED sample_root 100000 None s \<and>
     initfs_open sample_initfs_env ''d'' 0 sample_ctx s = (s', Ok (ThisScheme i 1)) \<and>
     initfs_fstat sample_initfs_env i default_stat sample_ctx s' = ((s', st'), Ok ()) \<and> st_size st' = 4 \<and> st_mode st' = 0x41ED"
proof -
  obtain s s' i where s: "serving sample_archive_env sample_initfs_env sample_source 0x1ED sample_root 100000 None s"
    "initfs_open sample_initfs_env ''d'' 0 sample_ctx s = (s', Ok (ThisScheme i 1))" using sample_opened by blast
  from initfs_fstat_type [OF s(1) sample_paths(2,4) s(2), of default_stat sample_ctx] s show ?thesis by (fastforce simp: sample_paths(6))
qed

text \<open>
  A listing from an index reports the entries of the directory from there on, in order, but its positions
  count from one again: the entry at the index has the position 1 whatever the index is. A client that
  continues from the last position it has seen goes back to the second entry.
\<close>

lemma initfs_getdents_positions:
  assumes "serving Ea E source mode root max_size boot s" "no_dots (initfs_components path)"
    and "lookup_kind mode (EDir root) (map bytes_of (initfs_components path)) = Some (m, EDir es)"
    and "initfs_open E path flags ctx s = (s', Ok (ThisScheme i fl))"
    and "\<forall>e \<in> set es. utf8_valid (e_name e)" "off < 2 ^ 32 - 1"
  shows "initfs_getdents E i buf off s' = (let (buf', r) = report_all (ne_abi E) (reported es off 0) buf in ((s', buf'), r)) \<and>
    map de_name (reported es off 0) = map (string_of \<circ> e_name) (drop off es) \<and>
    map de_next_opaque_id (reported es off 0) = [1..<length es - off + 1]"
proof -
  from opened_node [OF assms(1-4)] obtain img A n inode where
    node: "ns_handles s' i = Some \<lparr>nh_inode = n, nh_filename = path\<rparr>" "ns_fs s' = \<lparr>if_base = img\<rparr>"
      "scheme_get_inode E \<lparr>if_base = img\<rparr> n = Ok inode" "kind_facts E img A m (EDir es) inode" and ok: "plain_ok (ne_plain E)" "good_image img" .
  then have dir: "inode_kind_of inode = KindDir inode" "dir_found (ne_plain E) img A inode es" by (simp_all add: kind_facts_def)
  have "initfs_getdents E i buf off s' = (let (buf', r) = report_all (ne_abi E) (reported es off 0) buf in ((s', buf'), r))"
    using node(1-3) dir(1) assms(6) getdents_from_found [OF dir(2) ok assms(5,6)] by (simp add: initfs_getdents_def handle_inode_def)
  then show ?thesis using reported_lists [of es off 0] by simp
qed

lemma components_join:
  assumes "CHR ''/'' \<notin> set a" "a \<noteq> []" "CHR ''/'' \<notin> set b" "b \<noteq> []"
  shows "initfs_components a = [a]" "initfs_components (a @ ''/'' @ b) = [a, b]" "initfs_components (a @ ''/../'' @ b) = [a, ''..'', b]"
proof -
  have trim: "trim_slashes (a @ xs @ b) = a @ xs @ b" for xs
    using assms by (cases a; cases b rule: rev_cases) (auto simp: trim_slashes_def dropWhile_eq_self_iff hd_rev)
  have "dropWhile (\<lambda>c. c = CHR ''/'') xs = xs" if "CHR ''/'' \<notin> set xs" for xs using that by (cases xs) auto
  then have "trim_slashes a = a" using assms(1) by (simp add: trim_slashes_def)
  moreover have "split_at_char (CHR ''/'') (a @ ''/../'' @ b) = [a, ''..'', b]" "split_at_char (CHR ''/'') (a @ ''/'' @ b) = [a, b]"
    using assms split_sep [of "CHR ''/''" a "''../'' @ b"] split_sep [of "CHR ''/''" "''..''" b] split_sep [of "CHR ''/''" a b]
    by (simp_all add: split_no_sep)
  ultimately show "initfs_components a = [a]" "initfs_components (a @ ''/'' @ b) = [a, b]" "initfs_components (a @ ''/../'' @ b) = [a, ''..'', b]"
    using assms trim [of "''/''"] trim [of "''/../''"] by (simp_all add: initfs_components_def split_no_sep)
qed

text \<open>
  \<open>..\<close> does not go up: it leaves the node where the walk is and drops the last component of the path instead. A path
  \<open>a/..\<close> opens \<open>a\<close>, and \<open>a/../b\<close> opens \<open>a\<close> as well, whether or not there is a \<open>b\<close>.
\<close>

lemma initfs_dotdot:
  assumes "CHR ''/'' \<notin> set a" "a \<noteq> []" "CHR ''/'' \<notin> set b" "b \<noteq> []" "a \<noteq> ''..''"
    and "path = a @ ''/..'' \<or> path = a @ ''/../'' @ b"
    and "initfs_open E path flags ctx s = (s1, r1)" "initfs_open E a flags ctx s = (s2, r2)"
  shows "r1 = r2 \<and> map_option nh_inode \<circ> ns_handles s1 = map_option nh_inode \<circ> ns_handles s2"
proof -
  have "initfs_components path = [a, ''..'', b] \<or> initfs_components path = [a, ''..'']"
    using assms(6) components_join [OF assms(1-4)] components_join(2) [OF assms(1,2), of "''..''"] by auto
  moreover have "open_walk E fs [''..'', b] = open_walk E fs []" "open_walk E fs [''..''] = open_walk E fs []" for fs
    by (rule ext, simp add: open_walk.simps [of E fs "''..'' # _"])+
  moreover have "open_walk E fs (a # cs) n = open_walk E fs (a # ds) n" if "open_walk E fs cs = open_walk E fs ds" for fs cs ds n
    unfolding open_walk.simps [of E fs "a # _"] list.case that by (simp add: assms(5))
  ultimately have "open_walk E fs (initfs_components path) n = open_walk E fs (initfs_components a) n" for fs n
    using components_join(1) [OF assms(1-4)] by metis
  then show ?thesis using assms(7,8)
    by (auto simp: initfs_open_def scheme_next_id_def Let_def fun_eq_iff split: question_splits if_splits)
qed

section \<open>The empty image\<close>

lemma names_len_unreadable:
  assumes "\<And>j. get_entry (ne_plain E) dir j = Ok None"
  shows "idx < 2 ^ 32 \<Longrightarrow> names_len E dir idx len = Panic"
proof (induction "2 ^ 32 - idx" arbitrary: idx len)
  case (Suc x)
  show ?case
  proof (cases "idx + 1 < 2 ^ 32")
    case True
    then have "iter_next E dir idx = Ok (Some (Err EIO), idx + 1)" using assms by (simp add: iter_next_def uint_add_def)
    then show ?thesis using Suc.hyps(1) [of "idx + 1"] Suc.hyps(2) True by (subst names_len.simps) (simp add: usize_add_def)
  next
    case False
    then have "iter_next E dir idx = Panic" using assms by (simp add: iter_next_def uint_add_def)
    then show ?thesis by (subst names_len.simps) simp
  qed
qed simp

text \<open>
  An empty source directory gives an image that nobody can read. The archive program succeeds, but the reader
  fails on the root directory; the daemon starts with the image and opens the root, and the first
  \<open>fstat\<close> of it counts errors of the reader until its 32-bit index overflows.
\<close>

lemma initfs_empty_image:
  assumes "archive_env_ok Ea" "ar_now Ea = Some (secs, nanos)" "secs < 2 ^ 64" "nanos < 2 ^ 32"
    and "archive_fits max_size boot []" "boot_entry boot = Ok v" "ar_plain Ea = ne_plain E" "initfs_env_ok E"
  shows "\<exists>img s0 s i. archive Ea [] mode max_size boot = Ok (Some img) \<and>
    read_tree (ar_plain Ea) img (Some ARCHIVE_PAGE_SIZE) = Ok None \<and>
    initfs_scheme_new E img = Ok s0 \<and> initfs_open E ''/'' flags ctx s0 = (s, Ok (ThisScheme i (POSITIONED (ne_abi E)))) \<and>
    snd (initfs_fstat E i st ctx' s) = Panic"
proof -
  from empty_image [OF assms(1-6), of mode] obtain img wr where
    img: "archive Ea [] mode max_size boot = Ok (Some img)" "good_image img"
      "initfs_new (ar_plain Ea) img (Some ARCHIVE_PAGE_SIZE) = Ok (Some \<lparr>if_base = img\<rparr>)" "hd_inode_count (image_header img) = 1"
      "get_inode (ar_plain Ea) \<lparr>if_base = img\<rparr> 0 = Ok (Some \<lparr>is_initfs = \<lparr>if_base = img\<rparr>, is_inode = inode_hdr_of DirType mode wr\<rparr>)"
      "inode_data \<lparr>is_initfs = \<lparr>if_base = img\<rparr>, is_inode = inode_hdr_of DirType mode wr\<rparr> = None" .
  let ?root = "\<lparr>is_initfs = \<lparr>if_base = img\<rparr>, is_inode = inode_hdr_of DirType mode wr\<rparr>"
  let ?s0 = "\<lparr>ns_handles = Map.empty, ns_next_id = 0, ns_fs = \<lparr>if_base = img\<rparr>\<rparr>"
  have P: "plain_ok (ne_plain E)" "header_size \<le> length img" using assms(8) img(2) by (simp_all add: initfs_env_ok_def good_image_def)
  have kind: "inode_kind_of ?root = KindDir ?root" by (simp add: inode_kind_of_hdr)
  have entries: "dir_entries (ne_plain E) ?root = Ok None" using img(6) by (simp add: dir_entries_def)
  have "inode_count (ne_plain E) \<lparr>if_base = img\<rparr> = Ok 1" using img(4) P by (simp add: inode_count_def get_header_ok)
  then have "read_tree (ar_plain Ea) img (Some ARCHIVE_PAGE_SIZE) = Ok None"
    using img(3,5) kind entries assms(7) by (simp add: read_tree_def ROOT_INODE_NUMBER_def entry_count_def)
  moreover have "initfs_scheme_new E img = Ok ?s0" using img(3) assms(7,8) by (simp add: initfs_scheme_new_def initfs_env_ok_def)
  moreover have get: "scheme_get_inode E \<lparr>if_base = img\<rparr> ROOT_INODE_NUMBER = Ok ?root"
    using img(5) assms(7) by (simp add: scheme_get_inode_def ROOT_INODE_NUMBER_def)
  then have "initfs_open E ''/'' flags ctx ?s0 = (opened ROOT_INODE_NUMBER ''/'' ?s0, Ok (ThisScheme 1 (POSITIONED (ne_abi E))))"
    using kind by (simp add: initfs_open_def initfs_components_def trim_slashes_def open_walk.simps scheme_next_id_def opened_def)
  moreover have "get_entry (ne_plain E) ?root j = Ok None" for j using entries by (simp add: get_entry_def)
  then have "inode_len E ?root = Panic" using names_len_unreadable [of E ?root 0 0] kind by (simp add: inode_len_def)
  then have "snd (initfs_fstat E 1 st ctx' (opened ROOT_INODE_NUMBER ''/'' ?s0)) = Panic"
    using get P by (simp add: initfs_fstat_def image_creation_time_def get_header_ok Let_def)
  ultimately show ?thesis using img(1) by blast
qed

end
