(* ===== verification/Uds.thy ===== *)
theory Uds
  imports Serial_Loop
begin

text \<open>
  What the two schemes for unix domain sockets share (\<open>ipcd/src/uds/mod.rs\<close>): packets with their
  ancillary data, the format of a message in a call's payload, and the writer of received messages.
  Constants of the \<open>libc\<close> crate, the decoder of \<open>SocketCall\<close>, the random numbers, the credentials of a
  process, the passing of descriptors by the kernel and which sizes the allocator can provide are
  parameters. An \<open>i32\<close> is a word of its bits.

  Sockets are shared: a handle, a path and a token may refer to the same \<open>Rc<RefCell<Socket>>\<close>. The
  state holds a store of cells and the tables hold addresses. Where the code borrows two cells at
  the same time the model compares their addresses, since borrowing a cell twice panics.
\<close>

section \<open>Parameters\<close>

datatype socket_call =
    CallBind | CallConnect | CallSetSockOpt | CallGetSockOpt | CallSendMsg | CallRecvMsg | CallUnbind
  | CallGetToken | CallGetPeerName | CallOther

record uds_env =
  ue_abi :: abi
  ue_mode_sock :: u16
  ue_SOL_SOCKET :: u32
  ue_SCM_RIGHTS :: u32
  ue_SO_PASSCRED :: u32
  ue_SO_DOMAIN :: u32
  ue_SO_PEERCRED :: u32
  ue_SO_SNDBUF :: u32
  ue_AF_UNIX :: u32
  ue_MSG_DONTWAIT :: u32
  ue_socket_call :: "u64 \<Rightarrow> socket_call option"
  ue_proc_credentials :: "nat \<Rightarrow> u8 list option"
  ue_next_u64 :: "nat \<Rightarrow> u64"
  ue_obtain_fd :: "sqe \<Rightarrow> nat list outcome"
  ue_move_fd :: "sqe \<Rightarrow> nat list \<Rightarrow> unit outcome"
  ue_write_response :: "cqe \<Rightarrow> bool outcome"
  ue_allocates :: "nat \<Rightarrow> bool"

abbreviation SCM_CREDENTIALS :: u32 where "SCM_CREDENTIALS \<equiv> 2"
abbreviation MAX_DGRAM_MSG_LEN :: nat where "MAX_DGRAM_MSG_LEN \<equiv> 65536"
abbreviation MIN_RECV_MSG_LEN :: nat where "MIN_RECV_MSG_LEN \<equiv> 16"
abbreviation CMSG_HEADER_LEN_IN_STREAM :: nat where "CMSG_HEADER_LEN_IN_STREAM \<equiv> 16"

section \<open>Packets\<close>

record credential =
  cr_pid :: u32
  cr_uid :: u32
  cr_gid :: u32

record ancillary_data =
  an_cred :: credential
  an_num_fds :: nat
  an_name :: "string option"

definition ancillary_new :: "credential \<Rightarrow> string option \<Rightarrow> ancillary_data" where
  "ancillary_new cred name = \<lparr>an_cred = cred, an_num_fds = 0, an_name = name\<rparr>"

record cmsg_header =
  cm_level :: u32
  cm_type :: u32
  cm_data_len :: nat

record data_packet =
  dp_payload :: "u8 list"
  dp_ancillary :: ancillary_data
  dp_read_offset :: nat
  dp_ancillary_taken :: bool

definition packet_new :: "u8 list \<Rightarrow> ancillary_data \<Rightarrow> data_packet" where
  "packet_new payload anc = \<lparr>dp_payload = payload, dp_ancillary = anc, dp_read_offset = 0, dp_ancillary_taken = False\<rparr>"

text \<open>\<open>read_num\<close> at the widths it is used with.\<close>

definition read_num :: "nat \<Rightarrow> u8 list \<Rightarrow> nat outcome" where
  "read_num n buffer = (case get_range buffer 0 n of None \<Rightarrow> Err EINVAL | Some bs \<Rightarrow> Ok (from_le bs))"

definition read_u32 :: "u8 list \<Rightarrow> u32 outcome" where
  "read_u32 buffer = map_outcome word_of_nat (read_num 4 buffer)"

definition read_u64 :: "u8 list \<Rightarrow> u64 outcome" where
  "read_u64 buffer = map_outcome word_of_nat (read_num 8 buffer)"

definition read_usize :: "u8 list \<Rightarrow> nat outcome" where
  "read_usize buffer = read_num 8 buffer"

definition cmsg_from_stream :: "u8 list \<Rightarrow> cmsg_header option outcome" where
  "cmsg_from_stream stream =
     (if 0 + CMSG_HEADER_LEN_IN_STREAM > length stream then Ok None
      else
        and_then (read_u32 stream) (\<lambda>level.
        and_then (slice_from stream 4) (\<lambda>s4. and_then (read_u32 s4) (\<lambda>ty.
        and_then (slice_from stream 8) (\<lambda>s8. and_then (read_usize s8) (\<lambda>len.
        Ok (Some \<lparr>cm_level = level, cm_type = ty, cm_data_len = len\<rparr>)))))))"

text \<open>What a control message does: descriptors are counted, credentials ignored.\<close>

definition apply_cmsg :: "uds_env \<Rightarrow> cmsg_header \<Rightarrow> u8 list \<Rightarrow> data_packet \<Rightarrow> data_packet outcome" where
  "apply_cmsg E hdr data_stream message =
     (if cm_level hdr = ue_SOL_SOCKET E \<and> cm_type hdr = ue_SCM_RIGHTS E then
        and_then (read_usize data_stream) (\<lambda>num_fds.
        and_then (usize_add (an_num_fds (dp_ancillary message)) num_fds) (\<lambda>n.
        Ok (message\<lparr>dp_ancillary := (dp_ancillary message)\<lparr>an_num_fds := n\<rparr>\<rparr>)))
      else if cm_level hdr = ue_SOL_SOCKET E \<and> cm_type hdr = SCM_CREDENTIALS then Ok message
      else Err EOPNOTSUPP)"

text \<open>The loop over the control messages behind the payload, from a position of the stream.\<close>

function cmsgs_from_stream :: "uds_env \<Rightarrow> u8 list \<Rightarrow> nat \<Rightarrow> data_packet \<Rightarrow> data_packet outcome" where
  "cmsgs_from_stream E stream cursor message =
     (case and_then (slice_from stream cursor) cmsg_from_stream of
        Panic \<Rightarrow> Panic
      | Err e \<Rightarrow> Err e
      | Ok None \<Rightarrow> Ok message
      | Ok (Some hdr) \<Rightarrow> (let cursor1 = cursor + CMSG_HEADER_LEN_IN_STREAM in
          and_then (usize_add cursor1 (cm_data_len hdr)) (\<lambda>cursor2.
          and_then (ok_or EINVAL (get_range stream cursor1 cursor2)) (\<lambda>data_stream.
          and_then (apply_cmsg E hdr data_stream message) (\<lambda>message'.
          cmsgs_from_stream E stream cursor2 message')))))"
  by pat_completeness auto
termination
proof (relation "measure (\<lambda>(E, stream, cursor, message). length stream - cursor)", goal_cases)
  case (2 E stream cursor message x xa c1 c2 ds m')
  then have "cursor + 16 \<le> length stream"
    by (auto simp: and_then_eq_Ok cmsg_from_stream_def slice_from_def split: if_splits)
  with 2 show ?case by auto
qed simp

declare cmsgs_from_stream.simps [simp del]

definition packet_from_stream :: "uds_env \<Rightarrow> u8 list \<Rightarrow> string option \<Rightarrow> credential \<Rightarrow> data_packet outcome" where
  "packet_from_stream E stream name cred =
     and_then (read_usize stream) (\<lambda>payload_len.
     and_then (usize_add 8 payload_len) (\<lambda>cursor.
     and_then (ok_or EINVAL (get_range stream 8 cursor)) (\<lambda>payload.
     cmsgs_from_stream E stream cursor (packet_new payload (ancillary_new cred name)))))"

definition get_uid_gid_from_pid :: "uds_env \<Rightarrow> nat \<Rightarrow> (u32 \<times> u32 \<times> u32) outcome" where
  "get_uid_gid_from_pid E target_pid =
     and_then (ok_or EINVAL (ue_proc_credentials E target_pid)) (\<lambda>buffer.
     and_then (read_u32 buffer) (\<lambda>pid.
     and_then (slice_from buffer 12) (\<lambda>b12. and_then (read_u32 b12) (\<lambda>uid.
     and_then (slice_from buffer 24) (\<lambda>b24. and_then (read_u32 b24) (\<lambda>gid.
     Ok (pid, uid, gid)))))))"

text \<open>Reading the three sizes that the caller of \<open>recvmsg\<close> has put in front; they are cleared.\<close>

definition read_msghdr_info :: "u8 list \<Rightarrow> u8 list \<times> (nat \<times> nat \<times> nat) outcome" where
  "read_msghdr_info stream =
     (if length stream < 24 then (stream, Err EINVAL)
      else
        question stream (read_usize stream) (\<lambda>name_len.
        question stream (read_usize (drop 8 stream)) (\<lambda>iov_size.
        question stream (read_usize (drop 16 stream)) (\<lambda>controllen.
        (copy_into stream 0 (replicate 24 0), Ok (name_len, iov_size, controllen))))))"

section \<open>The writer of a received message\<close>

record msg_writer =
  mw_buffer :: "u8 list"
  mw_written :: nat

definition writer_new :: "u8 list \<Rightarrow> msg_writer" where
  "writer_new buffer = \<lparr>mw_buffer = buffer, mw_written = 0\<rparr>"

text \<open>The function that writes a name is the \<open>fpath_inner\<close> of the scheme.\<close>

definition write_name ::
  "string option \<Rightarrow> nat \<Rightarrow> (string \<Rightarrow> u8 list \<Rightarrow> u8 list \<times> nat outcome) \<Rightarrow> msg_writer \<Rightarrow> msg_writer \<times> unit outcome" where
  "write_name name name_buf_size name_write_fn w =
     (if length (mw_buffer w) < mw_written w + 8 then (w\<lparr>mw_written := length (mw_buffer w)\<rparr>, Ok ())
      else case name of
        None \<Rightarrow> (w\<lparr>mw_written := mw_written w + 8\<rparr>, Ok ())
      | Some name \<Rightarrow> (let
            copy_len = min name_buf_size (length (mw_buffer w) - mw_written w - 8);
            (target, r) = name_write_fn name (take copy_len (drop (mw_written w + 8) (mw_buffer w)));
            w1 = w\<lparr>mw_buffer := copy_into (mw_buffer w) (mw_written w + 8) target\<rparr> in
          question w1 r (\<lambda>name_len.
          (w1\<lparr>mw_buffer := copy_into (mw_buffer w1) (mw_written w1) (to_le 8 name_len),
              mw_written := mw_written w1 + 8 + name_len\<rparr>, Ok ()))))"

definition write_payload :: "u8 list \<Rightarrow> nat \<Rightarrow> nat \<Rightarrow> msg_writer \<Rightarrow> msg_writer \<times> nat outcome" where
  "write_payload payload full_len iov_size w =
     (if \<not> mw_written w + 8 \<le> length (mw_buffer w) then (w\<lparr>mw_written := length (mw_buffer w)\<rparr>, Ok 0)
      else let
        w1 = w\<lparr>mw_buffer := copy_into (mw_buffer w) (mw_written w) (to_le 8 full_len), mw_written := mw_written w + 8\<rparr>;
        copy_len = min iov_size full_len in
      if \<not> mw_written w1 + copy_len \<le> length (mw_buffer w1) then (w1\<lparr>mw_written := length (mw_buffer w1)\<rparr>, Ok 0)
      else if \<not> copy_len \<le> length payload then (w1, Panic)
      else (w1\<lparr>mw_buffer := copy_into (mw_buffer w1) (mw_written w1) (take copy_len payload),
              mw_written := mw_written w1 + copy_len\<rparr>, Ok copy_len))"

definition write_cmsg :: "u32 \<Rightarrow> u32 \<Rightarrow> u8 list \<Rightarrow> msg_writer \<Rightarrow> msg_writer \<times> bool" where
  "write_cmsg level c_type bytes w =
     (if \<not> mw_written w \<le> length (mw_buffer w) then (w, False)
      else let remaining = length (mw_buffer w) - mw_written w;
               fill = w\<lparr>mw_buffer := take (mw_written w) (mw_buffer w) @ replicate remaining 1,
                        mw_written := mw_written w + remaining\<rparr> in
      if remaining < CMSG_HEADER_LEN_IN_STREAM then (fill, False)
      else if remaining < CMSG_HEADER_LEN_IN_STREAM + length bytes then (fill, False)
      else (w\<lparr>mw_buffer := copy_into (mw_buffer w) (mw_written w)
                (to_le 4 (unat level) @ to_le 4 (unat c_type) @ to_le 8 (length bytes) @ bytes),
              mw_written := mw_written w + (CMSG_HEADER_LEN_IN_STREAM + length bytes)\<rparr>, True))"

definition write_rights :: "uds_env \<Rightarrow> nat \<Rightarrow> msg_writer \<Rightarrow> msg_writer \<times> bool" where
  "write_rights E num_fds w =
     (if num_fds = 0 then (w, True) else write_cmsg (ue_SOL_SOCKET E) (ue_SCM_RIGHTS E) (to_le 8 num_fds) w)"

definition write_credentials :: "uds_env \<Rightarrow> credential \<Rightarrow> msg_writer \<Rightarrow> msg_writer \<times> bool" where
  "write_credentials E c w = write_cmsg (ue_SOL_SOCKET E) SCM_CREDENTIALS
     (to_le 4 (unat (cr_pid c)) @ to_le 4 (unat (cr_uid c)) @ to_le 4 (unat (cr_gid c))) w"

definition path_buf_to_str :: "u8 list \<Rightarrow> string outcome" where
  "path_buf_to_str path_buf =
     (if \<not> utf8_valid path_buf then Err EINVAL
      else if path_buf = [] then Err EINVAL
      else Ok (string_of path_buf))"

section \<open>The tables of a scheme\<close>

text \<open>
  The fields the two schemes share. The store maps addresses to sockets, and the next address is
  never in use; the tables refer to sockets by address. Random numbers come from a sequence.
\<close>

record 'k uds =
  us_cells :: "nat \<Rightarrow> 'k"
  us_fresh :: nat
  us_sockets :: "nat \<rightharpoonup> nat"
  us_next_id :: nat
  us_paths :: "string \<rightharpoonup> nat"
  us_tokens :: "u64 \<rightharpoonup> nat"
  us_rng :: nat
  us_posted :: "cqe list"

definition uds_new :: "'k \<Rightarrow> 'k uds" where
  "uds_new k = \<lparr>us_cells = (\<lambda>a. k), us_fresh = 0, us_sockets = Map.empty, us_next_id = 0, us_paths = Map.empty,
     us_tokens = Map.empty, us_rng = 0, us_posted = []\<rparr>"

definition uds_post_fevent :: "uds_env \<Rightarrow> nat \<Rightarrow> u64 \<Rightarrow> 'k uds \<Rightarrow> 'k uds \<times> unit outcome" where
  "uds_post_fevent E i flags s = (let r = post_fevent_response i flags in
     case ue_write_response E r of
       Ok True \<Rightarrow> (s\<lparr>us_posted := us_posted s @ [r]\<rparr>, Ok ())
     | Ok False \<Rightarrow> (s, Err EAGAIN)
     | Err e \<Rightarrow> (s, Err e)
     | Panic \<Rightarrow> (s, Panic))"

definition get_socket :: "nat \<Rightarrow> 'k uds \<Rightarrow> nat outcome" where
  "get_socket i s = ok_or EBADF (us_sockets s i)"

definition set_cell :: "nat \<Rightarrow> 'k \<Rightarrow> 'k uds \<Rightarrow> 'k uds" where
  "set_cell a k s = s\<lparr>us_cells := (us_cells s)(a := k)\<rparr>"

text \<open>A new socket under a number, in a new cell.\<close>

definition insert_socket :: "nat \<Rightarrow> 'k \<Rightarrow> 'k uds \<Rightarrow> 'k uds" where
  "insert_socket i k s = s\<lparr>us_cells := (us_cells s)(us_fresh s := k), us_fresh := us_fresh s + 1,
     us_sockets := (us_sockets s)(i \<mapsto> us_fresh s)\<rparr>"

text \<open>\<open>next_id += 1\<close>.\<close>

definition bump_next_id :: "'k uds \<Rightarrow> 'k uds \<times> unit outcome" where
  "bump_next_id s = question s (usize_add (us_next_id s) 1) (\<lambda>n. (s\<lparr>us_next_id := n\<rparr>, Ok ()))"

text \<open>The arguments of a request to send or receive descriptors.\<close>

fun fd_request_id :: "sqe \<Rightarrow> nat" where
  "fd_request_id q = (case sqe_args q of (a, _) \<Rightarrow> unat a)"

fun sendfd_num_fds :: "sqe \<Rightarrow> nat" where
  "sendfd_num_fds q = (case sqe_args q of (_, _, _, d, _) \<Rightarrow> unat d)"

fun recvfd_num_fds :: "sqe \<Rightarrow> nat" where
  "recvfd_num_fds q = (case sqe_args q of (_, _, c, _) \<Rightarrow> unat c)"

text \<open>Obtaining the descriptors of a request; the vector for them must not be too long.\<close>

definition obtain_fds :: "uds_env \<Rightarrow> sqe \<Rightarrow> nat list outcome" where
  "obtain_fds E q = (if \<not> sendfd_num_fds q * 8 < 2 ^ 63 then Panic else ue_obtain_fd E q)"

text \<open>\<open>fpath_inner\<close> of both schemes, by the prefix.\<close>

definition fpath_inner :: "string \<Rightarrow> string \<Rightarrow> u8 list \<Rightarrow> u8 list \<times> nat outcome" where
  "fpath_inner scheme path buf = (let
       PREFIX = bytes_of scheme;
       len = min (length PREFIX) (length buf);
       buf1 = copy_into buf 0 (take len PREFIX) in
     if len < length PREFIX then (buf1, Ok len)
     else let len2 = min (length path) (length buf - length PREFIX) in
       (copy_into buf1 (length PREFIX) (take len2 (bytes_of path)), Ok (length PREFIX + len2)))"

text \<open>A handler of a call that leaves the payload as it is.\<close>

definition no_payload :: "u8 list \<Rightarrow> 's \<times> 'a outcome \<Rightarrow> ('s \<times> u8 list) \<times> 'a outcome" where
  "no_payload payload = (\<lambda>(s, r). ((s, payload), r))"

section \<open>Facts on the tables\<close>

lemma set_cell_simps [simp]:
  "us_cells (set_cell a k s) = (us_cells s)(a := k)" "us_fresh (set_cell a k s) = us_fresh s"
  "us_sockets (set_cell a k s) = us_sockets s" "us_next_id (set_cell a k s) = us_next_id s"
  "us_paths (set_cell a k s) = us_paths s" "us_tokens (set_cell a k s) = us_tokens s"
  "us_rng (set_cell a k s) = us_rng s" "us_posted (set_cell a k s) = us_posted s"
  by (simp_all add: set_cell_def)

lemma insert_socket_simps [simp]:
  "us_cells (insert_socket i k s) = (us_cells s)(us_fresh s := k)" "us_fresh (insert_socket i k s) = us_fresh s + 1"
  "us_sockets (insert_socket i k s) = (us_sockets s)(i \<mapsto> us_fresh s)" "us_next_id (insert_socket i k s) = us_next_id s"
  "us_paths (insert_socket i k s) = us_paths s" "us_tokens (insert_socket i k s) = us_tokens s"
  "us_posted (insert_socket i k s) = us_posted s"
  by (simp_all add: insert_socket_def)

lemma get_socket_eq [simp]:
  "get_socket i s = Ok a \<longleftrightarrow> us_sockets s i = Some a" "get_socket i s \<noteq> Panic" "get_socket i s = Err e \<longleftrightarrow> us_sockets s i = None \<and> e = EBADF"
  by (auto simp: get_socket_def)

lemma post_fevent_state:
  assumes "uds_post_fevent E i fl s = (s', r)"
  shows "us_cells s' = us_cells s" "us_fresh s' = us_fresh s" "us_sockets s' = us_sockets s" "us_next_id s' = us_next_id s"
    "us_paths s' = us_paths s" "us_tokens s' = us_tokens s" "us_rng s' = us_rng s"
  using assms by (auto simp: uds_post_fevent_def Let_def split: outcome.splits bool.splits)

text \<open>The socket of the scheme takes every notification.\<close>

definition uds_events_ok :: "uds_env \<Rightarrow> bool" where
  "uds_events_ok E \<longleftrightarrow> (\<forall>r. ue_write_response E r = Ok True)"

lemma uds_post_ok: "uds_events_ok E \<Longrightarrow> uds_post_fevent E i fl s = (s\<lparr>us_posted := us_posted s @ [post_fevent_response i fl]\<rparr>, Ok ())"
  by (simp add: uds_events_ok_def uds_post_fevent_def Let_def)

text \<open>The verb of a call.\<close>

definition call_verb :: "uds_env \<Rightarrow> u64 list \<Rightarrow> socket_call option" where
  "call_verb E md = Option.bind (get_at md 0) (ue_socket_call E)"

text \<open>The operations that move no bytes.\<close>

definition quiet_op :: "op \<Rightarrow> bool" where
  "quiet_op oper = (case oper of OpRead t i buf off ff \<Rightarrow> False | OpWrite t i buf off ff \<Rightarrow> False | OpCall t i buf md \<Rightarrow> False | _ \<Rightarrow> True)"

lemma quiet_dispatch:
  "quiet_op oper \<Longrightarrow>
   handle_sync_dont_consume K (S\<lparr>sc_read := f, sc_write := g, sc_call := h\<rparr>) ctx oper s = handle_sync_dont_consume K S ctx oper s"
  by (cases oper) (simp_all add: quiet_op_def split: option.splits)

text \<open>A concrete environment.\<close>

definition sample_uds_env :: uds_env where
  "sample_uds_env = \<lparr>ue_abi = sample_abi, ue_mode_sock = 0xC000, ue_SOL_SOCKET = 1, ue_SCM_RIGHTS = 1, ue_SO_PASSCRED = 16,
     ue_SO_DOMAIN = 39, ue_SO_PEERCRED = 17, ue_SO_SNDBUF = 7, ue_AF_UNIX = 1, ue_MSG_DONTWAIT = 0x40,
     ue_socket_call = (\<lambda>v. get_at [CallBind, CallConnect, CallSetSockOpt, CallGetSockOpt, CallSendMsg, CallRecvMsg, CallUnbind,
        CallGetToken, CallGetPeerName] (unat v)),
     ue_proc_credentials = (\<lambda>pid. Some (replicate 36 0)), ue_next_u64 = (\<lambda>n. word_of_nat (n + 77)),
     ue_obtain_fd = (\<lambda>q. Ok [9]), ue_move_fd = (\<lambda>q fds. Ok ()), ue_write_response = (\<lambda>r. Ok True),
     ue_allocates = (\<lambda>n. n < 2 ^ 40)\<rparr>"

lemma sample_uds_events: "uds_events_ok sample_uds_env"
  by (simp add: uds_events_ok_def sample_uds_env_def)

end
