(* ===== verification/Uds_Dgram.thy ===== *)
theory Uds_Dgram
  imports Uds
begin

text \<open>
  The scheme for datagram sockets (\<open>ipcd/src/uds/dgram.rs\<close>). The set of options of a socket is a list
  without repetition; the code only ever puts \<open>SO_PASSCRED\<close> into it, so its order does not matter.
\<close>

section \<open>Sockets\<close>

datatype dgram_state = DgUnbound | DgBound | DgClosed

record dgram_socket =
  dk_primary_id :: nat
  dk_path :: "string option"
  dk_state :: dgram_state
  dk_peer :: "nat option"
  dk_messages :: "data_packet list"
  dk_options :: "u32 list"
  dk_fds :: "nat list"
  dk_flags :: u64
  dk_issued_token :: "u64 option"

definition dgram_socket_default :: dgram_socket where
  "dgram_socket_default = \<lparr>dk_primary_id = 0, dk_path = None, dk_state = DgUnbound, dk_peer = None, dk_messages = [],
     dk_options = [], dk_fds = [], dk_flags = 0, dk_issued_token = None\<rparr>"

type_synonym dgram = "dgram_socket uds"

fun dgram_drop_fds :: "nat \<Rightarrow> dgram_socket \<Rightarrow> dgram_socket \<times> unit outcome" where
  "dgram_drop_fds 0 k = (k, Ok ())"
| "dgram_drop_fds (Suc n) k = (case dk_fds k of
       [] \<Rightarrow> (k, Err EINVAL)
     | _ # fds \<Rightarrow> dgram_drop_fds n (k\<lparr>dk_fds := fds\<rparr>))"

definition dgram_fpath_inner :: "string \<Rightarrow> u8 list \<Rightarrow> u8 list \<times> nat outcome" where
  "dgram_fpath_inner = fpath_inner ''/scheme/uds_dgram/''"

text \<open>The loop over the options; it stops when the buffer is full.\<close>

fun write_options :: "uds_env \<Rightarrow> credential \<Rightarrow> u32 list \<Rightarrow> msg_writer \<Rightarrow> msg_writer \<times> unit outcome" where
  "write_options E cred [] w = (w, Ok ())"
| "write_options E cred (opt # opts) w =
     (if opt = ue_SO_PASSCRED E
      then (let (w', result) = write_credentials E cred w in
            if result then write_options E cred opts w' else (w', Ok ()))
      else (w, Err EOPNOTSUPP))"

definition serialize_to_stream ::
  "uds_env \<Rightarrow> data_packet \<Rightarrow> nat \<Rightarrow> nat \<Rightarrow> dgram_socket \<times> u8 list \<Rightarrow> (dgram_socket \<times> u8 list) \<times> nat outcome" where
  "serialize_to_stream E p name_buf_size iov_size = (\<lambda>(k, stream).
     case write_name (an_name (dp_ancillary p)) name_buf_size dgram_fpath_inner (writer_new stream) of
       (w1, Err e) \<Rightarrow> ((k, mw_buffer w1), Err e)
     | (w1, Panic) \<Rightarrow> ((k, mw_buffer w1), Panic)
     | (w1, Ok _) \<Rightarrow>
    (case write_payload (dp_payload p) (length (dp_payload p)) iov_size w1 of
       (w2, Err e) \<Rightarrow> ((k, mw_buffer w2), Err e)
     | (w2, Panic) \<Rightarrow> ((k, mw_buffer w2), Panic)
     | (w2, Ok _) \<Rightarrow> (let
         n = an_num_fds (dp_ancillary p);
         (w3, fits) = write_rights E n w2;
         (k1, dropped) = (if fits then (k, Ok ()) else dgram_drop_fds n k) in
       question (k1, mw_buffer w3) dropped (\<lambda>_.
       let (w4, r) = write_options E (an_cred (dp_ancillary p)) (dk_options k1) w3 in
       question (k1, mw_buffer w4) r (\<lambda>_. ((k1, mw_buffer w4), Ok (mw_written w4)))))))"

section \<open>Operations\<close>

definition dgram_get_connected_peer :: "nat \<Rightarrow> dgram \<Rightarrow> (nat \<times> nat) outcome" where
  "dgram_get_connected_peer i s =
     and_then (get_socket i s) (\<lambda>a.
     and_then (ok_or ENOTCONN (dk_peer (us_cells s a))) (\<lambda>remote_id.
     case get_socket remote_id s of
       Ok b \<Rightarrow> if dk_state (us_cells s b) = DgClosed then Err ECONNREFUSED else Ok (remote_id, b)
     | Err _ \<Rightarrow> Err EPIPE
     | Panic \<Rightarrow> Panic))"

definition dgram_handle_bind :: "uds_env \<Rightarrow> nat \<Rightarrow> u8 list \<Rightarrow> dgram \<Rightarrow> dgram \<times> nat outcome" where
  "dgram_handle_bind E i path_buf s =
     question s (path_buf_to_str path_buf) (\<lambda>path.
     if us_paths s path \<noteq> None then (s, Err EADDRINUSE)
     else
       question s (get_socket i s) (\<lambda>a. let k = us_cells s a in
       if dk_state k \<noteq> DgUnbound then (s, Err EINVAL)
       else let
         token = ue_next_u64 E (us_rng s);
         s1 = set_cell a (k\<lparr>dk_path := Some path, dk_state := DgBound, dk_issued_token := Some token\<rparr>)
                (s\<lparr>us_rng := us_rng s + 1\<rparr>) in
       (s1\<lparr>us_paths := (us_paths s1)(path \<mapsto> a), us_tokens := (us_tokens s1)(token \<mapsto> a)\<rparr>, Ok 0)))"

definition dgram_handle_connect :: "nat \<Rightarrow> u8 list \<Rightarrow> dgram \<Rightarrow> dgram \<times> nat outcome" where
  "dgram_handle_connect i token_buf s =
     question s (read_u64 token_buf) (\<lambda>token.
     question s (ok_or ECONNREFUSED (us_tokens s token)) (\<lambda>target.
     question s (ok_or ECONNREFUSED (dk_issued_token (us_cells s target))) (\<lambda>target_token.
     if target_token \<noteq> token then (s, Err EACCES)
     else let target_id = dk_primary_id (us_cells s target) in
       question s (get_socket i s) (\<lambda>a.
       (set_cell a ((us_cells s a)\<lparr>dk_peer := Some target_id\<rparr>) s, Ok 0)))))"

definition dgram_handle_setsockopt :: "uds_env \<Rightarrow> nat \<Rightarrow> u32 \<Rightarrow> u8 list \<Rightarrow> dgram \<Rightarrow> dgram \<times> nat outcome" where
  "dgram_handle_setsockopt E i opt value_slice s =
     question s (get_socket i s) (\<lambda>a. let k = us_cells s a in
     if opt = ue_SO_PASSCRED E then
       question s (read_u32 value_slice) (\<lambda>value.
       (set_cell a (k\<lparr>dk_options := (if value \<noteq> 0 then List.insert opt (dk_options k) else removeAll opt (dk_options k))\<rparr>) s,
        Ok (length value_slice)))
     else (s, Err ENOPROTOOPT))"

definition dgram_handle_getsockopt :: "uds_env \<Rightarrow> nat \<Rightarrow> u32 \<Rightarrow> u8 list \<Rightarrow> dgram \<Rightarrow> (dgram \<times> u8 list) \<times> nat outcome" where
  "dgram_handle_getsockopt E i opt payload s =
     (if opt = ue_SO_DOMAIN E then let payload1 = replicate (length payload) 0 in
        if length payload1 < 4 then ((s, payload1), Err ENOBUFS)
        else ((s, copy_into payload1 0 (to_le 4 (unat (ue_AF_UNIX E)))), Ok 4)
      else ((s, payload), Err ENOPROTOOPT))"

definition dgram_sendmsg_inner ::
  "uds_env \<Rightarrow> nat \<Rightarrow> string option \<Rightarrow> u8 list \<Rightarrow> caller_ctx \<Rightarrow> dgram \<Rightarrow> dgram \<times> nat outcome" where
  "dgram_sendmsg_inner E a name msg_stream ctx s =
     (if msg_stream = [] then (s, Err EINVAL)
      else
        question s (get_uid_gid_from_pid E (ctx_pid ctx)) (\<lambda>(pid, uid, gid).
        question s (packet_from_stream E msg_stream name \<lparr>cr_pid = pid, cr_uid = uid, cr_gid = gid\<rparr>) (\<lambda>message.
        (set_cell a ((us_cells s a)\<lparr>dk_messages := dk_messages (us_cells s a) @ [message]\<rparr>) s, Ok (length (dp_payload message))))))"

definition dgram_handle_sendmsg :: "uds_env \<Rightarrow> nat \<Rightarrow> u8 list \<Rightarrow> caller_ctx \<Rightarrow> dgram \<Rightarrow> dgram \<times> nat outcome" where
  "dgram_handle_sendmsg E i msg_stream ctx s =
     (if msg_stream = [] then (s, Err EINVAL)
      else
        question s (get_socket i s) (\<lambda>a. let name = dk_path (us_cells s a) in
        question s (dgram_get_connected_peer i s) (\<lambda>(remote_id, b).
        then_do (dgram_sendmsg_inner E b name msg_stream ctx s) (\<lambda>s1 bytes_written.
        then_do (uds_post_fevent E remote_id (EVENT_READ (ue_abi E)) s1) (\<lambda>s2 _. (s2, Ok bytes_written))))))"

definition dgram_recvmsg_inner ::
  "uds_env \<Rightarrow> data_packet \<Rightarrow> dgram_socket \<times> u8 list \<Rightarrow> (dgram_socket \<times> u8 list) \<times> nat outcome" where
  "dgram_recvmsg_inner E message = (\<lambda>(k, msg_stream).
     let (msg_stream1, r) = read_msghdr_info msg_stream in
     question (k, msg_stream1) r (\<lambda>(name_len, iov_size, _).
     serialize_to_stream E message name_len iov_size (k, msg_stream1)))"

definition dgram_handle_recvmsg :: "uds_env \<Rightarrow> nat \<Rightarrow> u8 list \<Rightarrow> dgram \<Rightarrow> (dgram \<times> u8 list) \<times> nat outcome" where
  "dgram_handle_recvmsg E i msg_stream s =
     question (s, msg_stream) (get_socket i s) (\<lambda>a. let k = us_cells s a; K = ue_abi E in
     case dk_messages k of
       message # messages \<Rightarrow>
         (let ((k1, msg_stream1), r) = dgram_recvmsg_inner E message (k\<lparr>dk_messages := messages\<rparr>, msg_stream) in
          ((set_cell a k1 s, msg_stream1), r))
     | [] \<Rightarrow>
         if dk_flags k AND O_NONBLOCK K = O_NONBLOCK K then ((s, msg_stream), Err EAGAIN)
         else ((s, msg_stream), Err EWOULDBLOCK))"

definition dgram_handle_unbind :: "nat \<Rightarrow> dgram \<Rightarrow> dgram \<times> nat outcome" where
  "dgram_handle_unbind i s =
     question s (get_socket i s) (\<lambda>a. let k = us_cells s a in
     if dk_state k \<noteq> DgBound then (s, Err EINVAL)
     else let s1 = set_cell a (k\<lparr>dk_state := DgUnbound, dk_path := None\<rparr>) s in
       case dk_path k of
         Some path \<Rightarrow> (s1\<lparr>us_paths := (us_paths s1)(path := None)\<rparr>, Ok 0)
       | None \<Rightarrow> (s1, Ok 0))"

definition dgram_handle_get_token :: "nat \<Rightarrow> u8 list \<Rightarrow> dgram \<Rightarrow> (dgram \<times> u8 list) \<times> nat outcome" where
  "dgram_handle_get_token i payload s =
     question (s, payload) (get_socket i s) (\<lambda>a.
     case dk_issued_token (us_cells s a) of
       None \<Rightarrow> ((s, payload), Err EINVAL)
     | Some token \<Rightarrow>
         if length payload < 8 then ((s, payload), Err ENOBUFS)
         else ((s, copy_into payload 0 (to_le 8 (unat token))), Ok 8))"

definition dgram_handle_get_peer_name :: "nat \<Rightarrow> u8 list \<Rightarrow> dgram \<Rightarrow> (dgram \<times> u8 list) \<times> nat outcome" where
  "dgram_handle_get_peer_name i payload s =
     question (s, payload) (dgram_get_connected_peer i s) (\<lambda>(_, b).
     let (payload1, r) = dgram_fpath_inner (case dk_path (us_cells s b) of Some path \<Rightarrow> path | None \<Rightarrow> []) payload in
     ((s, payload1), r))"

text \<open>
  One end of a socket pair. The peer of the first socket is set, and the event posted, before the
  second socket exists.
\<close>

definition dgram_handle_connect_socketpair :: "uds_env \<Rightarrow> nat \<Rightarrow> dgram \<Rightarrow> dgram \<times> open_result outcome" where
  "dgram_handle_connect_socketpair E i s = (let
       K = ue_abi E;
       new_id = us_next_id s;
       new = dgram_socket_default\<lparr>dk_primary_id := new_id\<rparr> in
     question s (get_socket i s) (\<lambda>a. let k = us_cells s a in
     if dk_state k = DgClosed then (s, Err ECONNREFUSED)
     else
       then_do (uds_post_fevent E i (EVENT_READ K OR EVENT_WRITE K) (set_cell a (k\<lparr>dk_peer := Some new_id\<rparr>) s)) (\<lambda>s1 _.
       then_do (bump_next_id (insert_socket new_id (new\<lparr>dk_peer := Some i\<rparr>) s1)) (\<lambda>s2 _.
       (s2, Ok (ThisScheme new_id 0))))))"

definition dgram_handle_recvfd :: "nat \<Rightarrow> dgram \<Rightarrow> dgram \<times> open_result outcome" where
  "dgram_handle_recvfd i s =
     question s (get_socket i s) (\<lambda>a. let k = us_cells s a in
     case dk_fds k of
       [] \<Rightarrow> (s, Err EWOULDBLOCK)
     | fd # fds \<Rightarrow> (set_cell a (k\<lparr>dk_fds := fds\<rparr>) s, Ok (OtherScheme fd)))"

text \<open>\<open>listen\<close> gives the same socket a second number.\<close>

definition dgram_handle_listen :: "nat \<Rightarrow> dgram \<Rightarrow> dgram \<times> open_result outcome" where
  "dgram_handle_listen i s =
     question s (get_socket i s) (\<lambda>a. let new_id = us_next_id s in
     then_do (bump_next_id (s\<lparr>us_sockets := (us_sockets s)(new_id \<mapsto> a)\<rparr>)) (\<lambda>s1 _. (s1, Ok (ThisScheme new_id 0))))"

section \<open>The scheme\<close>

definition dgram_open :: "string \<Rightarrow> u64 \<Rightarrow> caller_ctx \<Rightarrow> dgram \<Rightarrow> dgram \<times> open_result outcome" where
  "dgram_open path flags ctx s =
     (if path \<noteq> [] then (s, Err EINVAL)
      else let new_id = us_next_id s in
        then_do (bump_next_id (insert_socket new_id (dgram_socket_default\<lparr>dk_flags := flags, dk_primary_id := new_id\<rparr>) s)) (\<lambda>s1 _.
        (s1, Ok (ThisScheme new_id 0))))"

definition dgram_call ::
  "uds_env \<Rightarrow> nat \<Rightarrow> u8 list \<Rightarrow> u64 list \<Rightarrow> caller_ctx \<Rightarrow> dgram \<Rightarrow> (dgram \<times> u8 list) \<times> nat outcome" where
  "dgram_call E i payload metadata ctx s =
     question (s, payload) (unwrap (get_at metadata 0)) (\<lambda>verb.
     case ue_socket_call E verb of
       None \<Rightarrow> ((s, payload), Err EINVAL)
     | Some CallBind \<Rightarrow> no_payload payload (dgram_handle_bind E i payload s)
     | Some CallConnect \<Rightarrow> no_payload payload (dgram_handle_connect i payload s)
     | Some CallSetSockOpt \<Rightarrow>
         question (s, payload) (unwrap (get_at metadata 1)) (\<lambda>opt.
         no_payload payload (dgram_handle_setsockopt E i (ucast opt) payload s))
     | Some CallGetSockOpt \<Rightarrow>
         question (s, payload) (unwrap (get_at metadata 1)) (\<lambda>opt.
         dgram_handle_getsockopt E i (ucast opt) payload s)
     | Some CallSendMsg \<Rightarrow> no_payload payload (dgram_handle_sendmsg E i payload ctx s)
     | Some CallRecvMsg \<Rightarrow> dgram_handle_recvmsg E i payload s
     | Some CallUnbind \<Rightarrow> no_payload payload (dgram_handle_unbind i s)
     | Some CallGetToken \<Rightarrow> dgram_handle_get_token i payload s
     | Some CallGetPeerName \<Rightarrow> dgram_handle_get_peer_name i payload s
     | Some CallOther \<Rightarrow> ((s, payload), Err EOPNOTSUPP))"

definition dgram_dup :: "uds_env \<Rightarrow> nat \<Rightarrow> u8 list \<Rightarrow> caller_ctx \<Rightarrow> dgram \<Rightarrow> dgram \<times> open_result outcome" where
  "dgram_dup E i buf ctx s =
     (if buf = bytes_of ''connect'' then dgram_handle_connect_socketpair E i s
      else if buf = bytes_of ''recvfd'' then dgram_handle_recvfd i s
      else if buf = bytes_of ''listen'' then dgram_handle_listen i s
      else (s, Err EINVAL))"

definition dgram_write :: "uds_env \<Rightarrow> nat \<Rightarrow> u8 list \<Rightarrow> nat \<Rightarrow> u32 \<Rightarrow> caller_ctx \<Rightarrow> dgram \<Rightarrow> dgram \<times> nat outcome" where
  "dgram_write E i buf offset flags ctx s =
     (if length buf > MAX_DGRAM_MSG_LEN then (s, Err EMSGSIZE)
      else
        question s (get_socket i s) (\<lambda>a. let k = us_cells s a in
        if dk_state k = DgClosed then (s, Err EPIPE)
        else
          question s (dgram_get_connected_peer i s) (\<lambda>(remote_id, b). let
            remote = us_cells s b;
            message = packet_new buf (ancillary_new
              \<lparr>cr_pid = word_of_nat (ctx_pid ctx), cr_uid = ctx_uid ctx, cr_gid = ctx_gid ctx\<rparr> (dk_path k)) in
          then_do (uds_post_fevent E remote_id (EVENT_READ (ue_abi E))
              (set_cell b (remote\<lparr>dk_messages := dk_messages remote @ [message]\<rparr>) s)) (\<lambda>s1 _.
          (s1, Ok (length buf))))))"

definition dgram_fpath :: "nat \<Rightarrow> u8 list \<Rightarrow> caller_ctx \<Rightarrow> dgram \<Rightarrow> (dgram \<times> u8 list) \<times> nat outcome" where
  "dgram_fpath i buf ctx s =
     question (s, buf) (get_socket i s) (\<lambda>a.
     let (buf1, r) = dgram_fpath_inner (case dk_path (us_cells s a) of Some path \<Rightarrow> path | None \<Rightarrow> []) buf in
     ((s, buf1), r))"

definition dgram_fsync :: "nat \<Rightarrow> caller_ctx \<Rightarrow> dgram \<Rightarrow> dgram \<times> unit outcome" where
  "dgram_fsync i ctx s = (s, and_then (get_socket i s) (\<lambda>_. Ok ()))"

definition dgram_read ::
  "uds_env \<Rightarrow> nat \<Rightarrow> u8 list \<Rightarrow> nat \<Rightarrow> u32 \<Rightarrow> caller_ctx \<Rightarrow> dgram \<Rightarrow> (dgram \<times> u8 list) \<times> nat outcome" where
  "dgram_read E i buf offset flags ctx s =
     question (s, buf) (get_socket i s) (\<lambda>a. let k = us_cells s a; K = ue_abi E in
     case dk_messages k of
       message # messages \<Rightarrow> (let copy_len = min (length buf) (length (dp_payload message)) in
         ((set_cell a (k\<lparr>dk_messages := messages\<rparr>) s, copy_into buf 0 (take copy_len (dp_payload message))), Ok copy_len))
     | [] \<Rightarrow>
         if ucast flags AND O_NONBLOCK K = O_NONBLOCK K then ((s, buf), Err EAGAIN)
         else ((s, buf), Err EWOULDBLOCK))"

definition dgram_on_close :: "nat \<Rightarrow> dgram \<Rightarrow> dgram \<times> unit outcome" where
  "dgram_on_close i s = (case us_sockets s i of
       None \<Rightarrow> (s, Ok ())
     | Some a \<Rightarrow> (let
         k = us_cells s a;
         s1 = s\<lparr>us_sockets := (us_sockets s)(i := None)\<rparr> in
       if dk_primary_id k \<noteq> i then (s1, Ok ())
       else let
         s2 = set_cell a (k\<lparr>dk_state := DgClosed, dk_peer := None, dk_path := None\<rparr>) s1;
         s3 = (case dk_path k of Some path \<Rightarrow> s2\<lparr>us_paths := (us_paths s2)(path := None)\<rparr> | None \<Rightarrow> s2) in
       (case dk_issued_token k of
          Some token \<Rightarrow> (s3\<lparr>us_tokens := (us_tokens s3)(token := None)\<rparr>, Ok ())
        | None \<Rightarrow> (s3, Ok ()))))"

text \<open>The descriptors are obtained before the peer is looked up.\<close>

definition dgram_on_sendfd :: "uds_env \<Rightarrow> sqe \<Rightarrow> dgram \<Rightarrow> dgram \<times> nat outcome" where
  "dgram_on_sendfd E q s =
     (if sendfd_num_fds q = 0 then (s, Ok 0)
      else
        question s (obtain_fds E q) (\<lambda>new_fds.
        question s (dgram_get_connected_peer (fd_request_id q) s) (\<lambda>(remote_id, b). let remote = us_cells s b in
        then_do (uds_post_fevent E remote_id (EVENT_READ (ue_abi E))
            (set_cell b (remote\<lparr>dk_fds := dk_fds remote @ new_fds\<rparr>) s)) (\<lambda>s1 _.
        (s1, Ok (length new_fds))))))"

definition dgram_on_recvfd :: "uds_env \<Rightarrow> sqe \<Rightarrow> dgram \<Rightarrow> dgram \<times> open_result outcome" where
  "dgram_on_recvfd E q s = (let n = recvfd_num_fds q; K = ue_abi E in
     if n = 0 then (s, Ok (OtherSchemeMultiple 0))
     else
       question s (get_socket (fd_request_id q) s) (\<lambda>a. let k = us_cells s a in
       if length (dk_fds k) < n then
         (if dk_flags k AND O_NONBLOCK K = O_NONBLOCK K then (s, Ok WouldBlock) else (s, Err EWOULDBLOCK))
       else let s1 = set_cell a (k\<lparr>dk_fds := drop n (dk_fds k)\<rparr>) s in
         case ue_move_fd E q (take n (dk_fds k)) of
           Ok _ \<Rightarrow> (s1, Ok (OtherSchemeMultiple n))
         | Err _ \<Rightarrow> (s1, Err EPROTO)
         | Panic \<Rightarrow> (s1, Panic)))"

definition dgram_fcntl :: "uds_env \<Rightarrow> nat \<Rightarrow> u64 \<Rightarrow> u64 \<Rightarrow> caller_ctx \<Rightarrow> dgram \<Rightarrow> dgram \<times> nat outcome" where
  "dgram_fcntl E i cmd arg ctx s =
     question s (get_socket i s) (\<lambda>a. let k = us_cells s a in
     if cmd = F_GETFL (ue_abi E) then (s, Ok (unat (dk_flags k)))
     else if cmd = F_SETFL (ue_abi E) then (set_cell a (k\<lparr>dk_flags := arg\<rparr>) s, Ok 0)
     else (s, Err EINVAL))"

definition dgram_fevent :: "uds_env \<Rightarrow> nat \<Rightarrow> u64 \<Rightarrow> caller_ctx \<Rightarrow> dgram \<Rightarrow> dgram \<times> u64 outcome" where
  "dgram_fevent E i flags ctx s =
     question s (get_socket i s) (\<lambda>a. let k = us_cells s a; K = ue_abi E in
     (s, Ok ((if flags AND EVENT_READ K = EVENT_READ K \<and> dk_messages k \<noteq> [] then EVENT_READ K else 0) OR
             (if flags AND EVENT_WRITE K = EVENT_WRITE K \<and> dk_peer k \<noteq> None then EVENT_WRITE K else 0))))"

definition dgram_fstat :: "uds_env \<Rightarrow> nat \<Rightarrow> stat \<Rightarrow> caller_ctx \<Rightarrow> dgram \<Rightarrow> (dgram \<times> stat) \<times> unit outcome" where
  "dgram_fstat E i stat ctx s =
     question (s, stat) (get_socket i s) (\<lambda>_. ((s, default_stat\<lparr>st_mode := ue_mode_sock E\<rparr>), Ok ()))"

definition dgram_scheme :: "uds_env \<Rightarrow> dgram scheme_sync" where
  "dgram_scheme E = default_scheme\<lparr>sc_open := dgram_open, sc_call := dgram_call E, sc_dup := dgram_dup E,
     sc_write := dgram_write E, sc_fpath := dgram_fpath, sc_fsync := dgram_fsync, sc_read := dgram_read E,
     sc_on_close := dgram_on_close, sc_on_sendfd := dgram_on_sendfd E, sc_on_recvfd := dgram_on_recvfd E,
     sc_fcntl := dgram_fcntl E, sc_fevent := dgram_fevent E, sc_fstat := dgram_fstat E\<rparr>"

end
