(* ===== verification/Uds_Dgram_Proofs.thy ===== *)
theory Uds_Dgram_Proofs
  imports Uds_Dgram
begin

text \<open>
  The tables of the datagram scheme agree with its sockets in every state, and what every operation
  does to the queues of datagrams.
\<close>

section \<open>The invariant\<close>

definition dgram_cell_ok :: "dgram \<Rightarrow> nat \<Rightarrow> bool" where
  "dgram_cell_ok s a \<longleftrightarrow> (let k = us_cells s a in
     (dk_path k \<noteq> None \<longleftrightarrow> dk_state k = DgBound) \<and> dk_primary_id k < us_next_id s \<and>
     us_sockets s (dk_primary_id k) = (if dk_state k = DgClosed then None else Some a))"

definition dgram_inv :: "dgram \<Rightarrow> bool" where
  "dgram_inv s \<longleftrightarrow>
     (\<forall>i a. us_sockets s i = Some a \<longrightarrow> i < us_next_id s \<and> a < us_fresh s) \<and>
     (\<forall>p a. us_paths s p = Some a \<longleftrightarrow> a < us_fresh s \<and> dk_path (us_cells s a) = Some p) \<and>
     (\<forall>t a. us_tokens s t = Some a \<longrightarrow> a < us_fresh s) \<and>
     (\<forall>a < us_fresh s. dgram_cell_ok s a)"

lemma dgram_invI:
  assumes "\<And>i a. us_sockets s i = Some a \<Longrightarrow> i < us_next_id s \<and> a < us_fresh s"
    and "\<And>p a. us_paths s p = Some a \<Longrightarrow> a < us_fresh s \<and> dk_path (us_cells s a) = Some p"
    and "\<And>p a. a < us_fresh s \<Longrightarrow> dk_path (us_cells s a) = Some p \<Longrightarrow> us_paths s p = Some a"
    and "\<And>t a. us_tokens s t = Some a \<Longrightarrow> a < us_fresh s"
    and "\<And>a. a < us_fresh s \<Longrightarrow> dgram_cell_ok s a"
  shows "dgram_inv s"
  unfolding dgram_inv_def using assms by blast

lemma dgram_invD:
  assumes "dgram_inv s"
  shows "us_sockets s i = Some a \<Longrightarrow> i < us_next_id s" "us_sockets s i = Some a \<Longrightarrow> a < us_fresh s"
    "us_paths s p = Some a \<Longrightarrow> a < us_fresh s" "us_paths s p = Some a \<Longrightarrow> dk_path (us_cells s a) = Some p"
    "a < us_fresh s \<Longrightarrow> dk_path (us_cells s a) = Some p \<Longrightarrow> us_paths s p = Some a"
    "us_tokens s t = Some a \<Longrightarrow> a < us_fresh s" "a < us_fresh s \<Longrightarrow> dgram_cell_ok s a" "us_sockets s (us_next_id s) = None"
proof -
  show "us_sockets s (us_next_id s) = None" using assms by (cases "us_sockets s (us_next_id s)") (auto simp: dgram_inv_def)
qed (use assms in \<open>auto simp: dgram_inv_def\<close>)

lemma dgram_paths:
  assumes "dgram_inv s"
  shows "us_paths s p = Some a \<longleftrightarrow> a < us_fresh s \<and> dk_path (us_cells s a) = Some p"
  using assms by (simp add: dgram_inv_def)

lemma dgram_path_unique:
  assumes "dgram_inv s" "a < us_fresh s" "b < us_fresh s" "dk_path (us_cells s a) = Some p" "dk_path (us_cells s b) = Some p"
  shows "a = b"
  using dgram_invD(5) [OF assms(1,2,4)] dgram_invD(5) [OF assms(1,3,5)] by simp

text \<open>Posting an event changes only the list of posted events.\<close>

lemma dgram_inv_cong:
  assumes "us_cells s' = us_cells s" "us_fresh s' = us_fresh s" "us_sockets s' = us_sockets s" "us_next_id s' = us_next_id s"
    "us_paths s' = us_paths s" "us_tokens s' = us_tokens s"
  shows "dgram_inv s' = dgram_inv s"
  using assms by (simp add: dgram_inv_def dgram_cell_ok_def)

lemma dgram_inv_post: "uds_post_fevent E i fl s = (s', r) \<Longrightarrow> dgram_inv s' = dgram_inv s"
  using post_fevent_state [of E i fl s s' r] by (intro dgram_inv_cong) simp_all

text \<open>Changes of a socket that keep its name, state and number.\<close>

lemma dgram_inv_set_cell:
  assumes "dgram_inv s" "dk_path k = dk_path (us_cells s a)" "dk_state k = dk_state (us_cells s a)"
    "dk_primary_id k = dk_primary_id (us_cells s a)"
  shows "dgram_inv (set_cell a k s)"
proof (rule dgram_invI)
  show "dgram_cell_ok (set_cell a k s) b" if "b < us_fresh (set_cell a k s)" for b
    using dgram_invD(7) [OF assms(1), of b] that assms(2-4) by (auto simp: dgram_cell_ok_def Let_def)
qed (use assms(2) in \<open>auto simp: dgram_paths [OF assms(1)] split: if_splits dest: dgram_invD(1,2,6) [OF assms(1)]\<close>)

lemma dgram_inv_insert:
  assumes inv: "dgram_inv s" and k: "dk_path k = None" "dk_state k = DgUnbound" "dk_primary_id k = us_next_id s"
  shows "dgram_inv ((insert_socket (us_next_id s) k s)\<lparr>us_next_id := us_next_id s + 1\<rparr>)"
proof (rule dgram_invI)
  show "dgram_cell_ok ((insert_socket (us_next_id s) k s)\<lparr>us_next_id := us_next_id s + 1\<rparr>) a"
    if "a < us_fresh ((insert_socket (us_next_id s) k s)\<lparr>us_next_id := us_next_id s + 1\<rparr>)" for a
    using that k dgram_invD(7) [OF inv, of a] by (auto simp: dgram_cell_ok_def Let_def less_Suc_eq)
qed (use k in \<open>auto simp: dgram_paths [OF inv] split: if_splits intro: less_SucI dest: dgram_invD(1,2,6) [OF inv]\<close>)

lemma dgram_inv_alias:
  assumes inv: "dgram_inv s" and a: "a < us_fresh s"
  shows "dgram_inv (s\<lparr>us_sockets := (us_sockets s)(us_next_id s \<mapsto> a), us_next_id := us_next_id s + 1\<rparr>)"
proof (rule dgram_invI)
  show "dgram_cell_ok (s\<lparr>us_sockets := (us_sockets s)(us_next_id s \<mapsto> a), us_next_id := us_next_id s + 1\<rparr>) b"
    if "b < us_fresh (s\<lparr>us_sockets := (us_sockets s)(us_next_id s \<mapsto> a), us_next_id := us_next_id s + 1\<rparr>)" for b
    using that dgram_invD(7) [OF inv, of b] by (auto simp: dgram_cell_ok_def Let_def)
qed (use a in \<open>auto simp: dgram_paths [OF inv] split: if_splits intro: less_SucI dest: dgram_invD(1,2,6) [OF inv]\<close>)

lemma dgram_inv_close:
  assumes inv: "dgram_inv s"
  shows "dgram_inv (fst (dgram_on_close i s))"
proof (cases "us_sockets s i")
  case None
  then show ?thesis using inv by (simp add: dgram_on_close_def)
next
  case (Some a)
  have a: "a < us_fresh s" using dgram_invD(2) [OF inv Some] .
  note paths = dgram_paths [OF inv]
  have other: "dk_primary_id (us_cells s b) = i \<Longrightarrow> b = a" if "b < us_fresh s" for b
    using dgram_invD(7) [OF inv that] Some by (auto simp: dgram_cell_ok_def Let_def split: if_splits)
  show ?thesis
  proof (cases "dk_primary_id (us_cells s a) = i")
    case False
    let ?s = "s\<lparr>us_sockets := (us_sockets s)(i := None)\<rparr>"
    have "dgram_cell_ok ?s b" if "b < us_fresh s" for b
      using dgram_invD(7) [OF inv that] other [OF that] False by (auto simp: dgram_cell_ok_def Let_def)
    then have "dgram_inv ?s" by (intro dgram_invI) (auto simp: paths split: if_splits dest: dgram_invD(1,2,6) [OF inv])
    then show ?thesis using Some False by (simp add: dgram_on_close_def)
  next
    case True
    let ?k = "us_cells s a"
    let ?k' = "?k\<lparr>dk_state := DgClosed, dk_peer := None, dk_path := None\<rparr>"
    define s' where "s' = fst (dgram_on_close i s)"
    have s': "us_sockets s' = (us_sockets s)(i := None)" "us_cells s' = (us_cells s)(a := ?k')" "us_fresh s' = us_fresh s"
      "us_next_id s' = us_next_id s" "us_paths s' = (case dk_path ?k of None \<Rightarrow> us_paths s | Some p \<Rightarrow> (us_paths s)(p := None))"
      "us_tokens s' t = Some b \<Longrightarrow> us_tokens s t = Some b" for t b
      using Some True by (cases "dk_path ?k"; cases "dk_issued_token ?k"; auto simp: s'_def dgram_on_close_def Let_def split: if_splits)+
    have "dgram_cell_ok s' b" if b: "b < us_fresh s" for b
    proof (cases "b = a")
      case False
      then show ?thesis using dgram_invD(7) [OF inv b] other [OF b] by (auto simp: dgram_cell_ok_def Let_def s'(1-4))
    qed (use True dgram_invD(7) [OF inv a] in \<open>simp add: dgram_cell_ok_def Let_def s'(1-4)\<close>)
    moreover have "us_paths s' p = Some b \<longleftrightarrow> b < us_fresh s' \<and> dk_path (us_cells s' b) = Some p" for p b
    proof (cases "dk_path ?k = Some p")
      case True
      then have "b = a \<or> \<not> (b < us_fresh s \<and> dk_path (us_cells s b) = Some p)" using dgram_path_unique [OF inv a] by blast
      then show ?thesis using True by (auto simp: s'(2,3,5))
    next
      case False
      then show ?thesis by (cases "dk_path ?k") (auto simp: s'(2,3,5) paths)
    qed
    ultimately have "dgram_inv s'"
      by (intro dgram_invI) (auto simp: s'(1,3,4) split: if_splits dest: s'(6) dgram_invD(1,2,6) [OF inv])
    then show ?thesis by (simp add: s'_def)
  qed
qed

lemma dgram_inv_bind:
  assumes inv: "dgram_inv s" and run: "dgram_handle_bind E i buf s = (s', r)"
  shows "dgram_inv s'"
proof (cases "s' = s")
  case False
  then obtain path a where p: "us_paths s path = None" "us_sockets s i = Some a" "dk_state (us_cells s a) = DgUnbound"
    and cell: "us_cells s' = (us_cells s)(a := (us_cells s a)\<lparr>dk_path := Some path, dk_state := DgBound, dk_issued_token := Some (ue_next_u64 E (us_rng s))\<rparr>)"
    and s': "us_fresh s' = us_fresh s" "us_sockets s' = us_sockets s" "us_next_id s' = us_next_id s" "us_paths s' = (us_paths s)(path \<mapsto> a)"
      "us_tokens s' = (us_tokens s)(ue_next_u64 E (us_rng s) \<mapsto> a)"
    using run by (auto simp: dgram_handle_bind_def Let_def split: question_splits if_splits)
  have a: "a < us_fresh s" using dgram_invD(2) [OF inv p(2)] .
  have none: "dk_path (us_cells s a) = None" using dgram_invD(7) [OF inv a] p(3) by (simp add: dgram_cell_ok_def Let_def)
  have free: "dk_path (us_cells s b) \<noteq> Some path" if "b < us_fresh s" for b using dgram_invD(5) [OF inv that] p(1) by fastforce
  show ?thesis
  proof (rule dgram_invI)
    show "dgram_cell_ok s' b" if "b < us_fresh s'" for b
      using dgram_invD(7) [OF inv, of b] that p(3) by (auto simp: dgram_cell_ok_def Let_def cell s')
  qed (use a none free in \<open>auto simp: cell s' dgram_paths [OF inv] split: if_splits dest: dgram_invD(1,2,6) [OF inv]\<close>)
qed (use inv in simp)

lemma dgram_inv_unbind:
  assumes inv: "dgram_inv s" and run: "dgram_handle_unbind i s = (s', r)"
  shows "dgram_inv s'"
proof (cases "s' = s")
  case False
  then obtain a where p: "us_sockets s i = Some a" "dk_state (us_cells s a) = DgBound"
    using run by (auto simp: dgram_handle_unbind_def Let_def split: question_splits if_splits)
  have a: "a < us_fresh s" using dgram_invD(2) [OF inv p(1)] .
  then obtain path where path: "dk_path (us_cells s a) = Some path"
    using dgram_invD(7) [OF inv a] p(2) by (auto simp: dgram_cell_ok_def Let_def)
  have cell: "us_cells s' = (us_cells s)(a := (us_cells s a)\<lparr>dk_state := DgUnbound, dk_path := None\<rparr>)"
    and s': "us_fresh s' = us_fresh s" "us_sockets s' = us_sockets s" "us_next_id s' = us_next_id s" "us_paths s' = (us_paths s)(path := None)"
      "us_tokens s' = us_tokens s"
    using run p path by (auto simp: dgram_handle_unbind_def get_socket_def Let_def)
  have unique: "dk_path (us_cells s b) \<noteq> Some path" if "b < us_fresh s" "b \<noteq> a" for b
    using dgram_path_unique [OF inv that(1) a] path that(2) by blast
  show ?thesis
  proof (rule dgram_invI)
    show "dgram_cell_ok s' b" if "b < us_fresh s'" for b
      using dgram_invD(7) [OF inv, of b] that p(2) by (auto simp: dgram_cell_ok_def Let_def cell s')
  qed (use a path unique in \<open>auto simp: cell s' dgram_paths [OF inv] split: if_splits dest: dgram_invD(1,2,6) [OF inv]\<close>)
qed (use inv in simp)

section \<open>The methods keep the invariant\<close>

text \<open>What a received message does to the rest of its socket.\<close>

lemma drop_fds_frame:
  "dgram_drop_fds n k = (k', r) \<Longrightarrow> dk_path k' = dk_path k \<and> dk_state k' = dk_state k \<and> dk_primary_id k' = dk_primary_id k \<and>
     dk_messages k' = dk_messages k \<and> r \<noteq> Panic"
  by (induction n arbitrary: k) (auto split: list.splits)

lemma serialize_frame:
  "serialize_to_stream E p nl iov (k, st) = ((k', st'), r) \<Longrightarrow> dk_path k' = dk_path k \<and> dk_state k' = dk_state k \<and>
     dk_primary_id k' = dk_primary_id k \<and> dk_messages k' = dk_messages k"
  using drop_fds_frame [of "an_num_fds (dp_ancillary p)" k]
  by (auto simp: serialize_to_stream_def Let_def split: prod.splits outcome.splits if_splits question_splits)

lemma recvmsg_inner_frame:
  "dgram_recvmsg_inner E p (k, st) = ((k', st'), r) \<Longrightarrow> dk_path k' = dk_path k \<and> dk_state k' = dk_state k \<and>
     dk_primary_id k' = dk_primary_id k \<and> dk_messages k' = dk_messages k"
  by (auto simp: dgram_recvmsg_inner_def Let_def split: prod.splits question_splits dest: serialize_frame)

lemma dgram_inv_handlers:
  assumes "dgram_inv s"
  shows "dgram_handle_connect i buf s = (s', r) \<Longrightarrow> dgram_inv s'"
    "dgram_handle_setsockopt E i opt buf s = (s', r) \<Longrightarrow> dgram_inv s'"
    "dgram_handle_recvfd i s = (s', r') \<Longrightarrow> dgram_inv s'"
  using assms by (auto simp: dgram_handle_connect_def dgram_handle_setsockopt_def dgram_handle_recvfd_def Let_def
      split: question_splits if_splits list.splits intro!: dgram_inv_set_cell)

lemma dgram_inv_sendmsg:
  assumes "dgram_inv s" "dgram_handle_sendmsg E i buf ctx s = (s', r)"
  shows "dgram_inv s'"
proof -
  have inner: "dgram_inv t" if "dgram_sendmsg_inner E b name buf ctx s = (t, q)" for t q b name
    using that assms(1) by (auto simp: dgram_sendmsg_inner_def Let_def split: question_splits if_splits prod.splits intro!: dgram_inv_set_cell)
  show ?thesis using assms
    by (auto simp: dgram_handle_sendmsg_def Let_def then_do_def
        split: question_splits if_splits prod.splits outcome.splits dest: inner dgram_inv_post)
qed

lemma dgram_inv_recvmsg:
  assumes "dgram_inv s" "dgram_handle_recvmsg E i buf s = ((s', buf'), r)"
  shows "dgram_inv s'"
  using assms by (auto simp: dgram_handle_recvmsg_def Let_def split: question_splits if_splits prod.splits list.splits
      intro!: dgram_inv_set_cell dest: recvmsg_inner_frame)

lemma dgram_inv_bump:
  "bump_next_id s = (s', r) \<Longrightarrow> r \<noteq> Panic \<Longrightarrow> s' = s\<lparr>us_next_id := us_next_id s + 1\<rparr>"
  by (auto simp: bump_next_id_def split: question_splits)

lemma dgram_open_keeps: "keeps dgram_inv (dgram_open path flags ctx)"
proof (rule keepsI)
  fix s s' r assume "dgram_inv s" "dgram_open path flags ctx s = (s', r)" "r \<noteq> Panic"
  then show "dgram_inv s'"
    using dgram_inv_insert [of s "dgram_socket_default\<lparr>dk_flags := flags, dk_primary_id := us_next_id s\<rparr>"]
    by (auto simp: dgram_open_def Let_def then_do_def bump_next_id_def dgram_socket_default_def
        split: question_splits if_splits prod.splits outcome.splits)
qed

lemma dgram_pair_keeps:
  assumes inv: "dgram_inv s" and run: "dgram_handle_connect_socketpair E i s = (s', r)" "r \<noteq> Panic"
  shows "dgram_inv s'"
proof (cases "us_sockets s i")
  case None
  then show ?thesis using assms by (simp add: dgram_handle_connect_socketpair_def Let_def get_socket_def)
next
  case (Some a)
  let ?K = "ue_abi E"
  let ?k = "(us_cells s a)\<lparr>dk_peer := Some (us_next_id s)\<rparr>"
  show ?thesis
  proof (cases "dk_state (us_cells s a) = DgClosed")
    case False
    obtain s1 q where post: "uds_post_fevent E i (EVENT_READ ?K OR EVENT_WRITE ?K) (set_cell a ?k s) = (s1, q)" by fastforce
    have inv1: "dgram_inv s1" using dgram_inv_post [OF post] dgram_inv_set_cell [OF inv, of ?k a] by simp
    have "us_next_id s1 = us_next_id s" using post_fevent_state(4) [OF post] by simp
    then have "dgram_inv ((insert_socket (us_next_id s) (dgram_socket_default\<lparr>dk_primary_id := us_next_id s, dk_peer := Some i\<rparr>) s1)\<lparr>us_next_id := us_next_id s + 1\<rparr>)"
      using dgram_inv_insert [OF inv1, of "dgram_socket_default\<lparr>dk_primary_id := us_next_id s, dk_peer := Some i\<rparr>"]
      by (simp add: dgram_socket_default_def)
    then show ?thesis using run Some False post inv1 post_fevent_state(4) [OF post]
      by (cases q) (auto simp: dgram_handle_connect_socketpair_def get_socket_def Let_def bump_next_id_def split: question_splits)
  qed (use assms Some in \<open>simp add: dgram_handle_connect_socketpair_def Let_def get_socket_def\<close>)
qed

lemma dgram_dup_keeps: "keeps dgram_inv (dgram_dup E i buf ctx)"
proof (rule keepsI)
  fix s s' r assume inv: "dgram_inv s" and run: "dgram_dup E i buf ctx s = (s', r)" "r \<noteq> Panic"
  have "dgram_inv t" if "dgram_handle_listen i s = (t, q)" "q \<noteq> Panic" for t q
    using that inv dgram_inv_alias [OF inv] dgram_invD(2) [OF inv]
    by (auto simp: dgram_handle_listen_def Let_def bump_next_id_def then_do_def split: question_splits)
  with run inv show "dgram_inv s'"
    by (auto simp: dgram_dup_def split: if_splits intro: dgram_pair_keeps dgram_inv_handlers)
qed

lemma dgram_call_keeps: "keeps_with dgram_inv (dgram_call E i buf metadata ctx)"
proof (rule keeps_withI)
  fix s s' b r assume inv: "dgram_inv s" and run: "dgram_call E i buf metadata ctx s = ((s', b), r)" "r \<noteq> Panic"
  then show "dgram_inv s'"
    by (auto simp: dgram_call_def no_payload_def dgram_handle_getsockopt_def dgram_handle_get_token_def dgram_handle_get_peer_name_def Let_def
        split: question_splits option.splits socket_call.splits if_splits prod.splits
        intro: dgram_inv_bind dgram_inv_unbind dgram_inv_handlers dgram_inv_sendmsg dgram_inv_recvmsg)
qed

lemma dgram_write_keeps: "keeps dgram_inv (dgram_write E i buf off ff ctx)"
proof (rule keepsI)
  fix s s' r assume inv: "dgram_inv s" and run: "dgram_write E i buf off ff ctx s = (s', r)" "r \<noteq> Panic"
  then show "dgram_inv s'"
    by (auto simp: dgram_write_def Let_def then_do_def split: question_splits if_splits prod.splits outcome.splits
        dest!: dgram_inv_post intro!: dgram_inv_set_cell)
qed

lemma dgram_fd_keeps: "keeps dgram_inv (dgram_on_sendfd E q)" "keeps dgram_inv (dgram_on_recvfd E q)"
proof -
  show "keeps dgram_inv (dgram_on_sendfd E q)"
  proof (rule keepsI)
    fix s s' r assume inv: "dgram_inv s" and run: "dgram_on_sendfd E q s = (s', r)" "r \<noteq> Panic"
    then show "dgram_inv s'"
      by (auto simp: dgram_on_sendfd_def Let_def then_do_def split: question_splits if_splits prod.splits outcome.splits
          dest!: dgram_inv_post intro!: dgram_inv_set_cell)
  qed
  show "keeps dgram_inv (dgram_on_recvfd E q)"
    by (rule keepsI) (auto simp: dgram_on_recvfd_def Let_def split: question_splits if_splits outcome.splits intro!: dgram_inv_set_cell)
qed

interpretation dgram: scheme_methods "dgram_scheme E" dgram_inv for E
proof unfold_locales
  show "keeps_with dgram_inv (sc_read (dgram_scheme E) fd buf off ff ctx)" for fd buf off ff ctx
    by (rule keeps_withI) (auto simp: dgram_scheme_def dgram_read_def Let_def split: question_splits if_splits list.splits intro!: dgram_inv_set_cell)
  show "keeps dgram_inv (sc_fcntl (dgram_scheme E) fd cmd arg ctx)" for fd cmd arg ctx
    by (rule keepsI) (auto simp: dgram_scheme_def dgram_fcntl_def Let_def split: question_splits if_splits intro!: dgram_inv_set_cell)
  show "keeps dgram_inv (sc_on_close (dgram_scheme E) fd)" for fd
  proof (rule keepsI)
    fix s s' r assume "dgram_inv s" "sc_on_close (dgram_scheme E) fd s = (s', r)"
    then show "dgram_inv s'" using dgram_inv_close [of s fd] by (simp add: dgram_scheme_def)
  qed
qed (simp_all add: dgram_scheme_def default_scheme_def dgram_open_keeps dgram_dup_keeps dgram_call_keeps dgram_write_keeps dgram_fd_keeps,
    (auto simp: keeps_def keeps_with_def dgram_fpath_def dgram_fsync_def dgram_fevent_def dgram_fstat_def Let_def
      split: question_splits prod.splits)+)

end
