(* ===== verification/Uds_Message.thy ===== *)
theory Uds_Message
  imports Uds
begin

text \<open>
  The format of a message: what the writer of received messages puts into a buffer that is large
  enough, and that a message in the format of \<open>sendmsg\<close> is read as what it was made of.
\<close>

section \<open>The writer\<close>

text \<open>The writer has written these bytes.\<close>

definition wrote :: "msg_writer \<Rightarrow> nat \<Rightarrow> u8 list \<Rightarrow> bool" where
  "wrote w len bs \<longleftrightarrow> length (mw_buffer w) = len \<and> mw_written w = length bs \<and> length bs \<le> len \<and> take (length bs) (mw_buffer w) = bs"

lemma wrote_append:
  assumes "wrote w len bs" "length bs + length new \<le> len"
  shows "wrote (w\<lparr>mw_buffer := copy_into (mw_buffer w) (mw_written w) new, mw_written := mw_written w + length new\<rparr>) len (bs @ new)"
  using assms by (simp add: wrote_def copy_into_def)

lemma wrote_append2:
  assumes "wrote w len bs" "length bs + (length new1 + length new2) \<le> len"
  shows "wrote (w\<lparr>mw_buffer := copy_into (copy_into (mw_buffer w) (mw_written w) new1) (mw_written w + length new1) new2,
      mw_written := mw_written w + length new1 + length new2\<rparr>) len (bs @ new1 @ new2)"
  using wrote_append [OF wrote_append [OF assms(1), of new1], of new2] assms(2) by simp

definition cmsg_bytes :: "u32 \<Rightarrow> u32 \<Rightarrow> u8 list \<Rightarrow> u8 list" where
  "cmsg_bytes level ty bytes = to_le 4 (unat level) @ to_le 4 (unat ty) @ to_le 8 (length bytes) @ bytes"

lemma length_cmsg_bytes [simp]: "length (cmsg_bytes level ty bytes) = 16 + length bytes"
  by (simp add: cmsg_bytes_def)

lemma write_cmsg_wrote:
  assumes "wrote w len bs" "length bs + length (cmsg_bytes level ty bytes) \<le> len"
  shows "\<exists>w'. write_cmsg level ty bytes w = (w', True) \<and> wrote w' len (bs @ cmsg_bytes level ty bytes)"
proof -
  have "write_cmsg level ty bytes w = (w\<lparr>mw_buffer := copy_into (mw_buffer w) (mw_written w) (cmsg_bytes level ty bytes),
      mw_written := mw_written w + length (cmsg_bytes level ty bytes)\<rparr>, True)"
    using assms by (simp add: write_cmsg_def wrote_def Let_def cmsg_bytes_def)
  then show ?thesis using wrote_append [OF assms] by simp
qed

text \<open>The control message that announces descriptors; there is none for no descriptors.\<close>

definition rights_bytes :: "uds_env \<Rightarrow> nat \<Rightarrow> u8 list" where
  "rights_bytes E n = (if n = 0 then [] else cmsg_bytes (ue_SOL_SOCKET E) (ue_SCM_RIGHTS E) (to_le 8 n))"

definition cred_bytes :: "uds_env \<Rightarrow> credential \<Rightarrow> u8 list" where
  "cred_bytes E c = cmsg_bytes (ue_SOL_SOCKET E) SCM_CREDENTIALS
     (to_le 4 (unat (cr_pid c)) @ to_le 4 (unat (cr_uid c)) @ to_le 4 (unat (cr_gid c)))"

lemma write_rights_wrote:
  assumes "wrote w len bs" "length bs + length (rights_bytes E n) \<le> len"
  shows "\<exists>w'. write_rights E n w = (w', True) \<and> wrote w' len (bs @ rights_bytes E n)"
  using assms write_cmsg_wrote [OF assms(1), of "ue_SOL_SOCKET E" "ue_SCM_RIGHTS E" "to_le 8 n"]
  by (auto simp: write_rights_def rights_bytes_def split: if_splits)

lemma write_credentials_wrote:
  assumes "wrote w len bs" "length bs + length (cred_bytes E c) \<le> len"
  shows "\<exists>w'. write_credentials E c w = (w', True) \<and> wrote w' len (bs @ cred_bytes E c)"
  using write_cmsg_wrote [OF assms(1)] assms(2) by (simp add: write_credentials_def cred_bytes_def)

lemma write_payload_wrote:
  assumes "wrote w len bs" "length bs + 8 + length payload \<le> len" "length payload \<le> iov"
  shows "\<exists>w'. write_payload payload (length payload) iov w = (w', Ok (length payload)) \<and>
    wrote w' len (bs @ to_le 8 (length payload) @ payload)"
  using assms wrote_append2 [OF assms(1), of "to_le 8 (length payload)" payload]
  by (auto simp: write_payload_def Let_def wrote_def min_def)

text \<open>The name, by the prefix of the scheme, or a length of zero.\<close>

definition name_bytes :: "string \<Rightarrow> string option \<Rightarrow> u8 list" where
  "name_bytes scheme name = (case name of
       None \<Rightarrow> to_le 8 0
     | Some path \<Rightarrow> to_le 8 (length scheme + length path) @ bytes_of scheme @ bytes_of path)"

lemma fpath_inner_eq:
  assumes "length buf = n" "length scheme + length path \<le> n"
  shows "fpath_inner scheme path buf =
    (bytes_of scheme @ bytes_of path @ drop (length scheme + length path) buf, Ok (length scheme + length path))"
proof -
  have "copy_into (copy_into buf 0 (bytes_of scheme)) (length scheme) (bytes_of path) =
      bytes_of scheme @ bytes_of path @ drop (length scheme + length path) buf"
    using assms by (simp add: copy_into_def add.commute)
  moreover have "length path \<le> n - length scheme" using assms by arith
  ultimately show ?thesis using assms by (simp add: fpath_inner_def Let_def min_def)
qed

lemma to_le_0: "to_le k 0 = replicate k 0"
  by (induction k) simp_all

lemma from_le_zeros: "from_le (replicate k 0) = 0"
  by (induction k) simp_all

lemma write_name_wrote:
  assumes len: "length buf = len" "8 \<le> len" "take 8 buf = replicate 8 0"
    and room: "\<And>path. name = Some path \<Longrightarrow> length scheme + length path \<le> nl \<and> 8 + length scheme + length path \<le> len"
  shows "\<exists>w'. write_name name nl (fpath_inner scheme) (writer_new buf) = (w', Ok ()) \<and> wrote w' len (name_bytes scheme name)"
proof (cases name)
  case None
  then show ?thesis using len by (simp add: write_name_def writer_new_def wrote_def name_bytes_def to_le_0)
next
  case (Some path)
  let ?m = "length scheme + length path"
  have m: "?m \<le> nl" "8 + ?m \<le> len" using room [OF Some] by auto
  let ?t = "take (min nl (len - 8)) (drop 8 buf)"
  have t: "length ?t = min nl (len - 8)" "?m \<le> min nl (len - 8)" using len m by auto
  let ?full = "bytes_of scheme @ bytes_of path @ drop ?m ?t"
  have "copy_into (copy_into buf 8 ?full) 0 (to_le 8 ?m) = to_le 8 ?m @ ?full @ drop (8 + length ?full) buf"
    using len by (simp add: copy_into_def)
  then show ?thesis using len m fpath_inner_eq [OF t]
    by (auto simp: write_name_def writer_new_def Some name_bytes_def wrote_def Let_def)
qed

section \<open>Reading a message\<close>

lemma read_num_to_le: "n < 256 ^ k \<Longrightarrow> read_num k (to_le k n @ rest) = Ok n"
  by (simp add: read_num_def get_range_def from_le_to_le)

lemma read_u32_to_le: "read_u32 (to_le 4 (unat x) @ rest) = Ok x"
  using read_num_to_le [of "unat x" 4 rest] unsigned_less [where 'a = nat, of x] by (simp add: read_u32_def)

lemma read_u64_to_le: "read_u64 (to_le 8 (unat x) @ rest) = Ok x"
  using read_num_to_le [of "unat x" 8 rest] unsigned_less [where 'a = nat, of x] by (simp add: read_u64_def)

lemma read_usize_to_le: "n < usize_range \<Longrightarrow> read_usize (to_le 8 n @ rest) = Ok n"
  using read_num_to_le [of n 8 rest] by (simp add: read_usize_def)

lemma cmsg_from_bytes:
  assumes "length bytes < usize_range"
  shows "cmsg_from_stream (cmsg_bytes level ty bytes @ rest) = Ok (Some \<lparr>cm_level = level, cm_type = ty, cm_data_len = length bytes\<rparr>)"
  using assms by (simp add: cmsg_from_stream_def cmsg_bytes_def slice_from_def read_u32_to_le read_usize_to_le)

lemma cmsgs_end: "and_then (slice_from stream c) cmsg_from_stream = Ok None \<Longrightarrow> cmsgs_from_stream E stream c m = Ok m"
  by (simp add: cmsgs_from_stream.simps)

lemma cmsgs_step:
  "\<lbrakk>and_then (slice_from stream c) cmsg_from_stream = Ok (Some hdr); c + 16 + cm_data_len hdr < usize_range;
    get_range stream (c + 16) (c + 16 + cm_data_len hdr) = Some bytes\<rbrakk> \<Longrightarrow>
   cmsgs_from_stream E stream c m =
     and_then (apply_cmsg E hdr bytes m) (cmsgs_from_stream E stream (c + 16 + cm_data_len hdr))"
  by (subst cmsgs_from_stream.simps) (simp add: Let_def usize_add_def)

text \<open>A message as \<open>sendmsg\<close> takes it: the payload with its length, and the descriptors announced.\<close>

definition message_bytes :: "uds_env \<Rightarrow> u8 list \<Rightarrow> nat \<Rightarrow> u8 list" where
  "message_bytes E payload n = to_le 8 (length payload) @ payload @ rights_bytes E n"

lemma packet_from_message:
  assumes "length payload + 40 < usize_range" "n < usize_range"
  shows "packet_from_stream E (message_bytes E payload n) name cred =
    Ok (packet_new payload ((ancillary_new cred name)\<lparr>an_num_fds := n\<rparr>))"
proof -
  let ?p = "packet_new payload (ancillary_new cred name)"
  let ?st = "message_bytes E payload n"
  have "packet_from_stream E ?st name cred = cmsgs_from_stream E ?st (8 + length payload) ?p"
    using assms by (simp add: packet_from_stream_def message_bytes_def read_usize_to_le get_range_def usize_add_def)
  also have "\<dots> = Ok (?p\<lparr>dp_ancillary := (dp_ancillary ?p)\<lparr>an_num_fds := n\<rparr>\<rparr>)"
  proof (cases "n = 0")
    case True
    then have "slice_from ?st (8 + length payload) = Ok []" by (simp add: slice_from_def message_bytes_def rights_bytes_def)
    then show ?thesis using True by (simp add: cmsgs_end cmsg_from_stream_def packet_new_def ancillary_new_def)
  next
    case False
    let ?hdr = "\<lparr>cm_level = ue_SOL_SOCKET E, cm_type = ue_SCM_RIGHTS E, cm_data_len = 8\<rparr>"
    have st: "?st = to_le 8 (length payload) @ payload @ cmsg_bytes (ue_SOL_SOCKET E) (ue_SCM_RIGHTS E) (to_le 8 n)"
      using False by (simp add: message_bytes_def rights_bytes_def)
    have len: "length ?st = length payload + 32" by (simp add: st)
    have hdr: "and_then (slice_from ?st (8 + length payload)) cmsg_from_stream = Ok (Some ?hdr)"
      using cmsg_from_bytes [of "to_le 8 n" "ue_SOL_SOCKET E" "ue_SCM_RIGHTS E" "[]"] by (simp add: slice_from_def st)
    have bytes: "get_range ?st (8 + length payload + 16) (8 + length payload + 16 + 8) = Some (to_le 8 n)"
      by (simp add: get_range_def st cmsg_bytes_def)
    have rd: "read_usize (to_le 8 n) = Ok n" using read_usize_to_le [OF assms(2), of "[]"] by simp
    have rest: "and_then (slice_from ?st (8 + length payload + 16 + 8)) cmsg_from_stream = Ok None"
      by (simp add: slice_from_def len cmsg_from_stream_def)
    show ?thesis using cmsgs_step [OF hdr, of "to_le 8 n" E ?p] cmsgs_end [OF rest] assms bytes
      by (simp add: apply_cmsg_def rd usize_add_def packet_new_def ancillary_new_def)
  qed
  finally show ?thesis by (simp add: packet_new_def)
qed

text \<open>The payload of a message in the format of a call.\<close>

definition msg_payload :: "u8 list \<Rightarrow> u8 list" where
  "msg_payload stream = take (from_le (take 8 stream)) (drop 8 stream)"

text \<open>The control messages change the ancillary data only.\<close>

lemma cmsgs_field:
  assumes "cmsgs_from_stream E stream cursor m = Ok m'" "\<And>m x. f (m\<lparr>dp_ancillary := x\<rparr>) = f m"
  shows "f m' = f m"
  using assms
proof (induction E stream cursor m rule: cmsgs_from_stream.induct)
  case (1 E stream cursor m)
  show ?case
  proof (cases "and_then (slice_from stream cursor) cmsg_from_stream")
    case (Ok h)
    show ?thesis
    proof (cases h)
      case None
      then show ?thesis using Ok "1.prems" by (simp add: cmsgs_from_stream.simps)
    next
      case (Some hdr)
      from "1.prems"(1) obtain c2 ds m1 where "usize_add (cursor + CMSG_HEADER_LEN_IN_STREAM) (cm_data_len hdr) = Ok c2"
        "ok_or EINVAL (get_range stream (cursor + CMSG_HEADER_LEN_IN_STREAM) c2) = Ok ds" "apply_cmsg E hdr ds m = Ok m1"
        "cmsgs_from_stream E stream c2 m1 = Ok m'"
        by (subst (asm) cmsgs_from_stream.simps) (auto simp del: usize_add_eq_Ok ok_or_eq_Ok simp: Ok Some Let_def and_then_eq_Ok)
      moreover from this have "f m1 = f m" using "1.prems"(2) by (auto simp: apply_cmsg_def and_then_eq_Ok split: if_splits)
      ultimately show ?thesis using "1.IH" [OF Ok Some refl] "1.prems"(2) by metis
    qed
  qed (use "1.prems" in \<open>simp_all add: cmsgs_from_stream.simps\<close>)
qed

lemma cmsgs_payload: "cmsgs_from_stream E stream cursor m = Ok m' \<Longrightarrow> dp_payload m' = dp_payload m"
  by (rule cmsgs_field [where f = dp_payload]) simp_all

lemma packet_payload: "packet_from_stream E stream name cred = Ok m \<Longrightarrow> dp_payload m = msg_payload stream"
  by (auto simp: packet_from_stream_def and_then_eq_Ok read_usize_def read_num_def get_range_def packet_new_def msg_payload_def
      dest!: cmsgs_payload split: option.splits if_splits)

lemma cmsgs_offset: "cmsgs_from_stream E stream cursor m = Ok m' \<Longrightarrow> dp_read_offset m' = dp_read_offset m"
  by (rule cmsgs_field [where f = dp_read_offset]) simp_all

lemma packet_offset: "packet_from_stream E stream name cred = Ok m \<Longrightarrow> dp_read_offset m = 0"
  by (auto simp: packet_from_stream_def and_then_eq_Ok packet_new_def dest!: cmsgs_offset)

text \<open>The sizes in front of a buffer for \<open>recvmsg\<close>.\<close>

definition msghdr_bytes :: "nat \<Rightarrow> nat \<Rightarrow> nat \<Rightarrow> u8 list" where
  "msghdr_bytes name_len iov_size controllen = to_le 8 name_len @ to_le 8 iov_size @ to_le 8 controllen"

lemma read_msghdr_bytes:
  assumes "name_len < usize_range" "iov_size < usize_range" "controllen < usize_range"
  shows "read_msghdr_info (msghdr_bytes name_len iov_size controllen @ rest) = (replicate 24 0 @ rest, Ok (name_len, iov_size, controllen))"
proof -
  let ?st = "msghdr_bytes name_len iov_size controllen @ rest"
  have "read_usize ?st = Ok name_len" "read_usize (drop 8 ?st) = Ok iov_size" "read_usize (drop 16 ?st) = Ok controllen"
    using assms by (simp_all add: msghdr_bytes_def read_usize_to_le)
  then show ?thesis by (simp add: read_msghdr_info_def copy_into_def msghdr_bytes_def)
qed

section \<open>Messages that overflow\<close>

text \<open>
  A message with a control message after the other: \<open>accepted_cmsg\<close> are those that the code takes, and
  \<open>announced_fds\<close> is the number of descriptors that one announces. The message overflows when the end of
  its payload or of a control message, or the number of descriptors, is out of the range of a \<open>usize\<close>.
\<close>

definition accepted_cmsg :: "uds_env \<Rightarrow> u32 \<times> u32 \<times> u8 list \<Rightarrow> bool" where
  "accepted_cmsg E = (\<lambda>(level, ty, data). level = ue_SOL_SOCKET E \<and>
     (if ty = ue_SCM_RIGHTS E then 8 \<le> length data else ty = SCM_CREDENTIALS))"

definition announced_fds :: "uds_env \<Rightarrow> u32 \<times> u32 \<times> u8 list \<Rightarrow> nat" where
  "announced_fds E = (\<lambda>(level, ty, data). if ty = ue_SCM_RIGHTS E then from_le (take 8 data) else 0)"

definition all_cmsg_bytes :: "(u32 \<times> u32 \<times> u8 list) list \<Rightarrow> u8 list" where
  "all_cmsg_bytes cs = concat (map (\<lambda>(level, ty, data). cmsg_bytes level ty data) cs)"

text \<open>From a position in the message, with some descriptors announced before it.\<close>

definition cmsgs_overflow :: "uds_env \<Rightarrow> nat \<Rightarrow> u8 list \<Rightarrow> nat \<Rightarrow> bool" where
  "cmsgs_overflow E position stream fds \<longleftrightarrow> (\<exists>cs rest. stream = all_cmsg_bytes cs @ rest \<and> list_all (accepted_cmsg E) cs \<and>
     (usize_range \<le> fds + sum_list (map (announced_fds E) cs) \<or>
      16 \<le> length rest \<and> usize_range \<le> position + length (all_cmsg_bytes cs) + 16 + from_le (take 8 (drop 8 rest))))"

definition message_overflows :: "uds_env \<Rightarrow> u8 list \<Rightarrow> bool" where
  "message_overflows E stream \<longleftrightarrow> 8 \<le> length stream \<and> (let n = from_le (take 8 stream) in
     usize_range \<le> 8 + n \<or> 8 + n \<le> length stream \<and> cmsgs_overflow E (8 + n) (drop (8 + n) stream) 0)"

lemma to_le_from_le: "length bs = k \<Longrightarrow> to_le k (from_le bs) = bs"
proof (induction bs arbitrary: k)
  case (Cons b bs)
  have "unat b < 256" using unsigned_less [where 'a = nat, of b] by simp
  then show ?case using Cons by auto
qed simp

lemma cmsg_from_stream_eq:
  assumes "16 \<le> length bs"
  shows "cmsg_from_stream bs = Ok (Some \<lparr>cm_level = word_of_nat (from_le (take 4 bs)), cm_type = word_of_nat (from_le (take 4 (drop 4 bs))),
    cm_data_len = from_le (take 8 (drop 8 bs))\<rparr>)"
proof -
  have "8 \<le> length bs - 8" "4 \<le> length bs - 4" using assms by arith+
  then show ?thesis
    using assms by (simp add: cmsg_from_stream_def read_u32_def read_usize_def read_num_def get_range_def slice_from_def)
qed

lemma cmsg_bytes_of_stream:
  assumes "cmsg_from_stream bs = Ok (Some hdr)" "16 + cm_data_len hdr \<le> length bs"
  shows "bs = cmsg_bytes (cm_level hdr) (cm_type hdr) (take (cm_data_len hdr) (drop 16 bs)) @ drop (16 + cm_data_len hdr) bs"
proof -
  have len: "16 \<le> length bs" using assms(2) by simp
  have w: "to_le 4 (unat (word_of_nat (from_le xs) :: u32)) = xs" if "length xs = 4" for xs
    using that from_le_less [of xs] by (simp add: unsigned_of_nat take_bit_nat_eq_self to_le_from_le)
  have "bs = take 4 bs @ take 4 (drop 4 bs) @ take 8 (drop 8 bs) @ drop 16 bs"
    by (metis append_take_drop_id drop_drop numeral_Bit0 add.commute numeral_plus_numeral)
  moreover have "drop 16 bs = take (cm_data_len hdr) (drop 16 bs) @ drop (16 + cm_data_len hdr) bs"
    by (metis append_take_drop_id drop_drop add.commute)
  ultimately have "bs = take 4 bs @ take 4 (drop 4 bs) @ take 8 (drop 8 bs) @ take (cm_data_len hdr) (drop 16 bs) @
      drop (16 + cm_data_len hdr) bs" by simp
  moreover have "length (take (cm_data_len hdr) (drop 16 bs)) = cm_data_len hdr" using assms(2) by simp
  moreover have "hdr = \<lparr>cm_level = word_of_nat (from_le (take 4 bs)), cm_type = word_of_nat (from_le (take 4 (drop 4 bs))),
    cm_data_len = from_le (take 8 (drop 8 bs))\<rparr>" using assms(1) cmsg_from_stream_eq [OF len] by simp
  moreover have "to_le 8 (from_le (take 8 (drop 8 bs))) = take 8 (drop 8 bs)" using len by (simp add: to_le_from_le)
  ultimately show ?thesis
    using len by (simp add: cmsg_bytes_def w)
qed

lemma cmsg_bytes_parse:
  assumes "bs = cmsg_bytes level ty data @ rest" "length bs < usize_range" "cmsg_from_stream bs = Ok (Some hdr)"
  shows "(level, ty, data) = (cm_level hdr, cm_type hdr, take (cm_data_len hdr) (drop 16 bs))"
    and "length data = cm_data_len hdr" and "rest = drop (16 + cm_data_len hdr) bs"
  using assms cmsg_from_bytes [of data level ty rest] by (auto simp: cmsg_bytes_def)

lemma cmsgs_overflow_short: "fds < usize_range \<Longrightarrow> length bs < 16 \<Longrightarrow> \<not> cmsgs_overflow E position bs fds"
proof
  assume *: "fds < usize_range" "length bs < 16" "cmsgs_overflow E position bs fds"
  then obtain cs rest where "bs = all_cmsg_bytes cs @ rest" "usize_range \<le> fds + sum_list (map (announced_fds E) cs)"
    by (auto simp: cmsgs_overflow_def)
  then show False using *(1,2) by (cases cs) (auto simp: all_cmsg_bytes_def split: prod.splits)
qed

lemma cmsgs_overflow_step:
  assumes hdr: "cmsg_from_stream bs = Ok (Some hdr)" and len: "length bs < usize_range" "16 \<le> length bs" and fds: "fds < usize_range"
    and no: "position + 16 + cm_data_len hdr < usize_range"
  defines "c \<equiv> (cm_level hdr, cm_type hdr, take (cm_data_len hdr) (drop 16 bs))"
  shows "cmsgs_overflow E position bs fds \<longleftrightarrow> 16 + cm_data_len hdr \<le> length bs \<and> accepted_cmsg E c \<and>
    cmsgs_overflow E (position + 16 + cm_data_len hdr) (drop (16 + cm_data_len hdr) bs) (fds + announced_fds E c)"
    (is "?L \<longleftrightarrow> ?R")
proof
  have n: "cm_data_len hdr = from_le (take 8 (drop 8 bs))" using hdr cmsg_from_stream_eq [OF len(2)] by auto
  assume ?L
  then obtain cs rest where cs: "bs = all_cmsg_bytes cs @ rest" "list_all (accepted_cmsg E) cs"
    "usize_range \<le> fds + sum_list (map (announced_fds E) cs) \<or>
      16 \<le> length rest \<and> usize_range \<le> position + length (all_cmsg_bytes cs) + 16 + from_le (take 8 (drop 8 rest))"
    unfolding cmsgs_overflow_def by blast
  then obtain level ty data cs' where c': "cs = (level, ty, data) # cs'" using fds no n
    by (cases cs) (auto simp: all_cmsg_bytes_def)
  have bs: "bs = cmsg_bytes level ty data @ all_cmsg_bytes cs' @ rest" using cs(1) c' by (simp add: all_cmsg_bytes_def)
  note p = cmsg_bytes_parse [OF bs len(1) hdr]
  have c: "(level, ty, data) = c" using p(1) unfolding c_def .
  have l: "length (all_cmsg_bytes cs) = 16 + cm_data_len hdr + length (all_cmsg_bytes cs')"
    using p(2) by (simp add: c' all_cmsg_bytes_def)
  have "cmsgs_overflow E (position + 16 + cm_data_len hdr) (all_cmsg_bytes cs' @ rest) (fds + announced_fds E c)"
    unfolding cmsgs_overflow_def using cs(2,3) c l by (intro exI [of _ cs'] exI [of _ rest]) (auto simp: c' ac_simps)
  moreover have "16 + cm_data_len hdr \<le> length bs" using p(2) by (simp add: bs)
  ultimately show ?R using p(3) cs(2) c by (simp add: c')
next
  assume R: ?R
  then obtain cs rest where cs: "drop (16 + cm_data_len hdr) bs = all_cmsg_bytes cs @ rest" "list_all (accepted_cmsg E) cs"
    "usize_range \<le> fds + announced_fds E c + sum_list (map (announced_fds E) cs) \<or>
      16 \<le> length rest \<and> usize_range \<le> position + 16 + cm_data_len hdr + length (all_cmsg_bytes cs) + 16 + from_le (take 8 (drop 8 rest))"
    unfolding cmsgs_overflow_def by blast
  have "length (all_cmsg_bytes (c # cs)) = 16 + cm_data_len hdr + length (all_cmsg_bytes cs)"
    using conjunct1 [OF R] by (simp add: all_cmsg_bytes_def c_def min_absorb2 le_diff_conv2 add.commute)
  moreover have "bs = all_cmsg_bytes (c # cs) @ rest"
    using cmsg_bytes_of_stream [OF hdr] R cs(1) by (simp add: all_cmsg_bytes_def c_def)
  ultimately show ?L unfolding cmsgs_overflow_def using cs(2,3) R
    by (intro exI [of _ "c # cs"] exI [of _ rest]) (auto simp: ac_simps)
qed

lemma apply_cmsg_cases:
  fixes E :: uds_env and hdr :: cmsg_header and data :: "u8 list"
  assumes "an_num_fds (dp_ancillary m) < usize_range"
  defines "k \<equiv> announced_fds E (cm_level hdr, cm_type hdr, data)"
  shows "if \<not> accepted_cmsg E (cm_level hdr, cm_type hdr, data) then \<exists>e. apply_cmsg E hdr data m = Err e
    else if usize_range \<le> an_num_fds (dp_ancillary m) + k then apply_cmsg E hdr data m = Panic
    else \<exists>m'. apply_cmsg E hdr data m = Ok m' \<and> an_num_fds (dp_ancillary m') = an_num_fds (dp_ancillary m) + k"
  using assms by (auto simp: accepted_cmsg_def announced_fds_def apply_cmsg_def read_usize_def read_num_def get_range_def usize_add_def)

lemma cmsgs_overflow_fds: "usize_range \<le> fds \<Longrightarrow> cmsgs_overflow E position bs fds"
  unfolding cmsgs_overflow_def by (intro exI [of _ "[]"] exI [of _ bs]) (simp add: all_cmsg_bytes_def)

lemma cmsgs_panic_iff:
  assumes "length stream < usize_range" "cursor \<le> length stream" "an_num_fds (dp_ancillary m) < usize_range"
  shows "cmsgs_from_stream E stream cursor m = Panic \<longleftrightarrow> cmsgs_overflow E cursor (drop cursor stream) (an_num_fds (dp_ancillary m))"
  using assms
proof (induction E stream cursor m rule: cmsgs_from_stream.induct)
  case (1 E stream cursor m)
  let ?bs = "drop cursor stream"
  have sl: "and_then (slice_from stream cursor) cmsg_from_stream = cmsg_from_stream ?bs" using 1(3) by (simp add: slice_from_def)
  show ?case
  proof (cases "16 \<le> length ?bs")
    case False
    then show ?thesis using sl 1(4) cmsgs_overflow_short by (simp add: cmsgs_end cmsg_from_stream_def)
  next
    case True
    then obtain hdr where hdr: "cmsg_from_stream ?bs = Ok (Some hdr)" "cm_data_len hdr = from_le (take 8 (drop 8 ?bs))"
      using cmsg_from_stream_eq by simp
    let ?n = "cm_data_len hdr"
    let ?data = "take ?n (drop 16 ?bs)"
    note run = cmsgs_from_stream.simps [of E stream cursor m, unfolded sl hdr(1), simplified Let_def]
    show ?thesis
    proof (cases "cursor + 16 + ?n < usize_range")
      case big: False
      have "cmsgs_overflow E cursor ?bs (an_num_fds (dp_ancillary m))" unfolding cmsgs_overflow_def
        using big True hdr(2) by (intro exI [of _ "[]"] exI [of _ ?bs]) (simp add: all_cmsg_bytes_def)
      then show ?thesis using big run by (simp add: usize_add_def)
    next
      case small: True
      have lb: "length ?bs < usize_range" using 1(2) by simp
      note step = cmsgs_overflow_step [OF hdr(1) lb True 1(4) small, of E]
      show ?thesis
      proof (cases "16 + ?n \<le> length ?bs")
        case False
        then have "\<not> cursor + 16 + ?n \<le> length stream" using 1(3) by (simp add: le_diff_conv2 add.commute add.left_commute)
        then show ?thesis using False run small step by (simp add: usize_add_def get_range_def)
      next
        case fits: True
        have g: "get_range stream (cursor + 16) (cursor + 16 + ?n) = Some ?data"
          using fits True by (simp add: get_range_def add.commute)
        have cl: "cursor + 16 + ?n \<le> length stream" using fits 1(3) by (simp add: le_diff_conv2 add.commute add.left_commute)
        have dd: "drop (16 + ?n) ?bs = drop (cursor + 16 + ?n) stream" by (simp add: ac_simps)
        note run2 = cmsgs_step [OF sl [unfolded hdr(1)] small g, of E m]
        note ih = "1.IH" [OF sl [unfolded hdr(1)] refl refl, of "cursor + 16 + ?n" ?data]
        show ?thesis using apply_cmsg_cases [OF 1(4), of E hdr ?data] run2 step [unfolded dd] fits ih small g 1(2) cl
            cmsgs_overflow_fds [of "an_num_fds (dp_ancillary m) + announced_fds E (cm_level hdr, cm_type hdr, ?data)"]
          by (auto simp: usize_add_def split: if_splits)
      qed
    qed
  qed
qed

lemma packet_panic_iff:
  assumes "length stream < usize_range"
  shows "packet_from_stream E stream name cred = Panic \<longleftrightarrow> message_overflows E stream"
proof (cases "8 \<le> length stream")
  case True
  let ?n = "from_le (take 8 stream)"
  have rd: "read_usize stream = Ok ?n" using True by (simp add: read_usize_def read_num_def get_range_def)
  have m: "an_num_fds (dp_ancillary (packet_new p (ancillary_new cred name))) = 0" for p by (simp add: packet_new_def ancillary_new_def)
  show ?thesis
    using True assms cmsgs_panic_iff [OF assms, of "8 + ?n"] m
    by (auto simp: packet_from_stream_def rd usize_add_def get_range_def message_overflows_def Let_def)
qed (simp add: packet_from_stream_def read_usize_def read_num_def get_range_def message_overflows_def)

lemma message_nonempty: "message_overflows E buf \<Longrightarrow> buf \<noteq> []"
  by (auto simp: message_overflows_def)

section \<open>What cannot panic\<close>

lemma header_no_panic: "snd (read_msghdr_info buf) \<noteq> Panic"
  by (auto simp: read_msghdr_info_def read_usize_def read_num_def split: question_splits option.splits)

lemma write_name_no_panic: "snd (write_name name buf_size (fpath_inner scheme) w) \<noteq> Panic"
  by (auto simp: write_name_def fpath_inner_def Let_def split: option.splits if_splits question_splits)

lemma write_payload_no_panic: "full_len \<le> length bytes \<Longrightarrow> snd (write_payload bytes full_len iov_size w) \<noteq> Panic"
  by (auto simp: write_payload_def Let_def split: if_splits)

text \<open>The credentials of a process come in a buffer of the size of \<open>ProcMeta\<close>, which has at least 24 bytes.\<close>

definition credentials_ok :: "uds_env \<Rightarrow> bool" where
  "credentials_ok E \<longleftrightarrow> (\<forall>pid bs. ue_proc_credentials E pid = Some bs \<longrightarrow> 24 \<le> length bs)"

lemma credentials_no_panic:
  assumes "credentials_ok E"
  shows "get_uid_gid_from_pid E pid \<noteq> Panic"
proof (cases "ue_proc_credentials E pid")
  case (Some bs)
  then have "24 \<le> length bs" using assms by (auto simp: credentials_ok_def)
  then have "12 \<le> length bs" by simp
  with \<open>24 \<le> length bs\<close> show ?thesis
    by (auto simp: Some get_uid_gid_from_pid_def read_u32_def read_num_def slice_from_def and_then_eq_Panic split: option.splits)
qed (simp add: get_uid_gid_from_pid_def)

lemma sample_credentials: "credentials_ok sample_uds_env"
  by (simp add: credentials_ok_def sample_uds_env_def)

lemma sample_process: "get_uid_gid_from_pid sample_uds_env pid = Ok (0, 0, 0)"
  by (simp add: get_uid_gid_from_pid_def sample_uds_env_def read_u32_def read_num_def get_range_def slice_from_def from_le_zeros)

text \<open>A message with a length near the end of the range, and an empty one that announces too many descriptors.\<close>

lemma oversized_message: "message_overflows E (to_le 8 (usize_range - 1))"
proof -
  have "from_le (to_le 8 (usize_range - 1)) = usize_range - 1" by (rule from_le_to_le) simp
  then show ?thesis by (simp add: message_overflows_def)
qed

definition overflowing_rights :: "u8 list" where
  "overflowing_rights = to_le 8 0 @ cmsg_bytes 1 1 (to_le 8 (usize_range - 1)) @ cmsg_bytes 1 1 (to_le 8 1)"

lemma oversized_rights: "message_overflows sample_uds_env overflowing_rights"
proof -
  let ?cs = "[(1, 1, to_le 8 (usize_range - 1)), (1, 1, to_le 8 1)] :: (u32 \<times> u32 \<times> u8 list) list"
  have n: "from_le (to_le 8 (usize_range - 1)) = usize_range - 1" "from_le (to_le 8 1) = 1" "from_le (to_le 8 0) = 0"
    by (rule from_le_to_le, simp)+
  have e: "ue_SOL_SOCKET sample_uds_env = 1" "ue_SCM_RIGHTS sample_uds_env = 1" by (simp_all add: sample_uds_env_def)
  have "list_all (accepted_cmsg sample_uds_env) ?cs" by (simp add: accepted_cmsg_def e)
  moreover have "usize_range \<le> sum_list (map (announced_fds sample_uds_env) ?cs)" using n(1,2) by (simp add: announced_fds_def e)
  moreover have "drop 8 overflowing_rights = all_cmsg_bytes ?cs @ []" by (simp add: overflowing_rights_def all_cmsg_bytes_def)
  ultimately have "cmsgs_overflow sample_uds_env 8 (drop 8 overflowing_rights) 0" unfolding cmsgs_overflow_def by (metis add_0)
  then show ?thesis using n(3) by (simp add: message_overflows_def overflowing_rights_def)
qed

end
