(* ===== verification/Uds_Dgram_Properties.thy ===== *)
theory Uds_Dgram_Properties
  imports Uds_Dgram_Proofs Uds_Message
begin

text \<open>
  Properties of the datagram scheme: every socket has a queue of whole datagrams, a message arrives as
  it was sent, and which calls bring the daemon down.
\<close>

section \<open>Queues\<close>

definition queues :: "dgram \<Rightarrow> nat \<Rightarrow> u8 list list" where
  "queues s a = map dp_payload (dk_messages (us_cells s a))"

text \<open>The queues are given, and cells that are not in use hold none.\<close>

definition still :: "(nat \<Rightarrow> u8 list list) \<Rightarrow> dgram \<Rightarrow> bool" where
  "still Q s \<longleftrightarrow> queues s = Q \<and> (\<forall>a \<ge> us_fresh s. dk_messages (us_cells s a) = []) \<and>
     (\<forall>i a. us_sockets s i = Some a \<longrightarrow> a < us_fresh s)"

lemma still_cong:
  assumes "still Q s" "us_cells s' = us_cells s" "us_fresh s' = us_fresh s" "us_sockets s' = us_sockets s"
  shows "still Q s'"
  using assms by (auto simp: still_def queues_def fun_eq_iff)

lemma still_post: "uds_post_fevent E i fl s = (s', r) \<Longrightarrow> still Q s \<Longrightarrow> still Q s'"
  using post_fevent_state [of E i fl s s' r] still_cong by blast

lemma still_set_cell:
  assumes "still Q s" "dk_messages k = dk_messages (us_cells s a)"
  shows "still Q (set_cell a k s)"
  using assms by (auto simp: still_def queues_def fun_eq_iff)

lemma stillD:
  assumes "still Q s"
  shows "map dp_payload (dk_messages (us_cells s a)) = Q a" "us_fresh s \<le> a \<Longrightarrow> dk_messages (us_cells s a) = []"
    "us_sockets s i = Some a \<Longrightarrow> a < us_fresh s"
  using assms by (auto simp: still_def queues_def)

lemma still_insert:
  assumes "still Q s" "dk_messages k = []"
  shows "still Q (insert_socket i k s)" "still Q ((insert_socket i k s)\<lparr>us_next_id := n\<rparr>)"
proof -
  have "Q (us_fresh s) = []" using stillD(1,2) [OF assms(1), of "us_fresh s"] by simp
  then show "still Q (insert_socket i k s)" using assms(2) stillD [OF assms(1)]
    by (auto simp: still_def queues_def fun_eq_iff less_SucI split: if_splits)
  then show "still Q ((insert_socket i k s)\<lparr>us_next_id := n\<rparr>)" by (rule still_cong) simp_all
qed

lemma still_update:
  assumes "still Q s" "us_sockets s i = Some a"
  shows "still (Q(a := map dp_payload (dk_messages k))) (set_cell a k s)"
  using stillD(1,2) [OF assms(1)] stillD(3) [OF assms] stillD(3) [OF assms(1)]
  by (auto simp: still_def queues_def fun_eq_iff)

interpretation quiet: scheme_methods
  "(dgram_scheme E)\<lparr>sc_read := sc_read default_scheme, sc_write := sc_write default_scheme, sc_call := sc_call default_scheme\<rparr>" "still Q" for E Q
proof unfold_locales
  let ?S = "(dgram_scheme E)\<lparr>sc_read := sc_read default_scheme, sc_write := sc_write default_scheme, sc_call := sc_call default_scheme\<rparr>"
  show "keeps (still Q) (sc_open ?S path flags ctx)" for path flags ctx
    by (rule keepsI) (auto simp: dgram_scheme_def dgram_open_def Let_def then_do_def bump_next_id_def dgram_socket_default_def
        split: question_splits if_splits prod.splits outcome.splits intro!: still_insert)
  show "keeps (still Q) (sc_dup ?S fd buf ctx)" for fd buf ctx
  proof (rule keepsI)
    fix s s' r assume s: "still Q s" and run: "sc_dup ?S fd buf ctx s = (s', r)" "r \<noteq> Panic"
    have "still Q t" if "dgram_handle_connect_socketpair E fd s = (t, q)" for t q
      using that s
      by (auto simp: dgram_handle_connect_socketpair_def Let_def then_do_def bump_next_id_def dgram_socket_default_def
          split: question_splits if_splits prod.splits outcome.splits
          intro!: still_insert elim!: still_post intro: still_set_cell)
    moreover have "still Q t" if "dgram_handle_recvfd fd s = (t, q)" for t q
      using that s by (auto simp: dgram_handle_recvfd_def Let_def split: question_splits list.splits intro!: still_set_cell)
    moreover have "still Q t" if "dgram_handle_listen fd s = (t, q)" for t q
      using that s by (auto simp: dgram_handle_listen_def Let_def bump_next_id_def then_do_def still_def queues_def fun_eq_iff split: question_splits if_splits)
    ultimately show "still Q s'" using run s by (auto simp: dgram_scheme_def dgram_dup_def split: if_splits)
  qed
  show "keeps (still Q) (sc_fcntl ?S fd cmd arg ctx)" for fd cmd arg ctx
    by (rule keepsI) (auto simp: dgram_scheme_def dgram_fcntl_def Let_def split: question_splits if_splits intro!: still_set_cell)
  show "keeps (still Q) (sc_on_close ?S fd)" for fd
    by (rule keepsI) (auto simp: dgram_scheme_def dgram_on_close_def Let_def still_def queues_def fun_eq_iff split: option.splits if_splits)
  show "keeps (still Q) (sc_on_sendfd ?S q)" for q
    by (rule keepsI) (auto simp: dgram_scheme_def dgram_on_sendfd_def Let_def then_do_def
        split: question_splits if_splits prod.splits outcome.splits elim!: still_post intro!: still_set_cell)
  show "keeps (still Q) (sc_on_recvfd ?S q)" for q
    by (rule keepsI) (auto simp: dgram_scheme_def dgram_on_recvfd_def Let_def split: question_splits if_splits outcome.splits intro!: still_set_cell)
qed (auto simp: dgram_scheme_def default_scheme_def keeps_def keeps_with_def dgram_fpath_def dgram_fsync_def dgram_fevent_def dgram_fstat_def Let_def
      split: question_splits prod.splits)

section \<open>Sending and receiving\<close>

lemma still_posted [simp]: "still Q (s\<lparr>us_posted := p\<rparr>) = still Q s"
  by (simp add: still_def queues_def fun_eq_iff)

lemma peer_cell:
  assumes "dgram_get_connected_peer i s = Ok (j, b)"
  shows "us_sockets s j = Some b"
  using assms by (auto simp: dgram_get_connected_peer_def and_then_eq_Ok split: outcome.splits if_splits)

lemma peer_not_Panic [simp]: "dgram_get_connected_peer i s \<noteq> Panic"
  by (auto simp: dgram_get_connected_peer_def and_then_eq_Panic split: outcome.splits)

lemma still_push:
  assumes "still Q s" "us_sockets s j = Some b" "dp_payload m = w"
  shows "still (Q(b := Q b @ [w])) (set_cell b ((us_cells s b)\<lparr>dk_messages := dk_messages (us_cells s b) @ [m]\<rparr>) s)"
  using still_update [OF assms(1,2), of "(us_cells s b)\<lparr>dk_messages := dk_messages (us_cells s b) @ [m]\<rparr>"] assms(3)
    stillD(1) [OF assms(1), of b] by simp

lemma still_pop:
  assumes s: "still Q s" "us_sockets s i = Some a" and m: "dk_messages (us_cells s a) = m # dk_messages k"
  shows "still (Q(a := tl (Q a))) (set_cell a k s)"
  using still_update [OF s, of k] m stillD(1) [OF s(1), of a] by (metis list.map_sel(2) list.map_disc_iff list.sel(3) list.distinct(1))

lemma write_effect:
  assumes E: "uds_events_ok E" and s: "still Q s" and run: "dgram_write E i buf off ff ctx s = (s', r)"
  shows "(\<exists>e. r = Err e \<and> still Q s') \<or>
    (\<exists>j b. r = Ok (length buf) \<and> dgram_get_connected_peer i s = Ok (j, b) \<and> still (Q(b := Q b @ [buf])) s')"
proof (cases "s' = s \<and> (\<exists>e. r = Err e)")
  case False
  then obtain j b a where j: "dgram_get_connected_peer i s = Ok (j, b)" "us_sockets s i = Some a"
    using run by (auto simp: dgram_write_def Let_def split: question_splits if_splits prod.splits)
  then show ?thesis using run False
    by (auto simp: dgram_write_def Let_def uds_post_ok [OF E] packet_new_def split: question_splits if_splits
        intro!: still_push [OF s peer_cell [OF j(1)]])
qed (use s in auto)

lemma sendmsg_inner_cases:
  assumes "dgram_sendmsg_inner E b name buf ctx s = (t, q)"
  obtains "t = s" "q = Panic" | e where "t = s" "q = Err e"
  | m where "dp_payload m = msg_payload buf" "q = Ok (length (msg_payload buf))"
      "t = set_cell b ((us_cells s b)\<lparr>dk_messages := dk_messages (us_cells s b) @ [m]\<rparr>) s"
  using assms packet_payload [of E buf name]
  by (auto simp: dgram_sendmsg_inner_def split: question_splits if_splits prod.splits)

lemma sendmsg_effect:
  assumes E: "uds_events_ok E" and s: "still Q s" and run: "dgram_handle_sendmsg E i buf ctx s = (s', r)"
  shows "(\<exists>e. r = Err e \<and> still Q s') \<or> (r = Panic) \<or>
    (\<exists>j b. r = Ok (length (msg_payload buf)) \<and> dgram_get_connected_peer i s = Ok (j, b) \<and> still (Q(b := Q b @ [msg_payload buf])) s')"
proof (cases "\<exists>a j b. us_sockets s i = Some a \<and> dgram_get_connected_peer i s = Ok (j, b) \<and> buf \<noteq> []")
  case False
  then have "s' = s" "\<exists>e. r = Err e"
    using run by (cases "us_sockets s i"; cases "dgram_get_connected_peer i s"; auto simp: dgram_handle_sendmsg_def get_socket_def split: if_splits)+
  then show ?thesis using s by simp
next
  case True
  then obtain a j b where j: "us_sockets s i = Some a" "dgram_get_connected_peer i s = Ok (j, b)" "buf \<noteq> []" by blast
  obtain t q where inner: "dgram_sendmsg_inner E b (dk_path (us_cells s a)) buf ctx s = (t, q)" by fastforce
  have "(s', r) = then_do (t, q) (\<lambda>s1 n. then_do (uds_post_fevent E j (EVENT_READ (ue_abi E)) s1) (\<lambda>s2 _. (s2, Ok n)))"
    using run j inner by (simp add: dgram_handle_sendmsg_def get_socket_def)
  with inner show ?thesis using s j(2)
    by (elim sendmsg_inner_cases) (auto simp: uds_post_ok [OF E] intro!: still_push [OF s peer_cell [OF j(2)]])
qed

lemma recvmsg_effect:
  assumes s: "still Q s" and run: "dgram_handle_recvmsg E i buf s = ((s', buf'), r)"
  shows "still (case us_sockets s i of None \<Rightarrow> Q | Some a \<Rightarrow> Q(a := tl (Q a))) s'"
proof (cases "us_sockets s i")
  case None
  then show ?thesis using s run by (auto simp: dgram_handle_recvmsg_def get_socket_def)
next
  case (Some a)
  show ?thesis
  proof (cases "dk_messages (us_cells s a)")
    case Nil
    then have "Q(a := tl (Q a)) = Q" using stillD(1) [OF s, of a] by (auto simp: fun_eq_iff)
    then show ?thesis using s run Some Nil by (auto simp: dgram_handle_recvmsg_def get_socket_def Let_def split: if_splits)
  next
    case (Cons m ms)
    then show ?thesis using run Some still_pop [OF s Some, of m]
      by (auto simp: dgram_handle_recvmsg_def get_socket_def Let_def split: prod.splits dest!: recvmsg_inner_frame)
  qed
qed

lemma read_effect:
  assumes s: "still Q s" and run: "dgram_read E i buf off ff ctx s = ((s', buf'), r)"
  shows "(\<exists>e. r = Err e \<and> still Q s') \<or> (\<exists>a n. us_sockets s i = Some a \<and> r = Ok n \<and>
    take n buf' = take (length buf) (hd (Q a)) \<and> still (Q(a := tl (Q a))) s')"
proof (cases "s' = s \<and> (\<exists>e. r = Err e)")
  case False
  then obtain a m ms where a: "us_sockets s i = Some a" "dk_messages (us_cells s a) = m # ms"
    using run by (auto simp: dgram_read_def Let_def split: question_splits list.splits if_splits)
  let ?n = "min (length buf) (length (dp_payload m))"
  have "s' = set_cell a ((us_cells s a)\<lparr>dk_messages := ms\<rparr>) s" "buf' = copy_into buf 0 (take ?n (dp_payload m))" "r = Ok ?n"
    using run a by (auto simp: dgram_read_def get_socket_def Let_def)
  moreover have "take ?n (copy_into buf 0 (take ?n (dp_payload m))) = take (length buf) (dp_payload m)"
    by (simp add: copy_into_def min_def)
  moreover have "hd (Q a) = dp_payload m" using stillD(1) [OF s, of a] a(2) by (metis list.map(2) list.sel(1))
  ultimately show ?thesis using still_pop [OF s a(1), of m] a by auto
qed (use s in auto)

section \<open>Runs\<close>

text \<open>
  A run with its history, by socket: the datagrams that were accepted for it, and what was taken from its
  queue. A \<open>read\<close> is logged with the size of the buffer and the bytes it returned; a \<open>recvmsg\<close> takes a
  datagram too, in the format of the message writer.
\<close>

fun answer_ok :: "scheme_response \<Rightarrow> nat option" where
  "answer_ok (Regular (Ok n)) = Some n"
| "answer_ok _ = None"

definition send_to :: "nat \<Rightarrow> u8 list \<Rightarrow> dgram \<Rightarrow> (nat \<Rightarrow> u8 list list) \<Rightarrow> nat \<Rightarrow> u8 list list" where
  "send_to i w s W = (case dgram_get_connected_peer i s of Ok (j, b) \<Rightarrow> W(b := W b @ [w]) | _ \<Rightarrow> W)"

definition log_sent :: "uds_env \<Rightarrow> dgram \<Rightarrow> op \<Rightarrow> scheme_response \<Rightarrow> (nat \<Rightarrow> u8 list list) \<Rightarrow> nat \<Rightarrow> u8 list list" where
  "log_sent E s oper r W = (if answer_ok r = None then W else case oper of
       OpWrite t i buf off ff \<Rightarrow> send_to i buf s W
     | OpCall t i buf md \<Rightarrow> if call_verb E md = Some CallSendMsg then send_to i (msg_payload buf) s W else W
     | _ \<Rightarrow> W)"

definition take_from ::
  "nat \<Rightarrow> (nat \<times> u8 list) option \<Rightarrow> dgram \<Rightarrow> (nat \<Rightarrow> (nat \<times> u8 list) option list) \<Rightarrow> nat \<Rightarrow> (nat \<times> u8 list) option list" where
  "take_from i x s R = (case us_sockets s i of
       Some a \<Rightarrow> if dk_messages (us_cells s a) \<noteq> [] then R(a := R a @ [x]) else R | None \<Rightarrow> R)"

definition log_taken ::
  "uds_env \<Rightarrow> dgram \<Rightarrow> op \<Rightarrow> op \<Rightarrow> scheme_response \<Rightarrow> (nat \<Rightarrow> (nat \<times> u8 list) option list) \<Rightarrow> nat \<Rightarrow> (nat \<times> u8 list) option list" where
  "log_taken E s oper oper' r R = (case oper of
       OpRead t i buf off ff \<Rightarrow> (case (answer_ok r, oper') of
         (Some n, OpRead _ _ buf' _ _) \<Rightarrow> take_from i (Some (length buf, take n buf')) s R | _ \<Rightarrow> R)
     | OpCall t i buf md \<Rightarrow> if call_verb E md = Some CallRecvMsg then take_from i None s R else R
     | _ \<Rightarrow> R)"

inductive dgram_run ::
  "uds_env \<Rightarrow> dgram \<Rightarrow> (nat \<Rightarrow> u8 list list) \<Rightarrow> (nat \<Rightarrow> (nat \<times> u8 list) option list) \<Rightarrow> bool" for E where
  dgram_start: "dgram_run E (uds_new dgram_socket_default) (\<lambda>a. []) (\<lambda>a. [])"
| dgram_step: "dgram_run E s W R \<Longrightarrow>
    handle_sync_dont_consume (ue_abi E) (dgram_scheme E) ctx oper s = ((s', oper'), r) \<Longrightarrow> \<not> panicked r \<Longrightarrow>
    dgram_run E s' (log_sent E s oper r W) (log_taken E s oper oper' r R)"
| dgram_close: "dgram_run E s W R \<Longrightarrow> dgram_on_close i s = (s', Ok u) \<Longrightarrow> dgram_run E s' W R"
| dgram_sendfd: "dgram_run E s W R \<Longrightarrow> dgram_on_sendfd E q s = (s', r') \<Longrightarrow> r' \<noteq> Panic \<Longrightarrow> dgram_run E s' W R"

text \<open>What was taken is a prefix of what was sent, and the rest is in the queue.\<close>

definition taken_ok :: "(nat \<times> u8 list) option \<Rightarrow> u8 list \<Rightarrow> bool" where
  "taken_ok x w = (case x of Some (n, bs) \<Rightarrow> bs = take n w | None \<Rightarrow> True)"

definition history_ok :: "(nat \<Rightarrow> u8 list list) \<Rightarrow> (nat \<Rightarrow> u8 list list) \<Rightarrow> (nat \<Rightarrow> (nat \<times> u8 list) option list) \<Rightarrow> bool" where
  "history_ok Q W R \<longleftrightarrow> (\<forall>a. \<exists>done. W a = done @ Q a \<and> list_all2 taken_ok (R a) done)"

lemma history_push: "history_ok Q W R \<Longrightarrow> history_ok (Q(b := Q b @ [w])) (W(b := W b @ [w])) R"
  unfolding history_ok_def by (metis append_assoc fun_upd_other fun_upd_same)

lemma history_pop:
  assumes "history_ok Q W R" "Q a = w # q" "taken_ok x w"
  shows "history_ok (Q(a := q)) W (R(a := R a @ [x]))"
  unfolding history_ok_def
proof
  fix b
  from assms(1) obtain d where d: "W b = d @ Q b" "list_all2 taken_ok (R b) d" by (auto simp: history_ok_def)
  show "\<exists>d. W b = d @ (Q(a := q)) b \<and> list_all2 taken_ok ((R(a := R a @ [x])) b) d"
  proof (cases "b = a")
    case True
    then show ?thesis using d assms(2,3) by (intro exI [of _ "d @ [w]"]) (simp add: list_all2_appendI)
  qed (use d in auto)
qed

text \<open>The histories that follow the queues of a state.\<close>

definition follows :: "dgram \<Rightarrow> (nat \<Rightarrow> u8 list list) \<Rightarrow> (nat \<Rightarrow> (nat \<times> u8 list) option list) \<Rightarrow> bool" where
  "follows s W R \<longleftrightarrow> (\<exists>Q. still Q s \<and> history_ok Q W R)"

lemma follows_sent:
  assumes "dgram_get_connected_peer i s = Ok (j, b)" "still (Q(b := Q b @ [w])) s'" "history_ok Q W R"
  shows "follows s' (send_to i w s W) R"
  using assms history_push [OF assms(3)] by (auto simp: follows_def send_to_def)

lemma follows_taken:
  assumes "us_sockets s i = Some a" "still Q s" "still (Q(a := tl (Q a))) s'" "history_ok Q W R" "taken_ok x (hd (Q a))"
  shows "follows s' W (take_from i x s R)"
proof (cases "dk_messages (us_cells s a)")
  case Nil
  then have "Q(a := tl (Q a)) = Q" using stillD(1) [OF assms(2), of a] by (auto simp: fun_eq_iff)
  then show ?thesis using assms Nil by (auto simp: follows_def take_from_def)
next
  case (Cons m ms)
  then have "Q a = hd (Q a) # tl (Q a)" using stillD(1) [OF assms(2), of a] by (metis list.map(2) list.sel(1,3))
  from history_pop [OF assms(4) this assms(5)] show ?thesis
    using assms(1,3) Cons by (auto simp: follows_def take_from_def)
qed

lemma other_calls_still:
  assumes "still Q s" "dgram_call E i buf md ctx s = ((s', buf'), r)"
    and "call_verb E md \<noteq> Some CallSendMsg" "call_verb E md \<noteq> Some CallRecvMsg"
  shows "still Q s'"
proof -
  have "still Q t" if "dgram_handle_bind E i buf s = (t, q)" for t q
    using that assms(1) by (auto simp: dgram_handle_bind_def Let_def set_cell_def still_def queues_def fun_eq_iff split: question_splits if_splits)
  moreover have "still Q t" if "dgram_handle_connect i buf s = (t, q)" for t q
    using that assms(1) by (auto simp: dgram_handle_connect_def Let_def split: question_splits if_splits intro!: still_set_cell)
  moreover have "still Q t" if "dgram_handle_setsockopt E i opt buf s = (t, q)" for t q opt
    using that assms(1) by (auto simp: dgram_handle_setsockopt_def Let_def split: question_splits if_splits intro!: still_set_cell)
  moreover have "still Q t" if "dgram_handle_unbind i s = (t, q)" for t q
    using that assms(1) by (auto simp: dgram_handle_unbind_def Let_def set_cell_def still_def queues_def fun_eq_iff split: question_splits if_splits option.splits)
  ultimately show ?thesis using assms
    by (auto simp: dgram_call_def call_verb_def no_payload_def dgram_handle_getsockopt_def dgram_handle_get_token_def dgram_handle_get_peer_name_def Let_def
        split: question_splits option.splits socket_call.splits if_splits prod.splits)
qed

lemma call_effect:
  assumes E: "uds_events_ok E" and s: "still Q s" "history_ok Q W R" and run: "dgram_call E i buf md ctx s = ((s', buf'), r)" "r \<noteq> Panic"
  shows "follows s' (log_sent E s (OpCall t i buf md) (Regular r) W) (log_taken E s (OpCall t i buf md) (OpCall t i buf' md) (Regular r) R)"
proof -
  have same: ?thesis if "still Q s'" "call_verb E md \<noteq> Some CallSendMsg" "call_verb E md \<noteq> Some CallRecvMsg"
    using that s(2) by (auto simp: follows_def log_sent_def log_taken_def)
  consider (send) "call_verb E md = Some CallSendMsg" | (recv) "call_verb E md = Some CallRecvMsg"
    | (other) "call_verb E md \<noteq> Some CallSendMsg" "call_verb E md \<noteq> Some CallRecvMsg" by blast
  then show ?thesis
  proof cases
    case send
    then have "dgram_handle_sendmsg E i buf ctx s = (s', r)" using run(1) by (auto simp: dgram_call_def call_verb_def no_payload_def bind_eq_Some_conv split: prod.splits)
    from sendmsg_effect [OF E s(1) this] run(2) show ?thesis
      using send s(2) follows_sent [OF _ _ s(2), of i s _ _ "msg_payload buf" s'] by (auto simp: log_sent_def log_taken_def follows_def)
  next
    case recv
    then have "dgram_handle_recvmsg E i buf s = ((s', buf'), r)" using run(1) by (auto simp: dgram_call_def call_verb_def bind_eq_Some_conv)
    note eff = recvmsg_effect [OF s(1) this]
    show ?thesis
    proof (cases "us_sockets s i")
      case None
      then show ?thesis using eff s(2) recv by (auto simp: log_sent_def log_taken_def follows_def take_from_def)
    next
      case (Some a)
      from follows_taken [OF Some s(1) _ s(2), of s' None] show ?thesis
        using eff recv Some by (simp add: log_sent_def log_taken_def taken_ok_def)
    qed
  next
    case other
    then show ?thesis using same other_calls_still [OF s(1) run(1)] by blast
  qed
qed

lemma dispatch_follows:
  assumes E: "uds_events_ok E" and s: "follows s W R" and run: "handle_sync_dont_consume K (dgram_scheme E) ctx oper s = ((s', oper'), r)" "\<not> panicked r"
  shows "follows s' (log_sent E s oper r W) (log_taken E s oper oper' r R)"
proof -
  from s obtain Q where Q: "still Q s" "history_ok Q W R" by (auto simp: follows_def)
  have quiet: ?thesis if "quiet_op oper"
  proof -
    have "still Q s'" using quiet.dispatch_keeps [OF Q(1), of K E ctx oper s' oper' r] run by (simp add: quiet_dispatch [OF that])
    then show ?thesis using Q(2) that by (cases oper) (auto simp: quiet_op_def follows_def log_sent_def log_taken_def)
  qed
  show ?thesis
  proof (cases oper)
    case (OpRead t i buf off ff)
    then obtain buf' q where rd: "dgram_read E i buf off ff ctx s = ((s', buf'), q)" "oper' = OpRead t i buf' off ff" "r = Regular q"
      using run(1) by (auto simp: dgram_scheme_def split: prod.splits)
    from read_effect [OF Q(1) rd(1)] show ?thesis
    proof
      assume "\<exists>e. q = Err e \<and> still Q s'"
      then show ?thesis using Q(2) OpRead rd by (auto simp: follows_def log_sent_def log_taken_def)
    next
      assume "\<exists>a n. us_sockets s i = Some a \<and> q = Ok n \<and> take n buf' = take (length buf) (hd (Q a)) \<and> still (Q(a := tl (Q a))) s'"
      then obtain a n where a: "us_sockets s i = Some a" "still (Q(a := tl (Q a))) s'" "q = Ok n" "take n buf' = take (length buf) (hd (Q a))" by blast
      have "follows s' W (take_from i (Some (length buf, take n buf')) s R)"
        by (rule follows_taken [OF a(1) Q(1) a(2) Q(2)]) (simp add: a(4) taken_ok_def)
      then show ?thesis using OpRead rd a(3) by (simp add: log_sent_def log_taken_def)
    qed
  next
    case (OpWrite t i buf off ff)
    then have wr: "dgram_write E i buf off ff ctx s = (s', q)" if "r = Regular q" for q using run(1) that by (auto simp: dgram_scheme_def split: prod.splits)
    obtain q where q: "r = Regular q" using run(1) OpWrite by (auto split: prod.splits)
    from write_effect [OF E Q(1) wr [OF q]] show ?thesis
      using Q(2) OpWrite q follows_sent [OF _ _ Q(2), of i s _ _ buf s'] by (auto simp: follows_def log_sent_def log_taken_def)
  next
    case (OpCall t i buf md)
    then obtain buf' q where c: "dgram_call E i buf md ctx s = ((s', buf'), q)" "oper' = OpCall t i buf' md" "r = Regular q"
      using run(1) by (auto simp: dgram_scheme_def split: prod.splits)
    then show ?thesis using call_effect [OF E Q c(1), of t] run(2) OpCall by simp
  qed (rule quiet; simp add: quiet_op_def)+
qed

lemma dgram_run_follows:
  assumes "dgram_run E s W R" "uds_events_ok E"
  shows "follows s W R"
  using assms
proof (induction rule: dgram_run.induct)
  case dgram_start
  have "still (\<lambda>a. []) (uds_new dgram_socket_default)" by (simp add: still_def queues_def uds_new_def dgram_socket_default_def fun_eq_iff)
  then show ?case by (auto simp: follows_def history_ok_def)
next
  case (dgram_step s W R ctx oper s' oper' r)
  then show ?case using dispatch_follows by blast
next
  case (dgram_close s W R i s' u)
  then obtain Q where Q: "still Q s" "history_ok Q W R" by (auto simp: follows_def)
  have "keeps (still Q) (dgram_on_close i)" using quiet.on_close_keeps [of Q E i] by (simp add: dgram_scheme_def)
  then have "still Q s'" by (rule keepsD [where r = "Ok u"]) (use dgram_close.hyps(2) Q(1) in simp_all)
  then show ?case using Q(2) by (auto simp: follows_def)
next
  case (dgram_sendfd s W R q s' r')
  then obtain Q where Q: "still Q s" "history_ok Q W R" by (auto simp: follows_def)
  have "keeps (still Q) (dgram_on_sendfd E q)" using quiet.on_sendfd_keeps [of Q E q] by (simp add: dgram_scheme_def)
  then have "still Q s'" by (rule keepsD [where r = r']) (use dgram_sendfd.hyps(2,3) Q(1) in simp_all)
  then show ?case using Q(2) by (auto simp: follows_def)
qed

lemma dgram_run_inv: "dgram_run E s W R \<Longrightarrow> dgram_inv s"
proof (induction rule: dgram_run.induct)
  case dgram_start
  show ?case by (rule dgram_invI) (auto simp: uds_new_def dgram_socket_default_def)
next
  case (dgram_step s W R ctx oper s' oper' r)
  then show ?case using dgram.dispatch_keeps by blast
next
  case (dgram_close s W R i s' u)
  then show ?case using dgram_inv_close [of s i] by simp
next
  case (dgram_sendfd s W R q s' r')
  then show ?case using dgram_fd_keeps(1) [of E q] by (auto simp: keeps_def)
qed

section \<open>Properties\<close>

text \<open>
  C11. A datagram socket is a queue of whole datagrams: in every run, what was sent to a socket is what
  has been taken from it followed by what is in its queue, in order. Each \<open>read\<close> returned the bytes of
  one datagram, from its start and as many as the buffer holds, so none is split or merged. A
  \<open>recvmsg\<close> takes one datagram, also when it fails.
\<close>

theorem dgram_fifo:
  assumes "dgram_run E s W R" "uds_events_ok E"
  shows "\<exists>gone. W a = gone @ map dp_payload (dk_messages (us_cells s a)) \<and>
    list_all2 (\<lambda>x w. \<forall>n bs. x = Some (n, bs) \<longrightarrow> bs = take n w) (R a) gone"
proof -
  from dgram_run_follows [OF assms] obtain Q where "still Q s" "history_ok Q W R" by (auto simp: follows_def)
  then obtain gone where "W a = gone @ map dp_payload (dk_messages (us_cells s a))" "list_all2 taken_ok (R a) gone"
    using stillD(1) [of Q s a] by (auto simp: history_ok_def)
  then show ?thesis by (auto simp: taken_ok_def elim!: list_all2_mono)
qed

text \<open>A pair of sockets, two datagrams to the second one and one of them read, with a short buffer.\<close>

fun dgram_script ::
  "uds_env \<Rightarrow> op list \<Rightarrow> dgram \<times> (nat \<Rightarrow> u8 list list) \<times> (nat \<Rightarrow> (nat \<times> u8 list) option list) \<Rightarrow>
   (dgram \<times> (nat \<Rightarrow> u8 list list) \<times> (nat \<Rightarrow> (nat \<times> u8 list) option list)) option" where
  "dgram_script E [] x = Some x"
| "dgram_script E (oper # rest) (s, W, R) =
     (let ((s', oper'), r) = handle_sync_dont_consume (ue_abi E) (dgram_scheme E) sample_ctx oper s in
      if panicked r then None
      else dgram_script E rest (s', log_sent E s oper r W, log_taken E s oper oper' r R))"

lemma dgram_script_run:
  "dgram_script E script (s, W, R) = Some (s', W', R') \<Longrightarrow> dgram_run E s W R \<Longrightarrow> dgram_run E s' W' R'"
proof (induction script arbitrary: s W R)
  case (Cons oper rest)
  then show ?case by (auto split: prod.splits if_splits intro: Cons.IH dgram_step)
qed simp

definition sample_dgrams :: "op list" where
  "sample_dgrams = [OpOpen 0 [] 0, OpDup 0 0 (bytes_of ''connect''), OpWrite 0 0 [1, 2, 3] 0 0, OpWrite 0 0 [4] 0 0, OpRead 0 1 [0, 0] 0 0]"

theorem dgram_fifo_witness:
  "\<exists>s W R gone. dgram_run sample_uds_env s W R \<and> W 1 = [[1, 2, 3], [4]] \<and> R 1 = [Some (2, [1, 2])] \<and>
     W 1 = gone @ map dp_payload (dk_messages (us_cells s 1)) \<and>
     list_all2 (\<lambda>x w. \<forall>n bs. x = Some (n, bs) \<longrightarrow> bs = take n w) (R 1) gone"
proof -
  have "map_option (\<lambda>(s, W, R). (W 1, R 1)) (dgram_script sample_uds_env sample_dgrams (uds_new dgram_socket_default, (\<lambda>a. []), (\<lambda>a. []))) =
      Some ([[1, 2, 3], [4]], [Some (2, [1, 2])])"
    by (simp add: sample_dgrams_def dgram_scheme_def default_scheme_def uds_new_def dgram_socket_default_def dgram_open_def dgram_dup_def
        dgram_handle_connect_socketpair_def dgram_write_def dgram_read_def insert_socket_def bump_next_id_def usize_add_def get_socket_def
        uds_post_ok [OF sample_uds_events] set_cell_def dgram_get_connected_peer_def packet_new_def copy_into_def
        log_sent_def log_taken_def send_to_def take_from_def Let_def bytes_of_def)
  then obtain s W R where "dgram_script sample_uds_env sample_dgrams (uds_new dgram_socket_default, (\<lambda>a. []), (\<lambda>a. [])) = Some (s, W, R)"
    "W 1 = [[1, 2, 3], [4]]" "R 1 = [Some (2, [1, 2])]" by auto
  moreover from this dgram_script_run [OF _ dgram_start] have "dgram_run sample_uds_env s W R" by blast
  ultimately show ?thesis using dgram_fifo [OF _ sample_uds_events, of s W R 1] by blast
qed

section \<open>Messages\<close>

text \<open>What comes back in the buffer of \<open>recvmsg\<close>.\<close>

definition received_bytes :: "uds_env \<Rightarrow> string option \<Rightarrow> u8 list \<Rightarrow> nat \<Rightarrow> credential \<Rightarrow> u32 list \<Rightarrow> u8 list" where
  "received_bytes E name payload n cred opts = name_bytes ''/scheme/uds_dgram/'' name @ to_le 8 (length payload) @ payload @
     rights_bytes E n @ concat (map (\<lambda>_. cred_bytes E cred) opts)"

lemma write_options_wrote:
  assumes "wrote w len bs" "set opts \<subseteq> {ue_SO_PASSCRED E}" "length bs + length (concat (map (\<lambda>_. cred_bytes E cred) opts)) \<le> len"
  shows "\<exists>w'. write_options E cred opts w = (w', Ok ()) \<and> wrote w' len (bs @ concat (map (\<lambda>_. cred_bytes E cred) opts))"
  using assms
proof (induction opts arbitrary: w bs)
  case (Cons opt opts)
  then obtain w1 where w1: "write_credentials E cred w = (w1, True)" "wrote w1 len (bs @ cred_bytes E cred)"
    using write_credentials_wrote [of w len bs E cred] by auto
  from Cons.IH [OF w1(2)] Cons.prems(2,3) w1(1) show ?case by auto
qed simp

lemma serialize_received:
  assumes room: "length (received_bytes E name payload n cred (dk_options k)) \<le> length buf"
    and buf: "take 8 buf = replicate 8 0" "length payload \<le> iov" "\<forall>path. name = Some path \<longrightarrow> 18 + length path \<le> nl"
    and opts: "set (dk_options k) \<subseteq> {ue_SO_PASSCRED E}"
    and p: "dp_payload p = payload" "an_num_fds (dp_ancillary p) = n" "an_cred (dp_ancillary p) = cred" "an_name (dp_ancillary p) = name"
  shows "\<exists>buf'. serialize_to_stream E p nl iov (k, buf) = ((k, buf'), Ok (length (received_bytes E name payload n cred (dk_options k)))) \<and>
    take (length (received_bytes E name payload n cred (dk_options k))) buf' = received_bytes E name payload n cred (dk_options k)"
proof -
  let ?len = "length buf" and ?nm = "name_bytes ''/scheme/uds_dgram/'' name" and ?opts = "concat (map (\<lambda>_. cred_bytes E cred) (dk_options k))"
  note room' = room [unfolded received_bytes_def]
  have nm: "8 \<le> ?len" "\<And>path. name = Some path \<Longrightarrow> length ''/scheme/uds_dgram/'' + length path \<le> nl \<and> 8 + length ''/scheme/uds_dgram/'' + length path \<le> ?len"
    using room' buf(3) by (auto simp: name_bytes_def split: option.splits)
  from write_name_wrote [OF refl nm(1) buf(1) nm(2)] obtain w1 where w1: "write_name name nl dgram_fpath_inner (writer_new buf) = (w1, Ok ())" "wrote w1 ?len ?nm"
    by (auto simp: dgram_fpath_inner_def)
  have "length ?nm + 8 + length payload \<le> ?len" using room' by simp
  from write_payload_wrote [OF w1(2) this buf(2)] obtain w2 where w2: "write_payload payload (length payload) iov w1 = (w2, Ok (length payload))"
    "wrote w2 ?len (?nm @ to_le 8 (length payload) @ payload)" by blast
  have "length (?nm @ to_le 8 (length payload) @ payload) + length (rights_bytes E n) \<le> ?len" using room' by simp
  from write_rights_wrote [OF w2(2) this] obtain w3 where w3: "write_rights E n w2 = (w3, True)"
    "wrote w3 ?len ((?nm @ to_le 8 (length payload) @ payload) @ rights_bytes E n)" by blast
  have "length ((?nm @ to_le 8 (length payload) @ payload) @ rights_bytes E n) + length ?opts \<le> ?len" using room' by simp
  from write_options_wrote [OF w3(2) opts this] obtain w4 where w4: "write_options E cred (dk_options k) w3 = (w4, Ok ())"
    "wrote w4 ?len (received_bytes E name payload n cred (dk_options k))" by (auto simp: received_bytes_def)
  show ?thesis using w1(1) w2(1) w3(1) w4 p by (simp add: serialize_to_stream_def wrote_def)
qed

text \<open>
  C21. A message goes through whole: a \<open>sendmsg\<close> with a payload and a number of descriptors succeeds with
  the length of the payload, and the \<open>recvmsg\<close> of the peer returns the name of the sender, the payload,
  the number of descriptors and, when the receiver has asked for them, the credentials of the sender,
  if its buffer has room for them.
\<close>

theorem dgram_message_roundtrip:
  assumes sock: "us_sockets s i = Some a" "dgram_get_connected_peer i s = Ok (j, b)" "dk_messages (us_cells s b) = []"
    and E: "uds_events_ok E" "get_uid_gid_from_pid E (ctx_pid ctx) = Ok (pid, uid, gid)"
      "ue_socket_call E send = Some CallSendMsg" "ue_socket_call E recv = Some CallRecvMsg"
    and msg: "length payload + 40 < usize_range" "n < usize_range"
    and hdr: "nl < usize_range" "iov < usize_range" "cl < usize_range" "length payload \<le> iov"
      "\<forall>path. dk_path (us_cells s a) = Some path \<longrightarrow> 18 + length path \<le> nl"
    and opts: "set (dk_options (us_cells s b)) \<subseteq> {ue_SO_PASSCRED E}"
    and room: "length (received_bytes E (dk_path (us_cells s a)) payload n \<lparr>cr_pid = pid, cr_uid = uid, cr_gid = gid\<rparr> (dk_options (us_cells s b))) \<le> 24 + length rest"
  shows "\<exists>s1 s2 buf. dgram_call E i (message_bytes E payload n) [send] ctx s = ((s1, message_bytes E payload n), Ok (length payload)) \<and>
    dgram_call E j (msghdr_bytes nl iov cl @ rest) [recv] ctx' s1 =
      ((s2, received_bytes E (dk_path (us_cells s a)) payload n \<lparr>cr_pid = pid, cr_uid = uid, cr_gid = gid\<rparr> (dk_options (us_cells s b)) @ buf),
       Ok (length (received_bytes E (dk_path (us_cells s a)) payload n \<lparr>cr_pid = pid, cr_uid = uid, cr_gid = gid\<rparr> (dk_options (us_cells s b))))) \<and>
    dk_messages (us_cells s2 b) = []"
proof -
  let ?cred = "\<lparr>cr_pid = pid, cr_uid = uid, cr_gid = gid\<rparr>" and ?name = "dk_path (us_cells s a)" and ?st = "message_bytes E payload n"
  let ?p = "packet_new payload ((ancillary_new ?cred ?name)\<lparr>an_num_fds := n\<rparr>)"
  let ?rcv = "received_bytes E ?name payload n ?cred (dk_options (us_cells s b))"
  define s1 where "s1 = (set_cell b ((us_cells s b)\<lparr>dk_messages := [?p]\<rparr>) s)\<lparr>us_posted := us_posted s @ [post_fevent_response j (EVENT_READ (ue_abi E))]\<rparr>"
  have "length ?st > 0" by (simp add: message_bytes_def del: length_greater_0_conv)
  then have send: "dgram_handle_sendmsg E i ?st ctx s = (s1, Ok (length payload))" using sock E packet_from_message [OF msg]
    by (simp add: dgram_handle_sendmsg_def get_socket_def dgram_sendmsg_inner_def Let_def uds_post_ok s1_def set_cell_def) (simp add: packet_new_def)
  have j: "us_sockets s1 j = Some b" using sock(1,2)
    by (auto simp: dgram_get_connected_peer_def get_socket_def s1_def set_cell_def and_then_eq_Ok split: outcome.splits if_splits option.splits)
  let ?k = "us_cells s1 b\<lparr>dk_messages := []\<rparr>"
  have p: "an_num_fds (dp_ancillary ?p) = n" "an_cred (dp_ancillary ?p) = ?cred" "an_name (dp_ancillary ?p) = ?name" "dp_payload ?p = payload"
    by (simp_all add: packet_new_def ancillary_new_def)
  have k: "dk_options ?k = dk_options (us_cells s b)" "dk_messages (us_cells s1 b) = [?p]" by (simp_all add: s1_def set_cell_def)
  have "\<exists>buf'. serialize_to_stream E ?p nl iov (?k, replicate 24 0 @ rest) = ((?k, buf'), Ok (length ?rcv)) \<and> take (length ?rcv) buf' = ?rcv"
    using serialize_received [of E ?name payload n ?cred ?k "replicate 24 0 @ rest" iov nl ?p] room hdr opts p k by simp
  then obtain buf' where buf': "serialize_to_stream E ?p nl iov (?k, replicate 24 0 @ rest) = ((?k, buf'), Ok (length ?rcv))" "take (length ?rcv) buf' = ?rcv" by blast
  then have "buf' = ?rcv @ drop (length ?rcv) buf'" using append_take_drop_id [of "length ?rcv" buf'] by simp
  moreover have "dgram_handle_recvmsg E j (msghdr_bytes nl iov cl @ rest) s1 = ((set_cell b ?k s1, buf'), Ok (length ?rcv))"
    using j k buf'(1) hdr by (simp add: dgram_handle_recvmsg_def get_socket_def dgram_recvmsg_inner_def read_msghdr_bytes Let_def)
  ultimately show ?thesis using send E(3,4)
    by (auto simp: dgram_call_def get_at_def no_payload_def set_cell_def intro!: exI [of _ "drop (length ?rcv) buf'"])
qed

text \<open>The first socket is bound to a path and connected to the second, which wants credentials.\<close>

definition sample_pair :: dgram where
  "sample_pair = (uds_new dgram_socket_default)\<lparr>us_fresh := 2, us_sockets := [0 \<mapsto> 0, 1 \<mapsto> 1],
     us_cells := (\<lambda>a. dgram_socket_default)(0 := dgram_socket_default\<lparr>dk_path := Some ''a'', dk_state := DgBound, dk_peer := Some 1\<rparr>,
       1 := dgram_socket_default\<lparr>dk_options := [16]\<rparr>)\<rparr>"

theorem dgram_message_roundtrip_witness:
  "\<exists>s1 s2 buf. dgram_call sample_uds_env 0 (message_bytes sample_uds_env [7, 8] 1) [4] sample_ctx sample_pair =
      ((s1, message_bytes sample_uds_env [7, 8] 1), Ok (length [7 :: u8, 8])) \<and>
    dgram_call sample_uds_env 1 (msghdr_bytes 32 2 64 @ replicate 100 0) [5] sample_ctx s1 =
      ((s2, received_bytes sample_uds_env (Some ''a'') [7, 8] 1 \<lparr>cr_pid = 0, cr_uid = 0, cr_gid = 0\<rparr> [16] @ buf), Ok 89) \<and>
    dk_messages (us_cells s2 1) = []"
proof -
  have len: "length (received_bytes sample_uds_env (Some ''a'') [7, 8] 1 \<lparr>cr_pid = 0, cr_uid = 0, cr_gid = 0\<rparr> [16]) = 89"
    by (simp add: received_bytes_def name_bytes_def rights_bytes_def cred_bytes_def)
  have s: "us_sockets sample_pair 0 = Some 0" "dgram_get_connected_peer 0 sample_pair = Ok (1, 1)"
    "dk_path (us_cells sample_pair 0) = Some ''a''" "dk_options (us_cells sample_pair 1) = [16]" "dk_messages (us_cells sample_pair 1) = []"
    by (simp_all add: sample_pair_def dgram_get_connected_peer_def get_socket_def dgram_socket_default_def)
  have e: "ue_socket_call sample_uds_env 4 = Some CallSendMsg" "ue_socket_call sample_uds_env 5 = Some CallRecvMsg" "ue_SO_PASSCRED sample_uds_env = 16"
    by (simp_all add: sample_uds_env_def get_at_def)
  show ?thesis using dgram_message_roundtrip [OF s(1,2,5) sample_uds_events sample_process e(1,2), of "[7, 8]" 1 32 2 64 "replicate 100 0" sample_ctx] s e(3) len by simp
qed

section \<open>Calls that end the daemon\<close>

lemma drop_fds_no_panic: "snd (dgram_drop_fds n k) \<noteq> Panic"
  by (induction n arbitrary: k) (auto split: list.splits)

lemma options_no_panic: "snd (write_options E cred opts w) \<noteq> Panic"
  by (induction opts arbitrary: w) (auto split: prod.splits)

lemma serialize_no_panic: "snd (serialize_to_stream E p nl iov (k, buf)) \<noteq> Panic"
proof -
  let ?pl = "dp_payload p" and ?a = "dp_ancillary p"
  obtain w1 r1 where w1: "write_name (an_name ?a) nl dgram_fpath_inner (writer_new buf) = (w1, r1)" by fastforce
  obtain w2 r2 where w2: "write_payload ?pl (length ?pl) iov w1 = (w2, r2)" by fastforce
  obtain w3 fits where w3: "write_rights E (an_num_fds ?a) w2 = (w3, fits)" by fastforce
  obtain k1 r3 where k1: "(if fits then (k, Ok ()) else dgram_drop_fds (an_num_fds ?a) k) = (k1, r3)" by fastforce
  obtain w4 r4 where w4: "write_options E (an_cred ?a) (dk_options k1) w3 = (w4, r4)" by fastforce
  have "r1 \<noteq> Panic" using w1 write_name_no_panic by (metis dgram_fpath_inner_def snd_conv)
  moreover have "r2 \<noteq> Panic" using w2 write_payload_no_panic by (metis order_refl snd_conv)
  moreover have "r3 \<noteq> Panic" using k1 drop_fds_no_panic [of "an_num_fds ?a" k] by (auto split: if_splits)
  moreover have "r4 \<noteq> Panic" using w4 options_no_panic [of E "an_cred ?a" "dk_options k1" w3] by simp
  ultimately show ?thesis using w4 by (simp add: serialize_to_stream_def w1 w2 w3 k1 Let_def split: outcome.split question_splits)
qed

lemma handlers_no_panic:
  "snd (dgram_handle_bind E i buf s) \<noteq> Panic" "snd (dgram_handle_connect i buf s) \<noteq> Panic"
  "snd (dgram_handle_setsockopt E i opt buf s) \<noteq> Panic" "snd (dgram_handle_getsockopt E i opt buf s) \<noteq> Panic"
  "snd (dgram_handle_unbind i s) \<noteq> Panic" "snd (dgram_handle_get_token i buf s) \<noteq> Panic"
  "snd (dgram_handle_get_peer_name i buf s) \<noteq> Panic"
  by (auto simp: dgram_handle_bind_def dgram_handle_connect_def dgram_handle_setsockopt_def dgram_handle_getsockopt_def dgram_handle_unbind_def
      dgram_handle_get_token_def dgram_handle_get_peer_name_def dgram_get_connected_peer_def dgram_fpath_inner_def fpath_inner_def get_socket_def ok_or_def
      path_buf_to_str_def read_u32_def read_u64_def read_num_def and_then_eq_Panic Let_def
      split: question_splits option.splits if_splits prod.splits)

lemma recvmsg_no_panic: "snd (dgram_handle_recvmsg E i buf s) \<noteq> Panic"
proof -
  have "snd (dgram_recvmsg_inner E m (k, st)) \<noteq> Panic" for m k st
    using header_no_panic [of st] serialize_no_panic by (auto simp: dgram_recvmsg_inner_def Let_def split: prod.splits question_splits)
  then show ?thesis
    by (auto simp: dgram_handle_recvmsg_def get_socket_def Let_def split: question_splits list.splits prod.splits) (metis snd_conv)+
qed

lemma connected_no_panic: "dgram_get_connected_peer i s \<noteq> Panic"
  by (auto simp: dgram_get_connected_peer_def get_socket_def and_then_eq_Panic split: outcome.splits)

lemma sendmsg_panics:
  assumes "uds_events_ok E" "credentials_ok E" "length buf < usize_range"
  shows "snd (dgram_handle_sendmsg E i buf ctx s) = Panic \<longleftrightarrow>
    us_sockets s i \<noteq> None \<and> (\<exists>jb. dgram_get_connected_peer i s = Ok jb) \<and>
      (\<exists>ids. get_uid_gid_from_pid E (ctx_pid ctx) = Ok ids) \<and> message_overflows E buf"
  using connected_no_panic [of i s] credentials_no_panic [OF assms(2), of "ctx_pid ctx"]
    packet_panic_iff [OF assms(3), of E] message_nonempty [of E buf]
  by (auto simp: dgram_handle_sendmsg_def dgram_sendmsg_inner_def get_socket_def uds_post_ok [OF assms(1)] Let_def split: question_splits prod.splits)

text \<open>
  C35. Which calls end the daemon: the ones without metadata, those of the socket options with only the
  verb in the metadata, and the messages to a connected peer that overflow: the length in the first eight
  bytes, or the length in the header of a control message after accepted ones, points beyond the range of
  a \<open>usize\<close>, or the numbers of descriptors that the control messages announce add up to more. No other
  call does, whatever its bytes are. A buffer is shorter than the address space.
\<close>

theorem dgram_call_panics:
  assumes "uds_events_ok E" "credentials_ok E" "length buf < usize_range"
  shows "snd (dgram_call E i buf md ctx s) = Panic \<longleftrightarrow>
    md = [] \<or>
    (\<exists>v. md = [v] \<and> ue_socket_call E v \<in> {Some CallSetSockOpt, Some CallGetSockOpt}) \<or>
    (\<exists>v vs. md = v # vs \<and> ue_socket_call E v = Some CallSendMsg) \<and> us_sockets s i \<noteq> None \<and>
      (\<exists>jb. dgram_get_connected_peer i s = Ok jb) \<and> (\<exists>ids. get_uid_gid_from_pid E (ctx_pid ctx) = Ok ids) \<and>
      message_overflows E buf"
proof (cases md)
  case (Cons v vs)
  have get: "get_at (v # vs) 0 = Some v" "get_at (v # vs) 1 = (case vs of [] \<Rightarrow> None | w # _ \<Rightarrow> Some w)"
    by (auto simp: get_at_def split: list.splits)
  have np: "snd (no_payload buf x) = snd x" for x :: "dgram \<times> nat outcome" by (cases x) (simp add: no_payload_def)
  show ?thesis unfolding Cons dgram_call_def get
    using handlers_no_panic recvmsg_no_panic sendmsg_panics [OF assms, of i ctx s]
    by (auto simp: np split: option.splits socket_call.splits list.splits)
qed (simp add: dgram_call_def get_at_def)

text \<open>A message with a length near the end of the range, and one whose control messages announce too many descriptors.\<close>

theorem dgram_call_panics_witness:
  "uds_events_ok sample_uds_env \<and> credentials_ok sample_uds_env \<and>
   length (to_le 8 (usize_range - 1)) < usize_range \<and> length overflowing_rights < usize_range \<and>
   snd (dgram_call sample_uds_env 0 (to_le 8 (usize_range - 1)) [4] sample_ctx sample_pair) = Panic \<and>
   snd (dgram_call sample_uds_env 0 overflowing_rights [4] sample_ctx sample_pair) = Panic \<and>
   snd (dgram_call sample_uds_env 0 [] [] sample_ctx sample_pair) = Panic \<and>
   snd (dgram_call sample_uds_env 0 [1, 0, 0, 0, 0, 0, 0] [4] sample_ctx sample_pair) \<noteq> Panic"
proof -
  have s: "us_sockets sample_pair 0 = Some 0" "dgram_get_connected_peer 0 sample_pair = Ok (1, 1)"
    by (simp_all add: sample_pair_def dgram_get_connected_peer_def get_socket_def dgram_socket_default_def)
  have e: "ue_socket_call sample_uds_env 4 = Some CallSendMsg" by (simp add: sample_uds_env_def get_at_def)
  have short: "\<not> message_overflows E [1, 0, 0, 0, 0, 0, 0]" for E by (simp add: message_overflows_def)
  have lens: "length (to_le 8 (usize_range - 1)) < usize_range" "length overflowing_rights < usize_range"
    "length ([] :: u8 list) < usize_range" "length [1 :: u8, 0, 0, 0, 0, 0, 0] < usize_range" by (simp_all add: overflowing_rights_def)
  note panics = dgram_call_panics [OF sample_uds_events sample_credentials]
  show ?thesis using panics [OF lens(1)] panics [OF lens(2)] panics [OF lens(3)] panics [OF lens(4)] lens(1,2) sample_uds_events
      sample_credentials oversized_message oversized_rights sample_process s e short by simp
qed

end
