(* ===== verification/Uds_Stream.thy ===== *)
theory Uds_Stream
  imports Uds
begin

text \<open>
  The scheme for stream sockets (\<open>ipcd/src/uds/stream.rs\<close>): connections that hold the packets not
  read yet, the states of a socket, and the three phases of connecting a client to a listener.
\<close>

section \<open>Connections\<close>

record uds_connection =
  cn_peer :: nat
  cn_packets :: "data_packet list"
  cn_fds :: "nat list"
  cn_is_peer_shutdown :: bool

definition connection_new :: "nat \<Rightarrow> uds_connection" where
  "connection_new peer = \<lparr>cn_peer = peer, cn_packets = [], cn_fds = [], cn_is_peer_shutdown = False\<rparr>"

fun conn_drop_fds :: "nat \<Rightarrow> uds_connection \<Rightarrow> uds_connection \<times> unit outcome" where
  "conn_drop_fds 0 c = (c, Ok ())"
| "conn_drop_fds (Suc n) c = (case cn_fds c of
       [] \<Rightarrow> (c, Err EPROTO)
     | _ # fds \<Rightarrow> conn_drop_fds n (c\<lparr>cn_fds := fds\<rparr>))"

definition can_read :: "uds_connection \<Rightarrow> bool" where
  "can_read c \<longleftrightarrow> cn_packets c \<noteq> [] \<or> cn_fds c \<noteq> [] \<or> cn_is_peer_shutdown c"

text \<open>Moving the position in the first packet; a packet that is read to its end is removed.\<close>

definition advance :: "nat \<Rightarrow> data_packet \<Rightarrow> data_packet list \<Rightarrow> data_packet list" where
  "advance n packet rest = (let packet1 = packet\<lparr>dp_read_offset := dp_read_offset packet + n\<rparr> in
     if dp_read_offset packet1 \<ge> length (dp_payload packet1) then rest else packet1 # rest)"

text \<open>
  What \<open>serialize_to_msgstream\<close> collects from the packets: a name, the bytes and the ancillary data. In
  its loop \<open>user_buf_offset\<close> and \<open>total_copied_len\<close> are the same number.
\<close>

record gathered =
  ga_name :: "string option"
  ga_payload :: "u8 list"
  ga_ancillary :: "ancillary_data list"

definition take_ancillary :: "data_packet \<Rightarrow> gathered \<Rightarrow> data_packet \<times> gathered" where
  "take_ancillary packet g =
     (if dp_ancillary_taken packet then (packet, g)
      else let
        anc = dp_ancillary packet;
        (name, anc1) = (case ga_name g of Some n \<Rightarrow> (Some n, anc) | None \<Rightarrow> (an_name anc, anc\<lparr>an_name := None\<rparr>)) in
      (packet\<lparr>dp_ancillary := anc1, dp_ancillary_taken := True\<rparr>,
       g\<lparr>ga_name := name, ga_ancillary := ga_ancillary g @ [anc1]\<rparr>))"

lemma copied_progress: "x \<noteq> [] \<Longrightarrow> off < n \<Longrightarrow> n - (off + min (length x) (n - off)) < n - (off :: nat)"
  by (cases x) auto

function gather :: "nat \<Rightarrow> nat \<Rightarrow> data_packet list \<Rightarrow> gathered \<Rightarrow> (data_packet list \<times> gathered \<times> nat) outcome" where
  "gather iov_size user_buf_offset packets g =
     (if user_buf_offset < iov_size then case packets of
         [] \<Rightarrow> Ok (packets, g, user_buf_offset)
       | packet # rest \<Rightarrow>
           (case slice_from (dp_payload packet) (dp_read_offset packet) of
              Panic \<Rightarrow> Panic
            | Err e \<Rightarrow> Err e
            | Ok rem \<Rightarrow> (let copied_len = min (length rem) (iov_size - user_buf_offset) in
                if copied_len = 0 then Ok (packets, g, user_buf_offset)
                else let (packet1, g1) = take_ancillary packet (g\<lparr>ga_payload := ga_payload g @ take copied_len rem\<rparr>) in
                  gather iov_size (user_buf_offset + copied_len) (advance copied_len packet1 rest) g1))
      else Ok (packets, g, user_buf_offset))"
  by pat_completeness auto
termination
  by (relation "measure (\<lambda>(iov_size, user_buf_offset, packets, g). iov_size - user_buf_offset)") (auto intro: copied_progress)

declare gather.simps [simp del]

fun sum_fds :: "ancillary_data list \<Rightarrow> nat \<Rightarrow> nat outcome" where
  "sum_fds [] num_fds = Ok num_fds"
| "sum_fds (anc # rest) num_fds = and_then (usize_add num_fds (an_num_fds anc)) (sum_fds rest)"

fun write_all_credentials :: "uds_env \<Rightarrow> ancillary_data list \<Rightarrow> msg_writer \<Rightarrow> msg_writer \<times> bool" where
  "write_all_credentials E [] w = (w, True)"
| "write_all_credentials E (anc # rest) w = (let (w', success) = write_credentials E (an_cred anc) w in
     if success then write_all_credentials E rest w' else (w', False))"

fun write_stream_options :: "uds_env \<Rightarrow> ancillary_data list \<Rightarrow> u32 list \<Rightarrow> msg_writer \<Rightarrow> msg_writer \<times> unit outcome" where
  "write_stream_options E ancs [] w = (w, Ok ())"
| "write_stream_options E ancs (opt # opts) w =
     (if opt = ue_SO_PASSCRED E
      then (let (w', result) = write_all_credentials E ancs w in
            if result then write_stream_options E ancs opts w' else (w', Ok ()))
      else (w, Err EOPNOTSUPP))"

definition stream_fpath_inner :: "string \<Rightarrow> u8 list \<Rightarrow> u8 list \<times> nat outcome" where
  "stream_fpath_inner = fpath_inner ''/scheme/uds_stream/''"

text \<open>
  The vector for the bytes is allocated for \<open>iov_size\<close>: a capacity of more than \<open>isize::MAX\<close> panics, and an
  allocation that fails aborts the daemon, which is a panic of the model too.
\<close>

definition conn_serialize_to_msgstream ::
  "uds_env \<Rightarrow> nat \<Rightarrow> nat \<Rightarrow> u32 list \<Rightarrow> uds_connection \<times> u8 list \<Rightarrow> (uds_connection \<times> u8 list) \<times> nat outcome" where
  "conn_serialize_to_msgstream E name_buf_size iov_size options = (\<lambda>(c, stream).
     if \<not> (iov_size < 2 ^ 63 \<and> ue_allocates E iov_size) then ((c, stream), Panic)
     else
       question (c, stream) (gather iov_size 0 (cn_packets c) \<lparr>ga_name = None, ga_payload = [], ga_ancillary = []\<rparr>)
         (\<lambda>(packets, g, total_copied_len). let
           c1 = c\<lparr>cn_packets := packets\<rparr>;
           (w1, r1) = write_name (ga_name g) name_buf_size stream_fpath_inner (writer_new stream) in
         question (c1, mw_buffer w1) r1 (\<lambda>_. let
           full_len = min total_copied_len iov_size;
           (w2, r2) = write_payload (ga_payload g) full_len iov_size w1 in
         question (c1, mw_buffer w2) r2 (\<lambda>_.
         question (c1, mw_buffer w2) (sum_fds (ga_ancillary g) 0) (\<lambda>num_fds. let
           (w3, fits) = write_rights E num_fds w2;
           (c2, dropped) = (if fits then (c1, Ok ()) else conn_drop_fds num_fds c1) in
         question (c2, mw_buffer w3) dropped (\<lambda>_. let
           (w4, r4) = write_stream_options E (ga_ancillary g) options w3 in
         question (c2, mw_buffer w4) r4 (\<lambda>_. ((c2, mw_buffer w4), Ok (mw_written w4)))))))))"

section \<open>Sockets\<close>

datatype stream_state =
    StUnbound | StBound | StListening | StConnecting | StAccepted | StEstablished | StClosed

record stream_socket =
  sk_primary_id :: nat
  sk_path :: "string option"
  sk_options :: "u32 list"
  sk_flags :: u64
  sk_state :: stream_state
  sk_awaiting :: "nat list"
  sk_connection :: "uds_connection option"
  sk_issued_token :: "u64 option"
  sk_ucred :: credential

definition stream_socket_new ::
  "nat \<Rightarrow> string option \<Rightarrow> stream_state \<Rightarrow> u32 list \<Rightarrow> u64 \<Rightarrow> uds_connection option \<Rightarrow> caller_ctx \<Rightarrow> stream_socket" where
  "stream_socket_new i path state options flags conn ctx =
     \<lparr>sk_primary_id = i, sk_path = path, sk_options = options, sk_flags = flags, sk_state = state, sk_awaiting = [],
      sk_connection = conn, sk_issued_token = None,
      sk_ucred = \<lparr>cr_pid = word_of_nat (ctx_pid ctx), cr_uid = ctx_uid ctx, cr_gid = ctx_gid ctx\<rparr>\<rparr>"

definition sock_events :: "abi \<Rightarrow> stream_socket \<Rightarrow> u64" where
  "sock_events K k =
     (case sk_connection k of Some c \<Rightarrow> (if can_read c then EVENT_READ K else 0) OR EVENT_WRITE K | None \<Rightarrow> 0) OR
     (case sk_state k of
        StListening \<Rightarrow> (if sk_awaiting k \<noteq> [] then EVENT_READ K else 0)
      | StClosed \<Rightarrow> EVENT_READ K
      | _ \<Rightarrow> 0)"

definition is_listening :: "stream_socket \<Rightarrow> bool" where
  "is_listening k \<longleftrightarrow> sk_state k = StListening"

definition sock_accept :: "nat \<Rightarrow> nat \<Rightarrow> caller_ctx \<Rightarrow> stream_socket \<Rightarrow> stream_socket outcome" where
  "sock_accept primary_id awaiting_client_id ctx k =
     (if \<not> is_listening k then Err EINVAL
      else Ok (stream_socket_new primary_id (sk_path k) StEstablished (sk_options k) (sk_flags k)
        (Some (connection_new awaiting_client_id)) ctx))"

definition sock_establish :: "nat \<Rightarrow> stream_socket \<Rightarrow> stream_socket outcome" where
  "sock_establish peer k =
     (if sk_state k \<noteq> StConnecting then Err EINVAL
      else Ok (k\<lparr>sk_state := StAccepted, sk_connection := Some (connection_new peer)\<rparr>))"

definition sock_connect :: "abi \<Rightarrow> nat \<Rightarrow> u64 \<Rightarrow> stream_socket \<Rightarrow> stream_socket outcome" where
  "sock_connect K other flags k =
     (if sk_state k \<in> {StUnbound, StBound} then
        (if flags AND O_NONBLOCK K = O_NONBLOCK K then Ok (k\<lparr>sk_awaiting := sk_awaiting k @ [other]\<rparr>) else Err EWOULDBLOCK)
      else if sk_state k = StListening then Ok (k\<lparr>sk_awaiting := sk_awaiting k @ [other]\<rparr>)
      else Err ECONNREFUSED)"

definition sock_connect_socketpair :: "nat \<Rightarrow> stream_socket \<Rightarrow> stream_socket" where
  "sock_connect_socketpair peer k = k\<lparr>sk_awaiting := sk_awaiting k @ [peer]\<rparr>"

definition require_connection :: "stream_socket \<Rightarrow> uds_connection outcome" where
  "require_connection k = ok_or EPROTO (sk_connection k)"

definition msg_nonblock :: "uds_env \<Rightarrow> u32 \<Rightarrow> bool" where
  "msg_nonblock E msg_flags \<longleftrightarrow> msg_flags AND ue_MSG_DONTWAIT E = ue_MSG_DONTWAIT E"

definition require_connected_connection :: "uds_env \<Rightarrow> u32 \<Rightarrow> stream_socket \<Rightarrow> uds_connection outcome" where
  "require_connected_connection E msg_flags k = (let K = ue_abi E in
     case sk_state k of
       StEstablished \<Rightarrow> require_connection k
     | StAccepted \<Rightarrow> require_connection k
     | StConnecting \<Rightarrow>
         (if sk_flags k AND O_NONBLOCK K = O_NONBLOCK K \<or> msg_nonblock E msg_flags then Err EAGAIN else Err EWOULDBLOCK)
     | StClosed \<Rightarrow> Err EPIPE
     | _ \<Rightarrow> Err ENOTCONN)"

definition start_listening :: "stream_socket \<Rightarrow> stream_socket outcome" where
  "start_listening k = (if sk_state k \<notin> {StUnbound, StBound} then Err EINVAL else Ok (k\<lparr>sk_state := StListening\<rparr>))"

text \<open>Writing the changed connection of a socket back.\<close>

definition set_connection :: "uds_connection \<Rightarrow> stream_socket \<Rightarrow> stream_socket" where
  "set_connection c k = k\<lparr>sk_connection := Some c\<rparr>"

definition sock_serialize_to_msgstream ::
  "uds_env \<Rightarrow> u32 \<Rightarrow> nat \<Rightarrow> nat \<Rightarrow> stream_socket \<times> u8 list \<Rightarrow> (stream_socket \<times> u8 list) \<times> nat outcome" where
  "sock_serialize_to_msgstream E msg_flags name_buf_size iov_size = (\<lambda>(k, stream).
     question (k, stream) (require_connected_connection E msg_flags k) (\<lambda>c.
     let ((c1, stream1), r) = conn_serialize_to_msgstream E name_buf_size iov_size (sk_options k) (c, stream) in
     ((set_connection c1 k, stream1), r)))"

section \<open>Operations\<close>

type_synonym stream = "stream_socket uds"

text \<open>The contents of cells that are not in use.\<close>

definition stream_blank :: stream_socket where
  "stream_blank = \<lparr>sk_primary_id = 0, sk_path = None, sk_options = [], sk_flags = 0, sk_state = StUnbound, sk_awaiting = [],
     sk_connection = None, sk_issued_token = None, sk_ucred = \<lparr>cr_pid = 0, cr_uid = 0, cr_gid = 0\<rparr>\<rparr>"

text \<open>The cell of the caller is borrowed while that of the peer is looked at.\<close>

definition stream_get_connected_peer :: "uds_env \<Rightarrow> nat \<Rightarrow> u32 \<Rightarrow> stream \<Rightarrow> (nat \<times> nat) outcome" where
  "stream_get_connected_peer E i flags s =
     and_then (get_socket i s) (\<lambda>a.
     and_then (require_connected_connection E flags (us_cells s a)) (\<lambda>c. let remote_id = cn_peer c in
     case get_socket remote_id s of
       Ok b \<Rightarrow> if b = a then Panic
               else if sk_state (us_cells s b) = StClosed then Err ECONNREFUSED
               else Ok (remote_id, b)
     | Err _ \<Rightarrow> Err EPIPE
     | Panic \<Rightarrow> Panic))"

definition stream_handle_bind :: "uds_env \<Rightarrow> nat \<Rightarrow> u8 list \<Rightarrow> stream \<Rightarrow> stream \<times> nat outcome" where
  "stream_handle_bind E i path_buf s =
     question s (path_buf_to_str path_buf) (\<lambda>path.
     if us_paths s path \<noteq> None then (s, Err EADDRINUSE)
     else
       question s (get_socket i s) (\<lambda>a. let k = us_cells s a in
       if sk_state k \<noteq> StUnbound then (s, Err EINVAL)
       else let
         token = ue_next_u64 E (us_rng s);
         s0 = s\<lparr>us_rng := us_rng s + 1\<rparr>;
         k1 = k\<lparr>sk_path := Some path, sk_state := StBound, sk_issued_token := Some token\<rparr> in
       question (set_cell a k1 s0) (start_listening k1) (\<lambda>k2. let s1 = set_cell a k2 s0 in
       (s1\<lparr>us_paths := (us_paths s1)(path \<mapsto> a), us_tokens := (us_tokens s1)(token \<mapsto> a)\<rparr>, Ok 0))))"

text \<open>The client and the listener are borrowed together.\<close>

definition stream_handle_connect :: "uds_env \<Rightarrow> nat \<Rightarrow> u8 list \<Rightarrow> stream \<Rightarrow> stream \<times> nat outcome" where
  "stream_handle_connect E i token_buf s = (let K = ue_abi E in
     question s (read_u64 token_buf) (\<lambda>token.
     question s (ok_or ECONNREFUSED (us_tokens s token)) (\<lambda>l.
     question s (get_socket i s) (\<lambda>a. let client = us_cells s a in
     case sk_state client of
       StConnecting \<Rightarrow> (s, Err EWOULDBLOCK)
     | StEstablished \<Rightarrow> (s, Err EISCONN)
     | StAccepted \<Rightarrow> (set_cell a (client\<lparr>sk_state := StEstablished\<rparr>) s, Ok 0)
     | _ \<Rightarrow>
         if l = a then (s, Panic)
         else let listener_id = sk_primary_id (us_cells s l) in
           question s (sock_connect K i (sk_flags client) (us_cells s l)) (\<lambda>listener. let
             s1 = set_cell a (client\<lparr>sk_state := StConnecting\<rparr>) (set_cell l listener s) in
           then_do (uds_post_fevent E listener_id (EVENT_READ K OR EVENT_WRITE K) s1) (\<lambda>s2 _.
           if sk_flags client AND O_NONBLOCK K = 0 then (s2, Err EWOULDBLOCK) else (s2, Ok 0)))))))"

definition stream_handle_setsockopt :: "uds_env \<Rightarrow> nat \<Rightarrow> u32 \<Rightarrow> u8 list \<Rightarrow> stream \<Rightarrow> stream \<times> nat outcome" where
  "stream_handle_setsockopt E i opt value_slice s =
     question s (get_socket i s) (\<lambda>a. let k = us_cells s a in
     if opt = ue_SO_PASSCRED E then
       question s (read_u32 value_slice) (\<lambda>value.
       (set_cell a (k\<lparr>sk_options := (if value \<noteq> 0 then List.insert opt (sk_options k) else removeAll opt (sk_options k))\<rparr>) s,
        Ok (length value_slice)))
     else if opt = ue_SO_SNDBUF E then (s, Ok 0)
     else (s, Err ENOPROTOOPT))"

definition write_value :: "u8 list \<Rightarrow> 's \<times> u8 list \<Rightarrow> ('s \<times> u8 list) \<times> nat outcome" where
  "write_value bytes = (\<lambda>(s, payload).
     if length payload < length bytes then ((s, payload), Err ENOBUFS)
     else ((s, copy_into (replicate (length payload) 0) 0 bytes), Ok (length bytes)))"

definition stream_handle_getsockopt :: "uds_env \<Rightarrow> nat \<Rightarrow> u32 \<Rightarrow> u8 list \<Rightarrow> stream \<Rightarrow> (stream \<times> u8 list) \<times> nat outcome" where
  "stream_handle_getsockopt E i opt payload s =
     (if opt = ue_SO_DOMAIN E then write_value (to_le 4 (unat (ue_AF_UNIX E))) (s, payload)
      else if opt = ue_SO_PEERCRED E then
        question (s, payload) (stream_get_connected_peer E i 0 s) (\<lambda>(_, b). let u = sk_ucred (us_cells s b) in
        write_value (to_le 4 (unat (cr_pid u)) @ to_le 4 (unat (cr_uid u)) @ to_le 4 (unat (cr_gid u))) (s, payload))
      else if opt = ue_SO_SNDBUF E then write_value (to_le 4 212992) (s, payload)
      else ((s, payload), Err ENOPROTOOPT))"

definition stream_handle_sendmsg :: "uds_env \<Rightarrow> nat \<Rightarrow> u32 \<Rightarrow> u8 list \<Rightarrow> caller_ctx \<Rightarrow> stream \<Rightarrow> stream \<times> nat outcome" where
  "stream_handle_sendmsg E i msg_flags msg_stream ctx s =
     (if msg_stream = [] then (s, Err EINVAL)
      else
        question s (get_socket i s) (\<lambda>a. let name = sk_path (us_cells s a) in
        question s (stream_get_connected_peer E i msg_flags s) (\<lambda>(remote_id, b). let remote = us_cells s b in
        question s (require_connected_connection E msg_flags remote) (\<lambda>c.
        question s (get_uid_gid_from_pid E (ctx_pid ctx)) (\<lambda>(pid, uid, gid).
        question s (packet_from_stream E msg_stream name \<lparr>cr_pid = pid, cr_uid = uid, cr_gid = gid\<rparr>) (\<lambda>packet. let
          payload_len = length (dp_payload packet) in
        if payload_len = 0 then (s, Ok 0)
        else
          then_do (uds_post_fevent E remote_id (EVENT_READ (ue_abi E))
            (set_cell b (set_connection (c\<lparr>cn_packets := cn_packets c @ [packet]\<rparr>) remote) s)) (\<lambda>s1 _.
          (s1, Ok payload_len))))))))"

definition write_eof :: "'s \<times> u8 list \<Rightarrow> ('s \<times> u8 list) \<times> nat outcome" where
  "write_eof = (\<lambda>(s, buffer).
     if length buffer < MIN_RECV_MSG_LEN then ((s, buffer), Err EINVAL)
     else ((s, copy_into buffer 0 (replicate MIN_RECV_MSG_LEN 0)), Ok MIN_RECV_MSG_LEN))"

definition stream_recvmsg_inner ::
  "uds_env \<Rightarrow> u32 \<Rightarrow> stream_socket \<times> u8 list \<Rightarrow> (stream_socket \<times> u8 list) \<times> nat outcome" where
  "stream_recvmsg_inner E msg_flags = (\<lambda>(k, msg_stream).
     let (msg_stream1, r) = read_msghdr_info msg_stream in
     question (k, msg_stream1) r (\<lambda>(name_len, iov_size, _).
     sock_serialize_to_msgstream E msg_flags name_len iov_size (k, msg_stream1)))"

definition stream_handle_recvmsg :: "uds_env \<Rightarrow> nat \<Rightarrow> u32 \<Rightarrow> u8 list \<Rightarrow> stream \<Rightarrow> (stream \<times> u8 list) \<times> nat outcome" where
  "stream_handle_recvmsg E i msg_flags msg_stream s =
     question (s, msg_stream) (get_socket i s) (\<lambda>a. let k = us_cells s a; K = ue_abi E in
     if sk_state k \<in> {StEstablished, StAccepted} then
       question (s, msg_stream) (require_connection k) (\<lambda>c.
       if cn_packets c = [] then
         (if cn_is_peer_shutdown c then write_eof (s, msg_stream)
          else if sk_flags k AND O_NONBLOCK K = O_NONBLOCK K \<or> msg_nonblock E msg_flags then ((s, msg_stream), Err EAGAIN)
          else ((s, msg_stream), Err EWOULDBLOCK))
       else let ((k1, msg_stream1), r) = stream_recvmsg_inner E msg_flags (k, msg_stream) in
         ((set_cell a k1 s, msg_stream1), r))
     else if sk_state k = StClosed then write_eof (s, msg_stream)
     else if sk_state k = StListening then ((s, msg_stream), Err EOPNOTSUPP)
     else ((s, msg_stream), Err ENOTCONN))"

definition stream_handle_unbind :: "nat \<Rightarrow> stream \<Rightarrow> stream \<times> nat outcome" where
  "stream_handle_unbind i s =
     question s (get_socket i s) (\<lambda>a. let k = us_cells s a in
     if sk_state k \<noteq> StBound then (s, Err EINVAL)
     else let s1 = set_cell a (k\<lparr>sk_state := StUnbound, sk_path := None\<rparr>) s in
       case sk_path k of
         Some path \<Rightarrow> (s1\<lparr>us_paths := (us_paths s1)(path := None)\<rparr>, Ok 0)
       | None \<Rightarrow> (s1, Ok 0))"

definition stream_handle_get_token :: "nat \<Rightarrow> u8 list \<Rightarrow> stream \<Rightarrow> (stream \<times> u8 list) \<times> nat outcome" where
  "stream_handle_get_token i payload s =
     question (s, payload) (get_socket i s) (\<lambda>a.
     case sk_issued_token (us_cells s a) of
       None \<Rightarrow> ((s, payload), Err EINVAL)
     | Some token \<Rightarrow>
         if length payload < 8 then ((s, payload), Err ENOBUFS)
         else ((s, copy_into payload 0 (to_le 8 (unat token))), Ok 8))"

definition stream_handle_get_peer_name :: "uds_env \<Rightarrow> nat \<Rightarrow> u8 list \<Rightarrow> stream \<Rightarrow> (stream \<times> u8 list) \<times> nat outcome" where
  "stream_handle_get_peer_name E i payload s =
     question (s, payload) (stream_get_connected_peer E i 0 s) (\<lambda>(_, b).
     let (payload1, r) = stream_fpath_inner (case sk_path (us_cells s b) of Some path \<Rightarrow> path | None \<Rightarrow> []) payload in
     ((s, payload1), r))"

text \<open>The listener, in cell \<open>l\<close>, is borrowed all the time.\<close>

definition accept_connection ::
  "uds_env \<Rightarrow> nat \<Rightarrow> nat \<Rightarrow> caller_ctx \<Rightarrow> stream \<Rightarrow> stream \<times> open_result option outcome" where
  "accept_connection E l client_id ctx s = (let K = ue_abi E in
     case get_socket client_id s of
       Ok b \<Rightarrow> (let new_id = us_next_id s in
         question s (sock_accept new_id client_id ctx (us_cells s l)) (\<lambda>new.
         if b = l then (s, Panic)
         else
           question s (sock_establish new_id (us_cells s b)) (\<lambda>client.
           then_do (bump_next_id (set_cell b client s)) (\<lambda>s1 _.
           then_do (uds_post_fevent E client_id (EVENT_READ K OR EVENT_WRITE K) (insert_socket new_id new s1)) (\<lambda>s2 _.
           (s2, Ok (Some (ThisScheme new_id 0))))))))
     | _ \<Rightarrow> (s, Ok None))"

definition stream_handle_accept :: "uds_env \<Rightarrow> nat \<Rightarrow> caller_ctx \<Rightarrow> stream \<Rightarrow> stream \<times> open_result option outcome" where
  "stream_handle_accept E l ctx s = (let k = us_cells s l; K = ue_abi E in
     if \<not> is_listening k then (s, Err EINVAL)
     else case sk_awaiting k of
       [] \<Rightarrow> if sk_flags k AND O_NONBLOCK K = O_NONBLOCK K then (s, Err EAGAIN) else (s, Ok (Some WouldBlock))
     | client_id # awaiting \<Rightarrow> accept_connection E l client_id ctx (set_cell l (k\<lparr>sk_awaiting := awaiting\<rparr>) s))"

definition handle_start_listening :: "nat \<Rightarrow> stream \<Rightarrow> stream \<times> unit outcome" where
  "handle_start_listening a s =
     question s (start_listening (us_cells s a)) (\<lambda>k. let s1 = set_cell a k s in
     case sk_path k of
       None \<Rightarrow> (s1, Ok ())
     | Some path \<Rightarrow>
         (case us_paths s1 path of
            Some b \<Rightarrow> if b \<noteq> a then (s1, Err EADDRINUSE) else (s1\<lparr>us_paths := (us_paths s1)(path \<mapsto> a)\<rparr>, Ok ())
          | None \<Rightarrow> (s1\<lparr>us_paths := (us_paths s1)(path \<mapsto> a)\<rparr>, Ok ())))"

lemma handle_accept_None:
  "stream_handle_accept E l ctx s = (s', Ok None) \<Longrightarrow>
   \<exists>c cs. sk_awaiting (us_cells s l) = c # cs \<and> is_listening (us_cells s l) \<and> us_sockets s c = None \<and>
     s' = set_cell l ((us_cells s l)\<lparr>sk_awaiting := cs\<rparr>) s"
  by (auto simp: stream_handle_accept_def Let_def accept_connection_def get_socket_def set_cell_def bump_next_id_def uds_post_fevent_def
      split: if_splits list.splits option.splits outcome.splits question_splits bool.splits)

lemma start_listening_Ok:
  "handle_start_listening a s = (s', Ok u) \<Longrightarrow>
   us_sockets s' = us_sockets s \<and> us_cells s' = (us_cells s)(a := (us_cells s a)\<lparr>sk_state := StListening\<rparr>)"
  by (auto simp: handle_start_listening_def start_listening_def set_cell_def Let_def split: question_splits option.splits if_splits)

text \<open>The loop of \<open>listen\<close>: it starts to listen, or accepts the first waiting client that still exists.\<close>

function stream_handle_listen :: "uds_env \<Rightarrow> nat \<Rightarrow> caller_ctx \<Rightarrow> stream \<Rightarrow> stream \<times> open_result outcome" where
  "stream_handle_listen E i ctx s = (case us_sockets s i of
       None \<Rightarrow> (s, Err EBADF)
     | Some a \<Rightarrow>
         if is_listening (us_cells s a) then
           (case stream_handle_accept E a ctx s of
              (s1, Ok (Some result)) \<Rightarrow> (s1, Ok result)
            | (s1, Ok None) \<Rightarrow> stream_handle_listen E i ctx s1
            | (s1, Err e) \<Rightarrow> (s1, Err e)
            | (s1, Panic) \<Rightarrow> (s1, Panic))
         else
           (case handle_start_listening a s of
              (s1, Ok _) \<Rightarrow> stream_handle_listen E i ctx s1
            | (s1, Err e) \<Rightarrow> (s1, Err e)
            | (s1, Panic) \<Rightarrow> (s1, Panic)))"
  by pat_completeness auto
termination
proof (relation "measure (\<lambda>(E, i, ctx, s). case us_sockets s i of None \<Rightarrow> 0 | Some a \<Rightarrow>
    length (sk_awaiting (us_cells s a)) + (if is_listening (us_cells s a) then 0 else 1))", goal_cases)
  case 2
  then show ?case by (auto simp: set_cell_def is_listening_def dest!: handle_accept_None [OF sym])
next
  case 3
  then show ?case by (auto simp: is_listening_def dest!: start_listening_Ok [OF sym])
qed simp

declare stream_handle_listen.simps [simp del]

definition stream_handle_connect_socketpair :: "uds_env \<Rightarrow> nat \<Rightarrow> caller_ctx \<Rightarrow> stream \<Rightarrow> stream \<times> open_result outcome" where
  "stream_handle_connect_socketpair E i ctx s = (let K = ue_abi E; new_id = us_next_id s in
     question s (get_socket i s) (\<lambda>a. let
       k = us_cells s a;
       new = stream_socket_new new_id None StConnecting [] (sk_flags k) None ctx in
     if sk_state k = StClosed then (s, Err EPIPE)
     else
       then_do (uds_post_fevent E i (EVENT_READ K OR EVENT_WRITE K) (set_cell a (sock_connect_socketpair new_id k) s)) (\<lambda>s1 _.
       then_do (bump_next_id (insert_socket new_id new s1)) (\<lambda>s2 _.
       (s2, Ok (ThisScheme new_id 0))))))"

definition stream_handle_recvfd :: "uds_env \<Rightarrow> nat \<Rightarrow> stream \<Rightarrow> stream \<times> open_result outcome" where
  "stream_handle_recvfd E i s =
     question s (get_socket i s) (\<lambda>a. let k = us_cells s a in
     if sk_state k \<in> {StEstablished, StAccepted} then
       question s (require_connected_connection E 0 k) (\<lambda>c.
       case cn_fds c of
         [] \<Rightarrow> (s, Err EWOULDBLOCK)
       | fd # fds \<Rightarrow> (set_cell a (set_connection (c\<lparr>cn_fds := fds\<rparr>) k) s, Ok (OtherScheme fd)))
     else if sk_state k = StClosed then (s, Err EPIPE)
     else if sk_state k = StListening then (s, Err EOPNOTSUPP)
     else (s, Err ENOTCONN))"

definition stream_write_inner :: "uds_env \<Rightarrow> nat \<Rightarrow> u8 list \<Rightarrow> caller_ctx \<Rightarrow> stream \<Rightarrow> stream \<times> nat outcome" where
  "stream_write_inner E receiver_id buf ctx s =
     question s (get_socket receiver_id s) (\<lambda>b. let receiver = us_cells s b; name = sk_path receiver in
     question s (require_connected_connection E 0 receiver) (\<lambda>c. let
       packet = packet_new buf (ancillary_new
         \<lparr>cr_pid = word_of_nat (ctx_pid ctx), cr_uid = ctx_uid ctx, cr_gid = ctx_gid ctx\<rparr> name);
       s1 = (if buf = [] then s
             else set_cell b (set_connection (c\<lparr>cn_packets := cn_packets c @ [packet]\<rparr>) receiver) s) in
     then_do (uds_post_fevent E receiver_id (EVENT_READ (ue_abi E)) s1) (\<lambda>s2 _. (s2, Ok (length buf)))))"

definition stream_sendfd_inner :: "uds_env \<Rightarrow> nat \<Rightarrow> sqe \<Rightarrow> stream \<Rightarrow> stream \<times> nat outcome" where
  "stream_sendfd_inner E receiver_id q s =
     question s (obtain_fds E q) (\<lambda>new_fds.
     question s (get_socket receiver_id s) (\<lambda>b. let receiver = us_cells s b in
     question s (require_connected_connection E 0 receiver) (\<lambda>c.
     then_do (uds_post_fevent E receiver_id (EVENT_READ (ue_abi E))
         (set_cell b (set_connection (c\<lparr>cn_fds := cn_fds c @ new_fds\<rparr>) receiver) s)) (\<lambda>s1 _.
     (s1, Ok (length new_fds))))))"

definition stream_recvfd_inner :: "uds_env \<Rightarrow> sqe \<Rightarrow> stream \<Rightarrow> stream \<times> open_result outcome" where
  "stream_recvfd_inner E q s = (let n = recvfd_num_fds q; K = ue_abi E in
     question s (get_socket (fd_request_id q) s) (\<lambda>a. let k = us_cells s a in
     if n = 0 then (s, Ok (OtherSchemeMultiple 0))
     else if sk_state k \<in> {StEstablished, StAccepted} then
       question s (require_connected_connection E 0 k) (\<lambda>c.
       if length (cn_fds c) < n then
         (if cn_is_peer_shutdown c then (s, Ok (OtherSchemeMultiple 0))
          else if sk_flags k AND O_NONBLOCK K = O_NONBLOCK K then (s, Err EAGAIN)
          else (s, Ok WouldBlock))
       else let s1 = set_cell a (set_connection (c\<lparr>cn_fds := drop n (cn_fds c)\<rparr>) k) s in
         case ue_move_fd E q (take n (cn_fds c)) of
           Ok _ \<Rightarrow> (s1, Ok (OtherSchemeMultiple n))
         | Err _ \<Rightarrow> (s1, Err EPROTO)
         | Panic \<Rightarrow> (s1, Panic))
     else if sk_state k = StClosed then (s, Err EPIPE)
     else if sk_state k = StListening then (s, Err EOPNOTSUPP)
     else (s, Err ENOTCONN)))"

text \<open>The loop of \<open>read_inner\<close>; here too the two counters are the same number.\<close>

function read_packets :: "nat \<Rightarrow> data_packet list \<Rightarrow> u8 list \<Rightarrow> (data_packet list \<times> u8 list) \<times> nat outcome" where
  "read_packets user_buf_offset packets buf =
     (if user_buf_offset < length buf then case packets of
         [] \<Rightarrow> ((packets, buf), Ok user_buf_offset)
       | packet # rest \<Rightarrow>
           (case slice_from (dp_payload packet) (dp_read_offset packet) of
              Panic \<Rightarrow> ((packets, buf), Panic)
            | Err e \<Rightarrow> ((packets, buf), Err e)
            | Ok rem \<Rightarrow> (let copied_len = min (length rem) (length buf - user_buf_offset) in
                if copied_len = 0 then ((packets, buf), Ok user_buf_offset)
                else let packet1 = packet\<lparr>dp_ancillary_taken := (dp_read_offset packet = 0 \<or> dp_ancillary_taken packet)\<rparr> in
                  read_packets (user_buf_offset + copied_len) (advance copied_len packet1 rest)
                    (copy_into buf user_buf_offset (take copied_len rem))))
      else ((packets, buf), Ok user_buf_offset))"
  by pat_completeness auto
termination
  by (relation "measure (\<lambda>(user_buf_offset, packets, buf). length buf - user_buf_offset)") (auto intro: copied_progress)

declare read_packets.simps [simp del]

definition stream_read_inner ::
  "uds_env \<Rightarrow> u32 \<Rightarrow> uds_connection \<times> u8 list \<Rightarrow> (uds_connection \<times> u8 list) \<times> nat outcome" where
  "stream_read_inner E flags = (\<lambda>(c, buf). let
       ((packets, buf1), r) = read_packets 0 (cn_packets c) buf;
       c1 = c\<lparr>cn_packets := packets\<rparr>;
       K = ue_abi E in
     question (c1, buf1) r (\<lambda>total_copied_len.
     if total_copied_len > 0 then ((c1, buf1), Ok total_copied_len)
     else if cn_is_peer_shutdown c1 then ((c1, buf1), Ok 0)
     else if ucast flags AND O_NONBLOCK K = O_NONBLOCK K then ((c1, buf1), Err EAGAIN)
     else ((c1, buf1), Err EWOULDBLOCK)))"

text \<open>An error that is assigned to \<open>_\<close>.\<close>

definition ignore_error :: "'s \<times> unit outcome \<Rightarrow> 's \<times> unit outcome" where
  "ignore_error m = (case m of (s, Err _) \<Rightarrow> (s, Ok ()) | x \<Rightarrow> x)"

fun close_awaiting :: "uds_env \<Rightarrow> nat \<Rightarrow> nat list \<Rightarrow> stream \<Rightarrow> stream \<times> unit outcome" where
  "close_awaiting E l [] s = (s, Ok ())"
| "close_awaiting E l (client_id # rest) s = (case us_sockets s client_id of
       None \<Rightarrow> close_awaiting E l rest s
     | Some b \<Rightarrow>
         if b = l then (s, Panic)
         else then_do (ignore_error (uds_post_fevent E client_id (EVENT_READ (ue_abi E))
             (set_cell b ((us_cells s b)\<lparr>sk_state := StClosed\<rparr>) s))) (\<lambda>s1 _.
           close_awaiting E l rest s1))"

text \<open>Forgetting the path and the token of a socket.\<close>

definition remove_names :: "stream_socket \<Rightarrow> stream \<Rightarrow> stream" where
  "remove_names k s = s\<lparr>
     us_paths := (case sk_path k of Some path \<Rightarrow> (us_paths s)(path := None) | None \<Rightarrow> us_paths s),
     us_tokens := (case sk_issued_token k of Some token \<Rightarrow> (us_tokens s)(token := None) | None \<Rightarrow> us_tokens s)\<rparr>"

definition handle_listening_closure :: "uds_env \<Rightarrow> nat \<Rightarrow> stream \<Rightarrow> stream \<times> unit outcome" where
  "handle_listening_closure E a s =
     close_awaiting E a (sk_awaiting (us_cells s a)) (remove_names (us_cells s a) s)"

text \<open>The end of \<open>handle_other_closure\<close>, and what it does first for a connected socket.\<close>

definition close_socket :: "nat \<Rightarrow> stream \<Rightarrow> stream \<times> unit outcome" where
  "close_socket a s = (let k = us_cells s a in
     (set_cell a (k\<lparr>sk_path := None, sk_state := StClosed\<rparr>) (remove_names k s), Ok ()))"

definition handle_other_closure :: "uds_env \<Rightarrow> nat \<Rightarrow> stream \<Rightarrow> stream \<times> unit outcome" where
  "handle_other_closure E a s = (let k = us_cells s a in
     if sk_state k \<in> {StEstablished, StAccepted} then
       (case sk_connection k of
          None \<Rightarrow> (s, Ok ())
        | Some c \<Rightarrow>
            (case us_sockets s (cn_peer c) of
               None \<Rightarrow> (s, Ok ())
             | Some b \<Rightarrow>
                 if b = a then (s, Panic)
                 else (case sk_connection (us_cells s b) of
                     None \<Rightarrow> (s, Ok ())
                   | Some d \<Rightarrow> (let remote = set_connection (d\<lparr>cn_is_peer_shutdown := True\<rparr>) (us_cells s b) in
                       then_do (ignore_error (uds_post_fevent E (sk_primary_id remote) (EVENT_READ (ue_abi E)) (set_cell b remote s)))
                         (\<lambda>s1 _. close_socket a s1)))))
     else close_socket a s)"

section \<open>The scheme\<close>

definition stream_open :: "string \<Rightarrow> u64 \<Rightarrow> caller_ctx \<Rightarrow> stream \<Rightarrow> stream \<times> open_result outcome" where
  "stream_open path flags ctx s =
     (if path \<noteq> [] then (s, Err EINVAL)
      else let new_id = us_next_id s in
        then_do (bump_next_id (insert_socket new_id (stream_socket_new new_id None StUnbound [] flags None ctx) s)) (\<lambda>s1 _.
        (s1, Ok (ThisScheme new_id 0))))"

definition msg_flags_of :: "u64 list \<Rightarrow> u32" where
  "msg_flags_of metadata = (case get_at metadata 1 of Some x \<Rightarrow> ucast x | None \<Rightarrow> 0)"

definition stream_call ::
  "uds_env \<Rightarrow> nat \<Rightarrow> u8 list \<Rightarrow> u64 list \<Rightarrow> caller_ctx \<Rightarrow> stream \<Rightarrow> (stream \<times> u8 list) \<times> nat outcome" where
  "stream_call E i payload metadata ctx s =
     question (s, payload) (ok_or EINVAL (get_at metadata 0)) (\<lambda>verb.
     case ue_socket_call E verb of
       None \<Rightarrow> ((s, payload), Err EINVAL)
     | Some CallBind \<Rightarrow> no_payload payload (stream_handle_bind E i payload s)
     | Some CallConnect \<Rightarrow> no_payload payload (stream_handle_connect E i payload s)
     | Some CallSetSockOpt \<Rightarrow>
         question (s, payload) (ok_or EINVAL (get_at metadata 1)) (\<lambda>opt.
         no_payload payload (stream_handle_setsockopt E i (ucast opt) payload s))
     | Some CallGetSockOpt \<Rightarrow>
         question (s, payload) (ok_or EINVAL (get_at metadata 1)) (\<lambda>opt.
         stream_handle_getsockopt E i (ucast opt) payload s)
     | Some CallSendMsg \<Rightarrow> no_payload payload (stream_handle_sendmsg E i (msg_flags_of metadata) payload ctx s)
     | Some CallRecvMsg \<Rightarrow> stream_handle_recvmsg E i (msg_flags_of metadata) payload s
     | Some CallUnbind \<Rightarrow> no_payload payload (stream_handle_unbind i s)
     | Some CallGetToken \<Rightarrow> stream_handle_get_token i payload s
     | Some CallGetPeerName \<Rightarrow> stream_handle_get_peer_name E i payload s
     | Some CallOther \<Rightarrow> ((s, payload), Err EOPNOTSUPP))"

definition stream_dup :: "uds_env \<Rightarrow> nat \<Rightarrow> u8 list \<Rightarrow> caller_ctx \<Rightarrow> stream \<Rightarrow> stream \<times> open_result outcome" where
  "stream_dup E i buf ctx s =
     (if buf = bytes_of ''listen'' then stream_handle_listen E i ctx s
      else if buf = bytes_of ''connect'' then stream_handle_connect_socketpair E i ctx s
      else if buf = bytes_of ''recvfd'' then stream_handle_recvfd E i s
      else (s, Err EINVAL))"

definition stream_write :: "uds_env \<Rightarrow> nat \<Rightarrow> u8 list \<Rightarrow> nat \<Rightarrow> u32 \<Rightarrow> caller_ctx \<Rightarrow> stream \<Rightarrow> stream \<times> nat outcome" where
  "stream_write E i buf offset flags ctx s =
     question s (stream_get_connected_peer E i 0 s) (\<lambda>(receiver_id, _). stream_write_inner E receiver_id buf ctx s)"

definition stream_fpath :: "nat \<Rightarrow> u8 list \<Rightarrow> caller_ctx \<Rightarrow> stream \<Rightarrow> (stream \<times> u8 list) \<times> nat outcome" where
  "stream_fpath i buf ctx s =
     question (s, buf) (get_socket i s) (\<lambda>a.
     let (buf1, r) = stream_fpath_inner (case sk_path (us_cells s a) of Some path \<Rightarrow> path | None \<Rightarrow> []) buf in
     ((s, buf1), r))"

definition stream_fsync :: "nat \<Rightarrow> caller_ctx \<Rightarrow> stream \<Rightarrow> stream \<times> unit outcome" where
  "stream_fsync i ctx s = (s, and_then (get_socket i s) (\<lambda>_. Ok ()))"

definition stream_read ::
  "uds_env \<Rightarrow> nat \<Rightarrow> u8 list \<Rightarrow> nat \<Rightarrow> u32 \<Rightarrow> caller_ctx \<Rightarrow> stream \<Rightarrow> (stream \<times> u8 list) \<times> nat outcome" where
  "stream_read E i buf offset flags ctx s =
     question (s, buf) (get_socket i s) (\<lambda>a. let k = us_cells s a in
     if sk_state k \<in> {StEstablished, StAccepted} then
       question (s, buf) (require_connected_connection E 0 k) (\<lambda>c.
       let ((c1, buf1), r) = stream_read_inner E flags (c, buf) in
       ((set_cell a (set_connection c1 k) s, buf1), r))
     else if sk_state k = StClosed then ((s, buf), Ok 0)
     else if sk_state k = StListening then ((s, buf), Err EOPNOTSUPP)
     else ((s, buf), Err ENOTCONN))"

definition stream_on_sendfd :: "uds_env \<Rightarrow> sqe \<Rightarrow> stream \<Rightarrow> stream \<times> nat outcome" where
  "stream_on_sendfd E q s =
     question s (stream_get_connected_peer E (fd_request_id q) 0 s) (\<lambda>(receiver_id, _). stream_sendfd_inner E receiver_id q s)"

definition stream_on_close :: "uds_env \<Rightarrow> nat \<Rightarrow> stream \<Rightarrow> stream \<times> unit outcome" where
  "stream_on_close E i s = (case us_sockets s i of
       None \<Rightarrow> (s, Ok ())
     | Some a \<Rightarrow> (let s1 = s\<lparr>us_sockets := (us_sockets s)(i := None)\<rparr> in
         if sk_state (us_cells s a) = StListening then handle_listening_closure E a s1
         else handle_other_closure E a s1))"

definition stream_fcntl :: "uds_env \<Rightarrow> nat \<Rightarrow> u64 \<Rightarrow> u64 \<Rightarrow> caller_ctx \<Rightarrow> stream \<Rightarrow> stream \<times> nat outcome" where
  "stream_fcntl E i cmd arg ctx s =
     question s (get_socket i s) (\<lambda>a. let k = us_cells s a in
     if cmd = F_GETFL (ue_abi E) then (s, Ok (unat (sk_flags k)))
     else if cmd = F_SETFL (ue_abi E) then (set_cell a (k\<lparr>sk_flags := arg\<rparr>) s, Ok 0)
     else (s, Err EINVAL))"

definition stream_fevent :: "uds_env \<Rightarrow> nat \<Rightarrow> u64 \<Rightarrow> caller_ctx \<Rightarrow> stream \<Rightarrow> stream \<times> u64 outcome" where
  "stream_fevent E i flags ctx s =
     question s (get_socket i s) (\<lambda>a. (s, Ok (sock_events (ue_abi E) (us_cells s a) AND flags)))"

definition stream_fstat :: "uds_env \<Rightarrow> nat \<Rightarrow> stat \<Rightarrow> caller_ctx \<Rightarrow> stream \<Rightarrow> (stream \<times> stat) \<times> unit outcome" where
  "stream_fstat E i stat ctx s =
     question (s, stat) (get_socket i s) (\<lambda>_. ((s, default_stat\<lparr>st_mode := ue_mode_sock E\<rparr>), Ok ()))"

definition stream_scheme :: "uds_env \<Rightarrow> stream scheme_sync" where
  "stream_scheme E = default_scheme\<lparr>sc_open := stream_open, sc_call := stream_call E, sc_dup := stream_dup E,
     sc_write := stream_write E, sc_fpath := stream_fpath, sc_fsync := stream_fsync, sc_read := stream_read E,
     sc_on_close := stream_on_close E, sc_on_sendfd := stream_on_sendfd E, sc_on_recvfd := stream_recvfd_inner E,
     sc_fcntl := stream_fcntl E, sc_fevent := stream_fevent E, sc_fstat := stream_fstat E\<rparr>"

end
