(* ===== verification/Uds_Stream_Net.thy ===== *)
theory Uds_Stream_Net
  imports Uds_Stream
begin

text \<open>
  The stream sockets as a network: a map from numbers to sockets. Connections are between pairs of
  sockets, clients wait at one listener at most, and each socket has bytes that wait to be read.
\<close>

section \<open>The bytes that wait\<close>

definition unread :: "data_packet \<Rightarrow> u8 list" where
  "unread p = drop (dp_read_offset p) (dp_payload p)"

definition unread_all :: "data_packet list \<Rightarrow> u8 list" where
  "unread_all ps = concat (map unread ps)"

definition sk_pending :: "stream_socket \<Rightarrow> u8 list" where
  "sk_pending k = (case sk_connection k of None \<Rightarrow> [] | Some c \<Rightarrow> unread_all (cn_packets c))"

definition packets_ok :: "data_packet list \<Rightarrow> bool" where
  "packets_ok ps \<longleftrightarrow> list_all (\<lambda>p. dp_read_offset p < length (dp_payload p)) ps"

lemma unread_all_simps [simp]:
  "unread_all [] = []" "unread_all (p # ps) = unread p @ unread_all ps" "unread_all (ps @ qs) = unread_all ps @ unread_all qs"
  by (simp_all add: unread_all_def)

lemma packets_ok_simps [simp]:
  "packets_ok []" "packets_ok (p # ps) \<longleftrightarrow> dp_read_offset p < length (dp_payload p) \<and> packets_ok ps"
  "packets_ok (ps @ qs) \<longleftrightarrow> packets_ok ps \<and> packets_ok qs"
  by (simp_all add: packets_ok_def)

section \<open>The network\<close>

type_synonym sockets = "nat \<rightharpoonup> stream_socket"

definition connected :: "stream_socket \<Rightarrow> bool" where
  "connected k \<longleftrightarrow> sk_state k \<in> {StAccepted, StEstablished}"

definition peer_of :: "stream_socket \<Rightarrow> nat option" where
  "peer_of k = map_option cn_peer (sk_connection k)"

definition awaited :: "sockets \<Rightarrow> nat \<Rightarrow> bool" where
  "awaited N c \<longleftrightarrow> (\<exists>j l. N j = Some l \<and> c \<in> set (sk_awaiting l))"

text \<open>What holds of one socket: its own fields, its peer and the clients that wait for it.\<close>

definition self_ok :: "nat \<Rightarrow> stream_socket \<Rightarrow> bool" where
  "self_ok i k \<longleftrightarrow> sk_primary_id k = i \<and> (sk_connection k \<noteq> None \<longleftrightarrow> connected k) \<and>
     (\<forall>c. sk_connection k = Some c \<longrightarrow> packets_ok (cn_packets c))"

definition stream_peer_ok :: "nat \<Rightarrow> sockets \<Rightarrow> nat \<Rightarrow> stream_socket \<Rightarrow> bool" where
  "stream_peer_ok n N i k \<longleftrightarrow> (\<forall>p. peer_of k = Some p \<longrightarrow> p \<noteq> i \<and> p < n \<and> (\<forall>k'. N p = Some k' \<longrightarrow> peer_of k' = Some i))"

definition waits_ok :: "nat \<Rightarrow> sockets \<Rightarrow> stream_socket \<Rightarrow> bool" where
  "waits_ok n N k \<longleftrightarrow> distinct (sk_awaiting k) \<and>
     (\<forall>c \<in> set (sk_awaiting k). c < n \<and> (\<forall>k'. N c = Some k' \<longrightarrow> sk_state k' = StConnecting))"

definition net_ok :: "(nat \<Rightarrow> u8 list) \<Rightarrow> nat \<Rightarrow> sockets \<Rightarrow> bool" where
  "net_ok Q n N \<longleftrightarrow>
     (\<forall>i k. N i = Some k \<longrightarrow> i < n \<and> self_ok i k \<and> stream_peer_ok n N i k \<and> waits_ok n N k \<and> sk_pending k = Q i) \<and>
     (\<forall>i \<ge> n. Q i = []) \<and>
     (\<forall>i j k l c. N i = Some k \<longrightarrow> N j = Some l \<longrightarrow> c \<in> set (sk_awaiting k) \<longrightarrow> c \<in> set (sk_awaiting l) \<longrightarrow> i = j)"

lemma net_okD:
  assumes "net_ok Q n N"
  shows "N i = Some k \<Longrightarrow> i < n" "N i = Some k \<Longrightarrow> self_ok i k" "N i = Some k \<Longrightarrow> stream_peer_ok n N i k"
    "N i = Some k \<Longrightarrow> waits_ok n N k" "N i = Some k \<Longrightarrow> sk_pending k = Q i" "n \<le> i \<Longrightarrow> Q i = []"
    "N i = Some k \<Longrightarrow> N j = Some l \<Longrightarrow> c \<in> set (sk_awaiting k) \<Longrightarrow> c \<in> set (sk_awaiting l) \<Longrightarrow> i = j"
  using assms unfolding net_ok_def by blast+

lemma net_okI:
  assumes "\<And>i k. N i = Some k \<Longrightarrow> i < n" "\<And>i k. N i = Some k \<Longrightarrow> self_ok i k" "\<And>i k. N i = Some k \<Longrightarrow> stream_peer_ok n N i k"
    "\<And>i k. N i = Some k \<Longrightarrow> waits_ok n N k" "\<And>i k. N i = Some k \<Longrightarrow> sk_pending k = Q i" "\<And>i. n \<le> i \<Longrightarrow> Q i = []"
    "\<And>i j k l c. N i = Some k \<Longrightarrow> N j = Some l \<Longrightarrow> c \<in> set (sk_awaiting k) \<Longrightarrow> c \<in> set (sk_awaiting l) \<Longrightarrow> i = j"
  shows "net_ok Q n N"
  unfolding net_ok_def using assms by blast

lemma net_start: "net_ok (\<lambda>i. []) 0 Map.empty"
  by (simp add: net_ok_def)

lemma awaited_connecting: "net_ok Q n N \<Longrightarrow> awaited N c \<Longrightarrow> N c = Some k \<Longrightarrow> sk_state k = StConnecting"
  unfolding awaited_def using net_okD(4) [of Q n N] by (force simp: waits_ok_def)

lemma awaited_less: "net_ok Q n N \<Longrightarrow> awaited N c \<Longrightarrow> c < n"
  unfolding awaited_def using net_okD(4) [of Q n N] by (force simp: waits_ok_def)

lemma peer_ok_update:
  assumes "N j = Some l" "peer_of l' = peer_of l" "stream_peer_ok n N j l" "\<And>i x. N i = Some x \<Longrightarrow> stream_peer_ok n N i x" "(N(j \<mapsto> l')) i = Some k"
  shows "stream_peer_ok n (N(j \<mapsto> l')) i k"
proof -
  have "stream_peer_ok n (N(j \<mapsto> l')) m x \<longleftrightarrow> stream_peer_ok n N m x" for m x using assms(1,2) by (auto simp: stream_peer_ok_def)
  moreover have "stream_peer_ok n N j l'" using assms(2,3) by (simp add: stream_peer_ok_def)
  ultimately show ?thesis using assms(4,5) by (cases "i = j") simp_all
qed

section \<open>Steps\<close>

text \<open>A change of one socket that keeps its peer and adds no waiting client.\<close>

lemma net_update:
  assumes N: "net_ok Q n N" "N i = Some k" and k': "self_ok i k'" "peer_of k' = peer_of k" "sk_pending k' = q"
    and wait: "distinct (sk_awaiting k')" "set (sk_awaiting k') \<subseteq> set (sk_awaiting k)" "awaited N i \<Longrightarrow> sk_state k' = StConnecting"
  shows "net_ok (Q(i := q)) n (N(i \<mapsto> k'))"
proof (rule net_okI)
  fix j l assume j: "(N(i \<mapsto> k')) j = Some l"
  show "j < n" "self_ok j l" "sk_pending l = (Q(i := q)) j"
    using j net_okD(1,2,5) [OF N(1)] N(2) k' by (auto split: if_splits)
  show "stream_peer_ok n (N(i \<mapsto> k')) j l"
    by (rule peer_ok_update [OF N(2) k'(2) net_okD(3) [OF N] net_okD(3) [OF N(1)] j])
  obtain x where x: "N j = Some x" "set (sk_awaiting l) \<subseteq> set (sk_awaiting x)" "distinct (sk_awaiting l)"
    using j N(2) wait(1,2) net_okD(4) [OF N(1)] by (auto simp: waits_ok_def split: if_splits)
  then show "waits_ok n (N(i \<mapsto> k')) l"
    using net_okD(4) [OF N(1) x(1)] wait(3) by (auto simp: waits_ok_def awaited_def split: if_splits)
next
  fix j assume "n \<le> j"
  then show "(Q(i := q)) j = []" using net_okD(1) [OF N] net_okD(6) [OF N(1)] by simp
next
  fix j l x y c assume "(N(i \<mapsto> k')) j = Some x" "(N(i \<mapsto> k')) l = Some y" "c \<in> set (sk_awaiting x)" "c \<in> set (sk_awaiting y)"
  moreover from this obtain x' y' where "N j = Some x'" "N l = Some y'" "c \<in> set (sk_awaiting x')" "c \<in> set (sk_awaiting y')"
    using N(2) wait(2) by (auto split: if_splits)
  ultimately show "j = l" using net_okD(7) [OF N(1)] by blast
qed

lemma net_update_same:
  assumes "net_ok Q n N" "N i = Some k" "self_ok i k'" "peer_of k' = peer_of k" "sk_pending k' = sk_pending k"
    "distinct (sk_awaiting k')" "set (sk_awaiting k') \<subseteq> set (sk_awaiting k)" "awaited N i \<Longrightarrow> sk_state k' = StConnecting"
  shows "net_ok Q n (N(i \<mapsto> k'))"
proof -
  have "Q(i := Q i) = Q" by simp
  then show ?thesis using net_update [OF assms(1-4) _ assms(6-8), of "Q i"] net_okD(5) [OF assms(1,2)] assms(5) by simp
qed

text \<open>A client that waits nowhere starts to wait.\<close>

lemma net_wait:
  assumes N: "net_ok Q n N" "N j = Some l" and c: "c < n" "\<not> awaited N c" "\<And>k. N c = Some k \<Longrightarrow> sk_state k = StConnecting"
    and l': "sk_awaiting l' = sk_awaiting l @ [c]" "self_ok j l'" "peer_of l' = peer_of l" "sk_pending l' = sk_pending l" "sk_state l' = sk_state l"
  shows "net_ok Q n (N(j \<mapsto> l'))"
proof (rule net_okI)
  fix i k assume i: "(N(j \<mapsto> l')) i = Some k"
  show "i < n" "self_ok i k" "sk_pending k = Q i" using i net_okD(1,2,5) [OF N(1)] N(2) l' by (auto split: if_splits)
  show "stream_peer_ok n (N(j \<mapsto> l')) i k"
    by (rule peer_ok_update [OF N(2) l'(3) net_okD(3) [OF N] net_okD(3) [OF N(1)] i])
  have "c \<notin> set (sk_awaiting l)" using c(2) N(2) by (auto simp: awaited_def)
  then show "waits_ok n (N(j \<mapsto> l')) k"
    using i net_okD(4) [OF N(1)] N(2) l'(1,5) c(1,3) by (auto simp: waits_ok_def split: if_splits)
next
  fix i i' x y d assume "(N(j \<mapsto> l')) i = Some x" "(N(j \<mapsto> l')) i' = Some y" "d \<in> set (sk_awaiting x)" "d \<in> set (sk_awaiting y)"
  then show "i = i'" using net_okD(7) [OF N(1)] N(2) l'(1) c(2) by (auto simp: awaited_def split: if_splits)
qed (use net_okD(6) [OF N(1)] in auto)

text \<open>A new socket without a connection.\<close>

lemma net_insert:
  assumes N: "net_ok Q n N" and k: "self_ok n k" "sk_connection k = None" "sk_awaiting k = []" "awaited N n \<Longrightarrow> sk_state k = StConnecting"
  shows "net_ok Q (Suc n) (N(n \<mapsto> k))"
proof (rule net_okI)
  have none: "N n = None" using net_okD(1) [OF N, of n] by (cases "N n") auto
  fix i x assume i: "(N(n \<mapsto> k)) i = Some x"
  show "i < Suc n" "self_ok i x" "sk_pending x = Q i"
    using i net_okD(1,2,5) [OF N] net_okD(6) [OF N, of n] k(1,2) by (auto simp: sk_pending_def less_SucI split: if_splits)
  show "stream_peer_ok (Suc n) (N(n \<mapsto> k)) i x"
  proof (cases "i = n")
    case False
    then have "N i = Some x" using i by simp
    from net_okD(3) [OF N this] show ?thesis by (auto simp: stream_peer_ok_def)
  qed (use i k(2) in \<open>simp add: stream_peer_ok_def peer_of_def\<close>)
  show "waits_ok (Suc n) (N(n \<mapsto> k)) x"
  proof (cases "i = n")
    case False
    then have x: "N i = Some x" using i by simp
    from net_okD(4) [OF N this] x k(4) show ?thesis by (auto simp: waits_ok_def awaited_def)
  qed (use i k(3) in \<open>simp add: waits_ok_def\<close>)
next
  fix i j x y c assume "(N(n \<mapsto> k)) i = Some x" "(N(n \<mapsto> k)) j = Some y" "c \<in> set (sk_awaiting x)" "c \<in> set (sk_awaiting y)"
  then show "i = j" using net_okD(7) [OF N] k(3) by (auto split: if_splits)
qed (use net_okD(6) [OF N] in auto)

text \<open>A client that waits nowhere and the new socket of a listener become a pair.\<close>

lemma net_pair:
  assumes N: "net_ok Q n N" "N c = Some k" "\<not> awaited N c" "sk_connection k = None"
    and k': "self_ok c k'" "sk_connection k' = Some (connection_new n)" "sk_awaiting k' = sk_awaiting k"
    and new: "self_ok n new" "sk_connection new = Some (connection_new c)" "sk_awaiting new = []"
  shows "net_ok Q (Suc n) (N(c \<mapsto> k', n \<mapsto> new))"
proof (rule net_okI)
  have cn: "c < n" using net_okD(1) [OF N(1,2)] .
  have new_free: "\<not> awaited N n" using awaited_less [OF N(1)] by blast
  have empty: "Q c = []" "Q n = []" using net_okD(5) [OF N(1,2)] net_okD(6) [OF N(1), of n] N(4) by (simp_all add: sk_pending_def)
  have old_peer: "peer_of x \<noteq> Some n \<and> peer_of x \<noteq> Some c" if "N i = Some x" for i x
    using net_okD(3) [OF N(1) that] N(2,4) by (auto simp: stream_peer_ok_def peer_of_def)
  fix i x assume i: "(N(c \<mapsto> k', n \<mapsto> new)) i = Some x"
  show "i < Suc n" "self_ok i x" "sk_pending x = Q i"
    using i net_okD(1,2,5) [OF N(1)] k' new empty cn by (auto simp: sk_pending_def connection_new_def less_SucI split: if_splits)
  have peers: "peer_of k' = Some n" "peer_of new = Some c" using k'(2) new(2) by (simp_all add: peer_of_def connection_new_def)
  have which: "i = n \<and> x = new \<or> i = c \<and> x = k' \<or> N i = Some x" using i by (auto split: if_splits)
  consider (new) "i = n" "x = new" | (client) "i = c" "x = k'" "i \<noteq> n" | (old) "i \<noteq> n" "i \<noteq> c" "N i = Some x"
    using i cn by (auto split: if_splits)
  then show "stream_peer_ok (Suc n) (N(c \<mapsto> k', n \<mapsto> new)) i x"
  proof cases
    case old
    show ?thesis using net_okD(3) [OF N(1) old(3)] old_peer [OF old(3)] by (auto simp: stream_peer_ok_def)
  qed (use peers cn in \<open>simp_all add: stream_peer_ok_def\<close>)
  have old_waits: "waits_ok (Suc n) (N(c \<mapsto> k', n \<mapsto> new)) y" if "N j = Some y" for j y
    using net_okD(4) [OF N(1) that] that N(3) new_free by (auto simp: waits_ok_def awaited_def)
  from which show "waits_ok (Suc n) (N(c \<mapsto> k', n \<mapsto> new)) x"
    using old_waits [OF N(2)] old_waits k'(3) new(3) by (auto simp: waits_ok_def)
next
  fix i j x y d
  assume "(N(c \<mapsto> k', n \<mapsto> new)) i = Some x" "(N(c \<mapsto> k', n \<mapsto> new)) j = Some y" "d \<in> set (sk_awaiting x)" "d \<in> set (sk_awaiting y)"
  then show "i = j" using net_okD(7) [OF N(1)] N(2) k'(3) new(3) by (auto split: if_splits)
qed (use net_okD(6) [OF N(1)] in auto)

lemma net_remove:
  assumes "net_ok Q n N"
  shows "net_ok Q n (N(i := None))"
proof (rule net_okI)
  fix j k assume j: "(N(i := None)) j = Some k"
  then have j': "N j = Some k" by (auto split: if_splits)
  show "j < n" "self_ok j k" "sk_pending k = Q j" using net_okD(1,2,5) [OF assms j'] by simp_all
  show "stream_peer_ok n (N(i := None)) j k" "waits_ok n (N(i := None)) k"
    using net_okD(3,4) [OF assms j'] by (auto simp: stream_peer_ok_def waits_ok_def)
next
  fix j l x y c assume "(N(i := None)) j = Some x" "(N(i := None)) l = Some y" "c \<in> set (sk_awaiting x)" "c \<in> set (sk_awaiting y)"
  then show "j = l" using net_okD(7) [OF assms] by (auto split: if_splits)
qed (use net_okD(6) [OF assms] in auto)

text \<open>The client that is taken from the queue of a listener waits nowhere then.\<close>

lemma net_pop:
  assumes N: "net_ok Q n N" "N j = Some l" "sk_awaiting l = c # cs"
  shows "net_ok Q n (N(j \<mapsto> l\<lparr>sk_awaiting := cs\<rparr>))" "\<not> awaited (N(j \<mapsto> l\<lparr>sk_awaiting := cs\<rparr>)) c"
proof -
  have l: "self_ok j l" "waits_ok n N l" using net_okD(2,4) [OF N(1,2)] by auto
  then have d: "distinct (c # cs)" using N(3) by (simp add: waits_ok_def)
  show "net_ok Q n (N(j \<mapsto> l\<lparr>sk_awaiting := cs\<rparr>))"
    by (rule net_update_same [OF N(1,2)])
      (use l d N(3) awaited_connecting [OF N(1) _ N(2)] in \<open>auto simp: self_ok_def connected_def peer_of_def sk_pending_def\<close>)
  show "\<not> awaited (N(j \<mapsto> l\<lparr>sk_awaiting := cs\<rparr>)) c"
    using net_okD(7) [OF N(1) _ N(2), of _ _ c] N(3) d by (auto simp: awaited_def split: if_splits)
qed

end
