(* ===== verification/Uds_Stream_Proofs.thy ===== *)
theory Uds_Stream_Proofs
  imports Uds_Stream_Net Uds_Message
begin

text \<open>
  What the operations of the stream scheme do to the network of its sockets: reading takes bytes from
  the front of those that wait, writing adds bytes at the end, and nothing else changes them.
\<close>

section \<open>Reading packets\<close>

lemma advance_unread:
  assumes "packets_ok rest" "0 < n" "n \<le> length (unread p)" "dp_payload p' = dp_payload p" "dp_read_offset p' = dp_read_offset p"
  shows "unread_all (advance n p' rest) = drop n (unread p) @ unread_all rest" "packets_ok (advance n p' rest)"
  using assms by (auto simp: advance_def unread_def Let_def add.commute)

lemma take_ancillary_frame:
  "take_ancillary p g = (p', g') \<Longrightarrow> dp_payload p' = dp_payload p \<and> dp_read_offset p' = dp_read_offset p \<and> ga_payload g' = ga_payload g"
  by (auto simp: take_ancillary_def Let_def split: if_splits option.splits)

lemma copy_into_append:
  "off + length xs \<le> length buf \<Longrightarrow> copy_into (copy_into buf off xs) (off + length xs) ys = copy_into buf off (xs @ ys)"
  by (simp add: copy_into_def add.commute add.left_commute)

lemma read_packets_spec:
  assumes "packets_ok ps" "off \<le> length buf"
  shows "\<exists>ps'. read_packets off ps buf =
      ((ps', copy_into buf off (take (length buf - off) (unread_all ps))), Ok (off + min (length buf - off) (length (unread_all ps)))) \<and>
    unread_all ps' = drop (length buf - off) (unread_all ps) \<and> packets_ok ps'"
  using assms
proof (induction off ps buf rule: read_packets.induct)
  case (1 off ps buf)
  show ?case
  proof (cases "off < length buf \<and> ps \<noteq> []")
    case True
    then obtain p rest where ps: "ps = p # rest" by (cases ps) auto
    define m where "m = min (length (unread p)) (length buf - off)"
    let ?p = "p\<lparr>dp_ancillary_taken := (dp_read_offset p = 0 \<or> dp_ancillary_taken p)\<rparr>"
    have p: "dp_read_offset p < length (dp_payload p)" "packets_ok rest" using "1.prems"(1) ps by auto
    then have sl: "slice_from (dp_payload p) (dp_read_offset p) = Ok (unread p)" and len: "0 < length (unread p)"
      by (simp_all add: slice_from_def unread_def)
    have m: "0 < m" "off + m \<le> length buf" "m \<le> length (unread p)" using True len by (auto simp: m_def)
    note adv = advance_unread [OF p(2) m(1,3), of ?p]
    let ?ps = "advance m ?p rest" and ?buf = "copy_into buf off (take m (unread p))"
    have step: "read_packets off ps buf = read_packets (off + m) ?ps ?buf"
      using True sl m(1) by (subst read_packets.simps) (simp add: ps Let_def m_def [symmetric])
    have "\<exists>ps'. read_packets (off + m) ?ps ?buf = ((ps', copy_into ?buf (off + m) (take (length ?buf - (off + m)) (unread_all ?ps))),
          Ok (off + m + min (length ?buf - (off + m)) (length (unread_all ?ps)))) \<and>
        unread_all ps' = drop (length ?buf - (off + m)) (unread_all ?ps) \<and> packets_ok ps'"
      using "1.IH" [OF _ ps sl m_def _ refl] True ps m adv by simp
    then obtain ps' where ps': "read_packets off ps buf = ((ps', copy_into ?buf (off + m) (take (length buf - (off + m)) (unread_all ?ps))),
          Ok (off + m + min (length buf - (off + m)) (length (unread_all ?ps))))"
        "unread_all ps' = drop (length buf - (off + m)) (unread_all ?ps)" "packets_ok ps'"
      using step m(2) by auto
    have un: "unread_all ?ps = drop m (unread p) @ unread_all rest" using adv(1) by simp
    show ?thesis
    proof (cases "length (unread p) \<le> length buf - off")
      case True
      then show ?thesis using ps' un m(2) copy_into_append [of off "unread p" buf] by (simp add: ps m_def)
    next
      case False
      then show ?thesis using ps' un m(2) by (simp add: ps m_def)
    qed
  qed (use "1.prems" in \<open>auto simp: read_packets.simps split: list.splits\<close>)
qed

lemma gather_spec:
  assumes "packets_ok ps" "off \<le> iov"
  shows "\<exists>ps' g'. gather iov off ps g = Ok (ps', g', off + min (iov - off) (length (unread_all ps))) \<and>
    ga_payload g' = ga_payload g @ take (iov - off) (unread_all ps) \<and>
    unread_all ps' = drop (iov - off) (unread_all ps) \<and> packets_ok ps'"
  using assms
proof (induction iov off ps g rule: gather.induct)
  case (1 iov off ps g)
  show ?case
  proof (cases "off < iov \<and> ps \<noteq> []")
    case True
    then obtain p rest where ps: "ps = p # rest" by (cases ps) auto
    define m where "m = min (length (unread p)) (iov - off)"
    have p: "dp_read_offset p < length (dp_payload p)" "packets_ok rest" using "1.prems"(1) ps by auto
    then have sl: "slice_from (dp_payload p) (dp_read_offset p) = Ok (unread p)" and len: "0 < length (unread p)"
      by (simp_all add: slice_from_def unread_def)
    have m: "0 < m" "off + m \<le> iov" "m \<le> length (unread p)" using True len by (auto simp: m_def)
    obtain p1 g1 where t: "take_ancillary p (g\<lparr>ga_payload := ga_payload g @ take m (unread p)\<rparr>) = (p1, g1)" by fastforce
    then have t': "dp_payload p1 = dp_payload p" "dp_read_offset p1 = dp_read_offset p" "ga_payload g1 = ga_payload g @ take m (unread p)"
      by (auto dest!: take_ancillary_frame)
    note adv = advance_unread [OF p(2) m(1,3) t'(1,2)]
    have step: "gather iov off ps g = gather iov (off + m) (advance m p1 rest) g1"
      using True sl m(1) t by (subst gather.simps) (simp add: ps Let_def m_def [symmetric])
    have "\<exists>ps' g'. gather iov (off + m) (advance m p1 rest) g1 = Ok (ps', g', off + m + min (iov - (off + m)) (length (unread_all (advance m p1 rest)))) \<and>
        ga_payload g' = ga_payload g1 @ take (iov - (off + m)) (unread_all (advance m p1 rest)) \<and>
        unread_all ps' = drop (iov - (off + m)) (unread_all (advance m p1 rest)) \<and> packets_ok ps'"
      using "1.IH" [OF _ ps sl m_def _ t [symmetric] refl] True m adv by simp
    then obtain ps' g' where ps': "gather iov off ps g = Ok (ps', g', off + m + min (iov - (off + m)) (length (unread_all (advance m p1 rest))))"
        "ga_payload g' = ga_payload g @ take m (unread p) @ take (iov - (off + m)) (unread_all (advance m p1 rest))"
        "unread_all ps' = drop (iov - (off + m)) (unread_all (advance m p1 rest))" "packets_ok ps'"
      using step t'(3) by auto
    show ?thesis
    proof (cases "length (unread p) \<le> iov - off")
      case True
      then show ?thesis using ps' adv(1) m(2) by (simp add: ps m_def)
    next
      case False
      then show ?thesis using ps' adv(1) m(2) by (simp add: ps m_def)
    qed
  qed (use "1.prems" in \<open>auto simp: gather.simps split: list.splits\<close>)
qed

section \<open>The invariant\<close>

definition socks :: "stream \<Rightarrow> sockets" where
  "socks s i = map_option (us_cells s) (us_sockets s i)"

definition streams_ok :: "(nat \<Rightarrow> u8 list) \<Rightarrow> stream \<Rightarrow> bool" where
  "streams_ok Q s \<longleftrightarrow> net_ok Q (us_next_id s) (socks s) \<and> (\<forall>i a. us_sockets s i = Some a \<longrightarrow> a < us_fresh s)"

lemma stream_ok_cong:
  "streams_ok Q s \<Longrightarrow> us_cells s' = us_cells s \<Longrightarrow> us_sockets s' = us_sockets s \<Longrightarrow> us_next_id s' = us_next_id s \<Longrightarrow>
   us_fresh s' = us_fresh s \<Longrightarrow> streams_ok Q s'"
  by (simp add: streams_ok_def socks_def [abs_def])

lemma stream_ok_tables [simp]:
  "streams_ok Q (s\<lparr>us_posted := x1\<rparr>) = streams_ok Q s" "streams_ok Q (s\<lparr>us_paths := x2\<rparr>) = streams_ok Q s"
  "streams_ok Q (s\<lparr>us_tokens := x3\<rparr>) = streams_ok Q s" "streams_ok Q (s\<lparr>us_rng := x4\<rparr>) = streams_ok Q s"
  by (simp_all add: streams_ok_def socks_def [abs_def])

lemma stream_okD:
  assumes "streams_ok Q s"
  shows "net_ok Q (us_next_id s) (socks s)" "us_sockets s i = Some a \<Longrightarrow> a < us_fresh s"
    "us_sockets s i = Some a \<Longrightarrow> socks s i = Some (us_cells s a)"
  using assms by (auto simp: streams_ok_def socks_def)

lemma cell_unique:
  assumes "streams_ok Q s" "us_sockets s i = Some a" "us_sockets s j = Some a"
  shows "i = j"
  using net_okD(2) [OF stream_okD(1) [OF assms(1)]] stream_okD(3) [OF assms(1)] assms(2,3) by (metis self_ok_def)

lemma socks_set_cell:
  assumes "streams_ok Q s" "us_sockets s i = Some a"
  shows "socks (set_cell a k s) = (socks s)(i \<mapsto> k)"
proof
  show "socks (set_cell a k s) j = ((socks s)(i \<mapsto> k)) j" for j
    using cell_unique [OF assms(1) _ assms(2), of j] assms(2) by (cases "us_sockets s j") (auto simp: socks_def)
qed

lemma socks_set_other: "\<forall>i. us_sockets s i \<noteq> Some a \<Longrightarrow> socks (set_cell a k s) = socks s"
  by (rule ext) (auto simp: socks_def map_option_case split: option.splits)

lemma socks_insert:
  assumes "streams_ok Q s"
  shows "socks (insert_socket j k s) = (socks s)(j \<mapsto> k)"
proof
  show "socks (insert_socket j k s) i = ((socks s)(j \<mapsto> k)) i" for i
    using stream_okD(2) [OF assms, of i] by (cases "us_sockets s i") (auto simp: socks_def)
qed

text \<open>A change of one socket.\<close>

lemma stream_ok_set:
  assumes s: "streams_ok Q s" "us_sockets s i = Some a" and N: "net_ok Q' (us_next_id s) ((socks s)(i \<mapsto> k'))"
  shows "streams_ok Q' (set_cell a k' s)"
  using N stream_okD(2) [OF s(1)] by (simp add: streams_ok_def socks_set_cell [OF s])

lemma stream_ok_update:
  assumes s: "streams_ok Q s" "us_sockets s i = Some a" and k': "self_ok i k'" "peer_of k' = peer_of (us_cells s a)" "sk_pending k' = q"
    "sk_awaiting k' = sk_awaiting (us_cells s a)" "sk_state k' = sk_state (us_cells s a)"
  shows "streams_ok (Q(i := q)) (set_cell a k' s)"
proof (rule stream_ok_set [OF s])
  note N = stream_okD(1) [OF s(1)] and k = stream_okD(3) [OF s]
  have "distinct (sk_awaiting (us_cells s a))" using net_okD(4) [OF N k] by (simp add: waits_ok_def)
  then show "net_ok (Q(i := q)) (us_next_id s) ((socks s)(i \<mapsto> k'))"
    using net_update [OF N k k'(1-3)] k'(4,5) awaited_connecting [OF N _ k] by simp
qed

text \<open>A change that leaves the number, the state, the waiting clients and the connection.\<close>

lemma stream_ok_same:
  assumes s: "streams_ok Q s" "us_sockets s i = Some a"
    and k': "sk_primary_id k' = sk_primary_id (us_cells s a)" "sk_state k' = sk_state (us_cells s a)"
      "sk_awaiting k' = sk_awaiting (us_cells s a)" "sk_connection k' = sk_connection (us_cells s a)"
  shows "streams_ok Q (set_cell a k' s)"
proof -
  note N = stream_okD(1) [OF s(1)] and k = stream_okD(3) [OF s]
  have "Q(i := Q i) = Q" by simp
  moreover have "self_ok i k'" using net_okD(2) [OF N k] k' by (simp add: self_ok_def connected_def)
  moreover have "sk_pending k' = Q i" using net_okD(5) [OF N k] k'(4) by (simp add: sk_pending_def)
  ultimately show ?thesis using stream_ok_update [OF s, of k' "Q i"] k' by (simp add: peer_of_def)
qed

text \<open>A change of the connection with the same peer.\<close>

lemma stream_ok_connection:
  assumes s: "streams_ok Q s" "us_sockets s i = Some a" and c: "sk_connection (us_cells s a) = Some c"
    and c': "cn_peer c' = cn_peer c" "packets_ok (cn_packets c')" "unread_all (cn_packets c') = q"
  shows "streams_ok (Q(i := q)) (set_cell a (set_connection c' (us_cells s a)) s)"
proof (rule stream_ok_update [OF s])
  show "self_ok i (set_connection c' (us_cells s a))"
    using net_okD(2) [OF stream_okD(1) [OF s(1)] stream_okD(3) [OF s]] c c'(2) by (simp add: self_ok_def set_connection_def connected_def)
qed (use c c' in \<open>simp_all add: set_connection_def peer_of_def sk_pending_def\<close>)

lemma stream_ok_connection_same:
  assumes "streams_ok Q s" "us_sockets s i = Some a" "sk_connection (us_cells s a) = Some c"
    "cn_peer c' = cn_peer c" "cn_packets c' = cn_packets c"
  shows "streams_ok Q (set_cell a (set_connection c' (us_cells s a)) s)"
proof -
  note N = stream_okD(1) [OF assms(1)] and k = stream_okD(3) [OF assms(1,2)]
  have "unread_all (cn_packets c') = Q i" using net_okD(5) [OF N k] assms(3,5) by (simp add: sk_pending_def)
  moreover have "packets_ok (cn_packets c')" using net_okD(2) [OF N k] assms(3,5) by (simp add: self_ok_def)
  moreover have "Q(i := Q i) = Q" by simp
  ultimately show ?thesis using stream_ok_connection [OF assms(1-4)] by metis
qed

section \<open>Connected sockets\<close>

lemma require_connected_eq:
  "require_connected_connection E f k = Ok c \<longleftrightarrow> connected k \<and> sk_connection k = Some c" "require_connected_connection E f k \<noteq> Panic"
  by (auto simp: require_connected_connection_def require_connection_def connected_def Let_def split: stream_state.splits)

lemma connected_peerD:
  assumes "stream_get_connected_peer E i f s = Ok (j, b)"
  obtains a c where "us_sockets s i = Some a" "sk_connection (us_cells s a) = Some c" "cn_peer c = j" "us_sockets s j = Some b" "a \<noteq> b"
  using assms by (auto simp: stream_get_connected_peer_def and_then_eq_Ok require_connected_eq Let_def split: outcome.splits if_splits)

text \<open>The socket that receives is connected, and to the one that sends.\<close>

lemma peer_connected:
  assumes s: "streams_ok Q s" and peer: "stream_get_connected_peer E i f s = Ok (j, b)"
  obtains d where "us_sockets s j = Some b" "connected (us_cells s b)" "sk_connection (us_cells s b) = Some d" "cn_peer d = i"
proof -
  from peer obtain a c where a: "us_sockets s i = Some a" "sk_connection (us_cells s a) = Some c" "cn_peer c = j" "us_sockets s j = Some b"
    by (rule connected_peerD)
  note N = stream_okD(1) [OF s] and i = stream_okD(3) [OF s a(1)] and j = stream_okD(3) [OF s a(4)]
  have "peer_of (us_cells s b) = Some i" using net_okD(3) [OF N i] a(2,3) j by (simp add: stream_peer_ok_def peer_of_def)
  moreover from this have "connected (us_cells s b)" using net_okD(2) [OF N j] by (auto simp: self_ok_def peer_of_def)
  ultimately show thesis using that a(4) by (auto simp: peer_of_def)
qed

lemma connected_peer_no_panic:
  assumes "streams_ok Q s"
  shows "stream_get_connected_peer E i f s \<noteq> Panic"
proof
  assume "stream_get_connected_peer E i f s = Panic"
  then obtain a c where a: "us_sockets s i = Some a" "sk_connection (us_cells s a) = Some c" "us_sockets s (cn_peer c) = Some a"
    by (auto simp: stream_get_connected_peer_def and_then_eq_Panic require_connected_eq Let_def split: outcome.splits if_splits)
  then have "cn_peer c = i" using cell_unique [OF assms] by blast
  moreover have "cn_peer c \<noteq> i"
    using net_okD(3) [OF stream_okD(1) [OF assms] stream_okD(3) [OF assms a(1)]] a(2) by (simp add: stream_peer_ok_def peer_of_def)
  ultimately show False by simp
qed

lemma stream_ok_pushed:
  assumes s: "streams_ok Q s" "us_sockets s j = Some b" and d: "sk_connection (us_cells s b) = Some d"
    and p: "dp_payload p = buf" "dp_read_offset p = 0" "buf \<noteq> []"
  shows "streams_ok (Q(j := Q j @ buf)) (set_cell b (set_connection (d\<lparr>cn_packets := cn_packets d @ [p]\<rparr>) (us_cells s b)) s)"
proof (rule stream_ok_connection [OF s d])
  note N = stream_okD(1) [OF s(1)] and k = stream_okD(3) [OF s]
  show "packets_ok (cn_packets (d\<lparr>cn_packets := cn_packets d @ [p]\<rparr>))" using net_okD(2) [OF N k] d p by (simp add: self_ok_def)
  show "unread_all (cn_packets (d\<lparr>cn_packets := cn_packets d @ [p]\<rparr>)) = Q j @ buf"
    using net_okD(5) [OF N k] d p by (simp add: sk_pending_def unread_def)
qed simp

section \<open>Writing and reading\<close>

lemma stream_write_effect:
  assumes E: "uds_events_ok E" and s: "streams_ok Q s" and run: "stream_write E i buf off ff ctx s = (s', r)"
  shows "(\<exists>e. r = Err e \<and> s' = s) \<or>
    (\<exists>j b. r = Ok (length buf) \<and> stream_get_connected_peer E i 0 s = Ok (j, b) \<and> streams_ok (Q(j := Q j @ buf)) s')"
proof (cases "stream_get_connected_peer E i 0 s")
  case (Ok jb)
  obtain j b where jb: "jb = (j, b)" by (cases jb)
  from peer_connected [OF s Ok [unfolded jb]] obtain d where d: "us_sockets s j = Some b" "connected (us_cells s b)" "sk_connection (us_cells s b) = Some d"
    by blast
  have req: "require_connected_connection E 0 (us_cells s b) = Ok d" "get_socket j s = Ok b" using d by (simp_all add: require_connected_eq)
  have "r = Ok (length buf) \<and> streams_ok (Q(j := Q j @ buf)) s'"
  proof (cases "buf = []")
    case True
    then show ?thesis using run Ok jb d s req by (auto simp: stream_write_def stream_write_inner_def Let_def uds_post_ok [OF E])
  next
    case False
    let ?p = "packet_new buf (ancillary_new \<lparr>cr_pid = word_of_nat (ctx_pid ctx), cr_uid = ctx_uid ctx, cr_gid = ctx_gid ctx\<rparr> (sk_path (us_cells s b)))"
    have "streams_ok (Q(j := Q j @ buf)) (set_cell b (set_connection (d\<lparr>cn_packets := cn_packets d @ [?p]\<rparr>) (us_cells s b)) s)"
      using stream_ok_pushed [OF s d(1,3), of ?p buf] False by (simp add: packet_new_def)
    then show ?thesis using run Ok jb d req False by (auto simp: stream_write_def stream_write_inner_def Let_def uds_post_ok [OF E])
  qed
  then show ?thesis using Ok jb by blast
next
  case Panic
  then show ?thesis using connected_peer_no_panic [OF s, of E i 0] by simp
qed (use run in \<open>auto simp: stream_write_def\<close>)

lemma stream_sendmsg_effect:
  assumes E: "uds_events_ok E" and s: "streams_ok Q s" and run: "stream_handle_sendmsg E i f buf ctx s = (s', r)" "r \<noteq> Panic"
  shows "(\<exists>e. r = Err e \<and> s' = s) \<or>
    (\<exists>j b. r = Ok (length (msg_payload buf)) \<and> stream_get_connected_peer E i f s = Ok (j, b) \<and> streams_ok (Q(j := Q j @ msg_payload buf)) s')"
proof (cases "\<exists>e. r = Err e")
  case True
  then show ?thesis using run(1)
    by (auto simp: stream_handle_sendmsg_def Let_def uds_post_ok [OF E] split: question_splits if_splits)
next
  case False
  then obtain n where n: "r = Ok n" using run(2) by (cases r) auto
  then obtain a j b c pid uid gid p where step: "stream_get_connected_peer E i f s = Ok (j, b)" "require_connected_connection E f (us_cells s b) = Ok c"
      "packet_from_stream E buf (sk_path (us_cells s a)) \<lparr>cr_pid = pid, cr_uid = uid, cr_gid = gid\<rparr> = Ok p" "n = length (dp_payload p)"
      "dp_payload p = [] \<and> s' = s \<or> dp_payload p \<noteq> [] \<and>
        s' = (set_cell b (set_connection (c\<lparr>cn_packets := cn_packets c @ [p]\<rparr>) (us_cells s b)) s)\<lparr>us_posted := us_posted s @ [post_fevent_response j (EVENT_READ (ue_abi E))]\<rparr>"
    using run(1) by (auto simp: stream_handle_sendmsg_def Let_def uds_post_ok [OF E] split: question_splits if_splits prod.splits)
  have p: "dp_payload p = msg_payload buf" "dp_read_offset p = 0" using packet_payload [OF step(3)] packet_offset [OF step(3)] by auto
  have b: "us_sockets s j = Some b" "sk_connection (us_cells s b) = Some c" using step(1,2) by (auto simp: require_connected_eq elim: connected_peerD)
  have "streams_ok (Q(j := Q j @ msg_payload buf)) s'"
    using step(5) p s stream_ok_pushed [OF s b p] by auto
  then show ?thesis using n step(1,4) p by auto
qed

text \<open>Bytes taken from a socket that does not exist any more, or has none.\<close>

lemma not_connected_empty:
  assumes "streams_ok Q s" "us_sockets s i = Some a" "sk_connection (us_cells s a) = None"
  shows "Q i = []"
  using net_okD(5) [OF stream_okD(1) [OF assms(1)] stream_okD(3) [OF assms(1,2)]] assms(3) by (simp add: sk_pending_def)

lemma stream_read_effect:
  assumes s: "streams_ok Q s" and run: "stream_read E i buf off ff ctx s = ((s', buf'), r)" "r \<noteq> Panic"
  shows "(\<exists>e. r = Err e \<and> streams_ok Q s') \<or>
    (\<exists>n. r = Ok n \<and> n = min (length buf) (length (Q i)) \<and> take n buf' = take n (Q i) \<and> streams_ok (Q(i := drop n (Q i))) s')"
proof (cases "us_sockets s i")
  case (Some a)
  note N = stream_okD(1) [OF s] and k = stream_okD(3) [OF s Some]
  have gs: "get_socket i s = Ok a" using Some by simp
  show ?thesis
  proof (cases "connected (us_cells s a)")
    case True
    then obtain c where c: "sk_connection (us_cells s a) = Some c" using net_okD(2) [OF N k] by (auto simp: self_ok_def)
    have req: "require_connected_connection E 0 (us_cells s a) = Ok c" using True c by (simp add: require_connected_eq)
    have st: "sk_state (us_cells s a) \<in> {StEstablished, StAccepted}" using True by (auto simp: connected_def)
    have ps: "packets_ok (cn_packets c)" "unread_all (cn_packets c) = Q i"
      using net_okD(2,5) [OF N k] c by (auto simp: self_ok_def sk_pending_def)
    let ?n = "min (length buf) (length (Q i))"
    obtain ps' where ps': "read_packets 0 (cn_packets c) buf = ((ps', copy_into buf 0 (take (length buf) (Q i))), Ok ?n)"
      "unread_all ps' = drop (length buf) (Q i)" "packets_ok ps'"
      using read_packets_spec [OF ps(1), of 0 buf] ps(2) by auto
    have s': "s' = set_cell a (set_connection (c\<lparr>cn_packets := ps'\<rparr>) (us_cells s a)) s" "buf' = copy_into buf 0 (take (length buf) (Q i))"
      and r: "r = Ok ?n \<or> (\<exists>e. r = Err e) \<and> ?n = 0"
      using run st by (auto simp: stream_read_def gs req stream_read_inner_def ps'(1) Let_def split: question_splits if_splits)
    have "streams_ok (Q(i := drop (length buf) (Q i))) s'" unfolding s'(1)
      by (rule stream_ok_connection [OF s Some c]) (use ps' in simp_all)
    moreover have "drop (length buf) (Q i) = drop ?n (Q i)" by (cases "length buf \<le> length (Q i)") simp_all
    ultimately have ok: "streams_ok (Q(i := drop ?n (Q i))) s'" by simp
    have "take ?n buf' = take ?n (Q i)" by (simp add: s'(2) copy_into_def)
    moreover have "Q(i := drop 0 (Q i)) = Q" by simp
    ultimately show ?thesis using r ok by metis
  next
    case False
    then have none: "Q i = []" using not_connected_empty [OF s Some] net_okD(2) [OF N k] by (auto simp: self_ok_def)
    then have "s' = s" "(\<exists>e. r = Err e) \<or> r = Ok 0"
      using run False by (auto simp: stream_read_def gs connected_def Let_def split: if_splits)
    moreover have "Q(i := []) = Q" using none by auto
    ultimately show ?thesis using none s by auto
  qed
qed (use s run in \<open>auto simp: stream_read_def get_socket_def\<close>)

text \<open>How many bytes a \<open>recvmsg\<close> takes: the size in the header of the buffer.\<close>

definition recv_size :: "u8 list \<Rightarrow> nat" where
  "recv_size buf = (if length buf < 24 then 0 else from_le (take 8 (drop 8 buf)))"

lemma conn_drop_fds_frame: "conn_drop_fds n c = (c', r) \<Longrightarrow> cn_packets c' = cn_packets c \<and> cn_peer c' = cn_peer c"
  by (induction n arbitrary: c) (auto split: list.splits)

lemma conn_serialize_effect:
  assumes "packets_ok (cn_packets c)" and run: "conn_serialize_to_msgstream E nl iov opts (c, buf) = ((c', buf'), r)" "r \<noteq> Panic"
  shows "cn_peer c' = cn_peer c \<and> packets_ok (cn_packets c') \<and> unread_all (cn_packets c') = drop iov (unread_all (cn_packets c))"
proof -
  obtain ps' g' n where g: "gather iov 0 (cn_packets c) \<lparr>ga_name = None, ga_payload = [], ga_ancillary = []\<rparr> = Ok (ps', g', n)"
    "unread_all ps' = drop iov (unread_all (cn_packets c))" "packets_ok ps'"
    using gather_spec [OF assms(1), of 0 iov] by fastforce
  have "cn_packets c' = ps' \<and> cn_peer c' = cn_peer c" using run
    by (auto simp: conn_serialize_to_msgstream_def g(1) Let_def dest!: conn_drop_fds_frame split: question_splits prod.splits if_splits)
  then show ?thesis using g by simp
qed

section \<open>Connecting and accepting\<close>

text \<open>A socket that has no connection changes its state; it waits for no listener, or starts to.\<close>

lemma stream_ok_state:
  assumes s: "streams_ok Q s" "us_sockets s i = Some a" and k: "sk_connection (us_cells s a) = None"
    and k': "sk_primary_id k' = sk_primary_id (us_cells s a)" "sk_awaiting k' = sk_awaiting (us_cells s a)" "sk_connection k' = None" "\<not> connected k'"
    and wait: "sk_state (us_cells s a) \<noteq> StConnecting \<or> \<not> awaited (socks s) i \<or> sk_state k' = StConnecting"
  shows "streams_ok Q (set_cell a k' s)"
proof (rule stream_ok_set [OF s])
  note N = stream_okD(1) [OF s(1)] and ka = stream_okD(3) [OF s]
  show "net_ok Q (us_next_id s) ((socks s)(i \<mapsto> k'))"
  proof (rule net_update_same [OF N ka])
    show "self_ok i k'" using net_okD(2) [OF N ka] k' by (simp add: self_ok_def)
    show "distinct (sk_awaiting k')" using net_okD(4) [OF N ka] k'(2) by (simp add: waits_ok_def)
    show "sk_state k' = StConnecting" if "awaited (socks s) i" using wait that awaited_connecting [OF N that ka] by auto
  qed (use k k' in \<open>auto simp: peer_of_def sk_pending_def\<close>)
qed

lemma no_connection: "streams_ok Q s \<Longrightarrow> us_sockets s i = Some a \<Longrightarrow> \<not> connected (us_cells s a) \<Longrightarrow> sk_connection (us_cells s a) = None"
  using net_okD(2) [OF stream_okD(1) stream_okD(3)] by (force simp: self_ok_def)

lemma awaited_set_cell:
  assumes "streams_ok Q s" "us_sockets s i = Some a" "sk_awaiting k' = sk_awaiting (us_cells s a)"
  shows "awaited (socks (set_cell a k' s)) c = awaited (socks s) c"
  unfolding socks_set_cell [OF assms(1,2)] awaited_def using stream_okD(3) [OF assms(1,2)] assms(3) by (metis fun_upd_apply option.inject)

lemma connect_keeps:
  assumes E: "uds_events_ok E" and s: "streams_ok Q s" and run: "stream_handle_connect E i buf s = (s', r)" "r \<noteq> Panic"
  shows "streams_ok Q s'"
proof (cases "\<exists>t l a. read_u64 buf = Ok t \<and> us_tokens s t = Some l \<and> us_sockets s i = Some a")
  case True
  then obtain t l a where tl: "read_u64 buf = Ok t" "us_tokens s t = Some l" and a: "us_sockets s i = Some a" by blast
  have gs: "get_socket i s = Ok a" using a by simp
  let ?k = "us_cells s a" and ?K = "ue_abi E"
  note N = stream_okD(1) [OF s] and k = stream_okD(3) [OF s a]
  show ?thesis
  proof (cases "sk_state ?k \<in> {StConnecting, StEstablished, StAccepted}")
    case True
    have "streams_ok Q (set_cell a (?k\<lparr>sk_state := StEstablished\<rparr>) s)" if st: "sk_state ?k = StAccepted"
    proof (rule stream_ok_set [OF s a], rule net_update_same [OF N k])
      show "self_ok i (?k\<lparr>sk_state := StEstablished\<rparr>)" using net_okD(2) [OF N k] st by (simp add: self_ok_def connected_def)
      show "distinct (sk_awaiting (?k\<lparr>sk_state := StEstablished\<rparr>))" using net_okD(4) [OF N k] by (simp add: waits_ok_def)
    qed (use awaited_connecting [OF N _ k] st in \<open>auto simp: peer_of_def sk_pending_def\<close>)
    then show ?thesis using True run(1) s by (auto simp: stream_handle_connect_def tl gs Let_def)
  next
    case False
    have la: "l \<noteq> a" using run False by (auto simp: stream_handle_connect_def tl gs Let_def split: stream_state.splits)
    let ?k' = "?k\<lparr>sk_state := StConnecting\<rparr>"
    have conn: "sk_connection ?k = None" using no_connection [OF s a] False by (auto simp: connected_def)
    have s1: "streams_ok Q (set_cell a ?k' s)" by (rule stream_ok_state [OF s a conn]) (use conn in \<open>auto simp: connected_def\<close>)
    have free: "\<not> awaited (socks (set_cell a ?k' s)) i"
      using awaited_set_cell [OF s a, of ?k' i] awaited_connecting [OF N _ k] False by auto
    have wait: "streams_ok Q (set_cell l (us_cells s l\<lparr>sk_awaiting := sk_awaiting (us_cells s l) @ [i]\<rparr>) (set_cell a ?k' s))"
    proof (cases "\<exists>j. us_sockets s j = Some l")
      case True
      then obtain j where j: "us_sockets (set_cell a ?k' s) j = Some l" by auto
      note N1 = stream_okD(1) [OF s1] and kl = stream_okD(3) [OF s1 j]
      have "i < us_next_id (set_cell a ?k' s)" using net_okD(1) [OF N k] by simp
      moreover have "sk_state x = StConnecting" if "socks (set_cell a ?k' s) i = Some x" for x
        using that by (auto simp: socks_set_cell [OF s a])
      moreover have "self_ok j (us_cells s l\<lparr>sk_awaiting := sk_awaiting (us_cells s l) @ [i]\<rparr>)"
        using net_okD(2) [OF N1 kl] la by (simp add: self_ok_def connected_def)
      ultimately show ?thesis
        by (intro stream_ok_set [OF s1 j] net_wait [OF N1 kl _ free]) (use la in \<open>simp_all add: peer_of_def sk_pending_def\<close>)
    next
      case False
      then have "\<forall>i. us_sockets (set_cell a ?k' s) i \<noteq> Some l" by simp
      from socks_set_other [OF this] show ?thesis using s1 by (simp add: streams_ok_def)
    qed
    have "set_cell a ?k' (set_cell l x s) = set_cell l x (set_cell a ?k' s)" for x
      using la by (simp add: set_cell_def fun_upd_twist)
    then show ?thesis using False run s wait la
      by (auto simp: stream_handle_connect_def tl gs Let_def uds_post_ok [OF E] sock_connect_def split: stream_state.splits question_splits if_splits)
  qed
next
  case False
  then show ?thesis using run s
    by (auto simp: stream_handle_connect_def Let_def get_socket_def split: question_splits option.splits)
qed

lemma insert_after_set:
  assumes "streams_ok Q s" "us_sockets s i = Some a"
  shows "socks (insert_socket j new ((set_cell a k s)\<lparr>us_next_id := n\<rparr>)) = (socks s)(i \<mapsto> k, j \<mapsto> new)"
proof
  show "socks (insert_socket j new ((set_cell a k s)\<lparr>us_next_id := n\<rparr>)) m = ((socks s)(i \<mapsto> k, j \<mapsto> new)) m" for m
    using stream_okD(2) [OF assms(1), of m] stream_okD(2) [OF assms] cell_unique [OF assms(1) _ assms(2), of m] assms(2)
    by (cases "us_sockets s m") (auto simp: socks_def)
qed

lemma accept_keeps:
  assumes E: "uds_events_ok E" and s: "streams_ok Q s" "us_sockets s i = Some l" and run: "stream_handle_accept E l ctx s = (s', r)" "r \<noteq> Panic"
  shows "streams_ok Q s'"
proof (cases "is_listening (us_cells s l) \<and> sk_awaiting (us_cells s l) \<noteq> []")
  case True
  then obtain c cs where cs: "sk_awaiting (us_cells s l) = c # cs" by (cases "sk_awaiting (us_cells s l)") auto
  let ?s1 = "set_cell l ((us_cells s l)\<lparr>sk_awaiting := cs\<rparr>) s"
  note N = stream_okD(1) [OF s(1)] and k = stream_okD(3) [OF s]
  have N1: "net_ok Q (us_next_id s) (socks ?s1)" and free: "\<not> awaited (socks ?s1) c"
    using net_pop [OF N k cs] by (simp_all add: socks_set_cell [OF s])
  have s1: "streams_ok Q ?s1" using N1 stream_okD(2) [OF s(1)] by (simp add: streams_ok_def)
  show ?thesis
  proof (cases "us_sockets s c")
    case None
    then show ?thesis using True cs run s1 by (auto simp: stream_handle_accept_def accept_connection_def get_socket_def Let_def)
  next
    case (Some b)
    have c: "us_sockets ?s1 c = Some b" using Some by simp
    have gs: "get_socket c ?s1 = Ok b" using Some by simp
    let ?n = "us_next_id s" and ?kb = "us_cells ?s1 b"
    let ?client = "?kb\<lparr>sk_state := StAccepted, sk_connection := Some (connection_new ?n)\<rparr>"
    let ?new = "stream_socket_new ?n (sk_path (us_cells s l)) StEstablished (sk_options (us_cells s l)) (sk_flags (us_cells s l)) (Some (connection_new c)) ctx"
    show ?thesis
    proof (cases "b \<noteq> l \<and> sk_state ?kb = StConnecting \<and> ?n + 1 < usize_range")
      case ok: True
      note kb = stream_okD(3) [OF s1 c]
      have conn: "sk_connection ?kb = None" using no_connection [OF s1 c] ok by (auto simp: connected_def)
      have "net_ok Q (Suc ?n) ((socks ?s1)(c \<mapsto> ?client, ?n \<mapsto> ?new))"
        using net_pair [OF N1 kb free conn, of ?client ?new] net_okD(2) [OF N1 kb]
        by (simp add: self_ok_def connected_def stream_socket_new_def connection_new_def)
      moreover have "socks (insert_socket ?n ?new ((set_cell b ?client ?s1)\<lparr>us_next_id := Suc ?n\<rparr>)) = (socks ?s1)(c \<mapsto> ?client, ?n \<mapsto> ?new)"
        using insert_after_set [OF s1 c, of ?n ?new "Suc ?n" ?client] by simp
      ultimately have "streams_ok Q (insert_socket ?n ?new ((set_cell b ?client ?s1)\<lparr>us_next_id := Suc ?n\<rparr>))"
        using stream_okD(2) [OF s1] by (auto simp: streams_ok_def less_SucI split: if_splits)
      then show ?thesis using True cs run ok
        by (auto simp: stream_handle_accept_def accept_connection_def gs sock_accept_def sock_establish_def is_listening_def bump_next_id_def
            usize_add_def uds_post_ok [OF E] Let_def)
    next
      case False
      then have "s' = ?s1" using True cs run
        by (auto simp: stream_handle_accept_def accept_connection_def gs sock_accept_def sock_establish_def is_listening_def bump_next_id_def
            usize_add_def Let_def split: question_splits if_splits)
      then show ?thesis using s1 by simp
    qed
  qed
next
  case False
  then show ?thesis using run s by (auto simp: stream_handle_accept_def Let_def split: if_splits list.splits)
qed

lemma start_listening_keeps:
  assumes s: "streams_ok Q s" "us_sockets s i = Some a" and run: "handle_start_listening a s = (s', r)"
  shows "streams_ok Q s'"
proof -
  have "streams_ok Q (set_cell a ((us_cells s a)\<lparr>sk_state := StListening\<rparr>) s)" if "sk_state (us_cells s a) \<in> {StUnbound, StBound}"
    using that by (intro stream_ok_state [OF s no_connection [OF s]]) (auto simp: connected_def no_connection [OF s])
  then show ?thesis using run s
    by (auto simp: handle_start_listening_def start_listening_def Let_def split: question_splits option.splits if_splits)
qed

lemma listen_keeps:
  assumes "uds_events_ok E" "streams_ok Q s" "stream_handle_listen E i ctx s = (s', r)" "r \<noteq> Panic"
  shows "streams_ok Q s'"
  using assms
proof (induction E i ctx s rule: stream_handle_listen.induct)
  case (1 E i ctx s)
  note run = "1.prems"(3) [unfolded stream_handle_listen.simps [of E i ctx s]]
  show ?case
  proof (cases "us_sockets s i")
    case None
    then show ?thesis using "1.prems"(2) run by simp
  next
    case (Some a)
    obtain s1 r1 where acc: "stream_handle_accept E a ctx s = (s1, r1)" by fastforce
    obtain s2 r2 where st: "handle_start_listening a s = (s2, r2)" by fastforce
    show ?thesis
    proof (cases "is_listening (us_cells s a)")
      case True
      have keeps: "streams_ok Q s1" if "r1 \<noteq> Panic" using accept_keeps [OF "1.prems"(1,2) Some acc that] .
      then show ?thesis using "1.IH"(1) [OF Some True acc [symmetric]] "1.prems"(1,4) run Some True acc
        by (auto split: outcome.splits option.splits)
    next
      case False
      then show ?thesis using "1.IH"(2) [OF Some False st [symmetric]] "1.prems"(1,4) run Some st start_listening_keeps [OF "1.prems"(2) Some st]
        by (auto split: outcome.splits)
    qed
  qed
qed

end
