(* ===== verification/Uds_Stream_Keeps.thy ===== *)
theory Uds_Stream_Keeps
  imports Uds_Stream_Proofs
begin

text \<open>Every operation of the stream scheme but writing, reading and calls keeps the bytes that wait.\<close>

lemma socks_tables [simp]:
  "socks (s\<lparr>us_posted := x1\<rparr>) = socks s" "socks (s\<lparr>us_rng := x2\<rparr>) = socks s"
  by (simp_all add: socks_def [abs_def])

section \<open>Opening and pairing\<close>

lemma insert_keeps:
  assumes s: "streams_ok Q s" and k: "self_ok (us_next_id s) k" "sk_connection k = None" "sk_awaiting k = []"
    and wait: "awaited (socks s) (us_next_id s) \<Longrightarrow> sk_state k = StConnecting"
  shows "streams_ok Q ((insert_socket (us_next_id s) k s)\<lparr>us_next_id := Suc (us_next_id s)\<rparr>)"
proof -
  have "socks ((insert_socket (us_next_id s) k s)\<lparr>us_next_id := Suc (us_next_id s)\<rparr>) = (socks s)(us_next_id s \<mapsto> k)"
    using socks_insert [OF s, of "us_next_id s" k] by (simp add: socks_def fun_eq_iff)
  then show ?thesis using net_insert [OF stream_okD(1) [OF s] k wait] stream_okD(2) [OF s]
    by (auto simp: streams_ok_def less_SucI split: if_splits)
qed

lemma new_socket_ok:
  "state \<notin> {StAccepted, StEstablished} \<Longrightarrow> self_ok n (stream_socket_new n path state opts flags None ctx)"
  by (simp add: self_ok_def connected_def stream_socket_new_def)

lemma stream_open_keeps:
  assumes s: "streams_ok Q s" and run: "stream_open path flags ctx s = (s', r)" "r \<noteq> Panic"
  shows "streams_ok Q s'"
proof -
  let ?k = "stream_socket_new (us_next_id s) None StUnbound [] flags None ctx"
  have "\<not> awaited (socks s) (us_next_id s)" using awaited_less [OF stream_okD(1) [OF s]] by blast
  then have "streams_ok Q ((insert_socket (us_next_id s) ?k s)\<lparr>us_next_id := Suc (us_next_id s)\<rparr>)"
    by (intro insert_keeps [OF s new_socket_ok]) (simp_all add: stream_socket_new_def)
  then show ?thesis using run s by (auto simp: stream_open_def Let_def bump_next_id_def usize_add_def split: if_splits)
qed

lemma socketpair_keeps:
  assumes E: "uds_events_ok E" and s: "streams_ok Q s" and run: "stream_handle_connect_socketpair E i ctx s = (s', r)" "r \<noteq> Panic"
  shows "streams_ok Q s'"
proof (cases "us_sockets s i")
  case (Some a)
  let ?n = "us_next_id s" and ?k = "us_cells s a"
  let ?new = "stream_socket_new ?n None StConnecting [] (sk_flags ?k) None ctx" and ?l = "sock_connect_socketpair ?n ?k"
  note N = stream_okD(1) [OF s] and k = stream_okD(3) [OF s Some]
  have free: "\<not> awaited (socks s) ?n" using awaited_less [OF N] by blast
  have i: "i < ?n" using net_okD(1) [OF N k] .
  have N1: "net_ok Q (Suc ?n) ((socks s)(?n \<mapsto> ?new))"
    using net_insert [OF N new_socket_ok, of StConnecting None "[]" "sk_flags ?k" ctx] free by (simp add: stream_socket_new_def)
  have k1: "((socks s)(?n \<mapsto> ?new)) i = Some ?k" using k i by simp
  have free1: "\<not> awaited ((socks s)(?n \<mapsto> ?new)) ?n" using free by (auto simp: awaited_def stream_socket_new_def split: if_splits)
  have "net_ok Q (Suc ?n) ((socks s)(?n \<mapsto> ?new, i \<mapsto> ?l))"
    by (rule net_wait [OF N1 k1 _ free1]) (use net_okD(2) [OF N k] i in \<open>auto simp: sock_connect_socketpair_def self_ok_def connected_def peer_of_def sk_pending_def stream_socket_new_def\<close>)
  moreover have "socks (insert_socket ?n ?new ((set_cell a ?l s)\<lparr>us_next_id := Suc ?n\<rparr>)) = (socks s)(?n \<mapsto> ?new, i \<mapsto> ?l)"
    using insert_after_set [OF s Some, of ?n ?new "Suc ?n" ?l] i by (simp add: fun_upd_twist)
  ultimately have "streams_ok Q (insert_socket ?n ?new ((set_cell a ?l s)\<lparr>us_next_id := Suc ?n\<rparr>))"
    using stream_okD(2) [OF s] by (auto simp: streams_ok_def less_SucI split: if_splits)
  then have "streams_ok Q ((insert_socket ?n ?new ((set_cell a ?l s)\<lparr>us_posted := p\<rparr>))\<lparr>us_next_id := Suc ?n\<rparr>)" for p
    by (rule stream_ok_cong) (simp_all add: insert_socket_def set_cell_def)
  then show ?thesis using run s Some
    by (auto simp: stream_handle_connect_socketpair_def get_socket_def Let_def uds_post_ok [OF E] bump_next_id_def usize_add_def split: if_splits)
qed (use run s in \<open>simp add: stream_handle_connect_socketpair_def get_socket_def Let_def\<close>)

lemma stream_dup_keeps:
  assumes E: "uds_events_ok E" and s: "streams_ok Q s" and run: "stream_dup E i buf ctx s = (s', r)" "r \<noteq> Panic"
  shows "streams_ok Q s'"
proof -
  have "streams_ok Q t" if "stream_handle_recvfd E i s = (t, q)" for t q
    using that s by (auto simp: stream_handle_recvfd_def require_connected_eq Let_def
        intro!: stream_ok_connection_same split: question_splits if_splits list.splits)
  then show ?thesis using run s listen_keeps [OF E s, of i ctx s' r] socketpair_keeps [OF E s, of i ctx s' r]
    by (auto simp: stream_dup_def split: if_splits)
qed

section \<open>Descriptors\<close>

lemma stream_fd_keeps:
  assumes E: "uds_events_ok E" and s: "streams_ok Q s"
  shows "stream_on_sendfd E q s = (s', r) \<Longrightarrow> streams_ok Q s'" "stream_recvfd_inner E q s = (s', r') \<Longrightarrow> streams_ok Q s'"
  using s
  by (auto simp: stream_on_sendfd_def stream_sendfd_inner_def stream_recvfd_inner_def require_connected_eq uds_post_ok [OF E] Let_def
      intro!: stream_ok_connection_same split: question_splits if_splits prod.splits outcome.splits)

section \<open>Closing\<close>

lemma close_awaiting_keeps:
  assumes "uds_events_ok E" "streams_ok Q s" "distinct cs" "\<forall>c \<in> set cs. \<not> awaited (socks s) c \<and> (\<forall>k. socks s c = Some k \<longrightarrow> sk_state k = StConnecting)"
    "close_awaiting E l cs s = (s', r)"
  shows "streams_ok Q s'"
  using assms
proof (induction E l cs s rule: close_awaiting.induct)
  case (2 E l c cs s)
  show ?case
  proof (cases "us_sockets s c")
    case None
    then show ?thesis using "2.IH"(1) [OF None] "2.prems" by simp
  next
    case (Some b)
    let ?k' = "us_cells s b\<lparr>sk_state := StClosed\<rparr>" and ?s1 = "set_cell b (us_cells s b\<lparr>sk_state := StClosed\<rparr>) s"
    note k = stream_okD(3) [OF "2.prems"(2) Some]
    have st: "sk_state (us_cells s b) = StConnecting" "\<not> awaited (socks s) c" using "2.prems"(4) k by auto
    have conn: "sk_connection (us_cells s b) = None" using no_connection [OF "2.prems"(2) Some] st by (simp add: connected_def)
    have s1: "streams_ok Q ?s1"
      by (rule stream_ok_state [OF "2.prems"(2) Some conn]) (use conn st in \<open>auto simp: connected_def\<close>)
    let ?p = "us_posted s @ [post_fevent_response c (EVENT_READ (ue_abi E))]"
    have aw: "awaited (socks (?s1\<lparr>us_posted := ?p\<rparr>)) d = awaited (socks s) d" for d
      using awaited_set_cell [OF "2.prems"(2) Some, of ?k' d] by simp
    have "\<forall>d \<in> set cs. \<not> awaited (socks (?s1\<lparr>us_posted := ?p\<rparr>)) d \<and> (\<forall>k. socks (?s1\<lparr>us_posted := ?p\<rparr>) d = Some k \<longrightarrow> sk_state k = StConnecting)"
      unfolding aw using "2.prems"(3,4) by (auto simp: socks_set_cell [OF "2.prems"(2) Some] split: if_splits)
    moreover have "streams_ok Q (?s1\<lparr>us_posted := ?p\<rparr>)" using s1 by simp
    moreover have "b = l \<and> s' = s \<or> b \<noteq> l \<and> close_awaiting E l cs (?s1\<lparr>us_posted := ?p\<rparr>) = (s', r)"
      using "2.prems"(5) Some by (auto simp: ignore_error_def uds_post_ok [OF "2.prems"(1)] split: if_splits)
    ultimately show ?thesis using "2.IH"(2) [OF Some] "2.prems"(1,2,3) by (metis distinct.simps(2))
  qed
qed simp

lemma stream_ok_remove_names [simp]: "streams_ok Q (remove_names k s) = streams_ok Q s"
  by (simp add: streams_ok_def socks_def [abs_def] remove_names_def)

lemma stream_close_keeps:
  assumes E: "uds_events_ok E" and s: "streams_ok Q s" and run: "stream_on_close E i s = (s', r)" "r \<noteq> Panic"
  shows "streams_ok Q s'"
proof (cases "us_sockets s i")
  case (Some a)
  let ?s1 = "s\<lparr>us_sockets := (us_sockets s)(i := None)\<rparr>"
  note N = stream_okD(1) [OF s] and k = stream_okD(3) [OF s Some]
  have socks1: "socks ?s1 = (socks s)(i := None)" by (auto simp: socks_def fun_eq_iff)
  have s1: "streams_ok Q ?s1" using net_remove [OF N] stream_okD(2) [OF s] by (simp add: streams_ok_def socks1)
  have gone: "\<forall>j. us_sockets ?s1 j \<noteq> Some a" using cell_unique [OF s Some] by auto
  have dead: "streams_ok Q (set_cell a x t)" if "streams_ok Q t" "us_sockets t = us_sockets ?s1" for x t
    using that gone socks_set_other [of t a x] by (simp add: streams_ok_def)
  show ?thesis
  proof (cases "sk_state (us_cells s a) = StListening")
    case True
    have "\<not> awaited (socks ?s1) c" if "c \<in> set (sk_awaiting (us_cells s a))" for c
      using that net_okD(7) [OF N k] by (auto simp: awaited_def socks1 split: if_splits)
    moreover have "distinct (sk_awaiting (us_cells s a))"
      "\<And>c x. c \<in> set (sk_awaiting (us_cells s a)) \<Longrightarrow> socks ?s1 c = Some x \<Longrightarrow> sk_state x = StConnecting"
      using net_okD(4) [OF N k] by (auto simp: waits_ok_def socks1 split: if_splits)
    moreover have "socks (remove_names (us_cells s a) ?s1) = socks ?s1" by (simp add: socks_def [abs_def] remove_names_def)
    ultimately show ?thesis
      using close_awaiting_keeps [OF E, of Q "remove_names (us_cells s a) ?s1" "sk_awaiting (us_cells s a)" a s' r] run(1) s1 Some True
      by (simp add: stream_on_close_def handle_listening_closure_def)
  next
    case False
    have close: "streams_ok Q (fst (close_socket a t))" if "streams_ok Q t" "us_sockets t = us_sockets ?s1" for t
      using that by (simp add: close_socket_def Let_def dead remove_names_def)
    have shut: "streams_ok Q (set_cell b (set_connection (d\<lparr>cn_is_peer_shutdown := True\<rparr>) (us_cells s b)) ?s1)"
      if "us_sockets s j = Some b" "j \<noteq> i" "sk_connection (us_cells s b) = Some d" for b d j
      using stream_ok_connection_same [OF s1, of j b d "d\<lparr>cn_is_peer_shutdown := True\<rparr>"] that by simp
    from run Some False s1 show ?thesis
      by (auto simp: stream_on_close_def handle_other_closure_def ignore_error_def uds_post_ok [OF E] Let_def prod_eq_iff
          intro!: close intro: shut split: if_splits option.splits)
  qed
qed (use run s in \<open>simp add: stream_on_close_def\<close>)

section \<open>Calls\<close>

lemma stream_bind_keeps:
  assumes s: "streams_ok Q s" and run: "stream_handle_bind E i buf s = (s', r)"
  shows "streams_ok Q s'"
proof -
  have "streams_ok Q (set_cell a ((us_cells s a)\<lparr>sk_path := p, sk_issued_token := t, sk_state := StListening\<rparr>) s)"
    if "us_sockets s i = Some a" "sk_state (us_cells s a) = StUnbound" for a p t
    using that by (intro stream_ok_state [OF s that(1) no_connection [OF s that(1)]]) (auto simp: connected_def no_connection [OF s that(1)])
  moreover have rng: "set_cell a k (s\<lparr>us_rng := x\<rparr>) = (set_cell a k s)\<lparr>us_rng := x\<rparr>" for a k x by (simp add: set_cell_def)
  ultimately show ?thesis using run s
    by (auto simp: stream_handle_bind_def start_listening_def Let_def rng split: question_splits if_splits)
qed

lemma stream_setsockopt_keeps: "streams_ok Q s \<Longrightarrow> stream_handle_setsockopt E i opt buf s = (s', r) \<Longrightarrow> streams_ok Q s'"
  by (auto simp: stream_handle_setsockopt_def Let_def intro!: stream_ok_same split: question_splits if_splits)

lemma stream_unbind_keeps:
  assumes s: "streams_ok Q s" and run: "stream_handle_unbind i s = (s', r)"
  shows "streams_ok Q s'"
proof -
  have "streams_ok Q (set_cell a ((us_cells s a)\<lparr>sk_state := StUnbound, sk_path := None\<rparr>) s)"
    if "us_sockets s i = Some a" "sk_state (us_cells s a) = StBound" for a
    using that by (intro stream_ok_state [OF s that(1) no_connection [OF s that(1)]]) (auto simp: connected_def no_connection [OF s that(1)])
  then show ?thesis using run s by (auto simp: stream_handle_unbind_def Let_def split: question_splits if_splits option.splits)
qed

text \<open>The calls other than \<open>sendmsg\<close> and \<open>recvmsg\<close>.\<close>

lemma other_calls_keep:
  assumes E: "uds_events_ok E" and s: "streams_ok Q s" and run: "stream_call E i buf md ctx s = ((s', buf'), r)" "r \<noteq> Panic"
    and verb: "call_verb E md \<noteq> Some CallSendMsg" "call_verb E md \<noteq> Some CallRecvMsg"
  shows "streams_ok Q s'"
  using run verb stream_bind_keeps [OF s] connect_keeps [OF E s] stream_setsockopt_keeps [OF s] stream_unbind_keeps [OF s] s
  by (auto simp: stream_call_def call_verb_def no_payload_def stream_handle_getsockopt_def stream_handle_get_token_def stream_handle_get_peer_name_def
      write_value_def Let_def split: question_splits option.splits socket_call.splits if_splits prod.splits)

section \<open>The contract\<close>

interpretation quiet_stream: scheme_methods
  "(stream_scheme E)\<lparr>sc_read := sc_read default_scheme, sc_write := sc_write default_scheme, sc_call := sc_call default_scheme\<rparr>"
  "\<lambda>s. uds_events_ok E \<longrightarrow> streams_ok Q s" for E Q
proof unfold_locales
  let ?S = "(stream_scheme E)\<lparr>sc_read := sc_read default_scheme, sc_write := sc_write default_scheme, sc_call := sc_call default_scheme\<rparr>"
  let ?I = "\<lambda>s. uds_events_ok E \<longrightarrow> streams_ok Q s"
  show "keeps ?I (sc_open ?S path flags ctx)" for path flags ctx
    by (rule keepsI) (auto simp: stream_scheme_def intro: stream_open_keeps)
  show "keeps ?I (sc_dup ?S fd buf ctx)" for fd buf ctx
    by (rule keepsI) (auto simp: stream_scheme_def intro: stream_dup_keeps)
  show "keeps ?I (sc_fcntl ?S fd cmd arg ctx)" for fd cmd arg ctx
    by (rule keepsI) (auto simp: stream_scheme_def stream_fcntl_def Let_def intro!: stream_ok_same split: question_splits if_splits)
  show "keeps ?I (sc_on_close ?S fd)" for fd
    by (rule keepsI) (auto simp: stream_scheme_def intro: stream_close_keeps)
  show "keeps ?I (sc_on_sendfd ?S q)" for q
    by (rule keepsI) (auto simp: stream_scheme_def intro: stream_fd_keeps)
  show "keeps ?I (sc_on_recvfd ?S q)" for q
    by (rule keepsI) (auto simp: stream_scheme_def intro: stream_fd_keeps)
qed (simp_all add: stream_scheme_def default_scheme_def,
    (auto simp: keeps_def keeps_with_def stream_fpath_def stream_fsync_def stream_fevent_def stream_fstat_def Let_def
      split: question_splits prod.splits)+)

end
