(* ===== verification/Uds_Stream_Recv.thy ===== *)
theory Uds_Stream_Recv
  imports Uds_Stream_Proofs
begin

text \<open>
  What a \<open>recvmsg\<close> of the stream scheme puts into the buffer of its caller, which bytes are lost on the
  way, and which sizes and numbers of descriptors it cannot handle.
\<close>

section \<open>What the writer keeps\<close>

lemma write_cmsg_extends: "wrote w len bs \<Longrightarrow> write_cmsg level ty bytes w = (w', ok) \<Longrightarrow> \<exists>new. wrote w' len (bs @ new)"
proof (cases "length bs + 16 + length bytes \<le> len")
  case True
  then show "wrote w len bs \<Longrightarrow> write_cmsg level ty bytes w = (w', ok) \<Longrightarrow> \<exists>new. wrote w' len (bs @ new)"
    using write_cmsg_wrote [of w len bs level ty bytes] by auto
next
  case False
  then show "wrote w len bs \<Longrightarrow> write_cmsg level ty bytes w = (w', ok) \<Longrightarrow> \<exists>new. wrote w' len (bs @ new)"
    by (auto simp: write_cmsg_def wrote_def Let_def split: if_splits intro!: exI [of _ "replicate (len - length bs) 1"])
qed

lemma write_rights_extends: "wrote w len bs \<Longrightarrow> write_rights E n w = (w', ok) \<Longrightarrow> \<exists>new. wrote w' len (bs @ new)"
  using write_cmsg_extends [of w len bs] by (auto simp: write_rights_def split: if_splits intro: exI [of _ "[]"])

lemma write_all_credentials_extends:
  "wrote w len bs \<Longrightarrow> write_all_credentials E ancs w = (w', ok) \<Longrightarrow> \<exists>new. wrote w' len (bs @ new)"
proof (induction ancs arbitrary: w bs)
  case Nil
  then show ?case by (auto intro: exI [of _ "[]"])
next
  case (Cons anc ancs)
  obtain w1 ok1 where w1: "write_credentials E (an_cred anc) w = (w1, ok1)" by fastforce
  then obtain new where "wrote w1 len (bs @ new)" using write_cmsg_extends Cons.prems(1) by (fastforce simp: write_credentials_def)
  then show ?case using Cons w1 Cons.IH [of w1 "bs @ new"] by (auto split: if_splits)
qed

lemma write_stream_options_extends:
  "wrote w len bs \<Longrightarrow> write_stream_options E ancs opts w = (w', r) \<Longrightarrow> \<exists>new. wrote w' len (bs @ new)"
proof (induction opts arbitrary: w bs)
  case Nil
  then show ?case by (auto intro: exI [of _ "[]"])
next
  case (Cons opt opts)
  obtain w1 ok1 where w1: "write_all_credentials E ancs w = (w1, ok1)" by fastforce
  then obtain new where "wrote w1 len (bs @ new)" using write_all_credentials_extends Cons.prems(1) by blast
  then show ?case using Cons w1 Cons.IH [of w1 "bs @ new"] by (auto split: if_splits intro: exI [of _ "[]"])
qed

lemma write_stream_options_result: "write_stream_options E ancs opts w = (w', r) \<Longrightarrow> r \<in> {Ok (), Err EOPNOTSUPP}"
  by (induction opts arbitrary: w) (auto split: prod.splits if_splits)

lemma conn_drop_result: "conn_drop_fds n c = (c', r) \<Longrightarrow> r \<in> {Ok (), Err EPROTO}"
  by (induction n arbitrary: c) (auto split: list.splits)

lemma fpath_inner_result: "\<exists>target k. fpath_inner scheme path buf = (target, Ok k) \<and> length target = length buf \<and> k \<le> length buf"
  by (auto simp: fpath_inner_def copy_into_def Let_def)

lemma write_name_ok:
  assumes "take 8 buf = replicate 8 0" "8 \<le> length buf"
  shows "\<exists>w nm. write_name name nl (fpath_inner scheme) (writer_new buf) = (w, Ok ()) \<and>
    wrote w (length buf) (to_le 8 (length nm) @ nm) \<and> length nm \<le> nl"
proof (cases name)
  case None
  then show ?thesis using assms by (intro exI [of _ "writer_new buf\<lparr>mw_written := 8\<rparr>"] exI [of _ "[]"])
      (simp add: write_name_def writer_new_def wrote_def to_le_0)
next
  case (Some path)
  define t where "t = take (min nl (length buf - 8)) (drop 8 buf)"
  have t: "length t = min nl (length buf - 8)" by (auto simp: t_def)
  obtain target k where f: "fpath_inner scheme path t = (target, Ok k)" "length target = length t" "k \<le> length t"
    using fpath_inner_result by blast
  have "copy_into (copy_into buf 8 target) 0 (to_le 8 k) = to_le 8 k @ target @ drop (8 + length target) buf"
    using assms(2) by (simp add: copy_into_def)
  moreover have "8 + k \<le> length buf" using f(3) t assms(2) by linarith
  ultimately show ?thesis using assms f t
    by (intro exI [of _ "\<lparr>mw_buffer = to_le 8 k @ target @ drop (8 + length target) buf, mw_written = 8 + k\<rparr>"] exI [of _ "take k target"])
      (simp add: write_name_def writer_new_def Some wrote_def Let_def min_absorb2 flip: t_def)
qed

section \<open>The descriptors a message tells of\<close>

text \<open>A message tells of the descriptors of every packet that it takes bytes of, once for each packet.\<close>

fun told_fds :: "nat \<Rightarrow> data_packet list \<Rightarrow> nat" where
  "told_fds n [] = 0"
| "told_fds n (p # ps) = (if n = 0 then 0
     else (if dp_ancillary_taken p then 0 else an_num_fds (dp_ancillary p)) + told_fds (n - length (unread p)) ps)"

lemma told_fds_0 [simp]: "told_fds 0 ps = 0"
  by (cases ps) simp_all

lemma take_ancillary_fds:
  "take_ancillary p g = (p', g') \<Longrightarrow> sum_list (map an_num_fds (ga_ancillary g')) =
     sum_list (map an_num_fds (ga_ancillary g)) + (if dp_ancillary_taken p then 0 else an_num_fds (dp_ancillary p))"
  by (auto simp: take_ancillary_def Let_def split: if_splits option.splits)

lemma gather_fds:
  assumes "packets_ok ps" "off \<le> iov" "gather iov off ps g = Ok (ps', g', n)"
  shows "sum_list (map an_num_fds (ga_ancillary g')) = sum_list (map an_num_fds (ga_ancillary g)) + told_fds (iov - off) ps"
  using assms
proof (induction iov off ps g rule: gather.induct)
  case (1 iov off ps g)
  show ?case
  proof (cases "off < iov \<and> ps \<noteq> []")
    case True
    then obtain p rest where ps: "ps = p # rest" by (cases ps) auto
    define m where "m = min (length (unread p)) (iov - off)"
    have p: "dp_read_offset p < length (dp_payload p)" "packets_ok rest" using "1.prems"(1) ps by auto
    then have sl: "slice_from (dp_payload p) (dp_read_offset p) = Ok (unread p)" and len: "0 < length (unread p)"
      by (simp_all add: slice_from_def unread_def)
    have m: "0 < m" "off + m \<le> iov" "m \<le> length (unread p)" using True len by (auto simp: m_def)
    obtain p1 g1 where t: "take_ancillary p (g\<lparr>ga_payload := ga_payload g @ take m (unread p)\<rparr>) = (p1, g1)" by fastforce
    then have t': "dp_payload p1 = dp_payload p" "dp_read_offset p1 = dp_read_offset p" by (auto dest!: take_ancillary_frame)
    note adv = advance_unread [OF p(2) m(1,3) t']
    have step: "gather iov off ps g = gather iov (off + m) (advance m p1 rest) g1"
      using True sl m(1) t by (subst gather.simps) (simp add: ps Let_def m_def [symmetric])
    have "told_fds (iov - (off + m)) (advance m p1 rest) = told_fds (iov - off - length (unread p)) rest"
    proof (cases "length (unread p) \<le> iov - off")
      case True
      then have "advance m p1 rest = rest" using t' by (simp add: advance_def m_def unread_def Let_def)
      then show ?thesis using True by (simp add: m_def)
    qed (simp add: m_def)
    moreover have "sum_list (map an_num_fds (ga_ancillary g')) =
        sum_list (map an_num_fds (ga_ancillary g1)) + told_fds (iov - (off + m)) (advance m p1 rest)"
      using "1.IH" [OF _ ps sl m_def _ t [symmetric]] True ps m adv(2) "1.prems"(3) step by simp
    ultimately show ?thesis using take_ancillary_fds [OF t] True by (simp add: ps)
  qed (use "1.prems" in \<open>auto simp: gather.simps split: list.splits\<close>)
qed

lemma sum_fds_eq:
  "n < usize_range \<Longrightarrow> sum_fds ancs n = (let total = n + sum_list (map an_num_fds ancs) in if total < usize_range then Ok total else Panic)"
  by (induction ancs arbitrary: n) (auto simp: usize_add_def Let_def add.assoc)

section \<open>What a message delivers\<close>

text \<open>The name that a caller of \<open>recvmsg\<close> has room for, and the bytes in a message that it got.\<close>

definition recv_name_size :: "u8 list \<Rightarrow> nat" where
  "recv_name_size buf = from_le (take 8 buf)"

definition recv_payload :: "u8 list \<Rightarrow> u8 list" where
  "recv_payload message = (let name_len = from_le (take 8 message); rest = drop (8 + name_len) message in
     take (from_le (take 8 rest)) (drop 8 rest))"

lemma recv_payload_eq:
  "length nm < usize_range \<Longrightarrow> length payload < usize_range \<Longrightarrow>
   recv_payload ((to_le 8 (length nm) @ nm) @ (to_le 8 (length payload) @ payload) @ new) = payload"
  by (simp add: recv_payload_def from_le_to_le Let_def)

lemma conn_serialize_steps:
  assumes ps: "packets_ok (cn_packets c)" and buf: "take 8 buf = replicate 8 0" "8 \<le> length buf"
    and big: "iov < 2 ^ 63" "ue_allocates E iov"
  obtains ps' w2 nm n and g :: gathered where
    "conn_serialize_to_msgstream E nl iov opts (c, buf) =
       question (c\<lparr>cn_packets := ps'\<rparr>, mw_buffer w2) (sum_fds (ga_ancillary g) 0) (\<lambda>num_fds. let
           (w3, fits) = write_rights E num_fds w2;
           (c2, dropped) = (if fits then (c\<lparr>cn_packets := ps'\<rparr>, Ok ()) else conn_drop_fds num_fds (c\<lparr>cn_packets := ps'\<rparr>)) in
         question (c2, mw_buffer w3) dropped (\<lambda>_. let
           (w4, r4) = write_stream_options E (ga_ancillary g) opts w3 in
         question (c2, mw_buffer w4) r4 (\<lambda>_. ((c2, mw_buffer w4), Ok (mw_written w4)))))"
    "sum_list (map an_num_fds (ga_ancillary g)) = told_fds iov (cn_packets c)" "length nm \<le> nl"
    "16 + nl + iov \<le> length buf \<Longrightarrow>
       wrote w2 (length buf) ((to_le 8 (length nm) @ nm) @ to_le 8 n @ take iov (unread_all (cn_packets c)))"
    "n = length (take iov (unread_all (cn_packets c)))"
proof -
  let ?g0 = "\<lparr>ga_name = None, ga_payload = [], ga_ancillary = []\<rparr>"
  let ?pl = "take iov (unread_all (cn_packets c))"
  define n where "n = min iov (length (unread_all (cn_packets c)))"
  then have n: "n = length ?pl" "n \<le> iov" by simp_all
  obtain ps' g where g: "gather iov 0 (cn_packets c) ?g0 = Ok (ps', g, n)" "ga_payload g = ?pl"
    using gather_spec [OF ps, of 0 iov ?g0] by (auto simp: n_def)
  have fds: "sum_list (map an_num_fds (ga_ancillary g)) = told_fds iov (cn_packets c)" using gather_fds [OF ps _ g(1)] by simp
  obtain w1 nm where w1: "write_name (ga_name g) nl stream_fpath_inner (writer_new buf) = (w1, Ok ())"
    "wrote w1 (length buf) (to_le 8 (length nm) @ nm)" "length nm \<le> nl"
    using write_name_ok [OF buf] by (metis stream_fpath_inner_def)
  have "\<exists>k. snd (write_payload ?pl n iov w1) = Ok k" using n by (simp add: write_payload_def Let_def)
  then obtain w2 k where w2: "write_payload ?pl n iov w1 = (w2, Ok k)" by (metis prod.collapse)
  have w: "wrote w2 (length buf) ((to_le 8 (length nm) @ nm) @ to_le 8 n @ ?pl)" if "16 + nl + iov \<le> length buf"
    using write_payload_wrote [OF w1(2), of ?pl iov] w2 w1(3) n that by auto
  show ?thesis
    by (rule that [of ps' w2 g]) (use big n w1(1,3) w2 g fds w in \<open>auto simp: conn_serialize_to_msgstream_def Let_def min_absorb1\<close>)
qed

lemma conn_serialize_panics:
  assumes "packets_ok (cn_packets c)" "take 8 buf = replicate 8 0" "8 \<le> length buf"
  shows "snd (conn_serialize_to_msgstream E nl iov opts (c, buf)) = Panic \<longleftrightarrow>
    \<not> (iov < 2 ^ 63 \<and> ue_allocates E iov) \<or> usize_range \<le> told_fds iov (cn_packets c)"
proof (cases "iov < 2 ^ 63 \<and> ue_allocates E iov")
  case True
  have a: "conn_drop_fds n c \<noteq> (c', Panic)" "write_stream_options E ancs opts w \<noteq> (w', Panic)" for n c c' ancs w w'
    using conn_drop_result [of n c c' Panic] write_stream_options_result [of E ancs opts w w' Panic] by auto
  show ?thesis
    by (rule conn_serialize_steps [OF assms conjunct1 [OF True] conjunct2 [OF True], where nl = nl and opts = opts])
      (use True a in \<open>auto simp: sum_fds_eq Let_def split: question_splits prod.splits if_splits\<close>)
qed (auto simp: conn_serialize_to_msgstream_def)

lemma conn_serialize_delivers:
  assumes "packets_ok (cn_packets c)" "take 8 buf = replicate 8 0" "16 + nl + iov \<le> length buf" "nl < usize_range"
    and run: "conn_serialize_to_msgstream E nl iov opts (c, buf) = ((c', buf'), Ok m)"
  shows "recv_payload (take m buf') = take iov (unread_all (cn_packets c))"
proof -
  have big: "iov < 2 ^ 63" "ue_allocates E iov" using run by (auto simp: conn_serialize_to_msgstream_def split: if_splits)
  have "8 \<le> length buf" using assms(3) by simp
  show ?thesis
  proof (cases rule: conn_serialize_steps [OF assms(1,2) \<open>8 \<le> length buf\<close> big, where nl = nl and opts = opts])
    case (1 ps' w2 nm n g)
    let ?bs = "(to_le 8 (length nm) @ nm) @ to_le 8 n @ take iov (unread_all (cn_packets c))"
    from run obtain k w3 fits w4 r4 where w: "write_rights E k w2 = (w3, fits)" "write_stream_options E (ga_ancillary g) opts w3 = (w4, r4)"
      "buf' = mw_buffer w4" "m = mw_written w4"
      unfolding 1(1) by (auto simp: Let_def split: question_splits prod.splits)
    obtain new3 where "wrote w3 (length buf) (?bs @ new3)" using write_rights_extends [OF 1(4) [OF assms(3)] w(1)] by blast
    from write_stream_options_extends [OF this w(2)] obtain new where "take m buf' = ?bs @ new" by (auto simp: wrote_def w)
    then show ?thesis using recv_payload_eq [of nm "take iov (unread_all (cn_packets c))" new] 1(3,5) assms(4) big(1) by simp
  qed
qed

lemma conn_serialize_errors:
  assumes "packets_ok (cn_packets c)" "take 8 buf = replicate 8 0" "8 \<le> length buf"
    and run: "conn_serialize_to_msgstream E nl iov opts (c, buf) = ((c', buf'), Err e)"
  shows "e = EOPNOTSUPP \<or> e = EPROTO \<and> length buf < 40 + nl + iov"
proof -
  have big: "iov < 2 ^ 63" "ue_allocates E iov" using run by (auto simp: conn_serialize_to_msgstream_def split: if_splits)
  show ?thesis
  proof (cases rule: conn_serialize_steps [OF assms(1-3) big, where nl = nl and opts = opts])
    case (1 ps' w2 nm n g)
    let ?bs = "(to_le 8 (length nm) @ nm) @ to_le 8 n @ take iov (unread_all (cn_packets c))"
    from run obtain k w3 fits c2 dropped where w: "write_rights E k w2 = (w3, fits)"
      "(if fits then (c\<lparr>cn_packets := ps'\<rparr>, Ok ()) else conn_drop_fds k (c\<lparr>cn_packets := ps'\<rparr>)) = (c2, dropped)"
      "dropped = Err e \<or> e = EOPNOTSUPP"
      unfolding 1(1) by (auto simp: Let_def sum_fds_eq dest!: write_stream_options_result split: question_splits prod.splits if_splits)
    show ?thesis
    proof (cases "length buf < 40 + nl + iov")
      case True
      then show ?thesis using w(2,3) by (auto dest!: conn_drop_result split: if_splits)
    next
      case False
      have "length ?bs + 24 \<le> length buf" using False 1(3) by simp
      then have fits using write_rights_wrote [OF 1(4), of E k] w(1) False by (auto simp: rights_bytes_def)
      then show ?thesis using w(2,3) by auto
    qed
  qed
qed

section \<open>What becomes of the bytes that are taken\<close>

text \<open>
  What a caller knows of the bytes that one of its requests took: it got these bytes, or at most so many
  bytes are lost. A \<open>recvmsg\<close> delivers the bytes when the buffer has room for the two lengths, the name
  and the bytes that the caller announced. It loses them when the buffer is too small for this or when it fails in
  the control messages.
\<close>

datatype receipt = Got "u8 list" | Lost nat

fun accounts :: "receipt \<Rightarrow> u8 list \<Rightarrow> bool" where
  "accounts (Got bs) taken = (taken = bs)"
| "accounts (Lost n) taken = (length taken \<le> n)"

definition recv_receipt :: "u8 list \<Rightarrow> u8 list \<Rightarrow> nat outcome \<Rightarrow> receipt list" where
  "recv_receipt buf buf' r = (let announced = recv_name_size buf + recv_size buf in case r of
       Ok m \<Rightarrow> if 16 + announced \<le> length buf then [Got (recv_payload (take m buf'))] else [Lost (recv_size buf)]
     | Err e \<Rightarrow> if e = EOPNOTSUPP \<or> e = EPROTO \<and> length buf < 40 + announced then [Lost (recv_size buf)] else []
     | Panic \<Rightarrow> [])"

lemma nothing_taken:
  assumes "\<And>m. r = Ok m \<Longrightarrow> recv_payload (take m buf') = []"
  shows "list_all2 accounts (recv_receipt buf buf' r) (map (\<lambda>x. []) (recv_receipt buf buf' r))"
  using assms by (cases r) (simp_all add: recv_receipt_def Let_def)

lemma read_msghdr_ok:
  assumes "24 \<le> length buf"
  shows "\<exists>cl. read_msghdr_info buf = (replicate 24 0 @ drop 24 buf, Ok (recv_name_size buf, recv_size buf, cl))"
proof -
  have "8 \<le> length buf - 16" "8 \<le> length buf - 8" using assms by arith+
  then show ?thesis using assms
    by (simp add: read_msghdr_info_def read_usize_def read_num_def get_range_def recv_size_def recv_name_size_def copy_into_def)
qed

lemma recv_name_size_bound: "recv_name_size buf < usize_range"
  using from_le_less [of "take 8 buf"] power_increasing [of "min (length buf) 8" 8 "256 :: nat"]
  by (simp add: recv_name_size_def)

lemma recvmsg_handler_cases:
  assumes s: "streams_ok Q s" and run: "stream_handle_recvmsg E i f buf s = ((s', buf'), r)"
  obtains (untouched) "s' = s" "r \<noteq> Panic" "\<And>m. r = Ok m \<Longrightarrow> recv_payload (take m buf') = []"
    "\<And>a c. us_sockets s i = Some a \<Longrightarrow> sk_connection (us_cells s a) = Some c \<Longrightarrow> cn_packets c = [] \<or> length buf < 24"
  | (serialized) a c c' where "us_sockets s i = Some a" "connected (us_cells s a)" "sk_connection (us_cells s a) = Some c" "cn_packets c \<noteq> []"
    "24 \<le> length buf" "packets_ok (cn_packets c)" "unread_all (cn_packets c) = Q i"
    "conn_serialize_to_msgstream E (recv_name_size buf) (recv_size buf) (sk_options (us_cells s a)) (c, replicate 24 0 @ drop 24 buf) = ((c', buf'), r)"
    "s' = set_cell a (set_connection c' (us_cells s a)) s"
proof (cases "us_sockets s i")
  case None
  then have "s' = s" "r = Err EBADF" using run by (simp_all add: stream_handle_recvmsg_def get_socket_def)
  then show ?thesis using None by (intro untouched) simp_all
next
  case (Some a)
  note N = stream_okD(1) [OF s] and k = stream_okD(3) [OF s Some]
  have eof: "s' = s \<and> r \<noteq> Panic \<and> (\<forall>m. r = Ok m \<longrightarrow> recv_payload (take m buf') = [])" if "write_eof (s, buf) = ((s', buf'), r)"
    using that by (auto simp: write_eof_def recv_payload_def copy_into_def Let_def from_le_zeros split: if_splits)
  show ?thesis
  proof (cases "connected (us_cells s a)")
    case True
    then obtain c where c: "sk_connection (us_cells s a) = Some c" using net_okD(2) [OF N k] by (auto simp: self_ok_def)
    have st: "sk_state (us_cells s a) \<in> {StEstablished, StAccepted}" using True by (auto simp: connected_def)
    have ps: "packets_ok (cn_packets c)" "unread_all (cn_packets c) = Q i"
      using net_okD(2,5) [OF N k] c by (auto simp: self_ok_def sk_pending_def)
    have req: "require_connected_connection E f (us_cells s a) = Ok c" using True c by (simp add: require_connected_eq)
    consider "cn_packets c = []" | "cn_packets c \<noteq> []" "length buf < 24" | "cn_packets c \<noteq> []" "24 \<le> length buf" by linarith
    then show ?thesis
    proof cases
      case 1
      have "s' = s \<and> r \<noteq> Panic \<and> (\<forall>m. r = Ok m \<longrightarrow> recv_payload (take m buf') = [])" using run st 1 eof
        by (auto simp: stream_handle_recvmsg_def get_socket_def Some require_connection_def c Let_def split: if_splits)
      then show ?thesis using 1 Some c by (intro untouched) auto
    next
      case 2
      have "s' = s \<and> r = Err EINVAL" using run st 2
        by (auto simp: stream_handle_recvmsg_def get_socket_def Some require_connection_def c Let_def stream_recvmsg_inner_def
            read_msghdr_info_def set_cell_def)
      then show ?thesis using 2 by (intro untouched) auto
    next
      case 3
      obtain cl where hdr: "read_msghdr_info buf = (replicate 24 0 @ drop 24 buf, Ok (recv_name_size buf, recv_size buf, cl))"
        using read_msghdr_ok [OF 3(2)] by blast
      obtain c' b2 r2 where ser: "conn_serialize_to_msgstream E (recv_name_size buf) (recv_size buf) (sk_options (us_cells s a))
          (c, replicate 24 0 @ drop 24 buf) = ((c', b2), r2)" by (metis surj_pair)
      have "s' = set_cell a (set_connection c' (us_cells s a)) s" "r = r2" "buf' = b2"
        using run st 3(1) hdr ser by (auto simp: stream_handle_recvmsg_def get_socket_def Some require_connection_def c stream_recvmsg_inner_def
            sock_serialize_to_msgstream_def req Let_def)
      then show ?thesis using serialized [OF Some True c 3 ps] ser by simp
    qed
  next
    case False
    then have "sk_connection (us_cells s a) = None" using net_okD(2) [OF N k] by (auto simp: self_ok_def)
    moreover have "s' = s \<and> r \<noteq> Panic \<and> (\<forall>m. r = Ok m \<longrightarrow> recv_payload (take m buf') = [])" using run False eof
      by (auto simp: stream_handle_recvmsg_def get_socket_def Some connected_def Let_def split: if_splits)
    ultimately show ?thesis using Some by (intro untouched) auto
  qed
qed

lemma recvmsg_accounts:
  assumes s: "streams_ok Q s" and run: "stream_handle_recvmsg E i f buf s = ((s', buf'), r)" "r \<noteq> Panic"
  shows "\<exists>T rest. Q i = concat T @ rest \<and> streams_ok (Q(i := rest)) s' \<and> list_all2 accounts (recv_receipt buf buf' r) T"
  using s run(1)
proof (cases rule: recvmsg_handler_cases)
  case untouched
  have "concat (map (\<lambda>x. []) xs) = []" for xs :: "receipt list" by (induction xs) simp_all
  then show ?thesis using untouched(1) s nothing_taken [OF untouched(3)] 
    by (intro exI [of _ "map (\<lambda>x. []) (recv_receipt buf buf' r)"] exI [of _ "Q i"]) simp
next
  case (serialized a c c')
  let ?buf = "replicate 24 0 @ drop 24 buf" and ?taken = "take (recv_size buf) (Q i)"
  have b: "take 8 ?buf = replicate 8 0" "8 \<le> length ?buf" "length ?buf = length buf" using serialized(5) by simp_all
  have s': "streams_ok (Q(i := drop (recv_size buf) (Q i))) s'"
    using conn_serialize_effect [OF serialized(6,8) run(2)] stream_ok_connection [OF s serialized(1,3)] serialized(7,9) by simp
  have "recv_payload (take m buf') = ?taken" if "r = Ok m" "16 + (recv_name_size buf + recv_size buf) \<le> length buf" for m
    using conn_serialize_delivers [OF serialized(6) b(1) _ recv_name_size_bound serialized(8) [unfolded that(1)]] serialized(7) b(3) that(2)
    by (simp add: add.assoc)
  moreover have "e = EOPNOTSUPP \<or> e = EPROTO \<and> length buf < 40 + (recv_name_size buf + recv_size buf)" if "r = Err e" for e
    using conn_serialize_errors [OF serialized(6) b(1,2) serialized(8) [unfolded that]] b(3) by (simp only: add.assoc)
  ultimately have "list_all2 accounts (recv_receipt buf buf' r) [?taken]"
    using run(2) by (cases r) (auto simp: recv_receipt_def Let_def)
  then show ?thesis using s' by (intro exI [of _ "[?taken]"] exI [of _ "drop (recv_size buf) (Q i)"]) simp
qed

lemma recvmsg_panics:
  assumes s: "streams_ok Q s" and i: "us_sockets s i = Some a"
  shows "snd (stream_handle_recvmsg E i f buf s) = Panic \<longleftrightarrow> (\<exists>c. sk_connection (us_cells s a) = Some c \<and> cn_packets c \<noteq> [] \<and>
    24 \<le> length buf \<and> (\<not> (recv_size buf < 2 ^ 63 \<and> ue_allocates E (recv_size buf)) \<or> usize_range \<le> told_fds (recv_size buf) (cn_packets c)))"
    (is "_ \<longleftrightarrow> ?R")
proof -
  obtain s' buf' r where run: "stream_handle_recvmsg E i f buf s = ((s', buf'), r)" by (metis prod.collapse)
  note N = stream_okD(1) [OF s] and k = stream_okD(3) [OF s i]
  show ?thesis using s run
  proof (cases rule: recvmsg_handler_cases)
    case untouched
    then have "\<not> ?R" using untouched(4) i by fastforce
    then show ?thesis using untouched(2) run by simp
  next
    case (serialized b c c')
    have "take 8 (replicate 24 0 @ drop 24 buf) = replicate 8 (0 :: u8)" by simp
    then have "r = Panic \<longleftrightarrow> \<not> (recv_size buf < 2 ^ 63 \<and> ue_allocates E (recv_size buf)) \<or> usize_range \<le> told_fds (recv_size buf) (cn_packets c)"
      using conn_serialize_panics [OF serialized(6), of "replicate 24 0 @ drop 24 buf" E "recv_name_size buf" "recv_size buf"
          "sk_options (us_cells s b)"] serialized(5,8) by simp
    moreover have "a = b" using i serialized(1) by simp
    ultimately show ?thesis using serialized(3-5) run by simp
  qed
qed

end
