(* ===== verification/Uds_Stream_Properties.thy ===== *)
theory Uds_Stream_Properties
  imports Uds_Stream_Keeps Uds_Stream_Recv
begin

text \<open>
  Properties of the stream scheme: a connection is a pair of byte streams, how it comes about and ends,
  and which calls bring the daemon down.
\<close>

section \<open>Runs\<close>

text \<open>
  A run of the daemon with the bytes that were written to each socket, and what its readers know of the
  bytes that they took. Both are taken from the requests and their answers: the bytes of a read are the first
  ones of the buffer that it gave back, and those of a \<open>recvmsg\<close> are in the message that it gave back.
\<close>

definition written_to :: "uds_env \<Rightarrow> nat \<Rightarrow> u32 \<Rightarrow> u8 list \<Rightarrow> stream \<Rightarrow> (nat \<Rightarrow> u8 list) \<Rightarrow> nat \<Rightarrow> u8 list" where
  "written_to E i f w s W = (case stream_get_connected_peer E i f s of Ok (j, b) \<Rightarrow> W(j := W j @ w) | _ \<Rightarrow> W)"

definition stream_log_written :: "uds_env \<Rightarrow> stream \<Rightarrow> op \<Rightarrow> scheme_response \<Rightarrow> (nat \<Rightarrow> u8 list) \<Rightarrow> nat \<Rightarrow> u8 list" where
  "stream_log_written E s oper r W = (case r of
       Regular (Ok n) \<Rightarrow>
         (case oper of
            OpWrite t i buf off ff \<Rightarrow> written_to E i 0 buf s W
          | OpCall t i buf md \<Rightarrow> if call_verb E md = Some CallSendMsg then written_to E i (msg_flags_of md) (msg_payload buf) s W else W
          | _ \<Rightarrow> W)
     | _ \<Rightarrow> W)"

definition stream_log_read :: "uds_env \<Rightarrow> op \<Rightarrow> op \<Rightarrow> scheme_response \<Rightarrow> (nat \<Rightarrow> receipt list) \<Rightarrow> nat \<Rightarrow> receipt list" where
  "stream_log_read E oper oper' r R = (case (oper, oper', r) of
       (OpRead t i buf off ff, OpRead t' i' buf' off' ff', Regular (Ok n)) \<Rightarrow> R(i := R i @ [Got (take n buf')])
     | (OpCall t i buf md, OpCall t' i' buf' md', Regular q) \<Rightarrow>
         if call_verb E md = Some CallRecvMsg then R(i := R i @ recv_receipt buf buf' q) else R
     | _ \<Rightarrow> R)"

inductive stream_run :: "uds_env \<Rightarrow> stream \<Rightarrow> (nat \<Rightarrow> u8 list) \<Rightarrow> (nat \<Rightarrow> receipt list) \<Rightarrow> bool" for E where
  stream_start: "stream_run E (uds_new stream_blank) (\<lambda>i. []) (\<lambda>i. [])"
| stream_step: "stream_run E s W R \<Longrightarrow> handle_sync_dont_consume (ue_abi E) (stream_scheme E) ctx oper s = ((s', oper'), r) \<Longrightarrow> \<not> panicked r \<Longrightarrow>
    stream_run E s' (stream_log_written E s oper r W) (stream_log_read E oper oper' r R)"
| stream_close: "stream_run E s W R \<Longrightarrow> stream_on_close E i s = (s', Ok u) \<Longrightarrow> stream_run E s' W R"
| stream_sendfd: "stream_run E s W R \<Longrightarrow> stream_on_sendfd E q s = (s', r) \<Longrightarrow> r \<noteq> Panic \<Longrightarrow> stream_run E s' W R"

text \<open>The written bytes are those of the receipts, in their order, and then those that wait.\<close>

definition tallies :: "u8 list \<Rightarrow> receipt list \<Rightarrow> u8 list \<Rightarrow> bool" where
  "tallies written receipts waiting \<longleftrightarrow> (\<exists>T. written = concat T @ waiting \<and> list_all2 accounts receipts T)"

lemma tallies_start: "tallies [] [] []"
  by (auto simp: tallies_def)

lemma tallies_write: "tallies w r q \<Longrightarrow> tallies (w @ x) r (q @ x)"
  by (auto simp: tallies_def)

lemma tallies_take:
  assumes "tallies w r (concat T @ q)" "list_all2 accounts r' T"
  shows "tallies w (r @ r') q"
proof -
  from assms(1) obtain T0 where "w = concat (T0 @ T) @ q" "list_all2 accounts r T0" by (auto simp: tallies_def)
  then show ?thesis using assms(2) unfolding tallies_def by (metis list_all2_appendI)
qed

lemma tallies_got: "tallies w r (bs @ q) \<Longrightarrow> tallies w (r @ [Got bs]) q"
  using tallies_take [of w r "[bs]" q "[Got bs]"] by simp

definition stream_follows :: "stream \<Rightarrow> (nat \<Rightarrow> u8 list) \<Rightarrow> (nat \<Rightarrow> receipt list) \<Rightarrow> bool" where
  "stream_follows s W R \<longleftrightarrow> (\<exists>Q. streams_ok Q s \<and> (\<forall>i. tallies (W i) (R i) (Q i)))"

lemma followsI: "streams_ok Q s \<Longrightarrow> (\<And>i. tallies (W i) (R i) (Q i)) \<Longrightarrow> stream_follows s W R"
  by (auto simp: stream_follows_def)

lemma pending_eq:
  assumes "streams_ok Q s" "us_sockets s i = Some a"
  shows "sk_pending (us_cells s a) = Q i"
  using net_okD(5) [OF stream_okD(1) [OF assms(1)] stream_okD(3) [OF assms]] .

lemma stream_call_follows:
  assumes E: "uds_events_ok E" and Q: "streams_ok Q s" "\<And>i. tallies (W i) (R i) (Q i)"
    and run: "stream_call E i buf md ctx s = ((s', buf'), r)" "r \<noteq> Panic"
  shows "stream_follows s' (stream_log_written E s (OpCall t i buf md) (Regular r) W) (stream_log_read E (OpCall t i buf md) (OpCall t i buf' md) (Regular r) R)"
proof -
  consider (send) "call_verb E md = Some CallSendMsg" | (recv) "call_verb E md = Some CallRecvMsg"
    | (other) "call_verb E md \<noteq> Some CallSendMsg" "call_verb E md \<noteq> Some CallRecvMsg" by blast
  then show ?thesis
  proof cases
    case send
    then have "stream_handle_sendmsg E i (msg_flags_of md) buf ctx s = (s', r)"
      using run(1) by (auto simp: stream_call_def call_verb_def no_payload_def bind_eq_Some_conv split: prod.splits)
    from stream_sendmsg_effect [OF E Q(1) this run(2)] show ?thesis
    proof
      assume "\<exists>e. r = Err e \<and> s' = s"
      then show ?thesis using Q send by (auto simp: stream_follows_def stream_log_written_def stream_log_read_def)
    next
      assume "\<exists>j b. r = Ok (length (msg_payload buf)) \<and> stream_get_connected_peer E i (msg_flags_of md) s = Ok (j, b) \<and>
        streams_ok (Q(j := Q j @ msg_payload buf)) s'"
      then show ?thesis using Q(2) send by (auto simp: stream_log_written_def stream_log_read_def written_to_def intro!: followsI tallies_write)
    qed
  next
    case recv
    then have "stream_handle_recvmsg E i (msg_flags_of md) buf s = ((s', buf'), r)"
      using run(1) by (auto simp: stream_call_def call_verb_def bind_eq_Some_conv)
    from recvmsg_accounts [OF Q(1) this run(2)] obtain T rest where t: "Q i = concat T @ rest" "streams_ok (Q(i := rest)) s'"
      "list_all2 accounts (recv_receipt buf buf' r) T" by blast
    have "tallies (W i) (R i @ recv_receipt buf buf' r) rest" using tallies_take [OF _ t(3)] Q(2) [of i] t(1) by simp
    moreover have "stream_log_written E s (OpCall t i buf md) (Regular r) W = W" using recv by (simp add: stream_log_written_def split: outcome.split)
    ultimately show ?thesis using recv Q(2) by (auto simp: stream_log_read_def intro!: followsI [OF t(2)])
  next
    case other
    then show ?thesis using Q other_calls_keep [OF E Q(1) run other]
      by (auto simp: stream_log_written_def stream_log_read_def intro!: followsI split: outcome.splits)
  qed
qed

lemma stream_dispatch_follows:
  assumes E: "uds_events_ok E" and s: "stream_follows s W R"
    and run: "handle_sync_dont_consume K (stream_scheme E) ctx oper s = ((s', oper'), r)" "\<not> panicked r"
  shows "stream_follows s' (stream_log_written E s oper r W) (stream_log_read E oper oper' r R)"
proof -
  from s obtain Q where Q: "streams_ok Q s" "\<And>i. tallies (W i) (R i) (Q i)" by (auto simp: stream_follows_def)
  have quiet: ?thesis if "quiet_op oper"
  proof -
    have "streams_ok Q s'" using quiet_stream.dispatch_keeps [of E Q s K ctx oper s' oper' r] run Q(1) E by (simp add: quiet_dispatch [OF that])
    moreover have "stream_log_written E s oper r W = W" "stream_log_read E oper oper' r R = R"
      using that by (cases oper; simp add: quiet_op_def stream_log_written_def stream_log_read_def split: scheme_response.split outcome.split)+
    ultimately show ?thesis using Q(2) by (auto intro: followsI)
  qed
  show ?thesis
  proof (cases oper)
    case (OpRead t i buf off ff)
    then obtain buf' q where rd: "stream_read E i buf off ff ctx s = ((s', buf'), q)" "oper' = OpRead t i buf' off ff" "r = Regular q"
      using run(1) by (auto simp: stream_scheme_def split: prod.splits)
    have "q \<noteq> Panic" using run(2) rd(3) by auto
    from stream_read_effect [OF Q(1) rd(1) this] show ?thesis
    proof (elim disjE exE conjE)
      fix e assume "q = Err e" "streams_ok Q s'"
      then show ?thesis using Q(2) OpRead rd(2,3) by (auto simp: stream_log_written_def stream_log_read_def intro: followsI)
    next
      fix n assume n: "q = Ok n" "take n buf' = take n (Q i)" "streams_ok (Q(i := drop n (Q i))) s'"
      have "tallies (W i) (R i @ [Got (take n (Q i))]) (drop n (Q i))" using tallies_got [of "W i" "R i"] Q(2) [of i] by simp
      then show ?thesis using Q(2) OpRead rd(2,3) n(1,2) by (auto simp: stream_log_written_def stream_log_read_def intro!: followsI [OF n(3)])
    qed
  next
    case (OpWrite t i buf off ff)
    then obtain q where q: "stream_write E i buf off ff ctx s = (s', q)" "r = Regular q"
      using run(1) by (auto simp: stream_scheme_def split: prod.splits)
    from stream_write_effect [OF E Q(1) q(1)] show ?thesis
    proof (elim disjE exE conjE)
      fix e assume "q = Err e" "s' = s"
      then show ?thesis using Q OpWrite q(2) by (auto simp: stream_log_written_def stream_log_read_def intro: followsI)
    next
      fix j b assume w: "q = Ok (length buf)" "stream_get_connected_peer E i 0 s = Ok (j, b)" "streams_ok (Q(j := Q j @ buf)) s'"
      then show ?thesis using Q(2) OpWrite q(2) by (auto simp: stream_log_written_def stream_log_read_def written_to_def intro!: followsI [OF w(3)] tallies_write)
    qed
  next
    case (OpCall t i buf md)
    then obtain buf' q where c: "stream_call E i buf md ctx s = ((s', buf'), q)" "oper' = OpCall t i buf' md" "r = Regular q"
      using run(1) by (auto simp: stream_scheme_def split: prod.splits)
    then show ?thesis using stream_call_follows [OF E Q c(1), of t] run(2) OpCall by auto
  qed (rule quiet; simp add: quiet_op_def)+
qed

lemma stream_run_follows:
  assumes "stream_run E s W R" "uds_events_ok E"
  shows "stream_follows s W R"
  using assms
proof (induction rule: stream_run.induct)
  case stream_start
  have "streams_ok (\<lambda>i. []) (uds_new stream_blank)" using net_start by (simp add: streams_ok_def socks_def [abs_def] uds_new_def)
  then show ?case using tallies_start by (auto intro: followsI)
next
  case (stream_step s W R ctx oper s' oper' r)
  then show ?case using stream_dispatch_follows by blast
next
  case (stream_close s W R i s' u)
  then show ?case using stream_close_keeps [of E _ s i s' "Ok u"] by (auto simp: stream_follows_def)
next
  case (stream_sendfd s W R q s' r)
  then show ?case using stream_fd_keeps(1) [of E _ s q s' r] by (auto simp: stream_follows_def)
qed

lemma stream_run_ok: "stream_run E s W R \<Longrightarrow> uds_events_ok E \<Longrightarrow> \<exists>Q. streams_ok Q s"
  using stream_run_follows [of E s W R] by (auto simp: stream_follows_def)

section \<open>A sample run\<close>

text \<open>
  Three sockets, of which the first listens at a path and the second connects to it; the socket that
  comes from the listener writes twice and the second one reads.
\<close>

fun stream_script ::
  "uds_env \<Rightarrow> op list \<Rightarrow> stream \<times> (nat \<Rightarrow> u8 list) \<times> (nat \<Rightarrow> receipt list) \<Rightarrow> (stream \<times> (nat \<Rightarrow> u8 list) \<times> (nat \<Rightarrow> receipt list)) option" where
  "stream_script E [] x = Some x"
| "stream_script E (oper # rest) (s, W, R) =
     (let ((s', oper'), r) = handle_sync_dont_consume (ue_abi E) (stream_scheme E) sample_ctx oper s in
      if panicked r then None
      else stream_script E rest (s', stream_log_written E s oper r W, stream_log_read E oper oper' r R))"

lemma stream_script_run:
  "stream_script E script (s, W, R) = Some (s', W', R') \<Longrightarrow> stream_run E s W R \<Longrightarrow> stream_run E s' W' R'"
proof (induction script arbitrary: s W R)
  case (Cons oper rest)
  then show ?case by (auto split: prod.splits if_splits intro: Cons.IH stream_step)
qed simp

definition sample_listens :: "op list" where
  "sample_listens = [OpOpen 0 [] 0, OpOpen 0 [] 0, OpOpen 0 [] 0, OpCall 0 0 (bytes_of ''a'') [0]]"

definition sample_connects :: "op list" where
  "sample_connects = sample_listens @ [OpCall 0 1 (to_le 8 77) [1], OpDup 0 0 (bytes_of ''listen'')]"

definition sample_talks :: "op list" where
  "sample_talks = sample_connects @ [OpWrite 0 3 [1, 2, 3] 0 0, OpWrite 0 3 [4] 0 0, OpRead 0 1 [0, 0] 0 0]"

definition sample_stream :: "op list \<Rightarrow> (stream \<times> (nat \<Rightarrow> u8 list) \<times> (nat \<Rightarrow> receipt list)) option" where
  "sample_stream script = stream_script sample_uds_env script (uds_new stream_blank, (\<lambda>i. []), (\<lambda>i. []))"

lemma sample_stream_run: "sample_stream script = Some (s, W, R) \<Longrightarrow> stream_run sample_uds_env s W R"
  using stream_script_run [OF _ stream_start] by (simp add: sample_stream_def)

lemma sample_env_fields:
  "ue_abi sample_uds_env = sample_abi" "ue_next_u64 sample_uds_env n = word_of_nat (n + 77)"
  "ue_socket_call sample_uds_env 0 = Some CallBind" "ue_socket_call sample_uds_env 1 = Some CallConnect"
  by (simp_all add: sample_uds_env_def get_at_def)

lemma sample_path: "path_buf_to_str (bytes_of ''a'') = Ok ''a''"
proof -
  have "utf8_valid (bytes_of ''a'')" "bytes_of ''a'' \<noteq> []" by (simp_all add: bytes_of_def)
  then show ?thesis by (simp add: path_buf_to_str_def)
qed

lemma sample_token: "read_u64 (to_le 8 77) = Ok 77"
  using read_u64_to_le [of 77 "[]"] by simp

lemmas stream_eval = sample_stream_def sample_listens_def sample_connects_def sample_talks_def stream_scheme_def default_scheme_def uds_new_def
  stream_blank_def stream_open_def stream_dup_def stream_call_def stream_write_def stream_read_def stream_handle_bind_def stream_handle_connect_def
  stream_handle_listen.simps stream_handle_accept_def accept_connection_def is_listening_def sock_accept_def sock_establish_def sock_connect_def
  start_listening_def stream_socket_new_def connection_new_def insert_socket_def bump_next_id_def usize_add_def get_socket_def set_cell_def
  uds_post_ok [OF sample_uds_events] no_payload_def sample_path sample_token
  stream_get_connected_peer_def require_connected_connection_def require_connection_def
  stream_log_written_def stream_log_read_def written_to_def call_verb_def sample_env_fields get_at_def Let_def
  stream_read_inner_def read_packets.simps advance_def packet_new_def ancillary_new_def slice_from_def copy_into_def stream_write_inner_def set_connection_def

lemma sample_listening:
  "\<exists>s W R. sample_stream sample_listens = Some (s, W, R) \<and> us_sockets s 0 = Some 0 \<and> sk_state (us_cells s 0) = StListening \<and>
     sk_awaiting (us_cells s 0) = [] \<and> us_tokens s 77 = Some 0 \<and> us_sockets s 1 = Some 1 \<and> sk_state (us_cells s 1) = StUnbound \<and>
     sk_flags (us_cells s 1) = 0 \<and> us_next_id s = 3"
  by (simp add: stream_eval)

lemma sample_connected:
  "\<exists>s W R. sample_stream sample_connects = Some (s, W, R) \<and> us_sockets s 0 = Some 0 \<and> sk_state (us_cells s 0) = StListening \<and>
     us_paths s ''a'' = Some 0 \<and> us_sockets s 3 = Some 3 \<and> map_option cn_peer (sk_connection (us_cells s 3)) = Some 1 \<and>
     sk_path (us_cells s 3) = Some ''a'' \<and> us_sockets s 1 = Some 1 \<and> us_sockets s 2 = Some 2 \<and> sk_state (us_cells s 2) = StUnbound"
  by (simp add: stream_eval)

lemma sample_talking:
  "\<exists>s W R. sample_stream sample_talks = Some (s, W, R) \<and> us_sockets s 1 = Some 1 \<and> us_sockets s 3 = Some 3 \<and>
     map_option cn_peer (sk_connection (us_cells s 1)) = Some 3 \<and> sk_pending (us_cells s 1) = [3, 4] \<and> W 1 = [1, 2, 3, 4] \<and> R 1 = [Got [1, 2]]"
  by (simp add: stream_eval sk_pending_def unread_all_def unread_def)

section \<open>Properties\<close>

text \<open>
  C10. A connection carries two streams of bytes: in every run, what was written to a socket is what its
  readers took, in the order in which they took it, followed by the bytes that wait in its packets, whatever
  the sizes of the writes and the reads are. What a \<open>read\<close> gave back is what it took, and so is what a
  \<open>recvmsg\<close> gave back when its buffer has room for the lengths, the name and the bytes that it announced.
  Bytes can be lost, at most as many as the request announced, only by a \<open>recvmsg\<close> with a smaller buffer or
  by one that fails in the control messages; no other failing request takes any.
\<close>

theorem stream_bytes:
  assumes "stream_run E s W R" "uds_events_ok E" "us_sockets s i = Some a"
  shows "\<exists>taken. W i = concat taken @ (case sk_connection (us_cells s a) of None \<Rightarrow> [] | Some c \<Rightarrow>
      concat (map (\<lambda>p. drop (dp_read_offset p) (dp_payload p)) (cn_packets c))) \<and>
    list_all2 (\<lambda>x bs. case x of Got given \<Rightarrow> bs = given | Lost n \<Rightarrow> length bs \<le> n) (R i) taken"
proof -
  from stream_run_follows [OF assms(1,2)] obtain Q where Q: "streams_ok Q s" "\<forall>i. tallies (W i) (R i) (Q i)" by (auto simp: stream_follows_def)
  have "(case sk_connection (us_cells s a) of None \<Rightarrow> [] | Some c \<Rightarrow> concat (map (\<lambda>p. drop (dp_read_offset p) (dp_payload p)) (cn_packets c))) = Q i"
    using pending_eq [OF Q(1) assms(3)]
    by (cases "sk_connection (us_cells s a)") (simp_all add: sk_pending_def unread_all_def unread_def [abs_def])
  moreover have "(\<lambda>x bs. case x of Got given \<Rightarrow> bs = given | Lost n \<Rightarrow> length bs \<le> n) = accounts"
    by (intro ext) (simp split: receipt.split)
  ultimately show ?thesis using Q(2) by (auto simp: tallies_def)
qed

theorem stream_bytes_witness:
  "\<exists>s W R c. stream_run sample_uds_env s W R \<and> us_sockets s 1 = Some 1 \<and> W 1 = [1, 2, 3, 4] \<and> R 1 = [Got [1, 2]] \<and>
     sk_connection (us_cells s 1) = Some c \<and> concat (map (\<lambda>p. drop (dp_read_offset p) (dp_payload p)) (cn_packets c)) = [3, 4]"
proof -
  from sample_talking obtain s W R c where s: "sample_stream sample_talks = Some (s, W, R)" "us_sockets s 1 = Some 1"
    "sk_connection (us_cells s 1) = Some c" "W 1 = [1, 2, 3, 4]" "R 1 = [Got [1, 2]]" by auto
  from stream_bytes [OF sample_stream_run [OF s(1)] sample_uds_events s(2)] s(3-5)
  have "[1, 2, 3, 4] = [1, 2] @ concat (map (\<lambda>p. drop (dp_read_offset p) (dp_payload p)) (cn_packets c))"
    by (auto simp: list_all2_Cons1)
  with s sample_stream_run [OF s(1)] show ?thesis by auto
qed

text \<open>
  C12. Connections are between pairs: the peer of a connected socket, as long as it exists, is another
  socket that is connected to this one, and no third socket has this one as its peer.
\<close>

theorem stream_pairs:
  assumes "stream_run E s W R" "uds_events_ok E" "us_sockets s i = Some a" "sk_connection (us_cells s a) = Some c"
  shows "sk_state (us_cells s a) \<in> {StAccepted, StEstablished} \<and> cn_peer c \<noteq> i \<and>
    (\<forall>b. us_sockets s (cn_peer c) = Some b \<longrightarrow> map_option cn_peer (sk_connection (us_cells s b)) = Some i) \<and>
    (\<forall>j b d. us_sockets s j = Some b \<longrightarrow> sk_connection (us_cells s b) = Some d \<longrightarrow> cn_peer d = i \<longrightarrow> j = cn_peer c)"
proof -
  obtain Q where s: "streams_ok Q s" using stream_run_ok [OF assms(1,2)] by blast
  note N = stream_okD(1) [OF s] and k = stream_okD(3) [OF s assms(3)]
  have self: "self_ok i (us_cells s a)" and peer: "stream_peer_ok (us_next_id s) (socks s) i (us_cells s a)" using net_okD(2,3) [OF N k] .
  have "j = cn_peer c" if "us_sockets s j = Some b" "sk_connection (us_cells s b) = Some d" "cn_peer d = i" for j b d
    using net_okD(3) [OF N stream_okD(3) [OF s that(1)]] that(2,3) k assms(4) by (simp add: stream_peer_ok_def peer_of_def)
  then show ?thesis using self peer assms(4) stream_okD(3) [OF s] by (auto simp: self_ok_def connected_def stream_peer_ok_def peer_of_def)
qed

theorem stream_pairs_witness:
  "\<exists>s W R b. stream_run sample_uds_env s W R \<and> map_option cn_peer (sk_connection (us_cells s 1)) = Some 3 \<and>
     us_sockets s 3 = Some b \<and> map_option cn_peer (sk_connection (us_cells s b)) = Some 1"
proof -
  from sample_talking obtain s W R c where s: "sample_stream sample_talks = Some (s, W, R)" "us_sockets s 1 = Some 1" "us_sockets s 3 = Some 3"
    "sk_connection (us_cells s 1) = Some c" "cn_peer c = 3" by auto
  then have "map_option cn_peer (sk_connection (us_cells s 1)) = Some 3" by simp
  with stream_pairs [OF sample_stream_run [OF s(1)] sample_uds_events s(2,4)] s(3,5) sample_stream_run [OF s(1)] show ?thesis by metis
qed

text \<open>
  C20. The three phases of a connection: when no other client waits at a listener, a \<open>connect\<close> to it from a
  blocking socket that has not connected yet blocks, the \<open>listen\<close> of the listener then gives a new socket,
  and the \<open>connect\<close> that is tried again succeeds. Then the client and the new socket are connected to each
  other. The number of the new socket must not be the last one.
\<close>

theorem stream_handshake:
  assumes run: "stream_run E s W R" "uds_events_ok E" and l: "us_sockets s j = Some l" "sk_state (us_cells s l) = StListening" "sk_awaiting (us_cells s l) = []"
    and t: "us_tokens s t = Some l" and a: "us_sockets s i = Some a" "sk_state (us_cells s a) = StUnbound" "sk_flags (us_cells s a) AND O_NONBLOCK (ue_abi E) = 0"
    and n: "us_next_id s + 1 < usize_range"
  shows "\<exists>s1 s2 s3. stream_handle_connect E i (to_le 8 (unat t)) s = (s1, Err EWOULDBLOCK) \<and>
    stream_dup E j (bytes_of ''listen'') ctx s1 = (s2, Ok (ThisScheme (us_next_id s) 0)) \<and>
    stream_handle_connect E i (to_le 8 (unat t)) s2 = (s3, Ok 0) \<and>
    stream_get_connected_peer E i 0 s3 = Ok (us_next_id s, us_fresh s) \<and> stream_get_connected_peer E (us_next_id s) 0 s3 = Ok (i, a)"
proof -
  obtain Q where s: "streams_ok Q s" using stream_run_ok [OF run] by blast
  have less: "a < us_fresh s" "l < us_fresh s" "i < us_next_id s" "j < us_next_id s" "a \<noteq> l"
    using stream_okD(2) [OF s] a l net_okD(1) [OF stream_okD(1) [OF s] stream_okD(3) [OF s]] by auto
  have tok: "read_u64 (to_le 8 (unat t)) = Ok t" using read_u64_to_le [of t "[]"] by simp
  let ?n = "us_next_id s" and ?K = "ue_abi E"
  let ?ev = "EVENT_READ ?K OR EVENT_WRITE ?K"
  define s1 where "s1 = (set_cell a (us_cells s a\<lparr>sk_state := StConnecting\<rparr>) (set_cell l (us_cells s l\<lparr>sk_awaiting := [i]\<rparr>) s))
    \<lparr>us_posted := us_posted s @ [post_fevent_response (sk_primary_id (us_cells s l)) ?ev]\<rparr>"
  have 1: "stream_handle_connect E i (to_le 8 (unat t)) s = (s1, Err EWOULDBLOCK)"
    using l a t less by (simp add: stream_handle_connect_def tok get_socket_def sock_connect_def uds_post_ok [OF run(2)] s1_def Let_def)
  define new where "new = stream_socket_new ?n (sk_path (us_cells s l)) StEstablished (sk_options (us_cells s l)) (sk_flags (us_cells s l))
    (Some (connection_new i)) ctx"
  define s2 where "s2 = (insert_socket ?n new ((set_cell a (us_cells s a\<lparr>sk_state := StAccepted, sk_connection := Some (connection_new ?n)\<rparr>)
    (set_cell l (us_cells s l\<lparr>sk_awaiting := []\<rparr>) s1))\<lparr>us_next_id := Suc ?n\<rparr>))\<lparr>us_posted := us_posted s1 @ [post_fevent_response i ?ev]\<rparr>"
  have "stream_handle_accept E l ctx s1 = (s2, Ok (Some (ThisScheme ?n 0)))"
    using l a n less by (simp add: stream_handle_accept_def accept_connection_def is_listening_def get_socket_def sock_accept_def sock_establish_def
        bump_next_id_def usize_add_def uds_post_ok [OF run(2)] s2_def s1_def new_def Let_def)
  then have 2: "stream_dup E j (bytes_of ''listen'') ctx s1 = (s2, Ok (ThisScheme ?n 0))"
    using l less by (simp add: stream_dup_def stream_handle_listen.simps is_listening_def s1_def)
  define s3 where "s3 = set_cell a (us_cells s2 a\<lparr>sk_state := StEstablished\<rparr>) s2"
  have s2: "us_sockets s2 = (us_sockets s)(?n \<mapsto> us_fresh s)" "us_tokens s2 = us_tokens s" "us_cells s2 (us_fresh s) = new"
    "us_cells s2 a = us_cells s a\<lparr>sk_state := StAccepted, sk_connection := Some (connection_new ?n)\<rparr>"
    using less by (simp_all add: s2_def s1_def)
  have 3: "stream_handle_connect E i (to_le 8 (unat t)) s2 = (s3, Ok 0)"
    using t a less s2 by (simp add: stream_handle_connect_def tok get_socket_def s3_def Let_def)
  have "stream_get_connected_peer E i 0 s3 = Ok (?n, us_fresh s)" "stream_get_connected_peer E ?n 0 s3 = Ok (i, a)"
    using a less s2 by (simp_all add: stream_get_connected_peer_def get_socket_def require_connected_connection_def require_connection_def
        connection_new_def s3_def new_def stream_socket_new_def Let_def)
  with 1 2 3 show ?thesis by blast
qed

theorem stream_handshake_witness:
  "\<exists>s W R s1 s2 s3. stream_run sample_uds_env s W R \<and> stream_handle_connect sample_uds_env 1 (to_le 8 77) s = (s1, Err EWOULDBLOCK) \<and>
     stream_dup sample_uds_env 0 (bytes_of ''listen'') sample_ctx s1 = (s2, Ok (ThisScheme 3 0)) \<and>
     stream_handle_connect sample_uds_env 1 (to_le 8 77) s2 = (s3, Ok 0) \<and> stream_get_connected_peer sample_uds_env 3 0 s3 = Ok (1, 1)"
proof -
  from sample_listening obtain s W R where s: "sample_stream sample_listens = Some (s, W, R)" "us_sockets s 0 = Some 0"
    "sk_state (us_cells s 0) = StListening" "sk_awaiting (us_cells s 0) = []" "us_tokens s 77 = Some 0" "us_sockets s 1 = Some 1"
    "sk_state (us_cells s 1) = StUnbound" "sk_flags (us_cells s 1) = 0" "us_next_id s = 3" by auto
  with stream_handshake [OF sample_stream_run [OF s(1)] sample_uds_events s(2-7), of sample_ctx] sample_stream_run [OF s(1)]
  show ?thesis by simp blast
qed

text \<open>Reads of a socket, one after the other, each with a buffer, an offset and flags; what each of them gives back.\<close>

fun stream_reads :: "uds_env \<Rightarrow> nat \<Rightarrow> caller_ctx \<Rightarrow> (u8 list \<times> nat \<times> u32) list \<Rightarrow> stream \<Rightarrow> u8 list outcome list" where
  "stream_reads E i ctx [] s = []"
| "stream_reads E i ctx ((buf, off, ff) # rest) s = (let ((s', buf'), r) = stream_read E i buf off ff ctx s in
     map_outcome (\<lambda>n. take n buf') r # stream_reads E i ctx rest s')"

text \<open>A list in pieces of given sizes, the last of which may be shorter or empty.\<close>

fun pieces :: "nat list \<Rightarrow> 'a list \<Rightarrow> 'a list list" where
  "pieces [] xs = []"
| "pieces (n # ns) xs = take n xs # pieces ns (drop n xs)"

lemma read_after_shutdown:
  assumes "us_sockets s i = Some a" "connected (us_cells s a)" "sk_connection (us_cells s a) = Some c" "cn_is_peer_shutdown c" "packets_ok (cn_packets c)"
  shows "\<exists>ps' buf'. stream_read E i buf off ff ctx s =
      ((set_cell a (set_connection (c\<lparr>cn_packets := ps'\<rparr>) (us_cells s a)) s, buf'), Ok (min (length buf) (length (unread_all (cn_packets c))))) \<and>
    take (min (length buf) (length (unread_all (cn_packets c)))) buf' = take (length buf) (unread_all (cn_packets c)) \<and>
    packets_ok ps' \<and> unread_all ps' = drop (length buf) (unread_all (cn_packets c))"
proof -
  from read_packets_spec [OF assms(5), of 0 buf] obtain ps' where
    ps': "read_packets 0 (cn_packets c) buf = ((ps', copy_into buf 0 (take (length buf) (unread_all (cn_packets c)))),
        Ok (min (length buf) (length (unread_all (cn_packets c)))))"
      "unread_all ps' = drop (length buf) (unread_all (cn_packets c))" "packets_ok ps'"
    by auto
  have "require_connected_connection E 0 (us_cells s a) = Ok c" "sk_state (us_cells s a) \<in> {StEstablished, StAccepted}"
    using assms(2,3) by (auto simp: require_connected_eq connected_def)
  moreover have "take (min (length buf) (length q)) q = take (length buf) q" for q :: "u8 list" by (simp add: min_def)
  ultimately show ?thesis using assms ps'
    by (intro exI [of _ ps'] exI [of _ "copy_into buf 0 (take (length buf) (unread_all (cn_packets c)))"])
      (auto simp: stream_read_def stream_read_inner_def get_socket_def Let_def copy_into_def)
qed

lemma reads_after_shutdown:
  assumes "us_sockets s i = Some a" "connected (us_cells s a)" "sk_connection (us_cells s a) = Some c" "cn_is_peer_shutdown c" "packets_ok (cn_packets c)"
  shows "stream_reads E i ctx reads s = map Ok (pieces (map (\<lambda>x. length (fst x)) reads) (unread_all (cn_packets c)))"
  using assms
proof (induction reads arbitrary: s c)
  case (Cons x reads)
  obtain buf off ff where x: "x = (buf, off, ff)" by (cases x)
  from read_after_shutdown [OF Cons.prems, of E buf off ff ctx] obtain ps' buf' where
    rd: "stream_read E i buf off ff ctx s = ((set_cell a (set_connection (c\<lparr>cn_packets := ps'\<rparr>) (us_cells s a)) s, buf'),
      Ok (min (length buf) (length (unread_all (cn_packets c)))))"
    "take (min (length buf) (length (unread_all (cn_packets c)))) buf' = take (length buf) (unread_all (cn_packets c))"
    "packets_ok ps'" "unread_all ps' = drop (length buf) (unread_all (cn_packets c))" by blast
  let ?s = "set_cell a (set_connection (c\<lparr>cn_packets := ps'\<rparr>) (us_cells s a)) s"
  have "stream_reads E i ctx reads ?s = map Ok (pieces (map (\<lambda>x. length (fst x)) reads) (unread_all (cn_packets (c\<lparr>cn_packets := ps'\<rparr>))))"
    by (rule Cons.IH) (use Cons.prems rd(3) in \<open>simp_all add: set_cell_def set_connection_def connected_def\<close>)
  then show ?case using rd by (simp add: x)
qed simp

text \<open>
  C22. The end of a stream: when the peer of a socket is closed, no read of the socket blocks or fails,
  however many there are. The reads return, one after the other, the bytes that waited, each as many of the
  next ones as its buffer holds, and then 0 bytes for the end, again and again.
\<close>

theorem stream_eof:
  assumes run: "stream_run E s W R" "uds_events_ok E" and i: "us_sockets s i = Some a" "sk_connection (us_cells s a) = Some c"
    and peer: "us_sockets s (cn_peer c) = Some b"
  shows "\<exists>s1. stream_on_close E (cn_peer c) s = (s1, Ok ()) \<and>
    stream_reads E i ctx reads s1 = map Ok (pieces (map (\<lambda>x. length (fst x)) reads) (sk_pending (us_cells s a)))"
proof -
  obtain Q where s: "streams_ok Q s" using stream_run_ok [OF run] by blast
  note N = stream_okD(1) [OF s] and k = stream_okD(3) [OF s i(1)] and kb = stream_okD(3) [OF s peer]
  have p: "cn_peer c \<noteq> i" "peer_of (us_cells s b) = Some i" using net_okD(3) [OF N k] kb i(2) by (auto simp: stream_peer_ok_def peer_of_def)
  then obtain d where d: "sk_connection (us_cells s b) = Some d" "cn_peer d = i" by (auto simp: peer_of_def)
  have st: "connected (us_cells s b)" "connected (us_cells s a)" using net_okD(2) [OF N kb] net_okD(2) [OF N k] d i(2) by (auto simp: self_ok_def)
  have ab: "a \<noteq> b" using cell_unique [OF s i(1), of "cn_peer c"] peer p(1) by auto
  let ?c = "c\<lparr>cn_is_peer_shutdown := True\<rparr>"
  have "sk_state (us_cells s b) \<noteq> StListening" "sk_state (us_cells s b) \<in> {StEstablished, StAccepted}" using st(1) by (auto simp: connected_def)
  then have "\<exists>s1. stream_on_close E (cn_peer c) s = (s1, Ok ()) \<and> us_sockets s1 i = Some a \<and> us_cells s1 a = set_connection ?c (us_cells s a)"
    using d i p(1) peer ab
    by (simp add: stream_on_close_def handle_other_closure_def ignore_error_def uds_post_ok [OF run(2)] close_socket_def remove_names_def Let_def)
  then obtain s1 where s1: "stream_on_close E (cn_peer c) s = (s1, Ok ())" "us_sockets s1 i = Some a" "us_cells s1 a = set_connection ?c (us_cells s a)"
    by blast
  have "packets_ok (cn_packets c)" "unread_all (cn_packets c) = sk_pending (us_cells s a)"
    using net_okD(2) [OF N k] i(2) by (auto simp: self_ok_def sk_pending_def)
  moreover have "connected (us_cells s1 a)" "sk_connection (us_cells s1 a) = Some ?c" using s1(3) st(2) by (simp_all add: set_connection_def connected_def)
  ultimately show ?thesis using s1(1) reads_after_shutdown [OF s1(2), of ?c E ctx reads] by simp
qed

theorem stream_eof_witness:
  "\<exists>s W R s1. stream_run sample_uds_env s W R \<and> stream_on_close sample_uds_env 3 s = (s1, Ok ()) \<and>
     stream_reads sample_uds_env 1 sample_ctx [([0], 0, 0), ([0, 0, 0], 0, 0), ([0, 0], 0, 0), ([0], 0, 0)] s1 = [Ok [3], Ok [4], Ok [], Ok []]"
proof -
  from sample_talking obtain s W R c where s: "sample_stream sample_talks = Some (s, W, R)" "us_sockets s 1 = Some 1" "us_sockets s 3 = Some 3"
    "sk_connection (us_cells s 1) = Some c" "cn_peer c = 3" "sk_pending (us_cells s 1) = [3, 4]" by auto
  with stream_eof [OF sample_stream_run [OF s(1)] sample_uds_events s(2,4), of 3 sample_ctx
      "[([0], 0, 0), ([0, 0, 0], 0, 0), ([0, 0], 0, 0), ([0], 0, 0)]"] sample_stream_run [OF s(1)]
  show ?thesis by simp blast
qed

text \<open>
  C37. A path that is in use can become free: a socket that a listener has accepted carries the path of the
  listener, and when it is closed before its peer the path is removed from the table. Another socket
  can then bind it, which it could not before, while the first listener still listens.
\<close>

theorem stream_close_frees_path:
  assumes run: "stream_run E s W R" "uds_events_ok E"
    and l: "us_sockets s j = Some l" "sk_state (us_cells s l) = StListening" "us_paths s p = Some l"
    and b: "us_sockets s i = Some b" "sk_connection (us_cells s b) = Some c" "sk_path (us_cells s b) = Some p" "us_sockets s (cn_peer c) = Some a"
    and x: "us_sockets s m = Some x" "sk_state (us_cells s x) = StUnbound" "path_buf_to_str buf = Ok p"
  shows "stream_handle_bind E m buf s = (s, Err EADDRINUSE) \<and>
    (\<exists>s1 s2. stream_on_close E i s = (s1, Ok ()) \<and> us_sockets s1 j = Some l \<and> sk_state (us_cells s1 l) = StListening \<and>
       stream_handle_bind E m buf s1 = (s2, Ok 0) \<and> us_paths s2 p = Some x)"
proof -
  obtain Q where s: "streams_ok Q s" using stream_run_ok [OF run] by blast
  note N = stream_okD(1) [OF s] and k = stream_okD(3) [OF s b(1)] and ka = stream_okD(3) [OF s b(4)]
  have p: "cn_peer c \<noteq> i" "peer_of (us_cells s a) = Some i" using net_okD(3) [OF N k] ka b(2) by (auto simp: stream_peer_ok_def peer_of_def)
  then obtain d where d: "sk_connection (us_cells s a) = Some d" by (auto simp: peer_of_def)
  have st: "connected (us_cells s b)" "connected (us_cells s a)" using net_okD(2) [OF N k] net_okD(2) [OF N ka] d b(2) by (auto simp: self_ok_def)
  have apart: "a \<noteq> b" "l \<noteq> a" "l \<noteq> b" "x \<noteq> a" "x \<noteq> b" "j \<noteq> i" "m \<noteq> i"
    using cell_unique [OF s b(1), of "cn_peer c"] b p(1) l x st by (auto simp: connected_def)
  have "sk_state (us_cells s b) \<noteq> StListening" "sk_state (us_cells s b) \<in> {StEstablished, StAccepted}" using st(1) by (auto simp: connected_def)
  then have "\<exists>s1. stream_on_close E i s = (s1, Ok ()) \<and> us_sockets s1 = (us_sockets s)(i := None) \<and> us_paths s1 p = None \<and>
      us_cells s1 l = us_cells s l \<and> us_cells s1 x = us_cells s x"
    using d b p(1) apart
    by (simp add: stream_on_close_def handle_other_closure_def ignore_error_def uds_post_ok [OF run(2)] close_socket_def remove_names_def Let_def)
  then obtain s1 where s1: "stream_on_close E i s = (s1, Ok ())" "us_sockets s1 = (us_sockets s)(i := None)" "us_paths s1 p = None"
      "us_cells s1 l = us_cells s l" "us_cells s1 x = us_cells s x" by blast
  have "\<exists>s2. stream_handle_bind E m buf s1 = (s2, Ok 0) \<and> us_paths s2 p = Some x"
    using s1 x apart by (simp add: stream_handle_bind_def start_listening_def get_socket_def Let_def)
  then show ?thesis using s1 l x apart by (auto simp: stream_handle_bind_def)
qed

theorem stream_close_frees_path_witness:
  "\<exists>s W R s1 s2. stream_run sample_uds_env s W R \<and> stream_handle_bind sample_uds_env 2 (bytes_of ''a'') s = (s, Err EADDRINUSE) \<and>
     stream_on_close sample_uds_env 3 s = (s1, Ok ()) \<and> stream_handle_bind sample_uds_env 2 (bytes_of ''a'') s1 = (s2, Ok 0)"
proof -
  from sample_connected obtain s W R c where s: "sample_stream sample_connects = Some (s, W, R)" "us_sockets s 0 = Some 0"
    "sk_state (us_cells s 0) = StListening" "us_paths s ''a'' = Some 0" "us_sockets s 3 = Some 3" "sk_connection (us_cells s 3) = Some c"
    "sk_path (us_cells s 3) = Some ''a''" "cn_peer c = 1" "us_sockets s 1 = Some 1" "us_sockets s 2 = Some 2" "sk_state (us_cells s 2) = StUnbound"
    by auto
  then have "us_sockets s (cn_peer c) = Some 1" by simp
  from stream_close_frees_path [OF sample_stream_run [OF s(1)] sample_uds_events s(2-7) this s(10,11) sample_path] sample_stream_run [OF s(1)]
  show ?thesis by blast
qed

section \<open>Calls that end the daemon\<close>

lemma stream_handlers_no_panic:
  assumes "streams_ok Q s"
  shows "snd (stream_handle_bind E i buf s) \<noteq> Panic" "snd (stream_handle_setsockopt E i opt buf s) \<noteq> Panic"
    "snd (stream_handle_getsockopt E i opt buf s) \<noteq> Panic" "snd (stream_handle_unbind i s) \<noteq> Panic"
    "snd (stream_handle_get_token i buf s) \<noteq> Panic" "snd (stream_handle_get_peer_name E i buf s) \<noteq> Panic"
  using connected_peer_no_panic [OF assms]
  by (auto simp: stream_handle_bind_def stream_handle_setsockopt_def stream_handle_getsockopt_def stream_handle_unbind_def stream_handle_get_token_def
      stream_handle_get_peer_name_def stream_fpath_inner_def fpath_inner_def write_value_def start_listening_def get_socket_def ok_or_def
      path_buf_to_str_def read_u32_def read_num_def and_then_eq_Panic Let_def
      split: question_splits option.splits if_splits prod.splits)

lemma stream_connect_panics:
  assumes "uds_events_ok E"
  shows "snd (stream_handle_connect E i buf s) = Panic \<longleftrightarrow>
    (\<exists>t a. read_u64 buf = Ok t \<and> us_tokens s t = Some a \<and> us_sockets s i = Some a \<and>
       sk_state (us_cells s a) \<notin> {StConnecting, StEstablished, StAccepted})"
  by (auto simp: stream_handle_connect_def sock_connect_def get_socket_def ok_or_def read_u64_def read_num_def uds_post_ok [OF assms] Let_def
      split: question_splits option.splits if_splits stream_state.splits)

lemma stream_sendmsg_panics:
  assumes "uds_events_ok E" "credentials_ok E" "streams_ok Q s" "length buf < usize_range"
  shows "snd (stream_handle_sendmsg E i f buf ctx s) = Panic \<longleftrightarrow>
    us_sockets s i \<noteq> None \<and> (\<exists>jb. stream_get_connected_peer E i f s = Ok jb) \<and> (\<exists>ids. get_uid_gid_from_pid E (ctx_pid ctx) = Ok ids) \<and>
    message_overflows E buf"
proof -
  note np = connected_peer_no_panic [OF assms(3), of E i f] credentials_no_panic [OF assms(2), of "ctx_pid ctx"]
    packet_panic_iff [OF assms(4), of E] message_nonempty [of E buf]
  show ?thesis
  proof (cases "stream_get_connected_peer E i f s")
    case (Ok jb)
    obtain j b where jb: "jb = (j, b)" by fastforce
    obtain d where "require_connected_connection E f (us_cells s b) = Ok d"
      using peer_connected [OF assms(3) Ok [unfolded jb]] require_connected_eq(1) by metis
    then show ?thesis using np(2-) Ok jb
      by (auto simp: stream_handle_sendmsg_def get_socket_def uds_post_ok [OF assms(1)] Let_def split: question_splits prod.splits)
  qed (use np in \<open>auto simp: stream_handle_sendmsg_def get_socket_def Let_def split: question_splits\<close>)
qed

text \<open>
  The calls that end the daemon. A \<open>recvmsg\<close> is one when bytes wait and the vector for the size that it asks
  for cannot be allocated, or the packets that it takes bytes of have announced too many descriptors.
\<close>

definition fatal_call :: "uds_env \<Rightarrow> nat \<Rightarrow> nat \<Rightarrow> u8 list \<Rightarrow> u64 list \<Rightarrow> caller_ctx \<Rightarrow> stream \<Rightarrow> bool" where
  "fatal_call E i a buf md ctx s \<longleftrightarrow>
     (call_verb E md = Some CallConnect \<and> sk_state (us_cells s a) \<notin> {StConnecting, StEstablished, StAccepted} \<and>
        (\<exists>t. read_u64 buf = Ok t \<and> us_tokens s t = Some a)) \<or>
     (call_verb E md = Some CallSendMsg \<and> (\<exists>jb. stream_get_connected_peer E i (msg_flags_of md) s = Ok jb) \<and>
        (\<exists>ids. get_uid_gid_from_pid E (ctx_pid ctx) = Ok ids) \<and> message_overflows E buf) \<or>
     (call_verb E md = Some CallRecvMsg \<and> 24 \<le> length buf \<and>
        (\<exists>c. sk_connection (us_cells s a) = Some c \<and> cn_packets c \<noteq> [] \<and>
           (2 ^ 63 \<le> recv_size buf \<or> \<not> ue_allocates E (recv_size buf) \<or> usize_range \<le> told_fds (recv_size buf) (cn_packets c))))"

text \<open>
  C36. Which calls end the daemon: a \<open>connect\<close> of a socket to itself before it is connected; a message to a
  connected peer that overflows, in its length, the length of one of its control messages or the number
  of descriptors that they announce; and a \<open>recvmsg\<close> on a socket with waiting bytes, when the size that it asks for
  is more than \<open>isize::MAX\<close> or cannot be allocated, or when the numbers of descriptors that came with the
  packets it takes bytes of add up to more than a \<open>usize\<close>. No other call does.
\<close>

theorem stream_call_panics:
  assumes run: "stream_run E s W R" "uds_events_ok E" "credentials_ok E" and i: "us_sockets s i = Some a" and buf: "length buf < usize_range"
  shows "snd (stream_call E i buf md ctx s) = Panic \<longleftrightarrow> fatal_call E i a buf md ctx s"
proof -
  obtain Q where s: "streams_ok Q s" using stream_run_ok [OF run(1,2)] by blast
  have np: "snd (no_payload buf x) = snd x" for x :: "stream \<times> nat outcome" by (cases x) (simp add: no_payload_def)
  note quiet = stream_handlers_no_panic [OF s]
  show ?thesis
  proof (cases "call_verb E md")
    case None
    then show ?thesis by (auto simp: stream_call_def call_verb_def fatal_call_def bind_eq_None_conv ok_or_def split: option.splits question_splits)
  next
    case (Some v)
    then obtain w where w: "get_at md 0 = Some w" "ue_socket_call E w = Some v" by (auto simp: call_verb_def bind_eq_Some_conv)
    show ?thesis
    proof (cases v)
      case CallConnect
      then show ?thesis using w Some i stream_connect_panics [OF run(2), of i buf s] by (auto simp: stream_call_def fatal_call_def np)
    next
      case CallSendMsg
      then show ?thesis using w Some i stream_sendmsg_panics [OF run(2,3) s buf, of i "msg_flags_of md" ctx]
        by (auto simp: stream_call_def fatal_call_def np)
    next
      case CallRecvMsg
      then show ?thesis using w Some recvmsg_panics [OF s i, of E "msg_flags_of md" buf]
        by (auto simp: stream_call_def fatal_call_def not_less)
    qed (use w Some quiet in \<open>auto simp: stream_call_def fatal_call_def np ok_or_def split: option.splits question_splits\<close>)
  qed
qed

text \<open>A listener that connects to itself, and a \<open>recvmsg\<close> of more bytes than there is memory for.\<close>

theorem stream_call_panics_witness:
  "(\<exists>s W R. stream_run sample_uds_env s W R \<and> us_sockets s 0 = Some 0 \<and>
     snd (stream_call sample_uds_env 0 (to_le 8 77) [1] sample_ctx s) = Panic \<and> snd (stream_call sample_uds_env 0 [] [6] sample_ctx s) \<noteq> Panic) \<and>
   (\<exists>s W R. stream_run sample_uds_env s W R \<and> us_sockets s 1 = Some 1 \<and>
     snd (stream_call sample_uds_env 1 (msghdr_bytes 0 (2 ^ 41) 0) [5] sample_ctx s) = Panic)"
proof
  from sample_listening obtain s W R where s: "sample_stream sample_listens = Some (s, W, R)" "us_sockets s 0 = Some 0"
    "sk_state (us_cells s 0) = StListening" "us_tokens s 77 = Some 0" by auto
  have v: "call_verb sample_uds_env [1] = Some CallConnect" "call_verb sample_uds_env [6] = Some CallUnbind"
    by (simp_all add: call_verb_def get_at_def sample_uds_env_def)
  have "fatal_call sample_uds_env 0 0 (to_le 8 77) [1] sample_ctx s" "\<not> fatal_call sample_uds_env 0 0 [] [6] sample_ctx s"
    using s v sample_token by (simp_all add: fatal_call_def)
  then have "snd (stream_call sample_uds_env 0 (to_le 8 77) [1] sample_ctx s) = Panic" "snd (stream_call sample_uds_env 0 [] [6] sample_ctx s) \<noteq> Panic"
    using stream_call_panics [OF sample_stream_run [OF s(1)] sample_uds_events sample_credentials s(2), of "to_le 8 77" "[1]" sample_ctx]
      stream_call_panics [OF sample_stream_run [OF s(1)] sample_uds_events sample_credentials s(2), of "[]" "[6]" sample_ctx] by simp_all
  with s sample_stream_run [OF s(1)] show "\<exists>s W R. stream_run sample_uds_env s W R \<and> us_sockets s 0 = Some 0 \<and>
     snd (stream_call sample_uds_env 0 (to_le 8 77) [1] sample_ctx s) = Panic \<and> snd (stream_call sample_uds_env 0 [] [6] sample_ctx s) \<noteq> Panic" by blast
next
  from sample_talking obtain s W R c where s: "sample_stream sample_talks = Some (s, W, R)" "us_sockets s 1 = Some 1"
    "sk_connection (us_cells s 1) = Some c" "sk_pending (us_cells s 1) = [3, 4]" by auto
  have v: "call_verb sample_uds_env [5] = Some CallRecvMsg" "\<not> ue_allocates sample_uds_env (2 ^ 41)"
    by (simp_all add: call_verb_def get_at_def sample_uds_env_def)
  have size: "recv_size (msghdr_bytes 0 (2 ^ 41) 0) = 2 ^ 41" "length (msghdr_bytes 0 (2 ^ 41) 0) = 24"
    using from_le_to_le [of "2 ^ 41" 8] by (simp_all add: recv_size_def msghdr_bytes_def)
  have "cn_packets c \<noteq> []" using s(3,4) by (auto simp: sk_pending_def)
  then have "fatal_call sample_uds_env 1 1 (msghdr_bytes 0 (2 ^ 41) 0) [5] sample_ctx s"
    unfolding fatal_call_def size using s(3) v by simp
  then have "snd (stream_call sample_uds_env 1 (msghdr_bytes 0 (2 ^ 41) 0) [5] sample_ctx s) = Panic"
    using stream_call_panics [OF sample_stream_run [OF s(1)] sample_uds_events sample_credentials s(2), of "msghdr_bytes 0 (2 ^ 41) 0" "[5]" sample_ctx] size(2)
    by simp
  with s(2) sample_stream_run [OF s(1)] show "\<exists>s W R. stream_run sample_uds_env s W R \<and> us_sockets s 1 = Some 1 \<and>
     snd (stream_call sample_uds_env 1 (msghdr_bytes 0 (2 ^ 41) 0) [5] sample_ctx s) = Panic" by blast
qed

end
