(* ===== verification/Spec2Isabelle.thy ===== *)
theory Spec2Isabelle
  imports Ramfs_Properties Chan_Properties Shm_Properties Zerod Logd Randd Ptyd_Properties Netstack Initfs_Service Uds_Dgram_Properties Uds_Stream_Properties
begin

text \<open>
  Verification of the Redox scheme daemons.

  \<^bold>\<open>The program.\<close> The repository holds the user space daemons of the Redox operating system. A daemon
  serves a \<^emph>\<open>scheme\<close>: the kernel sends it one request per system call made on its files, as an entry of
  a submission queue, and the daemon writes back an entry of a completion queue with the same tag.
  The library \<open>redox-scheme\<close> decodes the entries into operations, dispatches an operation to a method of
  the trait \<open>SchemeSync\<close> and encodes the result. A daemon implements the trait and runs one of two
  loops: a serial one, which answers each request before it takes the next, or the loop of
  \<open>ReadinessBased\<close>, which parks a request whose method answers \<open>EWOULDBLOCK\<close> and polls it again.

  \<^bold>\<open>Foundations.\<close>
  \<^item> \<open>Prelude\<close>: outcomes (a value, an error number, or a panic), the combinators for the operator \<open>?\<close>,
    checked 64-bit arithmetic, byte buffers; the conventions of the translation are stated there.
  \<^item> \<open>Abi\<close>: constants and functions of the crates outside the repository, as the record \<open>abi\<close> with the
    documented facts \<open>abi_ok\<close>; \<open>sample_abi\<close> is an instance.
  \<^item> \<open>Slice_Search\<close>: the binary search of \<open>rust/library/core/src/slice/mod.rs\<close>, with the theorem that its
    unchecked accesses stay inside the slice and that it finds the right place.

  \<^bold>\<open>The scheme library.\<close>
  \<^item> \<open>Scheme\<close> (\<open>redox-scheme/src/lib.rs\<close>, \<open>scheme.rs\<close>): request kinds, decoding of an entry, the type \<open>op\<close>, the
    trait as the record \<open>scheme_sync\<close> with its default methods, dispatch and responses.
  \<^item> \<open>Readiness\<close> (\<open>wrappers.rs\<close>): the state of \<open>ReadinessBased\<close> and its operations. Polling all parked
    requests never gives the error of a missing request.
  \<^item> \<open>Scheme_Contract\<close>: the interface as locales. \<open>scheme_contract\<close> is what a loop relies on,
    \<open>scheme_methods\<close> one law per method, which a daemon proves and which gives the first;
    \<open>scheme_total\<close> is the contract of a daemon that answers, with a budget of requests. Every daemon below
    is an interpretation.
  \<^item> \<open>Event_Loop\<close>: the readiness loop as a step relation. Every call is answered exactly once, whatever
    the daemon does, and the daemon's invariant holds in every state of the loop.
  \<^item> \<open>Serial_Loop\<close>: the serial loop; its responses carry the tags of the calls in order.

  \<^bold>\<open>The daemons.\<close> For each, the state is a record with the fields of the source, each trait method one
  definition with the prefix of the daemon, and the \<open>impl\<close> block an update of \<open>default_scheme\<close>.
  \<^item> \<open>Ramfs\<close>, \<open>Ramfs_Proofs\<close>, \<open>Ramfs_Properties\<close> (\<open>ramfs/src\<close>): the file system in memory. The inode table
    keeps its invariant in every run, a file with an open handle is never freed, path resolution is a
    walk of the directory tree and \<open>fpath\<close> inverts it, created files are found, reads give what was
    written, permissions are respected; removing a directory takes a link from its parent that making it
    did not add, and the parent can be lost by it.
  \<^item> \<open>Chan\<close>, \<open>Chan_Net\<close>, \<open>Chan_Proofs\<close>, \<open>Chan_Properties\<close> (\<open>ipcd/src/chan.rs\<close>): channels. \<open>Chan_Net\<close> is an
    abstract network of connections; the scheme refines it, so every connection is a pair of byte
    streams in order and without loss, clients are notified of what they wait for, and there is no
    panic unless the kernel refuses a notification.
  \<^item> \<open>Shm\<close>, \<open>Shm_Proofs\<close>, \<open>Shm_Properties\<close> (\<open>ipcd/src/shm.rs\<close>): shared memory objects over an explicit
    memory of mapped regions. Reference counts are the numbers of handles, objects do not overlap, a
    write changes one object only, a mapping of an existing buffer stays inside it or is refused, with a
    panic when its end overflows; the first mapping of an object does not check its range.
  \<^item> \<open>Uds\<close>, \<open>Uds_Message\<close> (\<open>ipcd/src/uds/mod.rs\<close>): what the two kinds of Unix domain sockets share. The
    messages of \<open>sendmsg\<close> and \<open>recvmsg\<close> are parsed and written byte for byte; the sockets, which the code
    shares between its tables by counted references with a borrow check, are cells of a store, and a
    second borrow of a cell is a panic. The random tokens, credentials of processes, descriptors of
    other processes and the sizes that the allocator provides are the record \<open>uds_env\<close>. The messages whose
    parsing panics are those with lengths or numbers of descriptors out of range (\<open>message_overflows\<close>).
  \<^item> \<open>Uds_Dgram\<close>, \<open>Uds_Dgram_Proofs\<close>, \<open>Uds_Dgram_Properties\<close> (\<open>dgram.rs\<close>): datagram sockets. A socket is a queue of
    whole datagrams, a message comes back from \<open>recvmsg\<close> as it was sent, and the calls that panic are
    listed.
  \<^item> \<open>Uds_Stream\<close>, \<open>Uds_Stream_Net\<close>, \<open>Uds_Stream_Proofs\<close>, \<open>Uds_Stream_Keeps\<close>, \<open>Uds_Stream_Recv\<close>, \<open>Uds_Stream_Properties\<close>
    (\<open>stream.rs\<close>): stream sockets. The invariant \<open>net_ok\<close> is on the map from socket numbers to sockets; every
    operation keeps it, so a connection is a pair of sockets and a pair of byte streams. What readers get back
    is what they take, except that a \<open>recvmsg\<close> with a buffer that is too small, or that fails, loses bytes. A
    client and a listener without other clients get connected in three phases; after the end of a peer all
    reads return what is left and then nothing; a path can become free while its listener lives, and the
    calls that panic are exactly those listed.
  \<^item> \<open>Zerod\<close>, \<open>Logd\<close>, \<open>Randd\<close> (\<open>zerod/src\<close>, \<open>logd/src\<close>, \<open>randd/src\<close>): every request is answered; lines of
    different processes are not mixed and each sink gets a suffix of the log; file numbers are fresh
    and the search for them ends, and access follows the permission bits.
  \<^item> \<open>Pty\<close>, \<open>Pty_Discipline\<close>, \<open>Ptyd\<close>, \<open>Ptyd_Proofs\<close>, \<open>Ptyd_Properties\<close> (\<open>ptyd/src\<close>): pseudo terminals. The
    line discipline is a line editor in canonical mode and transparent in raw mode, closing the
    control handle hangs up the other side; two defects are proved, a reader that never gets data and
    a clock tick whose responses stay unwritten.
  \<^item> \<open>Initfs\<close> (\<open>initfs/src\<close>), \<open>Initfs_Archive\<close> (\<open>initfs/archive-common\<close>), \<open>Initfs_Scheme\<close> (\<open>bootstrap/src/initfs.rs\<close>): the
    image of the initial file system as bytes, the program that writes it and the daemon that serves
    it. \<open>Initfs_Proofs\<close> shows what the program stores where, \<open>Initfs_Read\<close> that the reader finds it;
    \<open>Initfs_Properties\<close> joins them: archiving and reading back is the identity. \<open>Initfs_Service\<close> carries this
    to the daemon: opening, reading, \<open>fstat\<close> and listing follow the source tree, and no request panics except
    a listing from the last index. This is for trees whose root is not empty and whose files were read in
    full by the archiver, which ignores short reads; \<open>..\<close>, positions of a listing, the type of a link and
    empty images are handled wrongly.
  \<^item> \<open>Netstack\<close> (\<open>netstack/src/router\<close>, \<open>port_set.rs\<close>): the routing table refines longest prefix match; ports
    taken from the port set are not given back.

  \<^bold>\<open>Bounds and fuel.\<close> Loops whose end depends on the state are fuelled or partial functions without a
  default value. \<open>fpath_chain\<close> gets the last inode number plus one as fuel, which the acyclicity of the
  invariant makes sufficient. \<open>next_free\<close> and \<open>vacant_from\<close> are partial functions: the search of the first is
  shown to end while fewer than \<open>2 ^ 64 - 1\<close> files are open, and in the runs considered the second
  ends at once. \<open>build_tree\<close> gets the number of inodes as fuel, which suffices for every archived tree. The
  iteration over a directory of the initial file system stops at \<open>2 ^ 32\<close>, where its index overflows. All
  other recursions are over lists or have a termination proof; the loops of \<open>listen\<close> and of the reads
  of stream sockets end because the clients that wait, and the bytes that are asked for, become fewer.

  \<^bold>\<open>Not modelled.\<close> Sockets, event queues, clocks and memory mappings are system calls: their results are
  arguments or parameters. The asynchronous trait of \<open>redox-scheme\<close> is unused by these daemons. The
  process manager of \<open>bootstrap\<close>, \<open>audiod\<close> and the remaining network stack, a wrapper of the \<open>smoltcp\<close> crate,
  are left out, as are the hardware drivers, the start code, small command line tools and the
  vendored compiler.
\<close>

end
